(* ===== verification/Prelude.thy ===== *)
theory Prelude
  imports Main "HOL-Library.Word" "HOL-Library.Sublist" "HOL-Library.Code_Target_Numeral"
begin

section \<open>Prelude: results, buffers, machine words\<close>

text \<open>
  Shared vocabulary of the development. The source is TypeScript; its fallible functions throw,
  so they become functions into \<open>'e + 'a\<close> (\<open>Inl\<close> the thrown error, \<open>Inr\<close> the value) that are
  composed with \<open>res_bind\<close>. Its byte buffers (\<open>Uint8Array\<close>) are lists of 8-bit words. Its numbers
  are IEEE doubles that hold only integers below \<open>2 ^ 53\<close> in the code modelled here, so they are
  \<open>nat\<close> or \<open>int\<close>, and a 32-bit operator (\<open>|\<close>, \<open>&\<close>, \<open>>>>\<close>) is applied on \<open>32 word\<close>.
\<close>

unbundle bit_operations_syntax

type_synonym byte = "8 word"

named_theorems res_defs "definitions of the result combinators"
named_theorems wf_intros "well-formedness facts the component proofs share"

subsection \<open>Results\<close>

definition res_bind :: "'e + 'a \<Rightarrow> ('a \<Rightarrow> 'e + 'b) \<Rightarrow> 'e + 'b" where
  [res_defs]: "res_bind m k = (case m of Inl e \<Rightarrow> Inl e | Inr x \<Rightarrow> k x)"

definition res_guard :: "bool \<Rightarrow> 'e \<Rightarrow> 'e + unit" where
  [res_defs]: "res_guard ok e = (if ok then Inr () else Inl e)"

fun res_fold :: "('a \<Rightarrow> 's \<Rightarrow> 'e + 's) \<Rightarrow> 'a list \<Rightarrow> 's \<Rightarrow> 'e + 's" where
  "res_fold f [] s = Inr s"
| "res_fold f (x # xs) s = res_bind (f x s) (res_fold f xs)"

fun res_map :: "('a \<Rightarrow> 'e + 'b) \<Rightarrow> 'a list \<Rightarrow> 'e + 'b list" where
  "res_map f [] = Inr []"
| "res_map f (x # xs) = res_bind (f x) (\<lambda>y. res_bind (res_map f xs) (\<lambda>ys. Inr (y # ys)))"

lemma res_bind_simps [simp]: "res_bind (Inl e) k = Inl e" "res_bind (Inr x) k = k x"
  by (simp_all add: res_bind_def)

lemma res_bind_Inr_iff: "res_bind m k = Inr y \<longleftrightarrow> (\<exists>x. m = Inr x \<and> k x = Inr y)"
  by (cases m) auto

lemma res_bind_InrE: "res_bind m k = Inr y \<Longrightarrow> (\<And>x. m = Inr x \<Longrightarrow> k x = Inr y \<Longrightarrow> P) \<Longrightarrow> P"
  by (cases m) auto

lemma res_bind_Inl_iff:
  "res_bind m k = Inl e \<longleftrightarrow> m = Inl e \<or> (\<exists>x. m = Inr x \<and> k x = Inl e)"
  by (cases m) auto

lemma res_bind_cong [fundef_cong]:
  "m = m' \<Longrightarrow> (\<And>x. m' = Inr x \<Longrightarrow> k x = k' x) \<Longrightarrow> res_bind m k = res_bind m' k'"
  by (cases m') auto

lemma res_guard_simps [simp]: "res_guard True e = Inr ()" "res_guard False e = Inl e"
  by (simp_all add: res_guard_def)

lemma res_guard_Inr_iff [simp]: "res_guard ok e = Inr u \<longleftrightarrow> ok"
  by (simp add: res_guard_def)

lemma res_fold_append:
  "res_fold f (xs @ ys) s = res_bind (res_fold f xs s) (res_fold f ys)"
  by (induction xs arbitrary: s) (auto simp: res_bind_def split: sum.splits)

lemma res_fold_inv:
  assumes "res_fold f xs s = Inr s'" and "P s"
    and "\<And>x s s'. x \<in> set xs \<Longrightarrow> f x s = Inr s' \<Longrightarrow> P s \<Longrightarrow> P s'"
  shows "P s'"
  using assms by (induction xs arbitrary: s) (auto simp: res_bind_Inr_iff)

lemma res_map_Inr_length: "res_map f xs = Inr ys \<Longrightarrow> length ys = length xs"
  by (induction xs arbitrary: ys) (auto simp: res_bind_Inr_iff)

lemma res_map_Inr_nth: "res_map f xs = Inr ys \<Longrightarrow> i < length xs \<Longrightarrow> f (xs ! i) = Inr (ys ! i)"
  by (induction xs arbitrary: ys i) (auto simp: res_bind_Inr_iff nth_Cons split: nat.splits)

lemma res_map_Inr_set: "res_map f xs = Inr ys \<Longrightarrow> y \<in> set ys \<Longrightarrow> \<exists>x \<in> set xs. f x = Inr y"
  by (induction xs arbitrary: ys) (auto simp: res_bind_Inr_iff)

subsection \<open>Buffers\<close>

text \<open>\<open>buf.set(part, off)\<close> for a part that fits (every caller below proves that it does).\<close>

definition array_set :: "'a list \<Rightarrow> nat \<Rightarrow> 'a list \<Rightarrow> 'a list" where
  "array_set buf off part = take off buf @ part @ drop (off + length part) buf"

lemma length_array_set [simp]:
  "off + length part \<le> length buf \<Longrightarrow> length (array_set buf off part) = length buf"
  by (simp add: array_set_def)

lemma nth_array_set:
  "off + length part \<le> length buf \<Longrightarrow> i < length buf \<Longrightarrow>
   array_set buf off part ! i =
     (if off \<le> i \<and> i < off + length part then part ! (i - off) else buf ! i)"
  by (auto simp: array_set_def nth_append)

text \<open>A read past the end of a \<open>Uint8Array\<close> is \<open>undefined\<close>, which a bit operator reads as 0.\<close>

definition u8_at :: "byte list \<Rightarrow> nat \<Rightarrow> byte" where
  "u8_at b i = (if i < length b then b ! i else 0)"

definition u16le :: "byte list \<Rightarrow> nat \<Rightarrow> nat" where
  "u16le b i = unat ((ucast (u8_at b i) :: 32 word) OR push_bit 8 (ucast (u8_at b (i + 1))))"

definition u32le :: "byte list \<Rightarrow> nat \<Rightarrow> nat" where
  "u32le b i = unat ((ucast (u8_at b i) :: 32 word) OR push_bit 8 (ucast (u8_at b (i + 1)))
     OR push_bit 16 (ucast (u8_at b (i + 2))) OR push_bit 24 (ucast (u8_at b (i + 3))))"

lemma byte_less: "unat (w :: byte) < 256"
  using unsigned_less [of w, where ?'a = nat] by simp

lemma or_push_bit_nat: "n < 2 ^ k \<Longrightarrow> (n OR push_bit k m) = n + m * 2 ^ k" for n m :: nat
proof -
  assume "n < 2 ^ k"
  then have n: "n = take_bit k n" by (simp add: take_bit_nat_eq_self)
  have "n AND push_bit k m = 0"
    by (subst n, rule bit_eqI) (simp add: bit_simps)
  then show ?thesis
    by (simp add: disjunctive_add_eq_or [symmetric] push_bit_eq_mult)
qed

lemma unat_push_byte: "unat (push_bit k (ucast (w::8 word)) :: 32 word) = push_bit k (unat w)" if "k \<le> 24"
proof -
  have "unat w < 2 ^ 8" using unsigned_less[of w, where ?'a=nat] by simp
  then have "unat w * 2 ^ k < 2 ^ (8 + k)" by (simp add: power_add)
  also have "\<dots> \<le> (2::nat) ^ 32" using that by (intro power_increasing) auto
  finally have *: "unat w * 2 ^ k < 2 ^ 32" .
  have "unat (ucast w :: 32 word) = unat w" by (simp add: unsigned_ucast_eq take_bit_nat_eq_self_iff less_le_trans[OF unsigned_less])
  with * show ?thesis
    by (simp only: unsigned_push_bit_eq) (simp add: take_bit_nat_eq_self push_bit_eq_mult)
qed

lemma u16le_value [code]: "u16le b i = unat (u8_at b i) + unat (u8_at b (i + 1)) * 256"
  using unat_push_byte[of 0] byte_less[of "u8_at b i"]
  by (simp add: u16le_def unsigned_or_eq unat_push_byte or_push_bit_nat)

lemma u32le_value [code]: "u32le b i = unat (u8_at b i) + unat (u8_at b (i + 1)) * 256
   + unat (u8_at b (i + 2)) * 65536 + unat (u8_at b (i + 3)) * 16777216"
proof -
  note B = byte_less[of "u8_at b i"] byte_less[of "u8_at b (i+1)"] byte_less[of "u8_at b (i+2)"]
  have 1: "unat (u8_at b i) + unat (u8_at b (i + 1)) * 256 < 2 ^ 16" using B by simp
  have 2: "unat (u8_at b i) + unat (u8_at b (i + 1)) * 256 + unat (u8_at b (i + 2)) * 65536 < 2 ^ 24" using B by simp
  show ?thesis
    using unat_push_byte[of 0 "u8_at b i"] B(1) or_push_bit_nat[OF 1] or_push_bit_nat[OF 2] or_push_bit_nat[of "unat (u8_at b i)" 8]
    by (simp add: u32le_def unsigned_or_eq unat_push_byte or.assoc [symmetric])
qed

lemma u32le_bound: "u32le b i < 2 ^ 32"
  unfolding u32le_def using unsigned_less[where 'b=32 and ?'a=nat] by simp

lemma u16le_bound: "u16le b i < 65536"
  using byte_less [of "u8_at b i"] byte_less [of "u8_at b (i + 1)"] by (simp add: u16le_value)

subsection \<open>Lists\<close>

lemma sorted_wrt_hd:
  "sorted_wrt R (x # xs) \<Longrightarrow> y \<in> set xs \<Longrightarrow> R x y"
  by simp

lemma find_None_set: "find P xs = None \<longleftrightarrow> (\<forall>x \<in> set xs. \<not> P x)"
  by (induction xs) auto

lemma find_Some_set: "find P xs = Some x \<Longrightarrow> x \<in> set xs \<and> P x"
  by (induction xs) (auto split: if_splits)

lemma find_unique:
  assumes "x \<in> set xs" and "P x" and "\<And>y. y \<in> set xs \<Longrightarrow> P y \<Longrightarrow> y = x"
  shows "find P xs = Some x"
proof (cases "find P xs")
  case None
  with assms(1,2) show ?thesis by (simp add: find_None_set)
next
  case (Some y)
  with assms(3) [of y] find_Some_set [OF Some] show ?thesis by simp
qed

end
