(* ===== verification/Js_Text.thy ===== *)
theory Js_Text
  imports Prelude
begin

section \<open>Text: the JavaScript string operations the code uses\<close>

text \<open>
  Text is a \<open>string\<close>: a list of code units below 256. The CLI protocol and the firmware files are
  ASCII, so every text the code is meant to accept is one. White space is the part of the
  ECMAScript classes \<open>WhiteSpace\<close> and \<open>LineTerminator\<close> below 256, which is also the regular
  expression class \<open>\s\<close> and what \<open>trim\<close> and \<open>parseInt\<close> skip. A regular expression of the source
  is written out as a recogniser over the list; \<open>$\<close> without the flag \<open>m\<close> is the end of the text.
\<close>

definition LF :: char where "LF = CHR 0x0A"
definition CR :: char where "CR = CHR 0x0D"

definition js_space :: "char \<Rightarrow> bool" where
  "js_space c \<longleftrightarrow> c \<in> set [CHR 0x09, CHR 0x0A, CHR 0x0B, CHR 0x0C, CHR 0x0D, CHR 0x20, CHR 0xA0]"

definition js_trim_start :: "string \<Rightarrow> string" where
  "js_trim_start s = dropWhile js_space s"

definition js_trim_end :: "string \<Rightarrow> string" where
  "js_trim_end s = rev (dropWhile js_space (rev s))"

definition js_trim :: "string \<Rightarrow> string" where
  "js_trim s = js_trim_end (js_trim_start s)"

definition is_digit :: "char \<Rightarrow> bool" where
  "is_digit c \<longleftrightarrow> (48::nat) \<le> of_char c \<and> (of_char c :: nat) \<le> 57"

definition is_lower :: "char \<Rightarrow> bool" where
  "is_lower c \<longleftrightarrow> (97::nat) \<le> of_char c \<and> (of_char c :: nat) \<le> 122"

definition is_upper :: "char \<Rightarrow> bool" where
  "is_upper c \<longleftrightarrow> (65::nat) \<le> of_char c \<and> (of_char c :: nat) \<le> 90"

definition to_lower :: "char \<Rightarrow> char" where
  "to_lower c = (if is_upper c then char_of ((of_char c :: nat) + 32) else c)"

definition js_lower_ascii :: "string \<Rightarrow> string" where
  "js_lower_ascii = List.map to_lower"

definition hex_val :: "char \<Rightarrow> nat option" where
  "hex_val c = (let n = (of_char c :: nat) in
     if 48 \<le> n \<and> n \<le> 57 then Some (n - 48)
     else if 65 \<le> n \<and> n \<le> 70 then Some (n - 55)
     else if 97 \<le> n \<and> n \<le> 102 then Some (n - 87)
     else None)"

definition is_hex :: "char \<Rightarrow> bool" where
  "is_hex c \<longleftrightarrow> hex_val c \<noteq> None"

text \<open>The value of a text of hexadecimal (decimal) digits, as \<open>parseInt(s, 16)\<close> (\<open>Number(s)\<close>) reads it.\<close>

definition hex_num :: "string \<Rightarrow> nat" where
  "hex_num s = foldl (\<lambda>a c. a * 16 + (case hex_val c of Some v \<Rightarrow> v | None \<Rightarrow> 0)) 0 s"

definition dec_num :: "string \<Rightarrow> nat" where
  "dec_num s = foldl (\<lambda>a c. a * 10 + ((of_char c :: nat) - 48)) 0 s"

text \<open>
  \<open>parseInt(s, 16)\<close> on any text: leading white space, a sign and a \<open>0x\<close> prefix are skipped, the
  longest run of hexadecimal digits counts, no digit is \<open>NaN\<close> (\<open>None\<close>).
\<close>

definition parse_int16 :: "string \<Rightarrow> int option" where
  "parse_int16 s =
     (let t = js_trim_start s;
          neg = (t \<noteq> [] \<and> hd t = CHR ''-'');
          u = (if t \<noteq> [] \<and> hd t \<in> set ''+-'' then tl t else t);
          v = (if prefix ''0x'' u \<or> prefix ''0X'' u then drop 2 u else u);
          d = takeWhile is_hex v
      in if d = [] then None else Some (if neg then - int (hex_num d) else int (hex_num d)))"

subsection \<open>Splitting\<close>

fun add_head :: "char \<Rightarrow> string list \<Rightarrow> string list" where
  "add_head c [] = [[c]]"
| "add_head c (l # ls) = (c # l) # ls"

text \<open>\<open>split(/\r?\n/)\<close>.\<close>

fun split_nl :: "string \<Rightarrow> string list" where
  "split_nl [] = [[]]"
| "split_nl (c # cs) =
     (if c = LF then [] # split_nl cs
      else if c = CR \<and> cs \<noteq> [] \<and> hd cs = LF then split_nl cs
      else add_head c (split_nl cs))"

text \<open>\<open>split(/\r\n|\n|\r/)\<close>.\<close>

fun split_any_nl :: "string \<Rightarrow> string list" where
  "split_any_nl [] = [[]]"
| "split_any_nl (c # cs) =
     (if c = LF then [] # split_any_nl cs
      else if c = CR then (if cs \<noteq> [] \<and> hd cs = LF then split_any_nl cs else [] # split_any_nl cs)
      else add_head c (split_any_nl cs))"

text \<open>\<open>split("\r\n")\<close>.\<close>

fun split_crlf :: "string \<Rightarrow> string list" where
  "split_crlf [] = [[]]"
| "split_crlf [c] = [[c]]"
| "split_crlf (c # d # cs) =
     (if c = CR \<and> d = LF then [] # split_crlf cs else add_head c (split_crlf (d # cs)))"

text \<open>\<open>split(sep)\<close> for a one-character separator, and \<open>join\<close>.\<close>

fun split_char :: "char \<Rightarrow> string \<Rightarrow> string list" where
  "split_char sep [] = [[]]"
| "split_char sep (c # cs) =
     (if c = sep then [] # split_char sep cs else add_head c (split_char sep cs))"

fun js_join :: "string \<Rightarrow> string list \<Rightarrow> string" where
  "js_join sep [] = []"
| "js_join sep [x] = x"
| "js_join sep (x # y # ys) = x @ sep @ js_join sep (y # ys)"

text \<open>\<open>split(/\r?\n/).map(trim).filter(Boolean)\<close>, the reply splitter of most parsers.\<close>

definition reply_lines :: "string \<Rightarrow> string list" where
  "reply_lines raw = filter (\<lambda>l. l \<noteq> []) (List.map js_trim (split_nl raw))"

fun js_includes :: "string \<Rightarrow> string \<Rightarrow> bool" where
  "js_includes pat [] \<longleftrightarrow> pat = []"
| "js_includes pat (c # cs) \<longleftrightarrow> prefix pat (c # cs) \<or> js_includes pat cs"

text \<open>
  \<open>/^(k+)SEP(.*)$/\<close> for a key class that does not hold the first character of the separator:
  the key and the value. The dot does not match a line terminator.
\<close>

definition field_line :: "(char \<Rightarrow> bool) \<Rightarrow> string \<Rightarrow> string \<Rightarrow> (string \<times> string) option" where
  "field_line key sep l =
     (let k = takeWhile key l; r = dropWhile key l; v = drop (length sep) r
      in if k \<noteq> [] \<and> prefix sep r \<and> LF \<notin> set v \<and> CR \<notin> set v then Some (k, v) else None)"

text \<open>The class \<open>[a-z0-9_]\<close> of setting and report keys.\<close>

definition setting_char :: "char \<Rightarrow> bool" where
  "setting_char c \<longleftrightarrow> is_lower c \<or> is_digit c \<or> c = CHR ''_''"

definition no_space :: "string \<Rightarrow> bool" where
  "no_space s \<longleftrightarrow> s \<noteq> [] \<and> list_all (\<lambda>c. \<not> js_space c) s"

definition all_digits :: "string \<Rightarrow> bool" where
  "all_digits s \<longleftrightarrow> s \<noteq> [] \<and> list_all is_digit s"

text \<open>\<open>/^(0|[1-9]\d*)$/\<close>: a canonical unsigned decimal.\<close>

definition canonical_uint :: "string \<Rightarrow> bool" where
  "canonical_uint s \<longleftrightarrow> s = ''0'' \<or> (all_digits s \<and> hd s \<noteq> CHR ''0'')"

text \<open>\<open>String(n)\<close> for an unsigned integer.\<close>

definition digit_char :: "nat \<Rightarrow> char" where
  "digit_char d = char_of (48 + d)"

fun show_nat :: "nat \<Rightarrow> string" where
  "show_nat n = (if n < 10 then [digit_char n] else show_nat (n div 10) @ [digit_char (n mod 10)])"

declare show_nat.simps [simp del]

text \<open>\<open>n.toString(16)\<close>, \<open>toUpperCase()\<close> and \<open>padStart(w, c)\<close>.\<close>

definition hex_digit :: "nat \<Rightarrow> char" where
  "hex_digit d = (if d < 10 then char_of (48 + d) else char_of (87 + d))"

fun hex_str :: "nat \<Rightarrow> string" where
  "hex_str n = (if n < 16 then [hex_digit n] else hex_str (n div 16) @ [hex_digit (n mod 16)])"

declare hex_str.simps [simp del]

definition to_upper :: "char \<Rightarrow> char" where
  "to_upper c = (if is_lower c then char_of ((of_char c :: nat) - 32) else c)"

definition js_upper_ascii :: "string \<Rightarrow> string" where
  "js_upper_ascii = List.map to_upper"

definition pad_start :: "nat \<Rightarrow> char \<Rightarrow> string \<Rightarrow> string" where
  "pad_start w c s = replicate (w - length s) c @ s"

definition hex_upper_pad :: "nat \<Rightarrow> nat \<Rightarrow> string" where
  "hex_upper_pad w n = js_upper_ascii (pad_start w (CHR ''0'') (hex_str n))"

definition MAX_SAFE_INTEGER :: nat where "MAX_SAFE_INTEGER = 9007199254740991"

subsection \<open>Facts\<close>

lemma js_trim_no_space_hd: "js_trim s = c # cs \<Longrightarrow> \<not> js_space (last (c # cs))"
  unfolding js_trim_def js_trim_end_def
  by (metis hd_dropWhile hd_rev list.distinct(1) rev_is_Nil_conv rev_rev_ident)

lemma js_trim_id:
  assumes "s = [] \<or> \<not> js_space (hd s) \<and> \<not> js_space (last s)"
  shows "js_trim s = s"
proof (cases s)
  case Nil
  then show ?thesis by (simp add: js_trim_def js_trim_start_def js_trim_end_def)
next
  case (Cons a l)
  with assms have "js_trim_start s = s" by (simp add: js_trim_start_def)
  moreover have "dropWhile js_space (rev s) = rev s"
    using assms Cons by (metis dropWhile_eq_self_iff hd_rev list.distinct(1))
  ultimately show ?thesis by (simp add: js_trim_def js_trim_end_def)
qed

lemma hex_val_less: "hex_val c = Some v \<Longrightarrow> v < 16"
  by (auto simp: hex_val_def Let_def split: if_splits)

lemma hex_num_append: "hex_num (s @ t) = hex_num s * 16 ^ length t + hex_num t"
proof (induction t rule: rev_induct)
  case Nil
  then show ?case by (simp add: hex_num_def)
next
  case (snoc c t)
  have "hex_num (s @ t @ [c]) = hex_num (s @ t) * 16 + hex_num [c]"
    by (simp add: hex_num_def)
  moreover have "hex_num (t @ [c]) = hex_num t * 16 + hex_num [c]"
    by (simp add: hex_num_def)
  ultimately show ?case using snoc by (simp add: algebra_simps)
qed

lemma hex_num_less: "hex_num s < 16 ^ length s"
proof (induction s rule: rev_induct)
  case Nil
  then show ?case by (simp add: hex_num_def)
next
  case (snoc c s)
  have "hex_num [c] < 16"
    by (auto simp: hex_num_def dest: hex_val_less split: option.splits)
  with snoc have "hex_num s * 16 + hex_num [c] < 16 ^ Suc (length s)" by simp
  then show ?case by (simp add: hex_num_append)
qed

lemma add_head_nonempty [simp]: "add_head c ls \<noteq> []"
  by (cases ls) auto

lemma split_nl_nonempty [simp]: "split_nl s \<noteq> []"
  by (induction s) auto

lemma split_nl_line: "LF \<notin> set l \<Longrightarrow> CR \<notin> set l \<Longrightarrow> split_nl (l @ LF # s) = l # split_nl s"
  by (induction l) auto

lemma split_nl_single: "LF \<notin> set l \<Longrightarrow> CR \<notin> set l \<Longrightarrow> split_nl l = [l]"
  by (induction l) auto

lemma split_nl_no_LF: "l \<in> set (split_nl s) \<Longrightarrow> LF \<notin> set l"
proof (induction s arbitrary: l)
  case (Cons c cs)
  then show ?case by (cases "split_nl cs") (auto split: if_splits)
qed simp

lemma show_nat_digits: "list_all is_digit (show_nat n)"
proof (induction n rule: show_nat.induct)
  case (1 n)
  have d: "is_digit (digit_char k)" if "k < 10" for k
    using that by (simp add: is_digit_def digit_char_def)
  show ?case
    by (subst show_nat.simps) (use 1 d in auto)
qed

lemma show_nat_nonempty [simp]: "show_nat n \<noteq> []"
  by (subst show_nat.simps) simp

lemma dec_num_show_nat [simp]: "dec_num (show_nat n) = n"
proof (induction n rule: show_nat.induct)
  case (1 n)
  have d: "(of_char (digit_char k) :: nat) = 48 + k" if "k < 10" for k
    using that by (simp add: digit_char_def)
  show ?case
    by (subst show_nat.simps) (use 1 d in \<open>auto simp: dec_num_def\<close>)
qed

lemma hex_digit_upper:
  assumes "d < 16"
  shows "hex_val (hex_digit d) = Some d" "hex_val (to_upper (hex_digit d)) = Some d"
    "to_upper (to_upper (hex_digit d)) = to_upper (hex_digit d)"
  using assms
  by (auto simp: hex_val_def hex_digit_def to_upper_def is_lower_def Let_def)

lemma to_upper_0: "to_upper (CHR ''0'') = CHR ''0''" and hex_val_0: "hex_val (CHR ''0'') = Some 0"
  by (simp_all add: to_upper_def is_lower_def hex_val_def)

lemma hex_num_Cons: "hex_num (c # s) = (case hex_val c of Some v \<Rightarrow> v | None \<Rightarrow> 0) * 16 ^ length s + hex_num s"
  using hex_num_append [of "[c]" s] by (simp add: hex_num_def)

lemma hex_num_zeros [simp]: "hex_num (replicate k (CHR ''0'') @ s) = hex_num s"
  by (induction k) (simp_all add: hex_num_Cons hex_val_0)

lemma hex_str_upper:
  "hex_num (js_upper_ascii (hex_str n)) = n \<and> list_all is_hex (js_upper_ascii (hex_str n))
   \<and> js_upper_ascii (js_upper_ascii (hex_str n)) = js_upper_ascii (hex_str n)"
proof (induction n rule: hex_str.induct)
  case (1 n)
  show ?case
  proof (cases "n < 16")
    case True
    then show ?thesis
      by (subst (1 2 3 4) hex_str.simps) (simp add: js_upper_ascii_def hex_num_def is_hex_def hex_digit_upper)
  next
    case False
    have "n mod 16 < 16" by simp
    note d = hex_digit_upper [OF this]
    have h: "hex_str n = hex_str (n div 16) @ [hex_digit (n mod 16)]"
      using False by (subst hex_str.simps) simp
    show ?thesis
      using 1 [OF False] d unfolding h
      by (simp add: js_upper_ascii_def hex_num_append is_hex_def) (simp add: hex_num_def)
  qed
qed

lemma length_hex_str: "n < 16 ^ w \<Longrightarrow> 0 < w \<Longrightarrow> length (hex_str n) \<le> w"
proof (induction n arbitrary: w rule: hex_str.induct)
  case (1 n)
  show ?case
  proof (cases "n < 16")
    case True
    then show ?thesis using "1.prems" by (subst hex_str.simps) simp
  next
    case False
    obtain v where w: "w = Suc v" using "1.prems" by (cases w) auto
    have "n div 16 < 16 ^ v" using "1.prems" w by (simp add: less_mult_imp_div_less)
    moreover have "0 < v" using "1.prems" w False by (cases v) auto
    ultimately have "length (hex_str (n div 16)) \<le> v" by (intro "1.IH" False)
    then show ?thesis using False w by (subst hex_str.simps) simp
  qed
qed

lemma hex_upper_pad_facts:
  assumes "n < 16 ^ w" and "0 < w"
  shows "length (hex_upper_pad w n) = w" and "hex_num (hex_upper_pad w n) = n"
    and "list_all is_hex (hex_upper_pad w n)"
    and "js_upper_ascii (hex_upper_pad w n) = hex_upper_pad w n"
proof -
  have e: "hex_upper_pad w n = replicate (w - length (hex_str n)) (CHR ''0'') @ js_upper_ascii (hex_str n)"
    by (simp add: hex_upper_pad_def pad_start_def js_upper_ascii_def to_upper_0)
  have l: "length (js_upper_ascii (hex_str n)) = length (hex_str n)"
    by (simp add: js_upper_ascii_def)
  show "length (hex_upper_pad w n) = w"
    using length_hex_str [OF assms] by (simp add: e l)
  show "hex_num (hex_upper_pad w n) = n" by (simp add: e hex_str_upper)
  show "list_all is_hex (hex_upper_pad w n)"
    using hex_str_upper [of n] by (auto simp: e is_hex_def hex_val_0 list_all_iff)
  show "js_upper_ascii (hex_upper_pad w n) = hex_upper_pad w n"
    using hex_str_upper [of n] by (simp add: e js_upper_ascii_def to_upper_0)
qed

lemma is_hex_plain:
  assumes "is_hex c"
  shows "\<not> js_space c" "c \<notin> set ''+-xX:''" "c \<noteq> LF" "c \<noteq> CR"
  using assms by (auto simp: is_hex_def hex_val_def js_space_def LF_def CR_def)

lemma parse_int16_pair:
  assumes "is_hex a" and "is_hex b"
  shows "parse_int16 [a, b] = Some (int (hex_num [a, b]))"
  using is_hex_plain [OF assms(1)] is_hex_plain [OF assms(2)] assms
  by (auto simp: parse_int16_def js_trim_start_def Let_def)

lemma byte_pad:
  "length (hex_upper_pad 2 (unat (b::byte))) = 2" "hex_num (hex_upper_pad 2 (unat b)) = unat b"
  "list_all is_hex (hex_upper_pad 2 (unat b))"
  "js_upper_ascii (hex_upper_pad 2 (unat b)) = hex_upper_pad 2 (unat b)"
  using hex_upper_pad_facts [of "unat b" 2] byte_less [of b] by auto

lemma length_show_nat: "n < 10 ^ k \<Longrightarrow> 0 < k \<Longrightarrow> length (show_nat n) \<le> k"
proof (induction k arbitrary: n)
  case (Suc k)
  show ?case
  proof (cases "n < 10")
    case False
    then have "0 < k" using Suc.prems by (cases k) auto
    then have "length (show_nat (n div 10)) \<le> k" using Suc by auto
    then show ?thesis using False by (simp add: show_nat.simps [of n])
  qed (simp add: show_nat.simps [of n])
qed simp

end
