(* ===== verification/Intel_Hex.thy ===== *)
theory Intel_Hex
  imports Js_Text
begin

section \<open>Intel HEX: protocol/src/flasher/intel-hex.ts\<close>

text \<open>
  The strict Intel HEX reader: record syntax, checksum, record shapes, address arithmetic, overlap
  and span checks, the gap-filled image and the merged regions. Every \<open>throw\<close> is a constructor of
  \<open>hex_error\<close> with the numbers its message prints (the line is 1-based as in the message). The
  input is the text branch of \<open>parseIntelHex\<close>; decoding a \<open>Uint8Array\<close> to text is not modelled.
\<close>

record hex_region =
  address :: nat
  data :: "byte list"

record parsed_hex =
  base_address :: nat
  image_bytes :: "byte list"
  regions :: "hex_region list"
  entry_address :: "nat option"
  mcu_tag :: "string option"

datatype hex_error =
    TextTooLong nat
  | AfterEof nat
  | NoRecordStart nat
  | BadChecksum nat
  | MalformedRecord nat
  | LengthMismatch nat nat
  | OutOf32Bit nat nat
  | MalformedEof nat
  | MalformedEsa nat
  | MalformedEla nat
  | MalformedSla nat
  | UnsupportedType nat nat
  | MissingEof
  | EmptyImage
  | Overlapping nat
  | SpanTooLarge nat nat nat

definition MAX_TEXT_SIZE :: nat where "MAX_TEXT_SIZE = 8 * 1024 * 1024"
definition MAX_IMAGE_SPAN :: nat where "MAX_IMAGE_SPAN = 2 * 1024 * 1024"
definition MAX_ADDRESS :: nat where "MAX_ADDRESS = 4294967296"

definition region_end :: "hex_region \<Rightarrow> nat" where
  "region_end r = address r + length (data r)"

subsection \<open>One record\<close>

text \<open>\<open>parseByte(hex, offset)\<close> on a text of hexadecimal digits.\<close>

definition parse_byte :: "string \<Rightarrow> nat \<Rightarrow> nat" where
  "parse_byte h off = hex_num (take 2 (drop off h))"

text \<open>
  \<open>verifyChecksum\<close> runs before the syntax check, so its two-character slices may hold anything:
  \<open>(sum + NaN) & 0xff\<close> is 0.
\<close>

fun checksum_loop :: "int \<Rightarrow> string \<Rightarrow> int" where
  "checksum_loop acc [] = acc"
| "checksum_loop acc [a] =
     (case parse_int16 [a] of None \<Rightarrow> 0 | Some v \<Rightarrow> (acc + v) mod 256)"
| "checksum_loop acc (a # b # rest) =
     checksum_loop (case parse_int16 [a, b] of None \<Rightarrow> 0 | Some v \<Rightarrow> (acc + v) mod 256) rest"

definition verify_checksum :: "string \<Rightarrow> bool" where
  "verify_checksum rec =
     (if length rec < 10 \<or> length rec mod 2 \<noteq> 0 then False else checksum_loop 0 rec = 0)"

text \<open>
  \<open>HEX_LINE.exec\<close> on a line that starts with a colon: the body is hexadecimal digits only, at
  least ten of them; the groups are the count, the offset, the type and the data (the last two
  digits are the checksum).
\<close>

definition hex_line :: "string \<Rightarrow> (nat \<times> nat \<times> nat \<times> string) option" where
  "hex_line raw =
     (let body = tl raw in
      if raw \<noteq> [] \<and> hd raw = CHR '':'' \<and> 10 \<le> length body \<and> list_all is_hex body
      then Some (hex_num (take 2 body), hex_num (take 4 (drop 2 body)),
                 hex_num (take 2 (drop 6 body)), take (length body - 10) (drop 8 body))
      else None)"

text \<open>The scanner's local variables.\<close>

record hex_scan =
  raw_regions :: "hex_region list"
  upper_linear :: nat
  segment_base :: nat
  scan_entry :: "nat option"
  saw_eof :: bool

definition init_scan :: hex_scan where
  "init_scan = \<lparr>raw_regions = [], upper_linear = 0, segment_base = 0, scan_entry = None,
     saw_eof = False\<rparr>"

definition data_bytes :: "nat \<Rightarrow> string \<Rightarrow> byte list" where
  "data_bytes count h = List.map (\<lambda>i. of_nat (parse_byte h (i * 2))) [0..<count]"

text \<open>The \<open>switch (type)\<close>: one branch per record type.\<close>

definition scan_record ::
  "nat \<Rightarrow> nat \<Rightarrow> nat \<Rightarrow> nat \<Rightarrow> string \<Rightarrow> hex_scan \<Rightarrow> hex_error + hex_scan" where
  "scan_record ln count offset type h s =
     (if type = 0 then
        (if count = 0 then Inr s
         else let base = upper_linear s * 65536 + segment_base s;
                  addr = base + offset
              in if addr + count > MAX_ADDRESS then Inl (OutOf32Bit ln addr)
                 else Inr (s\<lparr>raw_regions := raw_regions s @
                             [\<lparr>address = addr, data = data_bytes count h\<rparr>]\<rparr>))
      else if type = 1 then
        (if count \<noteq> 0 \<or> offset \<noteq> 0 then Inl (MalformedEof ln) else Inr (s\<lparr>saw_eof := True\<rparr>))
      else if type = 2 then
        (if count \<noteq> 2 \<or> offset \<noteq> 0 then Inl (MalformedEsa ln)
         else Inr (s\<lparr>segment_base := hex_num (take 4 h) * 16, upper_linear := 0\<rparr>))
      else if type = 4 then
        (if count \<noteq> 2 \<or> offset \<noteq> 0 then Inl (MalformedEla ln)
         else Inr (s\<lparr>upper_linear := hex_num (take 4 h), segment_base := 0\<rparr>))
      else if type = 5 then
        (if count \<noteq> 4 \<or> offset \<noteq> 0 then Inl (MalformedSla ln)
         else Inr (s\<lparr>scan_entry := Some ((parse_byte h 0 * 16777216 + parse_byte h 2 * 65536
                + parse_byte h 4 * 256 + parse_byte h 6) mod 4294967296)\<rparr>))
      else Inl (UnsupportedType ln type))"

text \<open>The body of the line loop; \<open>ln\<close> is \<open>lineNo + 1\<close>.\<close>

definition scan_line :: "nat \<Rightarrow> string \<Rightarrow> hex_scan \<Rightarrow> hex_error + hex_scan" where
  "scan_line ln line s =
     (let raw = js_trim line in
      if raw = [] then Inr s
      else if saw_eof s then Inl (AfterEof ln)
      else if hd raw \<noteq> CHR '':'' then Inl (NoRecordStart ln)
      else if \<not> verify_checksum (tl raw) then Inl (BadChecksum ln)
      else case hex_line raw of
             None \<Rightarrow> Inl (MalformedRecord ln)
           | Some (count, offset, type, h) \<Rightarrow>
               if length h \<noteq> count * 2 then Inl (LengthMismatch ln count)
               else scan_record ln count offset type h s)"

fun scan_lines :: "nat \<Rightarrow> string list \<Rightarrow> hex_scan \<Rightarrow> hex_error + hex_scan" where
  "scan_lines ln [] s = Inr s"
| "scan_lines ln (l # ls) s = res_bind (scan_line ln l s) (scan_lines (Suc ln) ls)"

subsection \<open>The image\<close>

fun find_overlap :: "hex_region list \<Rightarrow> nat option" where
  "find_overlap (r # s # rs) =
     (if address s < region_end r then Some (address s) else find_overlap (s # rs))"
| "find_overlap _ = None"

fun fill_parts :: "byte list \<Rightarrow> nat \<Rightarrow> byte list list \<Rightarrow> byte list" where
  "fill_parts buf off [] = buf"
| "fill_parts buf off (p # ps) = fill_parts (array_set buf off p) (off + length p) ps"

definition assemble :: "nat \<Rightarrow> byte list list \<Rightarrow> byte list" where
  "assemble len ps = fill_parts (replicate len 0) 0 ps"

text \<open>\<open>mergeAdjacentRegions\<close>: the loop over \<open>curAddr\<close>, \<open>curParts\<close> and \<open>curEnd\<close>.\<close>

fun merge_loop :: "nat \<Rightarrow> byte list list \<Rightarrow> nat \<Rightarrow> hex_region list \<Rightarrow> hex_region list" where
  "merge_loop a ps e [] = [\<lparr>address = a, data = assemble (e - a) ps\<rparr>]"
| "merge_loop a ps e (r # rs) =
     (if address r = e then merge_loop a (ps @ [data r]) (e + length (data r)) rs
      else \<lparr>address = a, data = assemble (e - a) ps\<rparr>
           # merge_loop (address r) [data r] (address r + length (data r)) rs)"

fun merge_adjacent_regions :: "hex_region list \<Rightarrow> hex_region list" where
  "merge_adjacent_regions [] = []"
| "merge_adjacent_regions (r # rs) =
     merge_loop (address r) [data r] (address r + length (data r)) rs"

definition place_regions :: "nat \<Rightarrow> hex_region list \<Rightarrow> byte list \<Rightarrow> byte list" where
  "place_regions base rs buf = foldl (\<lambda>b r. array_set b (address r - base) (data r)) buf rs"

definition build_image :: "nat option \<Rightarrow> hex_region list \<Rightarrow> hex_error + parsed_hex" where
  "build_image entry raws =
     (let sorted = sort_key address raws in
      case find_overlap sorted of
        Some a \<Rightarrow> Inl (Overlapping a)
      | None \<Rightarrow>
          (let min_addr = address (hd sorted);
               max_addr = region_end (last sorted);
               span = max_addr - min_addr
           in if span > MAX_IMAGE_SPAN then Inl (SpanTooLarge span min_addr max_addr)
              else Inr \<lparr>base_address = min_addr,
                        image_bytes = place_regions min_addr sorted (replicate span 255),
                        regions = merge_adjacent_regions sorted,
                        entry_address = entry, mcu_tag = None\<rparr>))"

definition finish_scan :: "hex_scan \<Rightarrow> hex_error + parsed_hex" where
  "finish_scan s =
     (if \<not> saw_eof s then Inl MissingEof
      else if raw_regions s = [] then Inl EmptyImage
      else build_image (scan_entry s) (raw_regions s))"

definition parse_intel_hex :: "string \<Rightarrow> hex_error + parsed_hex" where
  "parse_intel_hex text =
     (if length text > MAX_TEXT_SIZE then Inl (TextTooLong (length text))
      else res_bind (scan_lines 1 (split_nl text) init_scan) finish_scan)"

subsection \<open>Regions: lookup, order, disjointness\<close>

text \<open>The byte a list of regions programs at an address, the first region that covers it winning.\<close>

definition covers :: "hex_region \<Rightarrow> nat \<Rightarrow> bool" where
  "covers r a \<longleftrightarrow> address r \<le> a \<and> a < region_end r"

fun region_lookup :: "hex_region list \<Rightarrow> nat \<Rightarrow> byte option" where
  "region_lookup [] a = None"
| "region_lookup (r # rs) a =
     (if covers r a then Some (data r ! (a - address r)) else region_lookup rs a)"

definition before :: "hex_region \<Rightarrow> hex_region \<Rightarrow> bool" where
  "before r s \<longleftrightarrow> region_end r \<le> address s"

definition region_ok :: "hex_region \<Rightarrow> bool" where
  "region_ok r \<longleftrightarrow> data r \<noteq> [] \<and> region_end r \<le> MAX_ADDRESS"

lemma address_le_end [simp]: "address r \<le> region_end r"
  by (simp add: region_end_def)

lemma address_less_end: "data r \<noteq> [] \<Longrightarrow> address r < region_end r"
  by (simp add: region_end_def)

lemma transp_before: "transp before"
  by (rule transpI) (auto simp: before_def intro: le_trans [OF _ le_trans [OF address_le_end]])

lemma region_lookup_append:
  "region_lookup (rs @ ss) a = (case region_lookup rs a of None \<Rightarrow> region_lookup ss a | Some b \<Rightarrow> Some b)"
  by (induction rs) auto

lemma region_lookup_None_iff: "region_lookup rs a = None \<longleftrightarrow> (\<forall>r \<in> set rs. \<not> covers r a)"
  by (induction rs) auto

lemma region_lookup_SomeD:
  "region_lookup rs a = Some b \<Longrightarrow> \<exists>r \<in> set rs. covers r a \<and> b = data r ! (a - address r)"
  by (induction rs) (auto split: if_splits)

lemma before_not_both: "before r s \<Longrightarrow> covers r a \<Longrightarrow> \<not> covers s a"
  by (auto simp: before_def covers_def)

lemma covers_unique:
  assumes "sorted_wrt before rs" "r \<in> set rs" "s \<in> set rs" "covers r a" "covers s a"
  shows "r = s"
  using assms by (induction rs) (auto dest: before_not_both)

lemma region_lookup_unique:
  assumes "\<And>s. s \<in> set rs \<Longrightarrow> covers s a \<Longrightarrow> s = r" and "r \<in> set rs" and "covers r a"
  shows "region_lookup rs a = Some (data r ! (a - address r))"
proof (cases "region_lookup rs a")
  case None
  with assms(2,3) show ?thesis by (simp add: region_lookup_None_iff)
next
  case (Some b)
  then obtain s where "s \<in> set rs" "covers s a" "b = data s ! (a - address s)"
    using region_lookup_SomeD by blast
  moreover from this have "s = r" by (intro assms(1))
  ultimately show ?thesis using Some by simp
qed

lemma region_lookup_perm:
  assumes "sorted_wrt before rs" and "set ss = set rs"
  shows "region_lookup ss a = region_lookup rs a"
proof (cases "\<exists>r \<in> set rs. covers r a")
  case True
  then obtain r where r: "r \<in> set rs" "covers r a" by blast
  have u: "\<And>s. s \<in> set rs \<Longrightarrow> covers s a \<Longrightarrow> s = r"
    using covers_unique [OF assms(1)] r by blast
  have "region_lookup rs a = Some (data r ! (a - address r))"
    by (rule region_lookup_unique [OF u r])
  moreover have "region_lookup ss a = Some (data r ! (a - address r))"
    by (rule region_lookup_unique) (use u r assms(2) in blast)+
  ultimately show ?thesis by simp
next
  case False
  then have "region_lookup rs a = None" and "region_lookup ss a = None"
    using assms(2) by (auto simp: region_lookup_None_iff)
  then show ?thesis by simp
qed

lemma find_overlap_None:
  "find_overlap rs = None \<Longrightarrow> sorted_wrt before rs"
proof -
  assume "find_overlap rs = None"
  then have "successively before rs"
    by (induction rs rule: find_overlap.induct) (auto simp: before_def split: if_splits)
  then show ?thesis
    using transp_before by (simp add: successively_conv_sorted_wrt)
qed

lemma sorted_before_find_overlap:
  "sorted_wrt before rs \<Longrightarrow> find_overlap rs = None"
  by (induction rs rule: find_overlap.induct) (auto simp: before_def)

subsection \<open>Merging and filling\<close>

lemma fill_parts_eq:
  "off + length (concat ps) \<le> length buf \<Longrightarrow>
   fill_parts buf off ps = take off buf @ concat ps @ drop (off + length (concat ps)) buf"
proof (induction ps arbitrary: buf off)
  case (Cons p ps)
  let ?b = "array_set buf off p"
  have l: "length ?b = length buf" using Cons.prems by simp
  have "fill_parts ?b (off + length p) ps =
     take (off + length p) ?b @ concat ps @ drop (off + length p + length (concat ps)) ?b"
    using Cons.prems l by (intro Cons.IH) simp
  moreover have "take (off + length p) ?b = take off buf @ p"
    using Cons.prems by (simp add: array_set_def)
  moreover have "drop (off + length p + length (concat ps)) ?b = drop (off + length p + length (concat ps)) buf"
    using Cons.prems by (simp add: array_set_def ac_simps)
  ultimately have "fill_parts buf off (p # ps) =
      (take off buf @ p) @ concat ps @ drop (off + length p + length (concat ps)) buf"
    by (simp only: fill_parts.simps)
  then show ?case by (simp add: add.assoc)
qed simp

lemma assemble_concat: "assemble (length (concat ps)) ps = concat ps"
  by (simp add: assemble_def fill_parts_eq)

lemma merge_loop_lookup:
  "e = a + length (concat ps) \<Longrightarrow>
   region_lookup (merge_loop a ps e rs) x = region_lookup (\<lparr>address = a, data = concat ps\<rparr> # rs) x"
proof (induction a ps e rs rule: merge_loop.induct)
  case (1 a ps e)
  then show ?case by (simp add: assemble_concat)
next
  case (2 a ps e r rs)
  show ?case
  proof (cases "address r = e")
    case True
    with 2 show ?thesis
      by (auto simp: covers_def region_end_def nth_append)
  next
    case False
    have eta: "\<lparr>address = address r, data = data r\<rparr> = r" by simp
    from False 2 show ?thesis by (simp add: assemble_concat eta del: region_lookup.simps)
       (simp add: region_lookup.simps eta)
  qed
qed

lemma merge_loop_gaps:
  assumes "e = a + length (concat ps)" and "concat ps \<noteq> []"
    and "\<forall>r \<in> set rs. e \<le> address r \<and> data r \<noteq> []" and "sorted_wrt before rs"
  shows "sorted_wrt (\<lambda>r s. region_end r < address s) (merge_loop a ps e rs)
       \<and> (\<forall>s \<in> set (merge_loop a ps e rs). a \<le> address s \<and> data s \<noteq> [])"
  using assms
proof (induction a ps e rs rule: merge_loop.induct)
  case (1 a ps e)
  then show ?case by (simp add: assemble_concat)
next
  case (2 a ps e r rs)
  have rs: "\<forall>s \<in> set rs. address r + length (data r) \<le> address s \<and> data s \<noteq> []"
    using 2(5,6) by (auto simp: before_def region_end_def)
  show ?case
  proof (cases "address r = e")
    case True
    then show ?thesis using "2.IH"(1) [OF True] 2(3-6) rs by simp
  next
    case False
    then have "e < address r" using 2(5) by force
    moreover have "region_end \<lparr>address = a, data = assemble (e - a) ps\<rparr> = e"
      using 2(3) by (simp add: assemble_concat region_end_def)
    ultimately show ?thesis
      using "2.IH"(2) [OF False] 2(3-6) rs False
      by (auto simp: assemble_concat)
  qed
qed

lemma merge_loop_ends:
  "e = a + length (concat ps) \<Longrightarrow>
   merge_loop a ps e rs \<noteq> [] \<and> address (hd (merge_loop a ps e rs)) = a
   \<and> region_end (last (merge_loop a ps e rs)) = region_end (last (\<lparr>address = a, data = concat ps\<rparr> # rs))"
proof (induction a ps e rs rule: merge_loop.induct)
  case (1 a ps e)
  then show ?case by (simp add: assemble_concat)
next
  case (2 a ps e r rs)
  then show ?case by (cases "address r = e") (auto simp: region_end_def)
qed

lemma place_regions_image:
  assumes "sorted_wrt before rs"
    and "\<forall>r \<in> set rs. base \<le> address r \<and> region_end r \<le> base + length buf"
  shows "length (place_regions base rs buf) = length buf
       \<and> (\<forall>i < length buf. place_regions base rs buf ! i =
            (case region_lookup rs (base + i) of None \<Rightarrow> buf ! i | Some b \<Rightarrow> b))"
  using assms
proof (induction rs arbitrary: buf)
  case Nil
  then show ?case by (simp add: place_regions_def)
next
  case (Cons r rs)
  let ?b = "array_set buf (address r - base) (data r)"
  have fit: "address r - base + length (data r) \<le> length buf"
    using Cons.prems(2) by (auto simp: region_end_def)
  have step: "place_regions base (r # rs) buf = place_regions base rs ?b"
    by (simp add: place_regions_def)
  have IH: "length (place_regions base rs ?b) = length buf
       \<and> (\<forall>i < length buf. place_regions base rs ?b ! i =
            (case region_lookup rs (base + i) of None \<Rightarrow> ?b ! i | Some b \<Rightarrow> b))"
    using Cons.IH [of ?b] Cons.prems fit by simp
  have b: "?b ! i = (if covers r (base + i) then data r ! (base + i - address r) else buf ! i)"
    if "i < length buf" for i
  proof -
    have "address r - base \<le> i \<and> i < address r - base + length (data r) \<longleftrightarrow> covers r (base + i)"
      using Cons.prems(2) by (auto simp: covers_def region_end_def)
    moreover have "i - (address r - base) = base + i - address r"
      using Cons.prems(2) by simp
    ultimately show ?thesis using nth_array_set [OF fit that] by simp
  qed
  have n: "covers r (base + i) \<Longrightarrow> region_lookup rs (base + i) = None" for i
    using Cons.prems(1) by (auto simp: region_lookup_None_iff dest: before_not_both)
  show ?case
    unfolding step using IH b n by (auto split: option.splits)
qed

subsection \<open>The scanner and the image\<close>

definition scan_ok :: "hex_scan \<Rightarrow> bool" where
  "scan_ok s \<longleftrightarrow> (\<forall>r \<in> set (raw_regions s). region_ok r)"

lemma length_data_bytes [simp]: "length (data_bytes n h) = n"
  by (simp add: data_bytes_def)

lemma scan_record_ok:
  "scan_record ln n off ty h s = Inr s' \<Longrightarrow> scan_ok s \<Longrightarrow> scan_ok s'"
  unfolding scan_record_def scan_ok_def
  by (auto simp: Let_def region_ok_def region_end_def split: if_splits)
     (metis length_data_bytes list.size(3) neq0_conv)+

lemma scan_line_ok: "scan_line ln l s = Inr s' \<Longrightarrow> scan_ok s \<Longrightarrow> scan_ok s'"
  unfolding scan_line_def Let_def
  by (auto split: if_splits option.splits intro: scan_record_ok)

lemma scan_lines_ok: "scan_lines ln ls s = Inr s' \<Longrightarrow> scan_ok s \<Longrightarrow> scan_ok s'"
  by (induction ls arbitrary: ln s) (auto simp: res_bind_Inr_iff intro: scan_line_ok)

lemma scan_ok_init: "scan_ok init_scan"
  by (simp add: scan_ok_def init_scan_def)

lemma parse_intel_hexE:
  assumes "parse_intel_hex text = Inr p"
  obtains s where "scan_lines 1 (split_nl text) init_scan = Inr s" "saw_eof s"
    "raw_regions s \<noteq> []" "build_image (scan_entry s) (raw_regions s) = Inr p"
    "\<forall>r \<in> set (raw_regions s). region_ok r"
  using assms scan_lines_ok [OF _ scan_ok_init]
  by (auto simp: parse_intel_hex_def finish_scan_def scan_ok_def res_bind_Inr_iff split: if_splits)

text \<open>What an accepted image promises: ordered non-empty segments with a gap between any two, a
  buffer that spans them exactly and stays within the limits.\<close>

definition hex_layout_ok :: "parsed_hex \<Rightarrow> bool" where
  "hex_layout_ok p \<longleftrightarrow>
     regions p \<noteq> []
     \<and> (\<forall>r \<in> set (regions p). data r \<noteq> [])
     \<and> sorted_wrt (\<lambda>r s. region_end r < address s) (regions p)
     \<and> base_address p = address (hd (regions p))
     \<and> base_address p + length (image_bytes p) = region_end (last (regions p))
     \<and> length (image_bytes p) \<le> MAX_IMAGE_SPAN
     \<and> region_end (last (regions p)) \<le> MAX_ADDRESS"

text \<open>The buffer holds the programmed byte at every programmed address and \<open>0xff\<close> in every gap.\<close>

definition hex_content_ok :: "parsed_hex \<Rightarrow> bool" where
  "hex_content_ok p \<longleftrightarrow>
     (\<forall>i < length (image_bytes p). image_bytes p ! i =
        (case region_lookup (regions p) (base_address p + i) of None \<Rightarrow> 255 | Some b \<Rightarrow> b))"

lemma sorted_before_bounds:
  assumes "sorted_wrt before rs" and "r \<in> set rs"
  shows "address (hd rs) \<le> address r \<and> region_end r \<le> region_end (last rs)"
  using assms
proof (induction rs arbitrary: r)
  case (Cons s rs)
  show ?case
  proof (cases rs)
    case Nil
    with Cons show ?thesis by simp
  next
    case (Cons t ts)
    then have l: "last rs \<in> set rs" by simp
    have "before s (last rs)" using Cons.prems(1) l by simp
    then have "region_end s \<le> region_end (last rs)"
      unfolding before_def using address_le_end order_trans by blast
    moreover have "address s \<le> address r" if "r \<in> set rs"
      using Cons.prems(1) that by (auto simp: before_def intro: le_trans [OF address_le_end])
    ultimately show ?thesis
      using Cons.prems Cons.IH [of r] \<open>rs = t # ts\<close> by auto
  qed
qed simp

lemma merge_adjacent_regions_spec:
  assumes "sorted_wrt before rs" and "rs \<noteq> []" and "\<forall>r \<in> set rs. data r \<noteq> []"
  shows "merge_adjacent_regions rs \<noteq> []"
    and "\<forall>r \<in> set (merge_adjacent_regions rs). data r \<noteq> []"
    and "sorted_wrt (\<lambda>r s. region_end r < address s) (merge_adjacent_regions rs)"
    and "address (hd (merge_adjacent_regions rs)) = address (hd rs)"
    and "region_end (last (merge_adjacent_regions rs)) = region_end (last rs)"
    and "region_lookup (merge_adjacent_regions rs) a = region_lookup rs a"
proof -
  obtain r ts where rs: "rs = r # ts" using assms(2) by (cases rs) auto
  let ?m = "merge_loop (address r) [data r] (address r + length (data r)) ts"
  have eta: "\<lparr>address = address r, data = data r\<rparr> = r" by simp
  have g: "sorted_wrt (\<lambda>r s. region_end r < address s) ?m
       \<and> (\<forall>s \<in> set ?m. address r \<le> address s \<and> data s \<noteq> [])"
    using assms rs by (intro merge_loop_gaps) (auto simp: before_def region_end_def)
  have e: "?m \<noteq> [] \<and> address (hd ?m) = address r
      \<and> region_end (last ?m) = region_end (last (\<lparr>address = address r, data = concat [data r]\<rparr> # ts))"
    by (rule merge_loop_ends) simp
  have l: "region_lookup ?m a = region_lookup (\<lparr>address = address r, data = concat [data r]\<rparr> # ts) a"
    by (rule merge_loop_lookup) simp
  show "merge_adjacent_regions rs \<noteq> []"
    and "\<forall>r \<in> set (merge_adjacent_regions rs). data r \<noteq> []"
    and "sorted_wrt (\<lambda>r s. region_end r < address s) (merge_adjacent_regions rs)"
    and "address (hd (merge_adjacent_regions rs)) = address (hd rs)"
    using g e rs by auto
  show "region_end (last (merge_adjacent_regions rs)) = region_end (last rs)"
    using e rs eta by simp
  show "region_lookup (merge_adjacent_regions rs) a = region_lookup rs a"
    using l rs eta by simp
qed

lemma build_image_spec:
  assumes b: "build_image e raws = Inr p" and ne: "raws \<noteq> []" and ok: "\<forall>r \<in> set raws. region_ok r"
  shows "hex_layout_ok p" and "hex_content_ok p"
    and "region_lookup (regions p) a = region_lookup raws a"
proof -
  let ?s = "sort_key address raws"
  let ?n = "region_end (last ?s) - address (hd ?s)"
  from b have o: "find_overlap ?s = None" and span: "?n \<le> MAX_IMAGE_SPAN"
    and p: "p = \<lparr>base_address = address (hd ?s),
                 image_bytes = place_regions (address (hd ?s)) ?s (replicate ?n 255),
                 regions = merge_adjacent_regions ?s, entry_address = e, mcu_tag = None\<rparr>"
    by (auto simp: build_image_def Let_def split: option.splits if_splits)
  have sb: "sorted_wrt before ?s" by (rule find_overlap_None [OF o])
  have ne': "?s \<noteq> []" using ne by (metis length_0_conv length_sort)
  have ok': "\<forall>r \<in> set ?s. region_ok r" using ok by simp
  have d: "\<forall>r \<in> set ?s. data r \<noteq> []" using ok' by (simp add: region_ok_def)
  note m = merge_adjacent_regions_spec [OF sb ne' d]
  have hl: "address (hd ?s) \<le> region_end (last ?s)"
    using sorted_before_bounds [OF sb hd_in_set [OF ne']] le_trans [OF address_le_end] by blast
  have "\<forall>r \<in> set ?s. address (hd ?s) \<le> address r \<and> region_end r \<le> address (hd ?s) + length (replicate ?n (255::byte))"
    using sorted_before_bounds [OF sb] hl by auto
  note pl = place_regions_image [OF sb this]
  have "region_end (last ?s) \<le> MAX_ADDRESS"
    using ok' ne' last_in_set [OF ne'] by (auto simp: region_ok_def simp del: set_sort)
  then show "hex_layout_ok p"
    using m pl hl span unfolding hex_layout_ok_def p by simp
  show "hex_content_ok p"
    using m(6) pl unfolding hex_content_ok_def p by (auto split: option.splits)
  show "region_lookup (regions p) a = region_lookup raws a"
    using m(6) region_lookup_perm [OF sb, of raws a] unfolding p by simp
qed

subsection \<open>Writing a record: \<open>makeRecord\<close> of protocol/src/smoke/hex-validation.ts\<close>

fun record_sum :: "string \<Rightarrow> int option" where
  "record_sum [] = Some 0"
| "record_sum [a] = parse_int16 [a]"
| "record_sum (a # b # rest) =
     (case (parse_int16 [a, b], record_sum rest) of (Some v, Some w) \<Rightarrow> Some (v + w) | _ \<Rightarrow> None)"

definition make_record :: "nat \<Rightarrow> nat \<Rightarrow> nat \<Rightarrow> string \<Rightarrow> string" where
  "make_record ll aaaa tt data_hex =
     (let body = hex_upper_pad 2 ll @ hex_upper_pad 4 aaaa @ hex_upper_pad 2 tt @ js_upper_ascii data_hex;
          low = (case record_sum body of None \<Rightarrow> 0 | Some v \<Rightarrow> v mod 256);
          checksum = (256 - low) mod 256
      in '':'' @ body @ hex_upper_pad 2 (nat checksum))"

text \<open>The data field of a record for some bytes.\<close>

definition bytes_hex :: "byte list \<Rightarrow> string" where
  "bytes_hex bs = concat (List.map (\<lambda>b. hex_upper_pad 2 (unat b)) bs)"

fun pair_sum :: "string \<Rightarrow> nat" where
  "pair_sum (a # b # rest) = hex_num [a, b] + pair_sum rest"
| "pair_sum _ = 0"

lemma checksum_loop_hex:
  "list_all is_hex s \<Longrightarrow> even (length s) \<Longrightarrow> 0 \<le> acc \<Longrightarrow> acc < 256 \<Longrightarrow>
   checksum_loop acc s = (acc + int (pair_sum s)) mod 256"
proof (induction acc s rule: checksum_loop.induct)
  case (3 acc a b rest)
  then show ?case
    by (simp add: parse_int16_pair mod_simps add.assoc)
qed auto

lemma record_sum_hex:
  "list_all is_hex s \<Longrightarrow> even (length s) \<Longrightarrow> record_sum s = Some (int (pair_sum s))"
  by (induction s rule: record_sum.induct) (auto simp: parse_int16_pair)

lemma pair_sum_append: "even (length s) \<Longrightarrow> pair_sum (s @ t) = pair_sum s + pair_sum t"
  by (induction s rule: pair_sum.induct) auto

lemma verify_checksum_hex:
  "list_all is_hex s \<Longrightarrow>
   verify_checksum s \<longleftrightarrow> 10 \<le> length s \<and> even (length s) \<and> pair_sum s mod 256 = 0"
proof -
  have "int (pair_sum s) mod 256 = 0 \<longleftrightarrow> pair_sum s mod 256 = 0" by presburger
  moreover assume "list_all is_hex s"
  ultimately show ?thesis
    by (cases "even (length s)") (auto simp: verify_checksum_def checksum_loop_hex)
qed

lemma hex_pad2 [simp]:
  assumes "n < 256"
  shows "length (hex_upper_pad 2 n) = 2" and "hex_num (hex_upper_pad 2 n) = n"
    and "list_all is_hex (hex_upper_pad 2 n)" and "js_upper_ascii (hex_upper_pad 2 n) = hex_upper_pad 2 n"
  using hex_upper_pad_facts [of n 2] assms by simp_all

lemma hex_pad4 [simp]:
  assumes "n < 65536"
  shows "length (hex_upper_pad 4 n) = 4" and "hex_num (hex_upper_pad 4 n) = n"
    and "list_all is_hex (hex_upper_pad 4 n)" and "js_upper_ascii (hex_upper_pad 4 n) = hex_upper_pad 4 n"
  using hex_upper_pad_facts [of n 4] assms by simp_all

lemma bytes_hex_facts:
  "length (bytes_hex bs) = 2 * length bs" "list_all is_hex (bytes_hex bs)"
  "js_upper_ascii (bytes_hex bs) = bytes_hex bs"
  using byte_pad by (induction bs) (simp_all add: bytes_hex_def js_upper_ascii_def)

lemma bytes_hex_slice: "i < length bs \<Longrightarrow> take 2 (drop (i * 2) (bytes_hex bs)) = hex_upper_pad 2 (unat (bs ! i))"
proof (induction bs arbitrary: i)
  case (Cons b bs)
  show ?case
  proof (cases i)
    case 0
    then show ?thesis by (simp add: bytes_hex_def byte_pad)
  next
    case (Suc j)
    have "drop (i * 2) (bytes_hex (b # bs)) = drop (j * 2) (bytes_hex bs)"
      by (simp add: Suc bytes_hex_def byte_pad)
    then show ?thesis using Cons Suc by simp
  qed
qed simp

lemma data_bytes_hex: "data_bytes (length bs) (bytes_hex bs) = bs"
  by (rule nth_equalityI) (simp_all add: data_bytes_def parse_byte_def bytes_hex_slice byte_pad)

lemma pair_sum_two: "length s = 2 \<Longrightarrow> pair_sum s = hex_num s"
  by (auto simp: numeral_2_eq_2 length_Suc_conv)

lemma checksum_complement: "(n + nat ((256 - int n mod 256) mod 256)) mod 256 = 0"
proof -
  define k where "k = (256 - int n mod 256) mod 256"
  have k: "0 \<le> k" "(int n + k) mod 256 = 0" unfolding k_def by (simp_all add: mod_simps)
  then have "int ((n + nat k) mod 256) = 0" by (simp add: zmod_int)
  then show ?thesis by (simp only: k_def of_nat_eq_0_iff)
qed

text \<open>A written record is read back as its fields.\<close>

lemma make_record_shape:
  assumes "ll < 256" "aaaa < 65536" "tt < 256" "list_all is_hex h" "even (length h)" "js_upper_ascii h = h"
  shows "\<exists>body. make_record ll aaaa tt h = CHR '':'' # body \<and> verify_checksum body
      \<and> list_all is_hex body \<and> hex_line (CHR '':'' # body) = Some (ll, aaaa, tt, h)"
proof -
  define b where "b = hex_upper_pad 2 ll @ hex_upper_pad 4 aaaa @ hex_upper_pad 2 tt @ h"
  define c where "c = nat ((256 - int (pair_sum b) mod 256) mod 256)"
  define cs where "cs = hex_upper_pad 2 c"
  have c: "c < 256" by (simp add: c_def nat_less_iff)
  have hb: "list_all is_hex b" "even (length b)" "8 \<le> length b"
    using assms by (simp_all add: b_def)
  have cs: "length cs = 2" "list_all is_hex cs" "pair_sum cs = c"
    using c pair_sum_two [of cs] by (simp_all add: cs_def)
  have m: "make_record ll aaaa tt h = CHR '':'' # b @ cs"
    using record_sum_hex [OF hb(1,2)] assms(6)
    by (simp add: make_record_def Let_def cs_def c_def) (simp add: b_def)
  have "pair_sum (b @ cs) mod 256 = 0"
    using pair_sum_append [OF hb(2), of cs] cs(3) checksum_complement [of "pair_sum b"]
    by (simp add: c_def)
  then have v: "verify_checksum (b @ cs)"
    using verify_checksum_hex [of "b @ cs"] hb cs by simp
  have "hex_line (CHR '':'' # b @ cs) = Some (ll, aaaa, tt, h)"
    using hb cs assms by (simp add: hex_line_def Let_def) (simp add: b_def)
  with m v hb cs show ?thesis by auto
qed

subsection \<open>Lines\<close>

lemma js_trim_record:
  assumes "list_all is_hex body"
  shows "js_trim (CHR '':'' # body) = CHR '':'' # body"
proof (rule js_trim_id)
  have "\<not> js_space (CHR '':'')" by (simp add: js_space_def)
  moreover have "\<not> js_space (last body)" if "body \<noteq> []"
    using assms that is_hex_plain(1) by (metis last_in_set list_all_iff)
  ultimately show "CHR '':'' # body = [] \<or> \<not> js_space (hd (CHR '':'' # body)) \<and> \<not> js_space (last (CHR '':'' # body))"
    by simp
qed

lemma scan_line_record:
  assumes "list_all is_hex body" and "verify_checksum body" and "\<not> saw_eof s"
    and "hex_line (CHR '':'' # body) = Some (ll, aaaa, tt, h)" and "length h = ll * 2"
  shows "scan_line ln (CHR '':'' # body) s = scan_record ln ll aaaa tt h s"
  using assms by (simp add: scan_line_def js_trim_record Let_def)

lemma scan_line_make_record:
  assumes "ll < 256" "aaaa < 65536" "tt < 256" "list_all is_hex h" "length h = ll * 2"
    "js_upper_ascii h = h" "\<not> saw_eof s"
  shows "scan_line ln (make_record ll aaaa tt h) s = scan_record ln ll aaaa tt h s"
proof -
  have "even (length h)" using assms(5) by simp
  then obtain body where "make_record ll aaaa tt h = CHR '':'' # body" "verify_checksum body"
    "list_all is_hex body" "hex_line (CHR '':'' # body) = Some (ll, aaaa, tt, h)"
    using make_record_shape [OF assms(1-4) _ assms(6)] by blast
  then show ?thesis using scan_line_record assms by simp
qed

lemma make_record_plain:
  assumes "ll < 256" "aaaa < 65536" "tt < 256" "list_all is_hex h" "even (length h)" "js_upper_ascii h = h"
  shows "LF \<notin> set (make_record ll aaaa tt h)" "CR \<notin> set (make_record ll aaaa tt h)"
    "length (make_record ll aaaa tt h) = 11 + length h"
proof -
  obtain body where b: "make_record ll aaaa tt h = CHR '':'' # body" "list_all is_hex body"
    "hex_line (CHR '':'' # body) = Some (ll, aaaa, tt, h)"
    using make_record_shape [OF assms] by blast
  then have "\<forall>c \<in> set body. is_hex c" by (simp add: list_all_iff)
  then have "LF \<notin> set body" "CR \<notin> set body" using is_hex_plain(3,4) by blast+
  then show "LF \<notin> set (make_record ll aaaa tt h)" "CR \<notin> set (make_record ll aaaa tt h)"
    using b by (auto simp: LF_def CR_def)
  show "length (make_record ll aaaa tt h) = 11 + length h"
    using b by (auto simp: hex_line_def Let_def split: if_splits)
qed

lemma mod_sum_less_unique:
  assumes "(u + w) mod n = 0" "(v + w) mod n = 0" "u < n" "v < n"
  shows "u = (v :: nat)"
proof -
  have d: "n dvd u + w" "n dvd v + w" using assms(1,2) by (simp_all add: mod_eq_0_iff_dvd)
  have "n dvd (u + w) - (v + w)" "n dvd (v + w) - (u + w)"
    using d by (simp_all only: dvd_diff_nat)
  then have "n dvd u - v" "n dvd v - u" by simp_all
  then show ?thesis using assms(3,4) nat_dvd_not_less [of "u - v" n] nat_dvd_not_less [of "v - u" n] by linarith
qed

definition eof_line :: "string \<Rightarrow> bool" where
  "eof_line l \<longleftrightarrow> verify_checksum (tl (js_trim l)) \<and> hex_line (js_trim l) = Some (0, 0, 1, [])"

lemma scan_record_eof:
  "scan_record ln n off ty h s = Inr s' \<Longrightarrow> \<not> saw_eof s \<Longrightarrow> saw_eof s' \<longleftrightarrow> ty = 1 \<and> n = 0 \<and> off = 0"
  by (auto simp: scan_record_def Let_def split: if_splits)

lemma scan_line_eof:
  "scan_line ln l s = Inr s' \<Longrightarrow> \<not> saw_eof s \<Longrightarrow> saw_eof s' \<Longrightarrow> eof_line l"
  by (auto simp: scan_line_def Let_def eof_line_def dest!: scan_record_eof split: if_splits option.splits)

lemma scan_lines_after_eof:
  "scan_lines ln ls s = Inr s' \<Longrightarrow> saw_eof s \<Longrightarrow> \<forall>l \<in> set ls. js_trim l = []"
  by (induction ls arbitrary: ln)
     (auto simp: scan_line_def Let_def res_bind_Inr_iff split: if_splits)

lemma scan_lines_eof_split:
  "scan_lines ln ls s = Inr s' \<Longrightarrow> \<not> saw_eof s \<Longrightarrow> saw_eof s' \<Longrightarrow>
   \<exists>pre l post. ls = pre @ l # post \<and> eof_line l \<and> (\<forall>x \<in> set post. js_trim x = [])"
proof (induction ls arbitrary: ln s)
  case (Cons l ls)
  from Cons.prems(1) obtain t where t: "scan_line ln l s = Inr t" "scan_lines (Suc ln) ls t = Inr s'"
    by (auto simp: res_bind_Inr_iff)
  show ?case
  proof (cases "saw_eof t")
    case True
    have "eof_line l" by (rule scan_line_eof [OF t(1) Cons.prems(2) True])
    moreover have "\<forall>x \<in> set ls. js_trim x = []" by (rule scan_lines_after_eof [OF t(2) True])
    ultimately show ?thesis by (intro exI [of _ "[]"] exI [of _ l] exI [of _ ls]) simp
  next
    case False
    from Cons.IH [OF t(2) False Cons.prems(3)] obtain pre m post
      where "ls = pre @ m # post" "eof_line m" "\<forall>x \<in> set post. js_trim x = []" by blast
    then show ?thesis by (intro exI [of _ "l # pre"] exI [of _ m] exI [of _ post]) simp
  qed
qed simp

subsection \<open>Properties\<close>

text \<open>Every accepted HEX file gives a well-formed image: at least one segment, every segment
  non-empty, segments in increasing address order with a gap of at least one byte between any two
  (adjacent records are merged, overlaps are rejected), the base is the first programmed address,
  the buffer spans exactly to the last programmed byte, is at most 2 MiB long and ends at or below
  \<open>2 ^ 32\<close>.\<close>

theorem parse_intel_hex_layout:
  "parse_intel_hex text = Inr p \<Longrightarrow> hex_layout_ok p"
  by (erule parse_intel_hexE) (rule build_image_spec(1))

text \<open>In every accepted image each byte of the buffer is the byte a segment programs at that
  address, and \<open>0xff\<close> where no segment does.\<close>

theorem parse_intel_hex_content:
  "parse_intel_hex text = Inr p \<Longrightarrow> hex_content_ok p"
  by (erule parse_intel_hexE) (rule build_image_spec(2))


text \<open>C6: A file written with \<open>makeRecord\<close> (an extended linear address record, a data record and
  the end record, one per line) is read back as exactly those bytes at exactly that address.\<close>

theorem parse_intel_hex_roundtrip:
  assumes "hi < 65536" "off < 65536" "bs \<noteq> []" "length bs < 256"
    "hi * 65536 + off + length bs \<le> 4294967296"
  shows "parse_intel_hex
     (make_record 2 0 4 (hex_upper_pad 4 hi) @ LF # make_record (length bs) off 0 (bytes_hex bs)
        @ LF # make_record 0 0 1 [] @ [LF])
     = Inr \<lparr>base_address = hi * 65536 + off, image_bytes = bs,
            regions = [\<lparr>address = hi * 65536 + off, data = bs\<rparr>],
            entry_address = None, mcu_tag = None\<rparr>"
proof -
  let ?a = "make_record 2 0 4 (hex_upper_pad 4 hi)"
  let ?b = "make_record (length bs) off 0 (bytes_hex bs)"
  let ?c = "make_record 0 0 1 []"
  let ?t = "?a @ LF # ?b @ LF # ?c @ [LF]"
  let ?r = "\<lparr>address = hi * 65536 + off, data = bs\<rparr>"
  note pa = make_record_plain [of 2 0 4 "hex_upper_pad 4 hi"]
  note pb = make_record_plain [of "length bs" off 0 "bytes_hex bs"]
  note pc = make_record_plain [of 0 0 1 "[]"]
  have nil: "js_upper_ascii [] = []" by (simp add: js_upper_ascii_def)
  have lines: "split_nl ?t = [?a, ?b, ?c, []]"
    using assms pa pb pc nil by (simp add: split_nl_line bytes_hex_facts)
  have len: "length ?t \<le> MAX_TEXT_SIZE"
    using assms pa pb pc nil by (simp add: bytes_hex_facts MAX_TEXT_SIZE_def)
  have blank: "js_trim [] = []" by (rule js_trim_id) simp
  have scan: "scan_lines 1 (split_nl ?t) init_scan
      = Inr \<lparr>raw_regions = [?r], upper_linear = hi, segment_base = 0, scan_entry = None, saw_eof = True\<rparr>"
    unfolding lines using assms nil
    by (simp add: scan_line_make_record scan_record_def init_scan_def bytes_hex_facts
        Let_def data_bytes_hex MAX_ADDRESS_def scan_line_def [of _ "[]"] blank mult.commute)
  have "place_regions (hi * 65536 + off) [?r] (replicate (length bs) 255) = bs"
    by (simp add: place_regions_def array_set_def)
  then show ?thesis
    using scan len assms
    by (simp add: parse_intel_hex_def finish_scan_def build_image_def Let_def region_end_def
        MAX_IMAGE_SPAN_def assemble_def array_set_def)
qed

text \<open>A record in which one byte (a pair of digits, the checksum included) was changed is
  refused with the checksum error, whatever the byte and whatever it became.\<close>

theorem scan_line_detects_corruption:
  assumes "list_all is_hex (pre @ [a, b] @ post)" and "even (length pre)"
    and "verify_checksum (pre @ [a, b] @ post)"
    and "is_hex c" and "is_hex d" and "hex_num [c, d] \<noteq> hex_num [a, b]" and "\<not> saw_eof s"
  shows "scan_line ln (CHR '':'' # pre @ [c, d] @ post) s = Inl (BadChecksum ln)"
proof -
  have l: "list_all is_hex (pre @ [c, d] @ post)" using assms by simp
  have sums: "pair_sum (pre @ [x, y] @ post) = pair_sum pre + hex_num [x, y] + pair_sum post" for x y
    using pair_sum_append [OF assms(2)] by simp
  have "hex_num [c, d] < 256" "hex_num [a, b] < 256"
    using hex_num_less [of "[c, d]"] hex_num_less [of "[a, b]"] by simp_all
  moreover have "(pair_sum pre + hex_num [a, b] + pair_sum post) mod 256 = 0"
    using assms(1,3) verify_checksum_hex sums by metis
  ultimately have "(pair_sum pre + hex_num [c, d] + pair_sum post) mod 256 \<noteq> 0"
    using assms(6) mod_sum_less_unique [of "hex_num [c, d]" "pair_sum pre + pair_sum post" 256 "hex_num [a, b]"]
    by (auto simp: ac_simps)
  then have "\<not> verify_checksum (pre @ [c, d] @ post)"
    using verify_checksum_hex [OF l] sums by simp
  then show ?thesis
    using assms(7) js_trim_record [OF l] by (simp add: scan_line_def Let_def)
qed

text \<open>An accepted file has an end record with a good checksum, and only blank lines after it:
  a truncated file and a file with trailing content are both refused.\<close>

theorem parse_intel_hex_ends_with_eof:
  assumes "parse_intel_hex text = Inr p"
  shows "\<exists>pre l post. split_nl text = pre @ l # post \<and> eof_line l \<and> (\<forall>x \<in> set post. js_trim x = [])"
  using assms
  by (rule parse_intel_hexE) (rule scan_lines_eof_split, auto simp: init_scan_def)

text \<open>A concrete file for the witnesses: two segments with a gap of two bytes.\<close>

definition sample_hex :: string where
  "sample_hex = '':020000040800F2'' @ [CR, LF] @ '':0400000001020304F2'' @ [LF]
     @ '':02000600AABB93'' @ [LF] @ '':00000001FF'' @ [LF]"

definition sample_image :: parsed_hex where
  "sample_image = \<lparr>base_address = 134217728, image_bytes = [1, 2, 3, 4, 255, 255, 170, 187],
     regions = [\<lparr>address = 134217728, data = [1, 2, 3, 4]\<rparr>, \<lparr>address = 134217734, data = [170, 187]\<rparr>],
     entry_address = None, mcu_tag = None\<rparr>"

lemma sample_parses: "parse_intel_hex sample_hex = Inr sample_image"
  by code_simp

theorem parse_intel_hex_layout_witness: "hex_layout_ok sample_image"
  by (rule parse_intel_hex_layout [OF sample_parses])

theorem parse_intel_hex_content_witness: "hex_content_ok sample_image"
  by (rule parse_intel_hex_content [OF sample_parses])

lemma sample_scan:
  "scan_lines 1 (split_nl sample_hex) init_scan
     = Inr \<lparr>raw_regions = regions sample_image, upper_linear = 2048, segment_base = 0,
            scan_entry = None, saw_eof = True\<rparr>"
  by code_simp


theorem parse_intel_hex_roundtrip_witness:
  "parse_intel_hex
     (make_record 2 0 4 (hex_upper_pad 4 2048) @ LF # make_record (length [1::byte, 171]) 16 0 (bytes_hex [1, 171])
        @ LF # make_record 0 0 1 [] @ [LF])
     = Inr \<lparr>base_address = 2048 * 65536 + 16, image_bytes = [1, 171],
            regions = [\<lparr>address = 2048 * 65536 + 16, data = [1, 171]\<rparr>],
            entry_address = None, mcu_tag = None\<rparr>"
  by (rule parse_intel_hex_roundtrip) simp_all

theorem scan_line_detects_corruption_witness:
  "scan_line 7 (CHR '':'' # ''00000001'' @ ''FE'' @ []) init_scan = Inl (BadChecksum 7)"
proof -
  have "list_all is_hex (''00000001'' @ ''FF'' @ []) \<and> verify_checksum (''00000001'' @ ''FF'' @ [])
    \<and> is_hex (CHR ''F'') \<and> is_hex (CHR ''E'') \<and> hex_num ''FE'' \<noteq> hex_num ''FF'' \<and> \<not> saw_eof init_scan"
    by code_simp
  then show ?thesis
    using scan_line_detects_corruption [of "''00000001''" "CHR ''F''" "CHR ''F''" "[]" "CHR ''F''" "CHR ''E''" init_scan 7]
    by simp
qed

theorem parse_intel_hex_ends_with_eof_witness:
  "\<exists>pre l post. split_nl sample_hex = pre @ l # post \<and> eof_line l \<and> (\<forall>x \<in> set post. js_trim x = [])"
  by (rule parse_intel_hex_ends_with_eof [OF sample_parses])

end
