(* ===== verification/Flash_Sectors.thy ===== *)
theory Flash_Sectors
  imports Intel_Hex
begin

section \<open>Flash geometry and erase plans: protocol/src/flasher/flash-sectors.ts\<close>

text \<open>
  The static sector tables, the DfuSe layout descriptor and the erase plans made from them. A
  target is named by a text (\<open>BobFlightMcu | string\<close>); \<open>None\<close> is \<open>undefined\<close> or \<open>null\<close>.
  The two planners run the same loop; what they rely on of a sector table is the interface
  \<open>flash_map\<close>, interpreted below on the static tables and on the parsed descriptors.
\<close>

datatype mcu = F405 | F722 | F745

definition as_mcu :: "string \<Rightarrow> mcu option" where
  "as_mcu s = (if s = ''F745'' then Some F745 else if s = ''F722'' then Some F722
     else if s = ''F405'' then Some F405 else None)"

definition DEFAULT_FLASH_BASE :: nat where "DEFAULT_FLASH_BASE = 134217728"

fun MCU_FLASH_SIZE :: "mcu \<Rightarrow> nat" where
  "MCU_FLASH_SIZE F405 = 1024 * 1024"
| "MCU_FLASH_SIZE F745 = 1024 * 1024"
| "MCU_FLASH_SIZE F722 = 512 * 1024"

fun SIZES :: "mcu \<Rightarrow> nat list" where
  "SIZES F405 = [16, 16, 16, 16, 64, 128, 128, 128, 128, 128, 128, 128]"
| "SIZES F745 = [32, 32, 32, 32, 128, 256, 256, 256]"
| "SIZES F722 = [16, 16, 16, 16, 64, 128, 128, 128]"

datatype flash_error =
    SelectTarget
  | InvalidRange nat
  | LayoutMissing
  | LayoutNotUnderstood string
  | LayoutBadCount string
  | DoesNotFit nat nat
  | FullEraseTarget
  | GeometryMismatch

record sector =
  sec_start :: nat
  sec_end :: nat

text \<open>\<open>sizes.map(kib => ...)\<close> with the running address.\<close>

fun sectors_from :: "nat \<Rightarrow> nat list \<Rightarrow> sector list" where
  "sectors_from a [] = []"
| "sectors_from a (kib # ks) =
     \<lparr>sec_start = a, sec_end = a + kib * 1024\<rparr> # sectors_from (a + kib * 1024) ks"

fun address_after :: "nat \<Rightarrow> nat list \<Rightarrow> nat" where
  "address_after a [] = a"
| "address_after a (kib # ks) = address_after (a + kib * 1024) ks"

definition intersects :: "hex_region \<Rightarrow> sector \<Rightarrow> bool" where
  "intersects r s \<longleftrightarrow> address r < sec_end s \<and> region_end r > sec_start s"

text \<open>\<open>Set.add\<close> on a set kept in insertion order.\<close>

definition set_add :: "'a \<Rightarrow> 'a list \<Rightarrow> 'a list" where
  "set_add x xs = (if x \<in> set xs then xs else xs @ [x])"

definition range_ok :: "nat \<Rightarrow> nat \<Rightarrow> hex_region \<Rightarrow> bool" where
  "range_ok base limit r \<longleftrightarrow> address r \<le> MAX_SAFE_INTEGER \<and> base \<le> address r
     \<and> region_end r \<le> MAX_SAFE_INTEGER \<and> region_end r \<le> limit \<and> data r \<noteq> []"

definition select_step ::
  "(hex_region \<Rightarrow> flash_error) \<Rightarrow> nat \<Rightarrow> nat \<Rightarrow> sector list \<Rightarrow> hex_region \<Rightarrow> nat list \<Rightarrow> flash_error + nat list" where
  "select_step err base limit secs r selected =
     (if \<not> range_ok base limit r then Inl (err r)
      else Inr (foldl (\<lambda>sel s. if intersects r s then set_add (sec_start s) sel else sel) selected secs))"

definition plan_sector_erases :: "hex_region list \<Rightarrow> string option \<Rightarrow> flash_error + nat list" where
  "plan_sector_erases rs mcu =
     (case Option.bind mcu as_mcu of
        None \<Rightarrow> Inl SelectTarget
      | Some m \<Rightarrow>
          (let secs = sectors_from DEFAULT_FLASH_BASE (SIZES m);
               limit = address_after DEFAULT_FLASH_BASE (SIZES m)
           in res_bind (res_fold (select_step (\<lambda>r. InvalidRange (address r)) DEFAULT_FLASH_BASE limit secs) rs [])
                (\<lambda>selected. Inr (sort selected))))"

subsection \<open>The DfuSe descriptor\<close>

record dfu_layout =
  layout_base :: nat
  layout_sectors :: "sector list"
  total_bytes :: nat
  sizes_kib :: "nat list"

text \<open>A literal of the case-insensitive expressions.\<close>

definition match_ci :: "string \<Rightarrow> string \<Rightarrow> string option" where
  "match_ci pat s =
     (if length pat \<le> length s \<and> js_lower_ascii (take (length pat) s) = js_lower_ascii pat
      then Some (drop (length pat) s) else None)"

text \<open>
  \<open>/^\s*@Internal Flash\s*\/\s*0x08000000\s*\/\s*([^/]+?)\s*$/i\<close>. Where only white space follows the
  second slash the expression may still match that white space as its group; the group then is
  refused below with the same error, so the recogniser refuses it here.
\<close>

definition match_layout :: "string \<Rightarrow> string option" where
  "match_layout name =
     Option.bind (match_ci ''@Internal Flash'' (js_trim_start name)) (\<lambda>r1.
     Option.bind (match_ci ''/'' (js_trim_start r1)) (\<lambda>r2.
     Option.bind (match_ci ''0x08000000'' (js_trim_start r2)) (\<lambda>r3.
     Option.bind (match_ci ''/'' (js_trim_start r3)) (\<lambda>r4.
       let g = js_trim r4 in if g \<noteq> [] \<and> CHR ''/'' \<notin> set g then Some g else None))))"

text \<open>\<open>/^\s*(\d{1,3})\s*\*\s*(\d{1,4})\s*K\s*g\s*$/i\<close>.\<close>

definition match_group :: "string \<Rightarrow> (nat \<times> nat) option" where
  "match_group g =
     (let t = js_trim g; d1 = takeWhile is_digit t; r1 = dropWhile is_digit t in
      if length d1 < 1 \<or> 3 < length d1 then None
      else Option.bind (match_ci ''*'' (js_trim_start r1)) (\<lambda>r2.
        let u = js_trim_start r2; d2 = takeWhile is_digit u; r3 = dropWhile is_digit u in
        if length d2 < 1 \<or> 4 < length d2 then None
        else Option.bind (match_ci ''K'' (js_trim_start r3)) (\<lambda>r4.
             Option.bind (match_ci ''g'' (js_trim_start r4)) (\<lambda>r5.
               if r5 = [] then Some (dec_num d1, dec_num d2) else None))))"

definition group_step :: "string \<Rightarrow> string \<Rightarrow> nat list \<Rightarrow> flash_error + nat list" where
  "group_step name g sizes =
     (case match_group g of
        None \<Rightarrow> Inl (LayoutNotUnderstood name)
      | Some (count, kib) \<Rightarrow>
          if count = 0 \<or> kib = 0 \<or> length sizes + count > 64 then Inl (LayoutBadCount name)
          else Inr (sizes @ replicate count kib))"

definition layout_of_sizes :: "nat list \<Rightarrow> dfu_layout" where
  "layout_of_sizes ks =
     \<lparr>layout_base = DEFAULT_FLASH_BASE, layout_sectors = sectors_from DEFAULT_FLASH_BASE ks,
      total_bytes = address_after DEFAULT_FLASH_BASE ks - DEFAULT_FLASH_BASE, sizes_kib = ks\<rparr>"

definition parse_dfu_flash_layout :: "string option \<Rightarrow> flash_error + dfu_layout" where
  "parse_dfu_flash_layout name =
     (case name of
        None \<Rightarrow> Inl LayoutMissing
      | Some n \<Rightarrow>
          if js_trim n = [] then Inl LayoutMissing
          else case match_layout n of
                 None \<Rightarrow> Inl (LayoutNotUnderstood n)
               | Some g \<Rightarrow> res_bind (res_fold (group_step n) (split_char (CHR '','') g) [])
                             (\<lambda>ks. Inr (layout_of_sizes ks)))"

definition plan_sector_erases_from_layout :: "hex_region list \<Rightarrow> dfu_layout \<Rightarrow> flash_error + nat list" where
  "plan_sector_erases_from_layout rs layout =
     (let limit = layout_base layout + total_bytes layout in
      res_bind (res_fold (select_step (\<lambda>r. DoesNotFit (region_end r) limit) (layout_base layout) limit
                  (layout_sectors layout)) rs [])
        (\<lambda>selected. Inr (sort selected)))"

definition plan_full_chip_erases :: "string option \<Rightarrow> flash_error + nat list" where
  "plan_full_chip_erases mcu =
     (case Option.bind mcu as_mcu of
        None \<Rightarrow> Inl FullEraseTarget
      | Some m \<Rightarrow> Inr (List.map sec_start (sectors_from DEFAULT_FLASH_BASE (SIZES m))))"

definition join_sizes :: "nat list \<Rightarrow> string" where
  "join_sizes ks = js_join '','' (List.map show_nat ks)"

definition assert_main_flash_layout :: "string option \<Rightarrow> string option \<Rightarrow> flash_error + unit" where
  "assert_main_flash_layout name mcu =
     res_bind (plan_full_chip_erases mcu) (\<lambda>_.
     res_bind (parse_dfu_flash_layout name) (\<lambda>layout.
       case Option.bind mcu as_mcu of
         None \<Rightarrow> Inl FullEraseTarget
       | Some m \<Rightarrow> if join_sizes (sizes_kib layout) \<noteq> join_sizes (SIZES m) then Inl GeometryMismatch
                   else Inr ()))"

subsection \<open>The interface: a flash map without holes\<close>

fun contiguous :: "nat \<Rightarrow> nat \<Rightarrow> sector list \<Rightarrow> bool" where
  "contiguous a e [] \<longleftrightarrow> a = e"
| "contiguous a e (s # ss) \<longleftrightarrow> sec_start s = a \<and> a \<le> sec_end s \<and> contiguous (sec_end s) e ss"

definition sector_covers :: "sector \<Rightarrow> nat \<Rightarrow> bool" where
  "sector_covers s a \<longleftrightarrow> sec_start s \<le> a \<and> a < sec_end s"

lemma contiguous_le: "contiguous a e ss \<Longrightarrow> a \<le> e \<and> (\<forall>s \<in> set ss. a \<le> sec_start s \<and> sec_end s \<le> e)"
  by (induction ss arbitrary: a) fastforce+

lemma contiguous_covers:
  "contiguous a e ss \<Longrightarrow> a \<le> x \<Longrightarrow> x < e \<Longrightarrow> \<exists>s \<in> set ss. sector_covers s x"
proof (induction ss arbitrary: a)
  case (Cons s ss)
  show ?case
  proof (cases "x < sec_end s")
    case True
    then show ?thesis using Cons.prems by (auto simp: sector_covers_def)
  next
    case False
    then show ?thesis using Cons.prems Cons.IH [of "sec_end s"] by auto
  qed
qed simp

lemma contiguous_unique:
  "contiguous a e ss \<Longrightarrow> s \<in> set ss \<Longrightarrow> t \<in> set ss \<Longrightarrow> sector_covers s x \<Longrightarrow> sector_covers t x \<Longrightarrow> s = t"
proof (induction ss arbitrary: a)
  case (Cons u ss)
  have "\<forall>v \<in> set ss. sec_end u \<le> sec_start v" using Cons.prems(1) contiguous_le by auto
  then show ?case using Cons by (auto simp: sector_covers_def)
qed simp

lemma set_set_add [simp]: "set (set_add x xs) = insert x (set xs)"
  by (auto simp: set_add_def)

lemma distinct_set_add [simp]: "distinct xs \<Longrightarrow> distinct (set_add x xs)"
  by (simp add: set_add_def)

lemma select_fold:
  "set (foldl (\<lambda>sel s. if P s then set_add (f s) sel else sel) sel secs) = set sel \<union> f ` {s \<in> set secs. P s}
   \<and> (distinct sel \<longrightarrow> distinct (foldl (\<lambda>sel s. if P s then set_add (f s) sel else sel) sel secs))"
  by (induction secs arbitrary: sel) auto

lemma select_step_Inr:
  "select_step err b l secs r sel = Inr sel' \<longleftrightarrow> range_ok b l r
   \<and> sel' = foldl (\<lambda>sel s. if intersects r s then set_add (sec_start s) sel else sel) sel secs"
  by (auto simp: select_step_def)

definition starts_hit :: "hex_region list \<Rightarrow> sector list \<Rightarrow> nat set" where
  "starts_hit rs secs = {sec_start s | s. s \<in> set secs \<and> (\<exists>r \<in> set rs. intersects r s)}"

lemma select_all_Inr:
  assumes "res_fold (select_step err b l secs) rs sel = Inr out" and "distinct sel"
  shows "set out = set sel \<union> starts_hit rs secs" and "distinct out" and "\<forall>r \<in> set rs. range_ok b l r"
proof -
  have "set out = set sel \<union> starts_hit rs secs \<and> distinct out \<and> (\<forall>r \<in> set rs. range_ok b l r)"
    using assms
  proof (induction rs arbitrary: sel)
    case Nil
    then show ?case by (simp add: starts_hit_def)
  next
    case (Cons r rs)
    then obtain mid where m: "select_step err b l secs r sel = Inr mid"
      "res_fold (select_step err b l secs) rs mid = Inr out"
      by (auto simp: res_bind_Inr_iff)
    have mid: "set mid = set sel \<union> sec_start ` {s \<in> set secs. intersects r s}" "distinct mid" "range_ok b l r"
      using m(1) select_fold [where P = "intersects r" and f = sec_start] Cons.prems(2)
      by (auto simp: select_step_Inr)
    show ?case using Cons.IH [OF m(2) mid(2)] mid by (auto simp: starts_hit_def)
  qed
  then show "set out = set sel \<union> starts_hit rs secs" and "distinct out" and "\<forall>r \<in> set rs. range_ok b l r"
    by auto
qed

lemma select_all_ok:
  "\<forall>r \<in> set rs. range_ok b l r \<Longrightarrow> \<exists>out. res_fold (select_step err b l secs) rs sel = Inr out"
  by (induction rs arbitrary: sel) (auto simp: select_step_def)

definition plan_ok :: "nat \<Rightarrow> nat \<Rightarrow> sector list \<Rightarrow> hex_region list \<Rightarrow> nat list \<Rightarrow> bool" where
  "plan_ok b l secs rs plan \<longleftrightarrow> sorted plan \<and> distinct plan \<and> set plan = starts_hit rs secs
     \<and> (\<forall>r \<in> set rs. range_ok b l r)"

locale flash_map =
  fixes secs :: "'k \<Rightarrow> sector list" and base :: "'k \<Rightarrow> nat" and limit :: "'k \<Rightarrow> nat"
  assumes no_holes: "contiguous (base k) (limit k) (secs k)"
begin

definition planned :: "'k \<Rightarrow> (hex_region \<Rightarrow> flash_error) \<Rightarrow> hex_region list \<Rightarrow> flash_error + nat list" where
  "planned k err rs =
     res_bind (res_fold (select_step err (base k) (limit k) (secs k)) rs []) (\<lambda>sel. Inr (sort sel))"

lemma one_sector:
  "base k \<le> x \<Longrightarrow> x < limit k \<Longrightarrow> \<exists>!s. s \<in> set (secs k) \<and> sector_covers s x"
  using contiguous_covers [OF no_holes] contiguous_unique [OF no_holes] by blast

lemma planned_ok: "planned k err rs = Inr plan \<Longrightarrow> plan_ok (base k) (limit k) (secs k) rs plan"
proof -
  assume "planned k err rs = Inr plan"
  then obtain sel where sel: "res_fold (select_step err (base k) (limit k) (secs k)) rs [] = Inr sel"
    and plan: "plan = sort sel" by (auto simp: planned_def res_bind_Inr_iff)
  note f = select_all_Inr [OF sel distinct.simps(1) [THEN iffD2, OF TrueI]]
  show ?thesis using f by (simp add: plan plan_ok_def)
qed

lemma planned_total:
  "(\<exists>plan. planned k err rs = Inr plan) \<longleftrightarrow> (\<forall>r \<in> set rs. range_ok (base k) (limit k) r)"
proof
  assume "\<exists>plan. planned k err rs = Inr plan"
  then show "\<forall>r \<in> set rs. range_ok (base k) (limit k) r" using planned_ok plan_ok_def by blast
next
  assume "\<forall>r \<in> set rs. range_ok (base k) (limit k) r"
  from select_all_ok [OF this, of err "secs k" "[]"] show "\<exists>plan. planned k err rs = Inr plan"
    by (auto simp: planned_def)
qed

text \<open>Every byte an accepted image programs lies in exactly one sector, and that one is erased.\<close>

lemma planned_covers:
  assumes "planned k err rs = Inr plan" and "r \<in> set rs" and "covers r x"
  shows "\<exists>s \<in> set (secs k). sector_covers s x \<and> sec_start s \<in> set plan
       \<and> (\<forall>t \<in> set (secs k). sector_covers t x \<longrightarrow> t = s)"
proof -
  note ok = planned_ok [OF assms(1), unfolded plan_ok_def]
  from ok assms(2,3) have "base k \<le> x" "x < limit k" by (auto simp: range_ok_def covers_def)
  from one_sector [OF this] obtain s where s: "s \<in> set (secs k)" "sector_covers s x"
    and u: "\<forall>t \<in> set (secs k). sector_covers t x \<longrightarrow> t = s" by blast
  have "intersects r s" using s(2) assms(3) by (simp add: intersects_def sector_covers_def covers_def)
  then have "sec_start s \<in> set plan" using ok s(1) assms(2) by (auto simp: starts_hit_def)
  with s u show ?thesis by blast
qed

end

lemma sectors_from_contiguous: "contiguous a (address_after a ks) (sectors_from a ks)"
  by (induction ks arbitrary: a) auto

interpretation table: flash_map
  "\<lambda>m. sectors_from DEFAULT_FLASH_BASE (SIZES m)" "\<lambda>m. DEFAULT_FLASH_BASE"
  "\<lambda>m. address_after DEFAULT_FLASH_BASE (SIZES m)"
  by unfold_locales (rule sectors_from_contiguous)

lemma address_after_ge: "a \<le> address_after a ks"
proof (induction ks arbitrary: a)
  case (Cons kib ks)
  have "a + kib * 1024 \<le> address_after (a + kib * 1024) ks" by (rule Cons.IH)
  then show ?case by simp
qed simp

interpretation device: flash_map
  "\<lambda>ks. layout_sectors (layout_of_sizes ks)" "\<lambda>ks. layout_base (layout_of_sizes ks)"
  "\<lambda>ks. layout_base (layout_of_sizes ks) + total_bytes (layout_of_sizes ks)"
  by unfold_locales (simp add: layout_of_sizes_def sectors_from_contiguous address_after_ge)

lemma plan_sector_erases_table:
  "as_mcu t = Some m \<Longrightarrow>
   plan_sector_erases rs (Some t) = table.planned m (\<lambda>r. InvalidRange (address r)) rs"
  by (simp add: plan_sector_erases_def table.planned_def Let_def)

lemma plan_sector_erases_target:
  "plan_sector_erases rs mcu = Inr plan \<Longrightarrow> \<exists>t m. mcu = Some t \<and> as_mcu t = Some m"
  by (cases mcu) (auto simp: plan_sector_erases_def split: option.splits)

lemma plan_from_layout_device:
  "plan_sector_erases_from_layout rs (layout_of_sizes ks)
   = device.planned ks (\<lambda>r. DoesNotFit (region_end r)
        (layout_base (layout_of_sizes ks) + total_bytes (layout_of_sizes ks))) rs"
  by (simp add: plan_sector_erases_from_layout_def device.planned_def Let_def)

lemma parse_layout_shape:
  "parse_dfu_flash_layout name = Inr l \<Longrightarrow> l = layout_of_sizes (sizes_kib l)"
  by (auto simp: parse_dfu_flash_layout_def res_bind_Inr_iff layout_of_sizes_def
      split: option.splits if_splits)

lemma group_step_inv:
  "group_step n g ks = Inr ks' \<Longrightarrow> length ks \<le> 64 \<and> (\<forall>k \<in> set ks. 0 < k) \<Longrightarrow>
   length ks' \<le> 64 \<and> (\<forall>k \<in> set ks'. 0 < k) \<and> ks' \<noteq> []"
  by (auto simp: group_step_def split: option.splits if_splits)

lemma split_char_nonempty [simp]: "split_char c s \<noteq> []"
  by (induction s) auto

lemma parse_layout_bounds:
  assumes "parse_dfu_flash_layout name = Inr l"
  shows "1 \<le> length (sizes_kib l) \<and> length (sizes_kib l) \<le> 64 \<and> (\<forall>k \<in> set (sizes_kib l). 0 < k)"
proof -
  obtain n g ks where f: "res_fold (group_step n) (split_char (CHR '','') g) [] = Inr ks"
    and l: "l = layout_of_sizes ks"
    using assms by (auto simp: parse_dfu_flash_layout_def res_bind_Inr_iff split: option.splits if_splits)
  obtain x xs where x: "split_char (CHR '','') g = x # xs" by (cases "split_char (CHR '','') g") auto
  with f obtain k1 where k1: "group_step n x [] = Inr k1" "res_fold (group_step n) xs k1 = Inr ks"
    by (auto simp: res_bind_Inr_iff)
  have "length k1 \<le> 64 \<and> (\<forall>k \<in> set k1. 0 < k) \<and> k1 \<noteq> []"
    using group_step_inv [OF k1(1)] by simp
  then have "length ks \<le> 64 \<and> (\<forall>k \<in> set ks. 0 < k) \<and> ks \<noteq> []"
    by (rule res_fold_inv [OF k1(2)]) (use group_step_inv in blast)
  then show ?thesis by (cases ks) (auto simp: l layout_of_sizes_def)
qed

subsection \<open>The descriptor: printing and parsing\<close>

lemma split_char_none: "c \<notin> set s \<Longrightarrow> split_char c s = [s]"
  by (induction s) auto

lemma split_char_line: "c \<notin> set s \<Longrightarrow> split_char c (s @ c # t) = s # split_char c t"
  by (induction s) auto

lemma split_join: "xs \<noteq> [] \<Longrightarrow> \<forall>x \<in> set xs. c \<notin> set x \<Longrightarrow> split_char c (js_join [c] xs) = xs"
  by (induction "[c]" xs rule: js_join.induct) (auto simp: split_char_none split_char_line)

lemma digit_not: "is_digit c \<Longrightarrow> c \<notin> set '',*/KgG '' \<and> \<not> js_space c"
  by (auto simp: is_digit_def js_space_def)

lemma show_nat_no: "\<not> is_digit c \<Longrightarrow> c \<notin> set (show_nat n)"
  using show_nat_digits [of n] by (auto simp: list_all_iff)

lemma map_show_nat_inj: "List.map show_nat xs = List.map show_nat ys \<Longrightarrow> xs = ys"
  by (rule map_injective) (auto intro!: injI dest: arg_cong [where f = dec_num])

lemma join_sizes_inj:
  assumes "join_sizes xs = join_sizes ys" and "xs \<noteq> []" and "ys \<noteq> []"
  shows "xs = ys"
proof -
  have "\<And>n. CHR '','' \<notin> set (show_nat n)" by (rule show_nat_no) (simp add: is_digit_def)
  then have "split_char (CHR '','') (join_sizes zs) = List.map show_nat zs" if "zs \<noteq> []" for zs
    unfolding join_sizes_def using that by (intro split_join) auto
  with assms have "List.map show_nat xs = List.map show_nat ys" by metis
  then show ?thesis by (rule map_show_nat_inj)
qed

text \<open>The text a DfuSe device reports: groups of a sector count and a sector size.\<close>

definition print_group :: "nat \<times> nat \<Rightarrow> string" where
  "print_group g = pad_start 2 (CHR ''0'') (show_nat (fst g)) @ ''*'' @ pad_start 3 (CHR ''0'') (show_nat (snd g)) @ ''Kg''"

definition print_layout :: "(nat \<times> nat) list \<Rightarrow> string" where
  "print_layout gs = ''@Internal Flash /0x08000000/'' @ js_join '','' (List.map print_group gs)"

definition group_sizes :: "(nat \<times> nat) list \<Rightarrow> nat list" where
  "group_sizes gs = concat (List.map (\<lambda>g. replicate (fst g) (snd g)) gs)"

lemma dec_num_pad [simp]: "dec_num (pad_start w (CHR ''0'') s) = dec_num s"
proof -
  have "dec_num (replicate k (CHR ''0'') @ s) = dec_num s" for k
    by (induction k) (simp_all add: dec_num_def)
  then show ?thesis by (simp add: pad_start_def)
qed

lemma pad_digits: "list_all is_digit (pad_start w (CHR ''0'') (show_nat n))"
  using show_nat_digits [of n] by (auto simp: pad_start_def list_all_iff is_digit_def)

lemma length_pad: "n < 10 ^ k \<Longrightarrow> 0 < k \<Longrightarrow> w \<le> k \<Longrightarrow>
  1 \<le> length (pad_start w (CHR ''0'') (show_nat n)) \<and> length (pad_start w (CHR ''0'') (show_nat n)) \<le> k"
  using length_show_nat [of n k] by (cases "show_nat n") (auto simp: pad_start_def)

lemma takeWhile_digits_until:
  "list_all is_digit d \<Longrightarrow> \<not> is_digit c \<Longrightarrow> takeWhile is_digit (d @ c # t) = d \<and> dropWhile is_digit (d @ c # t) = c # t"
  by (induction d) auto

lemma hd_last_digit: "list_all is_digit d \<Longrightarrow> d \<noteq> [] \<Longrightarrow> is_digit (hd d)"
  by (cases d) auto

lemma match_print_group:
  assumes "fst g < 1000" and "snd g < 10000"
  shows "match_group (print_group g) = Some g"
proof -
  define d1 where "d1 = pad_start 2 (CHR ''0'') (show_nat (fst g))"
  define d2 where "d2 = pad_start 3 (CHR ''0'') (show_nat (snd g))"
  have d1: "list_all is_digit d1" "1 \<le> length d1" "length d1 \<le> 3" "dec_num d1 = fst g"
    using length_pad [of "fst g" 3 2] assms pad_digits by (auto simp: d1_def)
  have d2: "list_all is_digit d2" "1 \<le> length d2" "length d2 \<le> 4" "dec_num d2 = snd g"
    using length_pad [of "snd g" 4 3] assms pad_digits by (auto simp: d2_def)
  have g: "print_group g = d1 @ CHR ''*'' # d2 @ ''Kg''" by (simp add: print_group_def d1_def d2_def)
  have hd1: "\<not> js_space (hd d1)" "\<not> js_space (hd d2)" "d1 \<noteq> []" "d2 \<noteq> []"
  proof -
    show "d1 \<noteq> []" "d2 \<noteq> []" using d1(2) d2(2) by auto
    then show "\<not> js_space (hd d1)" "\<not> js_space (hd d2)"
      using hd_last_digit [OF d1(1)] hd_last_digit [OF d2(1)] digit_not by blast+
  qed
  have t: "js_trim (d1 @ CHR ''*'' # d2 @ ''Kg'') = d1 @ CHR ''*'' # d2 @ ''Kg''"
    by (rule js_trim_id) (use hd1 in \<open>simp add: js_space_def\<close>)
  have s2: "js_trim_start (d2 @ ''Kg'') = d2 @ ''Kg''"
    using hd1 by (cases d2) (auto simp: js_trim_start_def)
  have w: "takeWhile is_digit (d1 @ CHR ''*'' # d2 @ ''Kg'') = d1"
    "dropWhile is_digit (d1 @ CHR ''*'' # d2 @ ''Kg'') = CHR ''*'' # d2 @ ''Kg''"
    "takeWhile is_digit (d2 @ ''Kg'') = d2" "dropWhile is_digit (d2 @ ''Kg'') = ''Kg''"
    using takeWhile_digits_until [OF d1(1), of "CHR ''*''" "d2 @ ''Kg''"]
      takeWhile_digits_until [OF d2(1), of "CHR ''K''" "''g''"] by (auto simp: is_digit_def)
  have m: "js_trim_start (CHR ''*'' # d2 @ ''Kg'') = CHR ''*'' # d2 @ ''Kg''"
    "match_ci ''*'' (CHR ''*'' # d2 @ ''Kg'') = Some (d2 @ ''Kg'')"
    "js_trim_start ''Kg'' = ''Kg''" "match_ci ''K'' ''Kg'' = Some ''g''"
    "js_trim_start ''g'' = ''g''" "match_ci ''g'' ''g'' = Some []"
    by (simp_all add: js_trim_start_def js_space_def match_ci_def js_lower_ascii_def)
  have n: "\<not> length d1 < 1" "\<not> 3 < length d1" "\<not> length d2 < 1" "\<not> 4 < length d2"
    using d1(2,3) d2(2,3) by auto
  show ?thesis
    unfolding g match_group_def t Let_def w m s2 Option.bind.simps d1(4) d2(4)
    using n by simp
qed

lemma print_group_chars: "c \<in> set (print_group g) \<Longrightarrow> is_digit c \<or> c \<in> set ''*Kg''"
  using pad_digits [of 2 "fst g"] pad_digits [of 3 "snd g"]
  by (auto simp: print_group_def list_all_iff)

lemma js_join_chars: "c \<in> set (js_join sep xs) \<Longrightarrow> c \<in> set sep \<or> (\<exists>x \<in> set xs. c \<in> set x)"
  by (induction sep xs rule: js_join.induct) auto

lemma group_fold:
  "\<forall>g \<in> set gs. 0 < fst g \<and> fst g < 1000 \<and> 0 < snd g \<and> snd g < 10000 \<Longrightarrow>
   length ks + length (group_sizes gs) \<le> 64 \<Longrightarrow>
   res_fold (group_step n) (List.map print_group gs) ks = Inr (ks @ group_sizes gs)"
proof (induction gs arbitrary: ks)
  case Nil
  then show ?case by (simp add: group_sizes_def)
next
  case (Cons g gs)
  obtain c k where g: "g = (c, k)" by (cases g)
  have "match_group (print_group g) = Some g"
    using match_print_group [of g] Cons.prems by simp
  then have "group_step n (print_group g) ks = Inr (ks @ replicate (fst g) (snd g))"
    using Cons.prems by (simp add: group_step_def group_sizes_def g)
  then show ?case using Cons by (simp add: group_sizes_def)
qed

lemma match_print_layout:
  assumes "gs \<noteq> []"
  shows "match_layout (print_layout gs) = Some (js_join '','' (List.map print_group gs))"
proof -
  define j where "j = js_join '','' (List.map print_group gs)"
  have set_j: "c \<in> set j \<Longrightarrow> is_digit c \<or> c \<in> set '',*Kg''" for c
    using js_join_chars [of c "'',''" "List.map print_group gs"] print_group_chars by (fastforce simp: j_def)
  have ne: "j \<noteq> []"
    using assms by (cases gs; cases "tl gs") (auto simp: j_def print_group_def)
  have sp: "\<not> js_space c" if "c \<in> set j" for c
    using set_j [OF that] by (auto simp: is_digit_def js_space_def)
  have t: "js_trim j = j" using ne sp by (intro js_trim_id) auto
  have slash: "CHR ''/'' \<notin> set j" using set_j by (fastforce simp: is_digit_def)
  have m: "match_ci ''@Internal Flash'' (js_trim_start (''@Internal Flash /0x08000000/'' @ j)) = Some ('' /0x08000000/'' @ j)"
    "match_ci ''/'' (js_trim_start ('' /0x08000000/'' @ j)) = Some (''0x08000000/'' @ j)"
    "match_ci ''0x08000000'' (js_trim_start (''0x08000000/'' @ j)) = Some (''/'' @ j)"
    "match_ci ''/'' (js_trim_start (''/'' @ j)) = Some j"
    by (simp_all add: match_ci_def js_lower_ascii_def js_trim_start_def js_space_def)
  show ?thesis
    unfolding match_layout_def print_layout_def j_def [symmetric] m Option.bind.simps Let_def t
    using ne slash by simp
qed

lemma main_flash_layout_accepts:
  "assert_main_flash_layout name mcu = Inr () \<longleftrightarrow>
     (\<exists>m. Option.bind mcu as_mcu = Some m
        \<and> parse_dfu_flash_layout name = Inr (layout_of_sizes (SIZES m))
        \<and> plan_full_chip_erases mcu = Inr (List.map sec_start (layout_sectors (layout_of_sizes (SIZES m)))))"
  (is "?l \<longleftrightarrow> ?r")
proof
  assume ?l
  then obtain m l where m: "Option.bind mcu as_mcu = Some m" and l: "parse_dfu_flash_layout name = Inr l"
    and j: "join_sizes (sizes_kib l) = join_sizes (SIZES m)"
    by (auto simp: assert_main_flash_layout_def res_bind_Inr_iff split: option.splits if_splits)
  have "sizes_kib l \<noteq> []" using parse_layout_bounds [OF l] by auto
  moreover have "SIZES m \<noteq> []" by (cases m) auto
  ultimately have "sizes_kib l = SIZES m" by (rule join_sizes_inj [OF j])
  then have "l = layout_of_sizes (SIZES m)" using parse_layout_shape [OF l] by simp
  then show ?r using m l by (simp add: plan_full_chip_erases_def layout_of_sizes_def)
next
  assume ?r
  then show ?l by (auto simp: assert_main_flash_layout_def layout_of_sizes_def)
qed

lemma plan_from_layout_ok:
  assumes "parse_dfu_flash_layout name = Inr l" and "plan_sector_erases_from_layout rs l = Inr plan"
  shows "plan_ok (layout_base l) (layout_base l + total_bytes l) (layout_sectors l) rs plan"
    and "r \<in> set rs \<Longrightarrow> covers r x \<Longrightarrow> \<exists>s \<in> set (layout_sectors l). sector_covers s x \<and> sec_start s \<in> set plan"
proof -
  have l: "l = layout_of_sizes (sizes_kib l)" by (rule parse_layout_shape [OF assms(1)])
  have p: "device.planned (sizes_kib l) (\<lambda>r. DoesNotFit (region_end r) (layout_base l + total_bytes l)) rs = Inr plan"
    using assms(2) plan_from_layout_device [of rs "sizes_kib l", folded l] by simp
  show "plan_ok (layout_base l) (layout_base l + total_bytes l) (layout_sectors l) rs plan"
    by (rule device.planned_ok [OF p, folded l])
  show "r \<in> set rs \<Longrightarrow> covers r x \<Longrightarrow> \<exists>s \<in> set (layout_sectors l). sector_covers s x \<and> sec_start s \<in> set plan"
    using device.planned_covers [OF p, folded l] by blast
qed

subsection \<open>Properties\<close>

text \<open>
  C7: an accepted erase plan is strictly ascending, holds the start of exactly the sectors of the
  selected target that some region of the image meets, and every byte that will be programmed
  lies in one and only one sector of the target, whose start is in the plan.
\<close>

theorem plan_sector_erases_exact:
  assumes "plan_sector_erases rs mcu = Inr plan"
  shows "\<exists>t m. mcu = Some t \<and> as_mcu t = Some m \<and> sorted plan \<and> distinct plan
     \<and> set plan = starts_hit rs (sectors_from DEFAULT_FLASH_BASE (SIZES m))
     \<and> (\<forall>r \<in> set rs. \<forall>x. covers r x \<longrightarrow>
          (\<exists>s \<in> set (sectors_from DEFAULT_FLASH_BASE (SIZES m)). sector_covers s x \<and> sec_start s \<in> set plan
             \<and> (\<forall>s' \<in> set (sectors_from DEFAULT_FLASH_BASE (SIZES m)). sector_covers s' x \<longrightarrow> s' = s)))"
proof -
  obtain t m where m: "mcu = Some t" "as_mcu t = Some m"
    using plan_sector_erases_target [OF assms] by blast
  have p: "table.planned m (\<lambda>r. InvalidRange (address r)) rs = Inr plan"
    using assms plan_sector_erases_table [OF m(2), of rs] by (simp add: m(1))
  show ?thesis
    using m table.planned_ok [OF p] table.planned_covers [OF p] by (auto simp: plan_ok_def)
qed

theorem plan_sector_erases_exact_witness:
  "plan_sector_erases [\<lparr>address = 134217728, data = [1, 2]\<rparr>, \<lparr>address = 134283264, data = [3]\<rparr>] (Some ''F722'')
     = Inr [134217728, 134283264]
   \<and> sorted [134217728::nat, 134283264]"
proof -
  have p: "plan_sector_erases [\<lparr>address = 134217728, data = [1, 2]\<rparr>, \<lparr>address = 134283264, data = [3]\<rparr>] (Some ''F722'')
     = Inr [134217728, 134283264]" by code_simp
  from plan_sector_erases_exact [OF p] p show ?thesis by blast
qed

text \<open>
  The plan made from a device's own descriptor succeeds exactly for images that fit that
  device, and then erases, in ascending order and once each, every sector that holds an image byte.
\<close>

theorem plan_from_layout_exact:
  assumes "parse_dfu_flash_layout name = Inr l"
  shows "((\<exists>plan. plan_sector_erases_from_layout rs l = Inr plan)
            \<longleftrightarrow> (\<forall>r \<in> set rs. range_ok (layout_base l) (layout_base l + total_bytes l) r))
       \<and> (\<forall>plan. plan_sector_erases_from_layout rs l = Inr plan \<longrightarrow>
            plan_ok (layout_base l) (layout_base l + total_bytes l) (layout_sectors l) rs plan
            \<and> (\<forall>r \<in> set rs. \<forall>x. covers r x \<longrightarrow>
               (\<exists>s \<in> set (layout_sectors l). sector_covers s x \<and> sec_start s \<in> set plan)))"
proof -
  have l: "l = layout_of_sizes (sizes_kib l)" by (rule parse_layout_shape [OF assms])
  define ks where "ks = sizes_kib l"
  note eq = plan_from_layout_device [of rs ks, unfolded ks_def, folded l]
  have 1: "(\<exists>plan. plan_sector_erases_from_layout rs l = Inr plan)
           \<longleftrightarrow> (\<forall>r \<in> set rs. range_ok (layout_base l) (layout_base l + total_bytes l) r)"
    unfolding eq using device.planned_total [of "sizes_kib l", folded l] by blast
  have 2: "plan_ok (layout_base l) (layout_base l + total_bytes l) (layout_sectors l) rs plan
      \<and> (\<forall>r \<in> set rs. \<forall>x. covers r x \<longrightarrow>
           (\<exists>s \<in> set (layout_sectors l). sector_covers s x \<and> sec_start s \<in> set plan))"
    if a: "plan_sector_erases_from_layout rs l = Inr plan" for plan
  proof -
    have p: "device.planned (sizes_kib l) (\<lambda>r. DoesNotFit (region_end r) (layout_base l + total_bytes l)) rs = Inr plan"
      using a unfolding eq .
    show ?thesis using device.planned_ok [OF p, folded l] device.planned_covers [OF p, folded l] by blast
  qed
  show ?thesis using 1 2 by blast
qed

theorem plan_from_layout_exact_witness:
  "plan_sector_erases_from_layout [\<lparr>address = 134250496, data = [7::byte]\<rparr>]
     (layout_of_sizes [16, 32, 64]) = Inr [134234112]
   \<and> plan_ok 134217728 134332416 (layout_sectors (layout_of_sizes [16, 32, 64]))
       [\<lparr>address = 134250496, data = [7::byte]\<rparr>] [134234112]"
proof -
  have n: "parse_dfu_flash_layout (Some ''@Internal Flash /0x08000000/01*016Kg,01*032Kg,01*064Kg'')
      = Inr (layout_of_sizes [16, 32, 64])" by code_simp
  have p: "plan_sector_erases_from_layout [\<lparr>address = 134250496, data = [7::byte]\<rparr>]
     (layout_of_sizes [16, 32, 64]) = Inr [134234112]" by code_simp
  have b: "layout_base (layout_of_sizes [16, 32, 64]) = 134217728"
    "layout_base (layout_of_sizes [16, 32, 64]) + total_bytes (layout_of_sizes [16, 32, 64]) = 134332416"
    by code_simp+
  show ?thesis using p plan_from_layout_exact [OF n, of "[\<lparr>address = 134250496, data = [7::byte]\<rparr>]"] b by simp
qed

text \<open>
  The descriptor parser reads back what a DfuSe device prints: any groups of at most 64 sectors
  in all, with counts below 1000 and sizes below 10000 KiB, neither zero.
\<close>

theorem parse_print_layout:
  assumes "gs \<noteq> []" and "\<forall>g \<in> set gs. 0 < fst g \<and> fst g < 1000 \<and> 0 < snd g \<and> snd g < 10000"
    and "length (group_sizes gs) \<le> 64"
  shows "parse_dfu_flash_layout (Some (print_layout gs)) = Inr (layout_of_sizes (group_sizes gs))"
proof -
  have ne: "js_trim (print_layout gs) \<noteq> []"
    by (simp add: print_layout_def js_trim_def js_trim_end_def js_trim_start_def js_space_def)
  have nc: "CHR '','' \<notin> set (print_group g)" for g
    using print_group_chars [of "CHR '',''" g] by (auto simp: is_digit_def)
  have s: "split_char (CHR '','') (js_join '','' (List.map print_group gs)) = List.map print_group gs"
    using assms(1) nc by (intro split_join) auto
  show ?thesis
    using ne group_fold [OF assms(2), of "[]" "print_layout gs"] assms(3)
    by (simp add: parse_dfu_flash_layout_def match_print_layout [OF assms(1)] s)
qed

theorem parse_print_layout_witness:
  "parse_dfu_flash_layout (Some (print_layout [(4, 32), (1, 128), (3, 256)])) = Inr (layout_of_sizes (SIZES F745))"
proof -
  have g: "group_sizes [(4, 32), (1, 128), (3, 256)] = SIZES F745" by code_simp
  have "length (group_sizes [(4, 32), (1, 128), (3, 256)]) \<le> 64" by code_simp
  from parse_print_layout [OF _ _ this] show ?thesis unfolding g by simp
qed

text \<open>
  The geometry gate passes exactly when the descriptor parses to the sector sizes of the selected
  target, and then the full-chip plan is the start of every sector the device itself reports.
\<close>

theorem assert_main_flash_layout_iff:
  "assert_main_flash_layout name mcu = Inr () \<longleftrightarrow>
     (\<exists>m. Option.bind mcu as_mcu = Some m
        \<and> parse_dfu_flash_layout name = Inr (layout_of_sizes (SIZES m))
        \<and> plan_full_chip_erases mcu = Inr (List.map sec_start (layout_sectors (layout_of_sizes (SIZES m)))))"
  by (rule main_flash_layout_accepts)

end
