(* ===== verification/Mcu_Gate.thy ===== *)
theory Mcu_Gate
  imports Flash_Sectors
begin

section \<open>Image gates: mcu-gate.ts, f405-diagnostic.ts, types.ts, session.ts\<close>

text \<open>
  What an image must satisfy before anything is sent to a device: the tag and target rules, the
  diagnostic profile of the F405, the application checks of a full-chip erase, the size limit. An
  absent option is \<open>None\<close>. The two image validators run a loop over the regions sorted by address;
  what their clients rely on is the interface \<open>region_scan\<close>, interpreted on both loops.
\<close>

subsection \<open>Options and errors\<close>

record flash_options =
  erase_mode :: "string option"
  image_profile :: "string option"
  start_address :: "nat option"
  opt_verify :: "bool option"
  opt_leave :: "bool option"
  expected_mcu :: "string option"

datatype gate_error =
    UnsupportedTarget string
  | UnsupportedTag string
  | TagMismatch mcu mcu
  | DiagNeedsProfile
  | DiagNeedsReadback
  | DiagNeedsBase
  | DiagTag
  | DiagIncomplete
  | DiagRange
  | DiagDisagree
  | DiagVectorGap
  | DiagStack
  | DiagVectors
  | DiagEntry
  | DiagMarkers
  | FullNeedsTarget
  | FullNeedsVectors
  | FullRange
  | FullDisagree
  | FullVectorGap
  | FullVectors
  | FullEntry
  | ImageTooBig nat mcu

subsection \<open>f405-diagnostic.ts\<close>

definition APPLICATION_END :: nat where "APPLICATION_END = 135004160"
definition F405_STACK :: nat where "F405_STACK = 537001984"

definition F405_DIAGNOSTIC_MARKERS :: "string list" where
  "F405_DIAGNOSTIC_MARKERS =
     [''BobFlight F405 USB diagnostic, MLTEMPF4 reference'' @ [CR, LF]
        @ ''Experimental; not normal firmware or flight-qualified.'' @ [CR, LF],
      ''USB-only; PA9 unchanged; no motor or flash-programming drivers.'' @ [CR, LF]]"

text \<open>The text followed by a zero byte, somewhere in the data.\<close>

definition contains_text :: "byte list \<Rightarrow> string \<Rightarrow> bool" where
  "contains_text d text =
     list_ex (\<lambda>i. u8_at d (i + length text) = 0
                \<and> list_all (\<lambda>j. u8_at d (i + j) = of_char (text ! j)) [0..<length text])
       [0..<length d - length text]"

definition has_f405_markers :: "parsed_hex \<Rightarrow> bool" where
  "has_f405_markers img =
     list_all (\<lambda>text. list_ex (\<lambda>r. contains_text (data r) text) (regions img)) F405_DIAGNOSTIC_MARKERS"

definition mapped :: "hex_region list \<Rightarrow> nat \<Rightarrow> bool" where
  "mapped rs a = list_ex (\<lambda>r. a \<ge> address r \<and> a < region_end r) rs"

text \<open>\<open>(a & ~1) >>> 0\<close> and \<open>a & 1\<close>: JavaScript takes the number modulo \<open>2 ^ 32\<close> first.\<close>

definition thumb_target :: "nat \<Rightarrow> nat" where
  "thumb_target a = unat ((of_nat a :: 32 word) AND NOT 1)"

definition thumb_bit :: "nat \<Rightarrow> bool" where
  "thumb_bit a \<longleftrightarrow> (of_nat a :: 32 word) AND 1 \<noteq> 0"

definition diagnostic_step :: "parsed_hex \<Rightarrow> hex_region \<Rightarrow> nat \<Rightarrow> gate_error + nat" where
  "diagnostic_step img r previous =
     (if address r > MAX_SAFE_INTEGER \<or> region_end r > MAX_SAFE_INTEGER \<or> data r = []
        \<or> address r < previous \<or> region_end r > APPLICATION_END
        \<or> region_end r > DEFAULT_FLASH_BASE + length (image_bytes img)
      then Inl DiagRange
      else if \<not> list_all (\<lambda>i. u8_at (image_bytes img) (address r - DEFAULT_FLASH_BASE + i) = data r ! i)
                 [0..<length (data r)]
      then Inl DiagDisagree
      else Inr (region_end r))"

definition validate_f405_image :: "parsed_hex \<Rightarrow> gate_error + unit" where
  "validate_f405_image img =
     (let rs = sort_key address (regions img); v = image_bytes img in
      if mcu_tag img \<noteq> None \<and> mcu_tag img \<noteq> Some ''F405'' then Inl DiagTag
      else if base_address img \<noteq> DEFAULT_FLASH_BASE \<or> length v < 392
        \<or> length v > APPLICATION_END - DEFAULT_FLASH_BASE \<or> regions img = [] then Inl DiagIncomplete
      else res_bind (res_fold (diagnostic_step img) rs DEFAULT_FLASH_BASE) (\<lambda>_.
        if \<not> list_all (\<lambda>i. mapped rs (DEFAULT_FLASH_BASE + i)) [0..<392] then Inl DiagVectorGap
        else if u32le v 0 \<noteq> F405_STACK then Inl DiagStack
        else if \<not> list_all (\<lambda>off. thumb_bit (u32le v off) \<and> mapped rs (thumb_target (u32le v off)))
                   [4, 15 * 4, (16 + 67) * 4] then Inl DiagVectors
        else if (case entry_address img of None \<Rightarrow> False
                 | Some e \<Rightarrow> e > MAX_SAFE_INTEGER \<or> \<not> mapped rs (thumb_target e)) then Inl DiagEntry
        else if \<not> has_f405_markers img then Inl DiagMarkers
        else Inr ()))"

definition assert_f405_dfu_layout :: "string option \<Rightarrow> flash_error + unit" where
  "assert_f405_dfu_layout name =
     (case parse_dfu_flash_layout name of
        Inl e \<Rightarrow> Inl LayoutMissing
      | Inr l \<Rightarrow>
          if length (sizes_kib l) > 12 then Inl GeometryMismatch
          else if join_sizes (sizes_kib l) \<noteq> ''16,16,16,16,64,128,128,128,128,128,128,128''
          then Inl GeometryMismatch else Inr ())"

subsection \<open>mcu-gate.ts\<close>

definition full_erase_step :: "mcu \<Rightarrow> parsed_hex \<Rightarrow> hex_region \<Rightarrow> nat \<Rightarrow> gate_error + nat" where
  "full_erase_step m img r previous =
     (if address r > MAX_SAFE_INTEGER \<or> region_end r > MAX_SAFE_INTEGER \<or> data r = []
        \<or> address r < previous \<or> region_end r > DEFAULT_FLASH_BASE + MCU_FLASH_SIZE m
        \<or> region_end r > DEFAULT_FLASH_BASE + length (image_bytes img)
      then Inl FullRange
      else if \<not> list_all (\<lambda>i. data r ! i = u8_at (image_bytes img) (address r - DEFAULT_FLASH_BASE + i))
                 [0..<length (data r)]
      then Inl FullDisagree
      else Inr (region_end r))"

definition F7_STACK :: nat where "F7_STACK = 536936448"

definition check_full_erase_image :: "mcu \<Rightarrow> parsed_hex \<Rightarrow> gate_error + unit" where
  "check_full_erase_image m img =
     (let rs = regions img; v = image_bytes img in
      if base_address img \<noteq> DEFAULT_FLASH_BASE \<or> length v < 8 \<or> rs = [] then Inl FullNeedsVectors
      else res_bind (res_fold (full_erase_step m img) (sort_key address rs) DEFAULT_FLASH_BASE) (\<lambda>_.
        if \<not> list_all (\<lambda>i. mapped rs (DEFAULT_FLASH_BASE + i)) [0..<8] then Inl FullVectorGap
        else if u32le v 0 \<noteq> F7_STACK \<or> \<not> thumb_bit (u32le v 4) \<or> \<not> mapped rs (thumb_target (u32le v 4))
        then Inl FullVectors
        else if (case entry_address img of None \<Rightarrow> False
                 | Some e \<Rightarrow> e > MAX_SAFE_INTEGER \<or> \<not> mapped rs (thumb_target e)) then Inl FullEntry
        else Inr ()))"

definition image_end :: "nat \<Rightarrow> parsed_hex \<Rightarrow> nat" where
  "image_end start img =
     (if regions img \<noteq> []
      then foldl (\<lambda>e r. if region_end r > e then region_end r else e) start (regions img)
      else base_address img + length (image_bytes img))"

definition diagnostic_applies :: "parsed_hex \<Rightarrow> flash_options \<Rightarrow> bool" where
  "diagnostic_applies img opts \<longleftrightarrow>
     Option.bind (expected_mcu opts) as_mcu = Some F405 \<or> Option.bind (mcu_tag img) as_mcu = Some F405
     \<or> image_profile opts \<noteq> None \<or> has_f405_markers img"

definition diagnostic_gate :: "parsed_hex \<Rightarrow> flash_options \<Rightarrow> gate_error + unit" where
  "diagnostic_gate img opts =
     (if Option.bind (expected_mcu opts) as_mcu \<noteq> Some F405
        \<or> image_profile opts \<noteq> Some ''f405-usb-diagnostic'' then Inl DiagNeedsProfile
      else if opt_verify opts = Some False \<or> opt_leave opts \<noteq> Some False then Inl DiagNeedsReadback
      else if start_address opts \<noteq> None \<and> start_address opts \<noteq> Some DEFAULT_FLASH_BASE then Inl DiagNeedsBase
      else validate_f405_image img)"

definition full_erase_gate :: "parsed_hex \<Rightarrow> flash_options \<Rightarrow> gate_error + unit" where
  "full_erase_gate img opts =
     (case Option.bind (expected_mcu opts) as_mcu of
        None \<Rightarrow> Inl FullNeedsTarget
      | Some m \<Rightarrow> if opt_verify opts = Some False then Inl FullNeedsTarget
                  else if m \<noteq> F405 then check_full_erase_image m img else Inr ())"

definition size_gate :: "parsed_hex \<Rightarrow> flash_options \<Rightarrow> gate_error + unit" where
  "size_gate img opts =
     (let tagged = Option.bind (mcu_tag img) as_mcu in
      case (case Option.bind (expected_mcu opts) as_mcu of None \<Rightarrow> tagged | Some m \<Rightarrow> Some m) of
        None \<Rightarrow> Inr ()
      | Some m \<Rightarrow>
          (let base = case_option DEFAULT_FLASH_BASE id (start_address opts) in
           if image_end base img > base + MCU_FLASH_SIZE m then Inl (ImageTooBig (image_end base img) m)
           else Inr ()))"

definition tag_gate :: "parsed_hex \<Rightarrow> flash_options \<Rightarrow> gate_error + unit" where
  "tag_gate img opts =
     (case (expected_mcu opts, Option.bind (expected_mcu opts) as_mcu) of
        (Some t, None) \<Rightarrow> Inl (UnsupportedTarget t)
      | (_, expected) \<Rightarrow>
          (case (mcu_tag img, Option.bind (mcu_tag img) as_mcu) of
             (Some t, None) \<Rightarrow> Inl (UnsupportedTag t)
           | (_, tagged) \<Rightarrow>
               (case (expected, tagged) of
                  (Some e, Some t) \<Rightarrow> if e \<noteq> t then Inl (TagMismatch t e) else Inr ()
                | _ \<Rightarrow> Inr ())))"

definition assert_mcu_gate :: "parsed_hex \<Rightarrow> flash_options \<Rightarrow> gate_error + unit" where
  "assert_mcu_gate img opts =
     res_bind (tag_gate img opts) (\<lambda>_.
     res_bind (if diagnostic_applies img opts then diagnostic_gate img opts else Inr ()) (\<lambda>_.
     res_bind (if erase_mode opts = Some ''full-chip'' then full_erase_gate img opts else Inr ()) (\<lambda>_.
     size_gate img opts)))"

datatype firmware = RawBytes "byte list" | Parsed parsed_hex

fun normalize_firmware :: "firmware \<Rightarrow> nat \<Rightarrow> parsed_hex" where
  "normalize_firmware (RawBytes b) start =
     \<lparr>base_address = start, image_bytes = b, regions = [\<lparr>address = start, data = b\<rparr>],
      entry_address = None, mcu_tag = None\<rparr>"
| "normalize_firmware (Parsed p) start = p"

subsection \<open>session.ts: loading an img\<close>

text \<open>The first byte among the first 64 that is not a blank is a colon.\<close>

definition looks_like_intel_hex :: "byte list \<Rightarrow> bool" where
  "looks_like_intel_hex b =
     (case dropWhile (\<lambda>c. c = 32 \<or> c = 9 \<or> c = 13 \<or> c = 10) (take 64 b) of
        [] \<Rightarrow> False
      | c # _ \<Rightarrow> c = 58)"

definition raw_image :: "byte list \<Rightarrow> parsed_hex" where
  "raw_image b = \<lparr>base_address = 0, image_bytes = b, regions = [\<lparr>address = 0, data = b\<rparr>],
     entry_address = None, mcu_tag = None\<rparr>"

text \<open>
  The three shapes \<open>parseFirmware\<close> takes. Decoding bytes to text and encoding text to bytes are the
  platform's \<open>TextDecoder\<close> and \<open>TextEncoder\<close>: parameters.
\<close>

datatype firmware_source = HexText string | NamedFile string "byte list" | PlainBytes "byte list"

definition ends_with :: "string \<Rightarrow> string \<Rightarrow> bool" where
  "ends_with suf s \<longleftrightarrow> length suf \<le> length s \<and> drop (length s - length suf) s = suf"

definition parse_firmware ::
  "(byte list \<Rightarrow> string) \<Rightarrow> (string \<Rightarrow> byte list) \<Rightarrow> firmware_source \<Rightarrow> string option \<Rightarrow> hex_error + parsed_hex" where
  "parse_firmware decode encode src tag =
     res_bind
       (case src of
          HexText t \<Rightarrow>
            if prefix '':'' (js_trim_start t) then parse_intel_hex t else Inr (raw_image (encode t))
        | NamedFile name b \<Rightarrow>
            if ends_with ''.hex'' (js_lower_ascii name) \<or> looks_like_intel_hex b
            then parse_intel_hex (decode b) else Inr (raw_image b)
        | PlainBytes b \<Rightarrow>
            if looks_like_intel_hex b then parse_intel_hex (decode b) else Inr (raw_image b))
       (\<lambda>p. Inr (case tag of None \<Rightarrow> p | Some t \<Rightarrow> if t = [] then p else p\<lparr>mcu_tag := Some t\<rparr>))"

subsection \<open>The interface: a scan that vouches for every region\<close>

lemma mapped_iff: "mapped rs a \<longleftrightarrow> (\<exists>r \<in> set rs. covers r a)"
  by (simp add: mapped_def covers_def list_ex_iff)

lemma mapped_sort [simp]: "mapped (sort_key f rs) a = mapped rs a"
  by (simp add: mapped_iff)

text \<open>
  The regions lie one after the other between the flash base and a limit, hold at least a byte each,
  and repeat the bytes of the flat image.
\<close>

definition image_consistent :: "nat \<Rightarrow> parsed_hex \<Rightarrow> bool" where
  "image_consistent limit img \<longleftrightarrow>
     sorted_wrt before (sort_key address (regions img))
     \<and> (\<forall>r \<in> set (regions img). data r \<noteq> [] \<and> DEFAULT_FLASH_BASE \<le> address r \<and> region_end r \<le> limit
          \<and> region_end r \<le> DEFAULT_FLASH_BASE + length (image_bytes img)
          \<and> (\<forall>i < length (data r). image_bytes img ! (address r - DEFAULT_FLASH_BASE + i) = data r ! i))"

locale region_scan =
  fixes step :: "'k \<Rightarrow> parsed_hex \<Rightarrow> hex_region \<Rightarrow> nat \<Rightarrow> 'e + nat" and limit :: "'k \<Rightarrow> nat"
  assumes step_ok: "step k img r p = Inr q \<Longrightarrow>
      q = region_end r \<and> p \<le> address r \<and> data r \<noteq> [] \<and> region_end r \<le> limit k
      \<and> region_end r \<le> DEFAULT_FLASH_BASE + length (image_bytes img)
      \<and> (\<forall>i < length (data r). u8_at (image_bytes img) (address r - DEFAULT_FLASH_BASE + i) = data r ! i)"
begin

lemma fold_ok:
  assumes "res_fold (step k img) rs p = Inr e" and "DEFAULT_FLASH_BASE \<le> p"
  shows "sorted_wrt before rs
     \<and> (\<forall>r \<in> set rs. p \<le> address r \<and> data r \<noteq> [] \<and> region_end r \<le> limit k
          \<and> region_end r \<le> DEFAULT_FLASH_BASE + length (image_bytes img)
          \<and> (\<forall>i < length (data r). image_bytes img ! (address r - DEFAULT_FLASH_BASE + i) = data r ! i))"
  using assms
proof (induction rs arbitrary: p)
  case (Cons r rs)
  from Cons.prems(1) obtain q where q: "step k img r p = Inr q" "res_fold (step k img) rs q = Inr e"
    by (auto simp: res_bind_Inr_iff)
  note s = step_ok [OF q(1)]
  have ge: "DEFAULT_FLASH_BASE \<le> q" "p \<le> q" using s Cons.prems(2) address_le_end [of r] by linarith+
  note ih = Cons.IH [OF q(2) ge(1)]
  have "\<forall>i < length (data r). address r - DEFAULT_FLASH_BASE + i < length (image_bytes img)"
    using s Cons.prems(2) by (auto simp: region_end_def)
  then have "\<forall>i < length (data r). image_bytes img ! (address r - DEFAULT_FLASH_BASE + i) = data r ! i"
    using s by (auto simp: u8_at_def split: if_splits)
  moreover have "\<forall>x \<in> set rs. before r x" using ih s by (auto simp: before_def)
  moreover have "\<forall>x \<in> set rs. p \<le> address x" using ih ge(2) by (meson le_trans)
  ultimately show ?case using ih s by simp
qed simp

lemma scan_consistent:
  "res_fold (step k img) (sort_key address (regions img)) DEFAULT_FLASH_BASE = Inr e \<Longrightarrow>
   image_consistent (limit k) img"
  unfolding image_consistent_def
  by (drule fold_ok [OF _ order.refl], unfold set_sort) blast

end

interpretation diagnostic: region_scan "\<lambda>_ :: unit. diagnostic_step" "\<lambda>_. APPLICATION_END"
  by unfold_locales (auto simp: diagnostic_step_def list_all_iff split: if_splits)

interpretation full_erase: region_scan full_erase_step "\<lambda>m. DEFAULT_FLASH_BASE + MCU_FLASH_SIZE m"
  by unfold_locales (auto simp: full_erase_step_def list_all_iff split: if_splits)

text \<open>A vector is good when its Thumb bit is set and the image programs the byte it points to.\<close>

definition vector_ok :: "parsed_hex \<Rightarrow> nat \<Rightarrow> bool" where
  "vector_ok img off \<longleftrightarrow> odd (u32le (image_bytes img) off)
     \<and> (\<exists>r \<in> set (regions img). covers r (u32le (image_bytes img) off - 1))"

lemma thumb_bit_odd: "thumb_bit a \<longleftrightarrow> odd a"
proof -
  define w where "w = (of_nat a :: 32 word)"
  have "thumb_bit a \<longleftrightarrow> odd w"
    unfolding thumb_bit_def w_def [symmetric] and_one_eq even_iff_mod_2_eq_zero by (rule refl)
  also have "\<dots> \<longleftrightarrow> bit w 0" by (simp only: bit_0)
  also have "\<dots> \<longleftrightarrow> bit (unat w) 0" by (simp only: bit_unsigned_iff possible_bit_nat simp_thms)
  also have "\<dots> \<longleftrightarrow> odd (unat w)" by (simp only: bit_0)
  also have "\<dots> \<longleftrightarrow> odd a" by (simp add: w_def unat_of_nat dvd_mod_iff)
  finally show ?thesis .
qed

lemma thumb_target_odd: "odd a \<Longrightarrow> a < 2 ^ 32 \<Longrightarrow> thumb_target a = a - 1"
proof -
  assume a: "odd a" "a < 2 ^ 32"
  define w where "w = (of_nat a :: 32 word)"
  have w1: "w AND 1 = 1"
    using a thumb_bit_odd [of a] by (simp add: w_def thumb_bit_def and_one_eq odd_iff_mod_2_eq_one)
  have "w = (w AND NOT 1) OR (w AND 1)" by (rule bit_eqI) (auto simp: bit_simps)
  also have "\<dots> = (w AND NOT 1) + (w AND 1)"
    by (rule disjunctive_add_eq_or [symmetric]) (rule bit_eqI, auto simp: bit_simps)
  finally have "w AND NOT 1 = w - 1" using w1 by (simp add: eq_diff_eq)
  moreover have u: "unat w = a" using a by (simp add: w_def unat_of_nat)
  moreover have "w \<noteq> 0" using w1 by auto
  ultimately show ?thesis by (simp add: thumb_target_def w_def [symmetric] unat_minus_one)
qed

lemma vector_okI:
  "thumb_bit (u32le (image_bytes img) off) \<Longrightarrow> mapped (regions img) (thumb_target (u32le (image_bytes img) off)) \<Longrightarrow>
   vector_ok img off"
  using thumb_target_odd [OF _ u32le_bound [of "image_bytes img" off]]
  by (simp add: vector_ok_def thumb_bit_odd mapped_iff)

lemma validate_f405_ok:
  assumes "validate_f405_image img = Inr ()"
  shows "image_consistent APPLICATION_END img \<and> regions img \<noteq> [] \<and> 392 \<le> length (image_bytes img)
     \<and> (\<forall>i < 392. \<exists>r \<in> set (regions img). covers r (DEFAULT_FLASH_BASE + i))
     \<and> u32le (image_bytes img) 0 = F405_STACK
     \<and> vector_ok img 4 \<and> vector_ok img 60 \<and> vector_ok img 332
     \<and> (mcu_tag img = None \<or> mcu_tag img = Some ''F405'') \<and> has_f405_markers img"
proof -
  from assms obtain e where "res_fold (diagnostic_step img) (sort_key address (regions img)) DEFAULT_FLASH_BASE = Inr e"
    by (auto simp: validate_f405_image_def Let_def res_bind_Inr_iff split: if_splits)
  from diagnostic.scan_consistent [OF this] assms show ?thesis
    by (auto simp: validate_f405_image_def Let_def res_bind_Inr_iff list_all_iff intro!: vector_okI
        simp flip: mapped_iff split: if_splits option.splits)
qed

lemma check_full_erase_ok:
  assumes "check_full_erase_image m img = Inr ()"
  shows "image_consistent (DEFAULT_FLASH_BASE + MCU_FLASH_SIZE m) img \<and> regions img \<noteq> []
     \<and> 8 \<le> length (image_bytes img)
     \<and> (\<forall>i < 8. \<exists>r \<in> set (regions img). covers r (DEFAULT_FLASH_BASE + i))
     \<and> u32le (image_bytes img) 0 = F7_STACK \<and> vector_ok img 4"
proof -
  from assms obtain e where
    "res_fold (full_erase_step m img) (sort_key address (regions img)) DEFAULT_FLASH_BASE = Inr e"
    by (auto simp: check_full_erase_image_def Let_def res_bind_Inr_iff split: if_splits)
  from full_erase.scan_consistent [OF this] assms show ?thesis
    by (auto simp: check_full_erase_image_def Let_def res_bind_Inr_iff list_all_iff intro!: vector_okI
        simp flip: mapped_iff split: if_splits option.splits)
qed

lemma image_end_fold:
  "foldl (\<lambda>e r. if region_end r > e then region_end r else e) s rs \<le> b
   \<longleftrightarrow> (\<forall>r \<in> set rs. region_end r \<le> b) \<and> s \<le> b"
  by (induction rs arbitrary: s) auto

lemma gate_steps:
  assumes "assert_mcu_gate img opts = Inr ()"
  shows "tag_gate img opts = Inr ()" and "diagnostic_applies img opts \<Longrightarrow> diagnostic_gate img opts = Inr ()"
    and "erase_mode opts = Some ''full-chip'' \<Longrightarrow> full_erase_gate img opts = Inr ()"
    and "size_gate img opts = Inr ()"
  using assms by (auto simp: assert_mcu_gate_def res_bind_Inr_iff split: if_splits)

subsection \<open>Sample images\<close>

definition f7_sample :: parsed_hex where
  "f7_sample = (let b = [0, 0, 1, 32, 9, 0, 0, 8, 0, 191, 0, 191] in
     \<lparr>base_address = 134217728, image_bytes = b, regions = [\<lparr>address = 134217728, data = b\<rparr>],
      entry_address = None, mcu_tag = Some ''F722''\<rparr>)"

definition full_options :: flash_options where
  "full_options = \<lparr>erase_mode = Some ''full-chip'', image_profile = None, start_address = None,
     opt_verify = None, opt_leave = None, expected_mcu = Some ''F722''\<rparr>"

definition f405_sample :: parsed_hex where
  "f405_sample =
     (let v = [137, 1, 0, 8];
          b = [0, 0, 2, 32] @ v @ replicate 52 0 @ v @ replicate 268 0 @ v @ replicate 56 0
              @ concat (List.map (\<lambda>t. List.map of_char t @ [0]) F405_DIAGNOSTIC_MARKERS)
      in \<lparr>base_address = 134217728, image_bytes = b, regions = [\<lparr>address = 134217728, data = b\<rparr>],
          entry_address = None, mcu_tag = Some ''F405''\<rparr>)"

definition f405_options :: flash_options where
  "f405_options = \<lparr>erase_mode = None, image_profile = Some ''f405-usb-diagnostic'', start_address = None,
     opt_verify = None, opt_leave = Some False, expected_mcu = Some ''F405''\<rparr>"

lemma f7_no_markers: "\<not> has_f405_markers f7_sample"
  by (simp add: has_f405_markers_def F405_DIAGNOSTIC_MARKERS_def contains_text_def f7_sample_def Let_def)

lemma f7_sample_passes: "assert_mcu_gate f7_sample full_options = Inr ()"
proof -
  define b where "b = image_bytes f7_sample"
  have b: "b = [0, 0, 1, 32, 9, 0, 0, 8, 0, 191, 0, 191]" by (simp add: b_def f7_sample_def Let_def)
  have s: "f7_sample = \<lparr>base_address = 134217728, image_bytes = b,
      regions = [\<lparr>address = 134217728, data = b\<rparr>], entry_address = None, mcu_tag = Some ''F722''\<rparr>"
    by (simp add: b_def f7_sample_def Let_def)
  have u: "u32le b 0 = F7_STACK" "u32le b 4 = 134217737"
    unfolding b by (simp_all add: u32le_value u8_at_def F7_STACK_def)
  have t: "thumb_bit 134217737" "thumb_target 134217737 = 134217736"
    by (simp_all add: thumb_bit_odd thumb_target_odd)
  have m: "mapped [\<lparr>address = 134217728, data = b\<rparr>] a \<longleftrightarrow> 134217728 \<le> a \<and> a < 134217740" for a
    by (simp add: mapped_def region_end_def b)
  have st: "full_erase_step F722 f7_sample \<lparr>address = 134217728, data = b\<rparr> DEFAULT_FLASH_BASE = Inr 134217740"
    by (simp add: full_erase_step_def s region_end_def b MAX_SAFE_INTEGER_def DEFAULT_FLASH_BASE_def u8_at_def list_all_iff)
  have c: "check_full_erase_image F722 f7_sample = Inr ()"
    using st u t by (simp add: check_full_erase_image_def s m Let_def DEFAULT_FLASH_BASE_def list_all_iff) (simp add: b)
  have k: "as_mcu ''F722'' = Some F722" by (simp add: as_mcu_def)
  show ?thesis
    using c k f7_no_markers by (simp add: assert_mcu_gate_def tag_gate_def diagnostic_applies_def full_options_def full_erase_gate_def
        size_gate_def Let_def image_end_def s region_end_def b DEFAULT_FLASH_BASE_def)
qed

lemma contains_text_append: "contains_text (pre @ List.map of_char t @ 0 # post) t"
proof -
  let ?d = "pre @ List.map of_char t @ 0 # post"
  have "u8_at ?d (length pre + length t) = 0" by (simp add: u8_at_def nth_append)
  moreover have "u8_at ?d (length pre + j) = of_char (t ! j)" if "j < length t" for j
    using that by (simp add: u8_at_def nth_append)
  ultimately show ?thesis
    unfolding contains_text_def list_ex_iff list_all_iff by (intro bexI [of _ "length pre"]) auto
qed

lemma f405_sample_passes: "assert_mcu_gate f405_sample f405_options = Inr ()"
proof -
  define b where "b = image_bytes f405_sample"
  have len: "length b = 566" by (simp add: b_def f405_sample_def Let_def F405_DIAGNOSTIC_MARKERS_def)
  have u: "u32le b 0 = F405_STACK" "u32le b 4 = 134218121" "u32le b 60 = 134218121" "u32le b 332 = 134218121"
  proof -
    obtain t where b: "b = [0, 0, 2, 32] @ [137, 1, 0, 8] @ replicate 52 0 @ [137, 1, 0, 8] @ replicate 268 0
       @ [137, 1, 0, 8] @ replicate 56 0 @ t"
      by (simp add: b_def f405_sample_def Let_def)
    show "u32le b 0 = F405_STACK" "u32le b 4 = 134218121" "u32le b 60 = 134218121" "u32le b 332 = 134218121"
      unfolding b by (simp_all add: u32le_value u8_at_def nth_append nth_Cons' F405_STACK_def)
  qed
  have s: "f405_sample = \<lparr>base_address = 134217728, image_bytes = b,
      regions = [\<lparr>address = 134217728, data = b\<rparr>], entry_address = None, mcu_tag = Some ''F405''\<rparr>"
    by (simp add: b_def f405_sample_def Let_def)
  have "\<forall>t \<in> set F405_DIAGNOSTIC_MARKERS. contains_text b t"
  proof -
    let ?m = "\<lambda>t :: string. List.map of_char t @ [0 :: byte]"
    obtain m1 m2 pre where m: "F405_DIAGNOSTIC_MARKERS = [m1, m2]" and b: "b = pre @ ?m m1 @ ?m m2"
      by (simp add: b_def f405_sample_def Let_def F405_DIAGNOSTIC_MARKERS_def)
    show ?thesis
      unfolding m b using contains_text_append [of pre m1 "?m m2"] contains_text_append [of "pre @ ?m m1" m2 "[]"]
      by simp
  qed
  then have h: "has_f405_markers f405_sample" by (simp add: has_f405_markers_def s list_all_iff)
  have m: "mapped [\<lparr>address = 134217728, data = b\<rparr>] a \<longleftrightarrow> 134217728 \<le> a \<and> a < 134218294" for a
    by (simp add: mapped_def region_end_def len)
  have t: "thumb_bit 134218121" "thumb_target 134218121 = 134218120"
    by (simp_all add: thumb_bit_odd thumb_target_odd)
  have "b \<noteq> []" using len by auto
  then have st: "diagnostic_step f405_sample \<lparr>address = 134217728, data = b\<rparr> DEFAULT_FLASH_BASE = Inr 134218294"
    by (simp add: diagnostic_step_def s region_end_def len MAX_SAFE_INTEGER_def DEFAULT_FLASH_BASE_def
        APPLICATION_END_def u8_at_def list_all_iff)
  have v: "validate_f405_image f405_sample = Inr ()"
    using st h by (simp add: validate_f405_image_def s u len m t DEFAULT_FLASH_BASE_def APPLICATION_END_def list_all_iff Let_def)
  have mt: "mcu_tag f405_sample = Some ''F405''" "as_mcu ''F405'' = Some F405" by (simp_all add: s as_mcu_def)
  have o: "diagnostic_gate f405_sample f405_options = Inr ()" "tag_gate f405_sample f405_options = Inr ()"
    using v mt by (simp_all add: diagnostic_gate_def tag_gate_def f405_options_def)
  have sz: "size_gate f405_sample f405_options = Inr ()"
    using mt by (simp add: size_gate_def f405_options_def image_end_def s region_end_def len DEFAULT_FLASH_BASE_def)
  have "erase_mode f405_options \<noteq> Some ''full-chip''" by (simp add: f405_options_def)
  with o sz show ?thesis by (simp add: assert_mcu_gate_def)
qed

subsection \<open>Properties\<close>

definition wanted_mcu :: "parsed_hex \<Rightarrow> flash_options \<Rightarrow> mcu option" where
  "wanted_mcu img opts =
     (case Option.bind (expected_mcu opts) as_mcu of None \<Rightarrow> Option.bind (mcu_tag img) as_mcu | Some m \<Rightarrow> Some m)"

lemma size_gate_iff:
  "size_gate img opts = Inr () \<longleftrightarrow>
     (\<forall>m. wanted_mcu img opts = Some m \<longrightarrow>
        image_end (case_option DEFAULT_FLASH_BASE id (start_address opts)) img
          \<le> case_option DEFAULT_FLASH_BASE id (start_address opts) + MCU_FLASH_SIZE m)"
  by (auto simp: size_gate_def wanted_mcu_def Let_def split: option.splits)

lemma tag_gate_iff:
  "tag_gate img opts = Inr () \<longleftrightarrow>
     (\<forall>t. expected_mcu opts = Some t \<longrightarrow> as_mcu t \<noteq> None) \<and> (\<forall>t. mcu_tag img = Some t \<longrightarrow> as_mcu t \<noteq> None)
     \<and> (\<forall>e t. expected_mcu opts = Some e \<longrightarrow> mcu_tag img = Some t \<longrightarrow> as_mcu e = as_mcu t)"
  by (auto simp: tag_gate_def split: option.splits if_splits)

text \<open>
  C8: no image passes the gate for a chip it was not built for: a target or a tag that is named is a
  supported one, a target and a tag agree, and no region runs past the flash of the chip that either names.
\<close>

theorem assert_mcu_gate_no_cross_flash:
  assumes "assert_mcu_gate img opts = Inr ()"
  shows "(\<forall>t. expected_mcu opts = Some t \<or> mcu_tag img = Some t \<longrightarrow> (\<exists>m. as_mcu t = Some m))
     \<and> (\<forall>e t. expected_mcu opts = Some e \<and> mcu_tag img = Some t \<longrightarrow> as_mcu e = as_mcu t)
     \<and> (\<forall>m. wanted_mcu img opts = Some m \<longrightarrow>
          (\<forall>r \<in> set (regions img). region_end r \<le> case_option DEFAULT_FLASH_BASE id (start_address opts) + MCU_FLASH_SIZE m))"
proof -
  have "\<forall>r \<in> set (regions img). region_end r \<le> b" if "image_end s img \<le> b" for s b
    using that image_end_fold [of s "regions img" b] by (cases "regions img") (auto simp: image_end_def)
  then show ?thesis
    using gate_steps(1,4) [OF assms] unfolding size_gate_iff tag_gate_iff by blast
qed

theorem assert_mcu_gate_no_cross_flash_witness:
  "as_mcu ''F722'' = Some F722
   \<and> list_all (\<lambda>r. region_end r \<le> 134742016) (regions f7_sample)"
proof -
  have w: "wanted_mcu f7_sample full_options = Some F722"
    "case_option DEFAULT_FLASH_BASE id (start_address full_options) + MCU_FLASH_SIZE F722 = 134742016" by code_simp+
  have "as_mcu ''F722'' = Some F722" by code_simp
  moreover have "\<forall>r \<in> set (regions f7_sample). region_end r \<le> 134742016"
    using assert_mcu_gate_no_cross_flash [OF f7_sample_passes] w by metis
  ultimately show ?thesis by (simp add: list_all_iff)
qed

text \<open>
  When the target or the tag is the F405, a profile is named, or the image carries the diagnostic
  markers, the gate lets it pass only as the explicit diagnostic: F405 target, its profile,
  readback on, no leave, default base, and an image that agrees with its flat bytes, stays below the
  settings sectors, fills its vector table, has the expected stack, Thumb vectors into programmed
  bytes and both identity markers.
\<close>

theorem assert_mcu_gate_diagnostic:
  assumes "assert_mcu_gate img opts = Inr ()" and "diagnostic_applies img opts"
  shows "expected_mcu opts = Some ''F405'' \<and> image_profile opts = Some ''f405-usb-diagnostic''
     \<and> opt_verify opts \<noteq> Some False \<and> opt_leave opts = Some False
     \<and> (start_address opts = None \<or> start_address opts = Some DEFAULT_FLASH_BASE)
     \<and> image_consistent APPLICATION_END img
     \<and> (\<forall>i < 392. \<exists>r \<in> set (regions img). covers r (DEFAULT_FLASH_BASE + i))
     \<and> u32le (image_bytes img) 0 = F405_STACK
     \<and> vector_ok img 4 \<and> vector_ok img 60 \<and> vector_ok img 332 \<and> has_f405_markers img"
proof -
  have g: "diagnostic_gate img opts = Inr ()" using gate_steps(2) [OF assms] .
  then have v: "validate_f405_image img = Inr ()"
    by (auto simp: diagnostic_gate_def split: if_splits)
  have "\<And>t. as_mcu t = Some F405 \<Longrightarrow> t = ''F405''" by (simp add: as_mcu_def split: if_splits)
  with g validate_f405_ok [OF v] show ?thesis
    by (auto simp: diagnostic_gate_def split: if_splits option.splits bind_splits)
qed

theorem assert_mcu_gate_diagnostic_witness:
  "image_consistent APPLICATION_END f405_sample \<and> vector_ok f405_sample 332"
proof -
  have "diagnostic_applies f405_sample f405_options"
    by (simp add: diagnostic_applies_def f405_options_def)
  from assert_mcu_gate_diagnostic [OF f405_sample_passes this] show ?thesis by blast
qed

text \<open>
  A full-chip erase passes the gate only for an explicit supported target with readback on, and the
  image must then repeat its flat bytes, lie inside the application area of that chip, program its
  whole vector table head and have a Thumb reset vector into programmed bytes.
\<close>

theorem assert_mcu_gate_full_erase:
  assumes "assert_mcu_gate img opts = Inr ()" and "erase_mode opts = Some ''full-chip''"
  shows "\<exists>t m. expected_mcu opts = Some t \<and> as_mcu t = Some m \<and> opt_verify opts \<noteq> Some False
     \<and> image_consistent (if m = F405 then APPLICATION_END else DEFAULT_FLASH_BASE + MCU_FLASH_SIZE m) img
     \<and> regions img \<noteq> []
     \<and> (\<forall>i < 8. \<exists>r \<in> set (regions img). covers r (DEFAULT_FLASH_BASE + i))
     \<and> u32le (image_bytes img) 0 = (if m = F405 then F405_STACK else F7_STACK) \<and> vector_ok img 4"
proof -
  have g: "full_erase_gate img opts = Inr ()" using gate_steps(3) [OF assms] .
  then obtain t m where t: "expected_mcu opts = Some t" "as_mcu t = Some m" "opt_verify opts \<noteq> Some False"
    by (cases "expected_mcu opts") (auto simp: full_erase_gate_def split: if_splits option.splits)
  show ?thesis
  proof (cases "m = F405")
    case True
    then have "diagnostic_applies img opts" using t by (simp add: diagnostic_applies_def)
    from gate_steps(2) [OF assms(1) this] have "validate_f405_image img = Inr ()"
      by (auto simp: diagnostic_gate_def split: if_splits)
    from validate_f405_ok [OF this] t True show ?thesis by auto
  next
    case False
    with g t have "check_full_erase_image m img = Inr ()" by (simp add: full_erase_gate_def)
    from check_full_erase_ok [OF this] t False show ?thesis by auto
  qed
qed

theorem assert_mcu_gate_full_erase_witness:
  "u32le (image_bytes f7_sample) 0 = F7_STACK \<and> vector_ok f7_sample 4"
proof -
  have o: "erase_mode full_options = Some ''full-chip''" "expected_mcu full_options = Some ''F722''"
    "as_mcu ''F722'' = Some F722" by (simp_all add: full_options_def as_mcu_def)
  show ?thesis using assert_mcu_gate_full_erase [OF f7_sample_passes o(1)] o by auto
qed

text \<open>
  An image outside the diagnostic rules that is flashed sector by sector passes exactly when its target
  and tag are supported and agree and it ends inside that chip's flash.
\<close>

theorem assert_mcu_gate_ordinary_iff:
  assumes "\<not> diagnostic_applies img opts" and "erase_mode opts \<noteq> Some ''full-chip''"
  shows "assert_mcu_gate img opts = Inr () \<longleftrightarrow>
     (\<forall>t. expected_mcu opts = Some t \<longrightarrow> as_mcu t \<noteq> None) \<and> (\<forall>t. mcu_tag img = Some t \<longrightarrow> as_mcu t \<noteq> None)
     \<and> (\<forall>e t. expected_mcu opts = Some e \<longrightarrow> mcu_tag img = Some t \<longrightarrow> as_mcu e = as_mcu t)
     \<and> (\<forall>m. wanted_mcu img opts = Some m \<longrightarrow>
          image_end (case_option DEFAULT_FLASH_BASE id (start_address opts)) img
            \<le> case_option DEFAULT_FLASH_BASE id (start_address opts) + MCU_FLASH_SIZE m)"
proof -
  have "assert_mcu_gate img opts = Inr () \<longleftrightarrow> tag_gate img opts = Inr () \<and> size_gate img opts = Inr ()"
    using assms by (auto simp: assert_mcu_gate_def res_bind_Inr_iff)
  then show ?thesis unfolding tag_gate_iff size_gate_iff by blast
qed

theorem assert_mcu_gate_ordinary_iff_witness:
  "assert_mcu_gate f7_sample (full_options\<lparr>erase_mode := None\<rparr>) = Inr ()
   \<and> assert_mcu_gate (f7_sample\<lparr>mcu_tag := Some ''F745''\<rparr>) (full_options\<lparr>erase_mode := None\<rparr>) \<noteq> Inr ()"
proof -
  define opt0 where "opt0 = full_options\<lparr>erase_mode := None\<rparr>"
  have e: "erase_mode opt0 \<noteq> Some ''full-chip''" "expected_mcu opt0 = Some ''F722''" by (simp_all add: opt0_def full_options_def)
  have d: "\<not> diagnostic_applies f7_sample opt0" "\<not> diagnostic_applies (f7_sample\<lparr>mcu_tag := Some ''F745''\<rparr>) opt0"
    using f7_no_markers
    by (simp_all add: diagnostic_applies_def has_f405_markers_def opt0_def full_options_def f7_sample_def Let_def as_mcu_def)
  have m: "as_mcu ''F722'' = Some F722" "as_mcu ''F745'' = Some F745" "mcu_tag f7_sample = Some ''F722''"
    by (simp_all add: as_mcu_def f7_sample_def Let_def)
  have w: "wanted_mcu f7_sample opt0 = Some F722"
     "image_end (case_option DEFAULT_FLASH_BASE id (start_address opt0)) f7_sample
       \<le> case_option DEFAULT_FLASH_BASE id (start_address opt0) + MCU_FLASH_SIZE F722" unfolding opt0_def by code_simp+
  show ?thesis unfolding opt0_def [symmetric]
    using assert_mcu_gate_ordinary_iff [OF d(1) e(1)] assert_mcu_gate_ordinary_iff [OF d(2) e(1)] m w e(2) by auto
qed

text \<open>
  The two geometry gates agree: the F405 layout check passes exactly for the descriptors that the
  general full-chip check accepts for an F405 target.
\<close>

theorem assert_f405_dfu_layout_iff:
  "assert_f405_dfu_layout name = Inr () \<longleftrightarrow> assert_main_flash_layout name (Some ''F405'') = Inr ()"
proof -
  have j: "join_sizes (SIZES F405) = ''16,16,16,16,64,128,128,128,128,128,128,128''" by code_simp
  have "length (sizes_kib l) \<le> 12"
    if "parse_dfu_flash_layout name = Inr l" "join_sizes (sizes_kib l) = join_sizes (SIZES F405)" for l
  proof -
    have "sizes_kib l = SIZES F405" using parse_layout_bounds [OF that(1)] by (intro join_sizes_inj [OF that(2)]) auto
    then show ?thesis by simp
  qed
  then have k: "\<not> 12 < length (sizes_kib l)"
    if "parse_dfu_flash_layout name = Inr l" "join_sizes (sizes_kib l) = join_sizes (SIZES F405)" for l
    using that by (simp add: not_less)
  have m: "Option.bind (Some ''F405'') as_mcu = Some F405" by (simp add: as_mcu_def)
  show ?thesis
  proof (cases "parse_dfu_flash_layout name")
    case (Inl e)
    then show ?thesis by (simp add: assert_f405_dfu_layout_def assert_main_flash_layout_def res_bind_Inr_iff)
  next
    case (Inr l)
    then show ?thesis
      unfolding assert_f405_dfu_layout_def assert_main_flash_layout_def plan_full_chip_erases_def m j [symmetric]
      using k [OF Inr] by (simp del: SIZES.simps)
  qed
qed

end
