(* ===== verification/Usb_Session.thy ===== *)
theory Usb_Session
  imports Mcu_Gate
begin

section \<open>USB sessions: the effects of webusb-dfu.ts and dfu-descriptors.ts\<close>

text \<open>
  The flasher awaits USB transfers, emits progress and looks at its cancel flag. All three are kept
  in order in a trace. The device, the browser and the user are outside the source, so they are
  parameters that may depend on the whole trace: the reply to an operation, the cancel flag (a
  progress listener may set it), the selected configuration. An operation either returns with the
  new state or throws with it (a \<open>Inl\<close> carries the state too, since a catch block goes on from it).
  Progress messages for people are not modelled, only phase and byte counts.
\<close>

datatype phase = Opening | Erasing | Writing | Verifying | Leaving | Done | Failed | Cancelled

datatype usb_op =
    UsbOpen
  | UsbClose
  | SelectConfiguration nat
  | ClaimInterface nat
  | ReleaseInterface nat
  | SelectAlternate nat nat
  | GetDescriptor nat nat nat nat
  | GetStatus nat
  | ClrStatus nat
  | Abort nat
  | Dnload nat nat "byte list"
  | Upload nat nat nat

text \<open>
  The transfer status and count of an OUT transfer, the status and data of an IN transfer, the
  plain fulfilment of the other promises, or a rejection with the error's name and message.
\<close>

datatype usb_reply = OutReply bool nat | InReply bool "byte list option" | Fulfilled | Rejected string string

datatype event = Usb usb_op usb_reply | Emit phase nat nat | Delay nat

record usb_alt =
  alt_name :: "string option"
  alt_setting :: nat
  alt_class :: nat
  alt_subclass :: nat

record usb_iface =
  if_number :: nat
  alternates :: "usb_alt list"

record usb_config =
  config_value :: nat
  interfaces :: "usb_iface list"

record dfu_env =
  reply :: "event list \<Rightarrow> usb_op \<Rightarrow> usb_reply"
  cancel_flag :: "event list \<Rightarrow> bool"
  config_now :: "event list \<Rightarrow> usb_config option"
  opened_now :: "event list \<Rightarrow> bool"
  browser_ready :: bool
  granted :: "(nat \<times> nat) list"
  picked :: "(nat \<times> nat) option"

record dfu_state =
  trace :: "event list"
  dev_id :: "(nat \<times> nat) option"
  claimed :: bool
  iface :: nat

datatype dfu_context = AtAbort | AtSetAddress nat | AtErase nat | AtWrite nat

datatype descriptor_fault =
  BadDescriptor nat nat | BadConfiguration | BadDevice | BadInterface | BadLanguage | BadString

datatype link_fault =
    NoBrowser
  | PickRejected
  | NotStDfu nat nat
  | NoDevice
  | UsbRejected string string
  | OpenDenied string
  | NoConfiguration
  | NoDfuInterface
  | GetStatusFailed
  | ClrStatusFailed
  | AbortFailed
  | DnloadFailed nat

datatype state_fault =
    DeviceError dfu_context nat nat
  | UnexpectedState dfu_context nat
  | ExcessivePoll dfu_context
  | IdleTimeout dfu_context
  | InitialError nat
  | DeviceBusy nat

datatype data_fault =
    BlankShort nat
  | BlankMismatch nat
  | ReadbackShort nat
  | VerifyMismatch nat byte byte
  | LeaveFailed nat nat

datatype dfu_error =
    GateRefused gate_error
  | LayoutRefused flash_error
  | UnsupportedEraseMode
  | NeedsReadback
  | NeedsDefaultBase
  | NoBytes
  | FlashCancelled
  | LinkFault link_fault
  | StateFault state_fault
  | DataFault data_fault
  | DescriptorFault descriptor_fault
  | DescriptorUnreadable dfu_error
  | SelectConfigurationFailed dfu_error
  | ClaimFailed dfu_error

type_synonym 'a dfu_run = "dfu_state \<Rightarrow> (dfu_error \<times> dfu_state) + ('a \<times> dfu_state)"

definition ret :: "'a \<Rightarrow> 'a dfu_run" where "ret x s = Inr (x, s)"

definition throw :: "dfu_error \<Rightarrow> 'a dfu_run" where "throw e s = Inl (e, s)"

definition seq :: "'a dfu_run \<Rightarrow> ('a \<Rightarrow> 'b dfu_run) \<Rightarrow> 'b dfu_run" where
  "seq m k s = res_bind (m s) (\<lambda>(x, s'). k x s')"

text \<open>A read of the flasher's own fields.\<close>

definition reads :: "(dfu_state \<Rightarrow> 'c) \<Rightarrow> ('c \<Rightarrow> 'a dfu_run) \<Rightarrow> 'a dfu_run" where
  "reads f k s = k (f s) s"

definition unless_ok :: "bool \<Rightarrow> dfu_error \<Rightarrow> unit dfu_run" where
  "unless_ok ok e = (if ok then ret () else throw e)"

definition log_event :: "event \<Rightarrow> dfu_state \<Rightarrow> dfu_state" where
  "log_event ev s = s\<lparr>trace := trace s @ [ev]\<rparr>"

definition emit :: "phase \<Rightarrow> nat \<Rightarrow> nat \<Rightarrow> unit dfu_run" where
  "emit p w t s = Inr ((), log_event (Emit p w t) s)"

definition usb :: "dfu_env \<Rightarrow> usb_op \<Rightarrow> usb_reply dfu_run" where
  "usb env op s =
     (let r = reply env (trace s) op; s' = log_event (Usb op r) s in
      case r of Rejected n m \<Rightarrow> Inl (LinkFault (UsbRejected n m), s') | _ \<Rightarrow> Inr (r, s'))"

definition throw_if_cancelled :: "dfu_env \<Rightarrow> nat \<Rightarrow> nat \<Rightarrow> unit dfu_run" where
  "throw_if_cancelled env w t s =
     (if cancel_flag env (trace s) then Inl (FlashCancelled, log_event (Emit Cancelled w t) s) else Inr ((), s))"

text \<open>A \<open>try\<close> that wraps whatever was thrown.\<close>

definition wrap_error :: "(dfu_error \<Rightarrow> dfu_error) \<Rightarrow> 'a dfu_run \<Rightarrow> 'a dfu_run" where
  "wrap_error f m s = (case m s of Inl (e, s') \<Rightarrow> Inl (f e, s') | Inr r \<Rightarrow> Inr r)"

text \<open>The data of an IN transfer that came back with status \<open>ok\<close>.\<close>

definition in_data :: "usb_reply \<Rightarrow> byte list option" where
  "in_data r = (case r of InReply True (Some d) \<Rightarrow> Some d | _ \<Rightarrow> None)"

definition out_ok :: "usb_reply \<Rightarrow> bool" where
  "out_ok r = (case r of OutReply ok _ \<Rightarrow> ok | _ \<Rightarrow> False)"

subsection \<open>Reasoning\<close>

lemma seq_cong [fundef_cong]:
  "m = m' \<Longrightarrow> s = s' \<Longrightarrow> (\<And>x t. m' s' = Inr (x, t) \<Longrightarrow> k x t = k' x t) \<Longrightarrow> seq m k s = seq m' k' s'"
  by (auto simp: seq_def res_bind_def split: sum.splits)

lemma seq_simps [simp]:
  "seq (ret x) k = k x" "seq (throw e) k = throw e" "seq (seq m k) l = seq m (\<lambda>x. seq (k x) l)"
  by (auto simp: seq_def ret_def throw_def res_bind_def fun_eq_iff split: sum.splits)

lemma seq_Inr_iff: "seq m k s = Inr (y, u) \<longleftrightarrow> (\<exists>x t. m s = Inr (x, t) \<and> k x t = Inr (y, u))"
  by (auto simp: seq_def res_bind_Inr_iff)

lemma ret_Inr_iff [simp]: "ret x s = Inr (y, u) \<longleftrightarrow> y = x \<and> u = s"
  by (auto simp: ret_def)

lemma throw_Inr_iff [simp]: "throw e s \<noteq> Inr r"
  by (simp add: throw_def)

lemma unless_ok_Inr_iff [simp]: "unless_ok ok e s = Inr (y, u) \<longleftrightarrow> ok \<and> u = s"
  by (auto simp: unless_ok_def)

text \<open>The state a computation stops in, however it stops.\<close>

definition stop_state :: "'a dfu_run \<Rightarrow> dfu_state \<Rightarrow> dfu_state" where
  "stop_state m s = (case m s of Inl (_, s') \<Rightarrow> s' | Inr (_, s') \<Rightarrow> s')"

text \<open>
  \<open>only P m\<close>: whatever the device and the user do, \<open>m\<close> appends to the trace, and only events with \<open>P\<close>;
  \<open>P\<close> may speak of the interface number in the state, which \<open>m\<close> leaves alone.
\<close>

definition only :: "(event \<Rightarrow> bool) \<Rightarrow> 'a dfu_run \<Rightarrow> bool" where
  "only P m \<longleftrightarrow> (\<forall>s. \<exists>new. trace (stop_state m s) = trace s @ new \<and> list_all P new)"

named_theorems only_intros "which events a step may add to the trace"

lemma only_ret [only_intros]: "only P (ret x)" and only_throw [only_intros]: "only P (throw e)"
  by (simp_all add: only_def stop_state_def ret_def throw_def)

lemma only_seq [only_intros]:
  assumes "only P m" and "\<And>x. only P (k x)"
  shows "only P (seq m k)"
  unfolding only_def
proof
  fix s
  obtain new where new: "trace (stop_state m s) = trace s @ new" "list_all P new"
    using assms(1) by (auto simp: only_def)
  show "\<exists>new. trace (stop_state (seq m k) s) = trace s @ new \<and> list_all P new"
  proof (cases "m s")
    case (Inl a)
    then show ?thesis using new by (auto simp: stop_state_def seq_def split: prod.splits)
  next
    case (Inr a)
    obtain x t where a: "a = (x, t)" by (cases a)
    obtain new2 where "trace (stop_state (k x) t) = trace t @ new2" "list_all P new2"
      using assms(2) [of x] by (auto simp: only_def)
    then show ?thesis using new Inr
      by (intro exI [of _ "new @ new2"]) (simp add: stop_state_def seq_def a)
  qed
qed

lemma only_reads [only_intros]: "(\<And>x. only P (k x)) \<Longrightarrow> only P (reads f k)"
  by (simp add: only_def stop_state_def reads_def)

lemma only_unless [only_intros]: "only P (unless_ok ok e)"
  by (simp add: unless_ok_def only_intros)

lemma only_emit [only_intros]: "P (Emit p w t) \<Longrightarrow> only P (emit p w t)"
  by (auto simp: only_def stop_state_def emit_def log_event_def)

lemma only_usb [only_intros]: "(\<And>r. P (Usb op r)) \<Longrightarrow> only P (usb env op)"
  by (auto simp: only_def stop_state_def usb_def log_event_def Let_def split: usb_reply.splits)

lemma only_cancel [only_intros]: "P (Emit Cancelled w t) \<Longrightarrow> only P (throw_if_cancelled env w t)"
  by (auto simp: only_def stop_state_def throw_if_cancelled_def log_event_def)

lemma only_wrap [only_intros]: "only P m \<Longrightarrow> only P (wrap_error f m)"
  by (fastforce simp: only_def stop_state_def wrap_error_def split: sum.splits)

lemma only_if [only_intros]: "(b \<Longrightarrow> only P m) \<Longrightarrow> (\<not> b \<Longrightarrow> only P n) \<Longrightarrow> only P (if b then m else n)"
  by simp

lemma only_option [only_intros]:
  "(x = None \<Longrightarrow> only P m) \<Longrightarrow> (\<And>y. x = Some y \<Longrightarrow> only P (k y)) \<Longrightarrow> only P (case x of None \<Rightarrow> m | Some y \<Rightarrow> k y)"
  by (cases x) auto

lemma only_prod [only_intros]:
  "(\<And>y z. x = (y, z) \<Longrightarrow> only P (k y z)) \<Longrightarrow> only P (case x of (y, z) \<Rightarrow> k y z)"
  by (cases x) auto

lemma only_weaken: "only P m \<Longrightarrow> (\<And>e. P e \<Longrightarrow> Q e) \<Longrightarrow> only Q m"
  unfolding only_def by (meson list.pred_mono_strong)

lemma onlyD:
  assumes "only P m" and "m s = Inr (x, t)"
  obtains new where "trace t = trace s @ new" and "list_all P new"
  using assms by (auto simp: only_def stop_state_def dest!: spec [of _ s])

lemma onlyD_error:
  assumes "only P m" and "m s = Inl (e, t)"
  obtains new where "trace t = trace s @ new" and "list_all P new"
  using assms by (auto simp: only_def stop_state_def dest!: spec [of _ s])

end
