(* ===== verification/Dfu_Descriptors.thy ===== *)
theory Dfu_Descriptors
  imports Usb_Session
begin

section \<open>Reading the interface name: protocol/src/flasher/dfu-descriptors.ts\<close>

text \<open>
  The fallback used when the browser does not report the alternate's name. It issues standard
  GET_DESCRIPTOR requests only. A name is UTF-16; the model keeps code units below 256 as they are,
  and since the only reader of the name is the layout parser, which tells a wider unit apart only by
  whether it is white space, a wider blank becomes a space and any other wider unit SUB.
\<close>

definition wide_space :: "nat \<Rightarrow> bool" where
  "wide_space n \<longleftrightarrow> n = 5760 \<or> (8192 \<le> n \<and> n \<le> 8202) \<or> n \<in> {8232, 8233, 8239, 8287, 12288, 65279}"

definition code_unit :: "nat \<Rightarrow> char" where
  "code_unit n = (if n < 256 then char_of n else if wide_space n then CHR '' '' else CHR 0x1A)"

definition read_descriptor ::
  "dfu_env \<Rightarrow> unit dfu_run \<Rightarrow> nat \<Rightarrow> nat \<Rightarrow> nat \<Rightarrow> nat \<Rightarrow> byte list dfu_run" where
  "read_descriptor env check kind index len language =
     seq check (\<lambda>_.
     seq (usb env (GetDescriptor kind index language len)) (\<lambda>response.
     seq check (\<lambda>_.
       case in_data response of
         None \<Rightarrow> throw (DescriptorFault (BadDescriptor kind index))
       | Some b \<Rightarrow>
           if length b < 2 \<or> length b > len then throw (DescriptorFault (BadDescriptor kind index))
           else if unat (b ! 1) \<noteq> kind \<or> b ! 0 < 2 then throw (DescriptorFault (BadDescriptor kind index))
           else ret b)))"

text \<open>The loop over the configuration headers; the accumulator is \<open>selected\<close>.\<close>

fun find_configuration ::
  "dfu_env \<Rightarrow> unit dfu_run \<Rightarrow> nat \<Rightarrow> nat list \<Rightarrow> (nat \<times> byte list) option \<Rightarrow> (nat \<times> byte list) option dfu_run" where
  "find_configuration env check config [] selected = ret selected"
| "find_configuration env check config (index # rest) selected =
     seq (read_descriptor env check 2 index 9 0) (\<lambda>header.
       if length header \<noteq> 9 \<or> header ! 0 \<noteq> 9 \<or> u16le header 2 < 9 \<or> u16le header 2 > 4096 \<or> header ! 5 = 0
       then throw (DescriptorFault BadConfiguration)
       else if unat (header ! 5) = config then
         (if selected \<noteq> None then throw (DescriptorFault BadConfiguration)
          else find_configuration env check config rest (Some (index, header)))
       else find_configuration env check config rest selected)"

text \<open>
  The walk over the nested descriptors: the string index of the last match and the number of matches.
  Each step moves by the descriptor's own length, at least two.
\<close>

function walk_descriptors ::
  "byte list \<Rightarrow> nat \<Rightarrow> nat \<Rightarrow> nat \<Rightarrow> nat \<Rightarrow> nat \<Rightarrow> descriptor_fault + (nat \<times> nat)" where
  "walk_descriptors config ifnum alt off string_index matches =
     (if off \<ge> length config then Inr (string_index, matches)
      else if off + 2 > length config then Inl BadConfiguration
      else
        (let len = unat (config ! off); kind = unat (config ! (off + 1)) in
         if len < 2 \<or> off + len > length config \<or> kind = 2 then Inl BadConfiguration
         else if kind = 4 then
           (if len \<noteq> 9 then Inl BadInterface
            else if unat (config ! (off + 2)) = ifnum \<and> unat (config ! (off + 3)) = alt then
              (if config ! (off + 5) \<noteq> 254 \<or> config ! (off + 6) \<noteq> 1 \<or> config ! (off + 7) \<noteq> 2 then Inl BadInterface
               else walk_descriptors config ifnum alt (off + len) (unat (config ! (off + 8))) (matches + 1))
            else walk_descriptors config ifnum alt (off + len) string_index matches)
         else walk_descriptors config ifnum alt (off + len) string_index matches))"
  by pat_completeness auto

termination
  by (relation "measure (\<lambda>(config, _, _, off, _). length config - off)") auto

declare walk_descriptors.simps [simp del]

text \<open>The 16-bit units of a string descriptor after its two-byte header.\<close>

fun descriptor_units :: "byte list \<Rightarrow> nat list" where
  "descriptor_units (a # b # rest) = u16le [a, b] 0 # descriptor_units rest"
| "descriptor_units _ = []"

definition language_ids :: "byte list \<Rightarrow> nat list" where
  "language_ids b = foldl (\<lambda>ids id. if id \<noteq> 0 \<and> id \<notin> set ids then ids @ [id] else ids) [] (descriptor_units (drop 2 b))"

definition read_dfu_interface_name ::
  "dfu_env \<Rightarrow> unit dfu_run \<Rightarrow> nat \<Rightarrow> nat \<Rightarrow> nat \<Rightarrow> string dfu_run" where
  "read_dfu_interface_name env check config ifnum alt =
     wrap_error DescriptorUnreadable
       (seq (unless_ok (1 \<le> config \<and> config \<le> 255) (DescriptorFault BadConfiguration)) (\<lambda>_.
        seq (read_descriptor env check 1 0 18 0) (\<lambda>dev.
        seq (unless_ok (length dev = 18 \<and> dev ! 0 = 18 \<and> 1 \<le> dev ! 17 \<and> dev ! 17 \<le> 16) (DescriptorFault BadDevice)) (\<lambda>_.
        seq (find_configuration env check config [0..<unat (dev ! 17)] None) (\<lambda>selected.
          case selected of
            None \<Rightarrow> throw (DescriptorFault BadConfiguration)
          | Some (index, header) \<Rightarrow>
              seq (read_descriptor env check 2 index (u16le header 2) 0) (\<lambda>conf.
              seq (unless_ok (length conf = u16le header 2 \<and> prefix header conf) (DescriptorFault BadConfiguration)) (\<lambda>_.
                case walk_descriptors conf ifnum alt 9 0 0 of
                  Inl e \<Rightarrow> throw (DescriptorFault e)
                | Inr (string_index, matches) \<Rightarrow>
                    if matches \<noteq> 1 \<or> string_index = 0 then throw (DescriptorFault BadInterface)
                    else
                      seq (read_descriptor env check 3 0 255 0) (\<lambda>languages.
                      seq (unless_ok (length languages = unat (languages ! 0) \<and> 4 \<le> length languages
                             \<and> length languages mod 2 = 0) (DescriptorFault BadLanguage)) (\<lambda>_.
                      seq (unless_ok (language_ids languages \<noteq> []) (DescriptorFault BadLanguage)) (\<lambda>_.
                      let ids = language_ids languages;
                          language = (if 1033 \<in> set ids then 1033 else hd ids) in
                      seq (read_descriptor env check 3 string_index 255 language) (\<lambda>t.
                      seq (unless_ok (length t = unat (t ! 0) \<and> 4 \<le> length t \<and> length t mod 2 = 0) (DescriptorFault BadString)) (\<lambda>_.
                        ret (List.map code_unit (descriptor_units (drop 2 t)))))))))))))))"

text \<open>The read is passive: nothing but descriptor requests reaches the device.\<close>

definition descriptor_read :: "event \<Rightarrow> bool" where
  "descriptor_read e = (case e of Usb (GetDescriptor _ _ _ _) _ \<Rightarrow> True | Emit Cancelled _ _ \<Rightarrow> True | _ \<Rightarrow> False)"

lemma only_read_descriptor:
  assumes "only P check" and "\<And>k i g n r. P (Usb (GetDescriptor k i g n) r)"
  shows "only P (read_descriptor env check kind index len language)"
  unfolding read_descriptor_def by (intro only_intros assms)

lemma only_find_configuration:
  assumes "only P check" and "\<And>k i g n r. P (Usb (GetDescriptor k i g n) r)"
  shows "only P (find_configuration env check config idx selected)"
  by (induction idx arbitrary: selected) (auto intro!: only_intros only_read_descriptor assms)

lemma only_sum: "(\<And>e. x = Inl e \<Longrightarrow> only P (f e)) \<Longrightarrow> (\<And>y. x = Inr y \<Longrightarrow> only P (g y)) \<Longrightarrow>
  only P (case x of Inl e \<Rightarrow> f e | Inr y \<Rightarrow> g y)"
  by (cases x) auto

lemma only_read_name:
  assumes "only P check" and "\<And>k i g n r. P (Usb (GetDescriptor k i g n) r)"
  shows "only P (read_dfu_interface_name env check config ifnum alt)"
  unfolding read_dfu_interface_name_def Let_def
  by (intro only_intros only_sum only_read_descriptor only_find_configuration assms)

end
