(* ===== verification/Webusb_Dfu.thy ===== *)
theory Webusb_Dfu
  imports Dfu_Descriptors
begin

section \<open>The DfuSe flasher: protocol/src/flasher/webusb-dfu.ts\<close>

text \<open>
  The class \<open>WebUsbDfuFlasher\<close>: the DFU requests, the open and close of the device, and \<open>flash\<close> with
  its phases in the order of the source. \<open>transferSize\<close> never changes, so it is the constant.
\<close>

definition ST_DFU_VID :: nat where "ST_DFU_VID = 1155"
definition ST_DFU_PID :: nat where "ST_DFU_PID = 57105"
definition DEFAULT_ALT :: nat where "DEFAULT_ALT = 0"
definition DFU_CLASS :: nat where "DFU_CLASS = 254"
definition DFU_SUBCLASS :: nat where "DFU_SUBCLASS = 1"
definition dfuIDLE :: nat where "dfuIDLE = 2"
definition dfuDNLOAD_IDLE :: nat where "dfuDNLOAD_IDLE = 5"
definition dfuERROR :: nat where "dfuERROR = 10"
definition DEFAULT_TRANSFER_SIZE :: nat where "DEFAULT_TRANSFER_SIZE = 2048"

record dfu_status =
  b_status :: nat
  poll_timeout :: nat
  b_state :: nat

definition assert_st_dfu :: "nat \<times> nat \<Rightarrow> unit dfu_run" where
  "assert_st_dfu d = unless_ok (fst d = ST_DFU_VID \<and> snd d = ST_DFU_PID) (LinkFault (NotStDfu (fst d) (snd d)))"

definition request_device :: "dfu_env \<Rightarrow> unit dfu_run" where
  "request_device env =
     seq (unless_ok (browser_ready env) (LinkFault NoBrowser)) (\<lambda>_.
       case picked env of
         None \<Rightarrow> throw (LinkFault PickRejected)
       | Some d \<Rightarrow> seq (assert_st_dfu d) (\<lambda>_ s. Inr ((), s\<lparr>dev_id := Some d, claimed := False\<rparr>)))"

subsection \<open>DFU requests\<close>

definition parse_status :: "byte list \<Rightarrow> dfu_status" where
  "parse_status b =
     \<lparr>b_status = unat (b ! 0),
      poll_timeout = unat ((ucast (b ! 1) :: 32 word) OR push_bit 8 (ucast (b ! 2)) OR push_bit 16 (ucast (b ! 3))),
      b_state = unat (b ! 4)\<rparr>"

definition get_status :: "dfu_env \<Rightarrow> dfu_status dfu_run" where
  "get_status env = reads iface (\<lambda>i.
     seq (usb env (GetStatus i)) (\<lambda>r.
       case in_data r of
         None \<Rightarrow> throw (LinkFault GetStatusFailed)
       | Some b \<Rightarrow> if length b < 6 then throw (LinkFault GetStatusFailed) else ret (parse_status b)))"

definition clear_status :: "dfu_env \<Rightarrow> unit dfu_run" where
  "clear_status env = reads iface (\<lambda>i.
     seq (usb env (ClrStatus i)) (\<lambda>r. unless_ok (out_ok r) (LinkFault ClrStatusFailed)))"

definition check_not_cancelled :: "dfu_env \<Rightarrow> unit dfu_run" where
  "check_not_cancelled env s = (if cancel_flag env (trace s) then Inl (FlashCancelled, s) else Inr ((), s))"

definition delay :: "nat \<Rightarrow> unit dfu_run" where
  "delay ms s = Inr ((), log_event (Delay ms) s)"

fun wait_until_idle :: "dfu_env \<Rightarrow> dfu_context \<Rightarrow> nat \<Rightarrow> nat \<Rightarrow> unit dfu_run" where
  "wait_until_idle env ctx expected 0 = throw (StateFault (IdleTimeout ctx))"
| "wait_until_idle env ctx expected (Suc tries) =
     seq (check_not_cancelled env) (\<lambda>_.
     seq (get_status env) (\<lambda>st.
       if b_status st \<noteq> 0 \<or> b_state st = dfuERROR then throw (StateFault (DeviceError ctx (b_status st) (b_state st)))
       else if b_state st = expected then ret ()
       else if b_state st \<noteq> 3 \<and> b_state st \<noteq> 4 then throw (StateFault (UnexpectedState ctx (b_state st)))
       else if max (poll_timeout st) 1 > 30000 then throw (StateFault (ExcessivePoll ctx))
       else seq (delay (max (poll_timeout st) 1)) (\<lambda>_. wait_until_idle env ctx expected tries)))"

definition abort_to_idle :: "dfu_env \<Rightarrow> unit dfu_run" where
  "abort_to_idle env = reads iface (\<lambda>i.
     seq (usb env (Abort i)) (\<lambda>r.
     seq (unless_ok (out_ok r) (LinkFault AbortFailed)) (\<lambda>_. wait_until_idle env AtAbort dfuIDLE 100)))"

definition prepare_device :: "dfu_env \<Rightarrow> unit dfu_run" where
  "prepare_device env =
     seq (get_status env) (\<lambda>st.
     seq (if b_state st = dfuERROR then clear_status env
          else if b_status st \<noteq> 0 then throw (StateFault (InitialError (b_status st)))
          else unless_ok (b_state st \<in> {dfuIDLE, dfuDNLOAD_IDLE, 9}) (StateFault (DeviceBusy (b_state st)))) (\<lambda>_.
     abort_to_idle env))"

definition dnload :: "dfu_env \<Rightarrow> nat \<Rightarrow> byte list \<Rightarrow> unit dfu_run" where
  "dnload env block d = reads iface (\<lambda>i.
     seq (usb env (Dnload block i d)) (\<lambda>r.
       unless_ok (case r of OutReply ok n \<Rightarrow> ok \<and> n = length d | _ \<Rightarrow> False) (LinkFault (DnloadFailed block))))"

text \<open>\<open>cmd[0] = opcode; cmd[k + 1] = (address >> 8 * k) & 0xff\<close>.\<close>

definition dfuse_command :: "byte \<Rightarrow> nat \<Rightarrow> byte list" where
  "dfuse_command opcode a =
     [opcode, of_nat a, of_nat (a div 256), of_nat (a div 65536), of_nat (a div 16777216)]"

definition DFUSE_SET_ADDRESS :: byte where "DFUSE_SET_ADDRESS = 33"
definition DFUSE_ERASE :: byte where "DFUSE_ERASE = 65"

definition dfuse_set_address :: "dfu_env \<Rightarrow> nat \<Rightarrow> unit dfu_run" where
  "dfuse_set_address env a =
     seq (dnload env 0 (dfuse_command DFUSE_SET_ADDRESS a)) (\<lambda>_.
     wait_until_idle env (AtSetAddress a) dfuDNLOAD_IDLE 100)"

definition dfuse_erase :: "dfu_env \<Rightarrow> nat \<Rightarrow> unit dfu_run" where
  "dfuse_erase env a =
     seq (dnload env 0 (dfuse_command DFUSE_ERASE a)) (\<lambda>_.
     wait_until_idle env (AtErase a) dfuDNLOAD_IDLE 100)"

subsection \<open>Opening and closing\<close>

definition find_dfu_interface :: "usb_config option \<Rightarrow> nat \<Rightarrow> link_fault + (nat \<times> nat)" where
  "find_dfu_interface cfg alt =
     (case cfg of
        None \<Rightarrow> Inl NoConfiguration
      | Some c \<Rightarrow>
          (let dfu = \<lambda>a. alt_class a = DFU_CLASS \<and> alt_subclass a = DFU_SUBCLASS;
               exact = [(if_number i, alt_setting a). i \<leftarrow> interfaces c, a \<leftarrow> alternates i, dfu a \<and> alt_setting a = alt];
               any_dfu = [(if_number i, alt). i \<leftarrow> interfaces c, a \<leftarrow> alternates i, dfu a]
           in case exact of
                found # _ \<Rightarrow> Inr found
              | [] \<Rightarrow> (case any_dfu of found # _ \<Rightarrow> Inr found | [] \<Rightarrow> Inl NoDfuInterface)))"

definition choose_device :: "dfu_env \<Rightarrow> unit dfu_run" where
  "choose_device env s =
     (case dev_id s of
        Some d \<Rightarrow> assert_st_dfu d s
      | None \<Rightarrow>
          (case find (\<lambda>d. fst d = ST_DFU_VID \<and> snd d = ST_DFU_PID) (granted env) of
             None \<Rightarrow> throw (LinkFault NoDevice) s
           | Some d \<Rightarrow> seq (assert_st_dfu d) (\<lambda>_ s. Inr ((), s\<lparr>dev_id := Some d\<rparr>)) s))"

definition open_error :: "dfu_error \<Rightarrow> dfu_error" where
  "open_error e =
     (case e of
        LinkFault (UsbRejected n m) \<Rightarrow>
          if js_includes ''access denied'' (js_lower_ascii m) then LinkFault (OpenDenied m) else e
      | _ \<Rightarrow> e)"

definition open_if_closed :: "dfu_env \<Rightarrow> unit dfu_run" where
  "open_if_closed env = reads (\<lambda>s. opened_now env (trace s)) (\<lambda>opened.
     if opened then ret () else wrap_error open_error (seq (usb env UsbOpen) (\<lambda>_. ret ())))"

definition select_if_unconfigured :: "dfu_env \<Rightarrow> unit dfu_run" where
  "select_if_unconfigured env = reads (\<lambda>s. config_now env (trace s)) (\<lambda>cfg.
     if cfg \<noteq> None then ret ()
     else wrap_error SelectConfigurationFailed (seq (usb env (SelectConfiguration 1)) (\<lambda>_. ret ())))"

definition use_interface :: "dfu_env \<Rightarrow> nat \<Rightarrow> nat dfu_run" where
  "use_interface env alt s =
     (case find_dfu_interface (config_now env (trace s)) alt of
        Inl e \<Rightarrow> Inl (LinkFault e, s)
      | Inr (i, a) \<Rightarrow> Inr (a, s\<lparr>iface := i\<rparr>))"

text \<open>A call whose rejection is swallowed.\<close>

definition ignoring :: "dfu_env \<Rightarrow> usb_op \<Rightarrow> dfu_state \<Rightarrow> dfu_state" where
  "ignoring env op s = stop_state (usb env op) s"

text \<open>The proof that the interface answers; on failure the interface is released again.\<close>

definition prove_claim :: "dfu_env \<Rightarrow> unit dfu_run" where
  "prove_claim env s =
     (case get_status env s of
        Inl (e, s1) \<Rightarrow>
          Inl (ClaimFailed e, ignoring env (ReleaseInterface (iface s1)) (s1\<lparr>claimed := False\<rparr>))
      | Inr (_, s1) \<Rightarrow> Inr ((), s1\<lparr>claimed := True\<rparr>))"

definition claim_interface :: "dfu_env \<Rightarrow> unit dfu_run" where
  "claim_interface env = reads iface (\<lambda>i. seq (usb env (ClaimInterface i)) (\<lambda>_. ret ()))"

definition select_alternate :: "dfu_env \<Rightarrow> nat \<Rightarrow> unit dfu_run" where
  "select_alternate env a = reads iface (\<lambda>i. seq (usb env (SelectAlternate i a)) (\<lambda>_. ret ()))"

definition open_device :: "dfu_env \<Rightarrow> nat \<Rightarrow> unit dfu_run" where
  "open_device env alt =
     seq (unless_ok (browser_ready env) (LinkFault NoBrowser)) (\<lambda>_.
     seq (choose_device env) (\<lambda>_.
     seq (open_if_closed env) (\<lambda>_.
     seq (select_if_unconfigured env) (\<lambda>_.
     seq (use_interface env alt) (\<lambda>found_alt.
     seq (reads dev_id (\<lambda>d. case d of None \<Rightarrow> ret () | Some x \<Rightarrow> assert_st_dfu x)) (\<lambda>_.
     seq (claim_interface env) (\<lambda>_.
     seq (select_alternate env found_alt) (\<lambda>_.
     prove_claim env))))))))"

definition close_device :: "dfu_env \<Rightarrow> dfu_state \<Rightarrow> dfu_state" where
  "close_device env s =
     (let s1 = s\<lparr>claimed := False\<rparr> in ignoring env UsbClose (ignoring env (ReleaseInterface (iface s1)) s1))"

definition assert_claimed :: "unit dfu_run" where
  "assert_claimed s =
     (case dev_id s of
        None \<Rightarrow> Inl (LinkFault NoDevice, s)
      | Some d \<Rightarrow> if claimed s then assert_st_dfu d s else Inl (LinkFault NoDevice, s))"

subsection \<open>The phases of flash\<close>

definition lift_flash :: "flash_error + 'a \<Rightarrow> 'a dfu_run" where
  "lift_flash r = (case r of Inl e \<Rightarrow> throw (LayoutRefused e) | Inr x \<Rightarrow> ret x)"

text \<open>\<open>device.configuration?.interfaces.find(...)?.alternates.find(...)?.interfaceName\<close>.\<close>

definition reported_name :: "usb_config option \<Rightarrow> nat \<Rightarrow> string option" where
  "reported_name cfg ifnum =
     Option.bind cfg (\<lambda>c.
     Option.bind (find (\<lambda>i. if_number i = ifnum) (interfaces c)) (\<lambda>i.
     Option.bind (find (\<lambda>a. alt_setting a = DEFAULT_ALT) (alternates i)) alt_name))"

definition layout_name :: "dfu_env \<Rightarrow> nat \<Rightarrow> string option dfu_run" where
  "layout_name env tot = reads (\<lambda>s. (config_now env (trace s), iface s)) (\<lambda>(cfg, i).
     (let name = reported_name cfg i in
      if (case name of None \<Rightarrow> True | Some n \<Rightarrow> js_trim n = []) then
        seq (read_dfu_interface_name env (throw_if_cancelled env 0 tot)
               (case cfg of None \<Rightarrow> 0 | Some c \<Rightarrow> config_value c) i DEFAULT_ALT)
          (\<lambda>n. ret (Some n))
      else ret name))"

definition plan_erases ::
  "dfu_env \<Rightarrow> flash_options \<Rightarrow> hex_region list \<Rightarrow> nat \<Rightarrow> nat list dfu_run" where
  "plan_erases env opts rs tot =
     (let full = (erase_mode opts = Some ''full-chip'') in
      seq (layout_name env tot) (\<lambda>name.
      seq (if full then lift_flash (assert_main_flash_layout name (expected_mcu opts)) else ret ()) (\<lambda>_.
      seq (if image_profile opts = Some ''f405-usb-diagnostic'' then lift_flash (assert_f405_dfu_layout name) else ret ()) (\<lambda>_.
      seq (lift_flash (res_bind (parse_dfu_flash_layout name) (plan_sector_erases_from_layout rs))) (\<lambda>sectors.
      seq (if full then lift_flash (plan_full_chip_erases (expected_mcu opts)) else ret sectors) (\<lambda>plan.
      seq (throw_if_cancelled env 0 tot) (\<lambda>_. ret plan)))))))"

fun erase_all :: "dfu_env \<Rightarrow> nat \<Rightarrow> nat list \<Rightarrow> unit dfu_run" where
  "erase_all env tot [] = ret ()"
| "erase_all env tot (a # as) =
     seq (throw_if_cancelled env 0 tot) (\<lambda>_.
     seq (emit Erasing 0 tot) (\<lambda>_.
     seq (throw_if_cancelled env 0 tot) (\<lambda>_.
     seq (dfuse_erase env a) (\<lambda>_.
     erase_all env tot as))))"

definition upload :: "dfu_env \<Rightarrow> nat \<Rightarrow> usb_reply dfu_run" where
  "upload env n = reads iface (\<lambda>i. usb env (Upload 2 i n))"

text \<open>The blank check over the whole flash, one transfer at a time.\<close>

function blank_check :: "dfu_env \<Rightarrow> nat \<Rightarrow> nat \<Rightarrow> nat \<Rightarrow> unit dfu_run" where
  "blank_check env tot flash_bytes off =
     (if off \<ge> flash_bytes then ret ()
      else
        (let n = min DEFAULT_TRANSFER_SIZE (flash_bytes - off) in
         seq (throw_if_cancelled env 0 tot) (\<lambda>_.
         seq (dfuse_set_address env (DEFAULT_FLASH_BASE + off)) (\<lambda>_.
         seq (abort_to_idle env) (\<lambda>_.
         seq (upload env n) (\<lambda>r.
           case in_data r of
             None \<Rightarrow> throw (DataFault (BlankShort (DEFAULT_FLASH_BASE + off)))
           | Some b \<Rightarrow>
               if length b \<noteq> n then throw (DataFault (BlankShort (DEFAULT_FLASH_BASE + off)))
               else
                 (case find (\<lambda>i. b ! i \<noteq> 255) [0..<n] of
                    Some i \<Rightarrow> throw (DataFault (BlankMismatch (DEFAULT_FLASH_BASE + off + i)))
                  | None \<Rightarrow>
                      seq (abort_to_idle env) (\<lambda>_.
                      seq (emit Erasing 0 tot) (\<lambda>_.
                      blank_check env tot flash_bytes (off + DEFAULT_TRANSFER_SIZE))))))))))"
  by pat_completeness auto

termination
  by (relation "measure (\<lambda>(env, tot, flash_bytes, off). flash_bytes - off)")
     (auto simp: DEFAULT_TRANSFER_SIZE_def)

declare blank_check.simps [simp del]

text \<open>The write loop of one region: the running count is \<open>written\<close>.\<close>

function write_region :: "dfu_env \<Rightarrow> nat \<Rightarrow> hex_region \<Rightarrow> nat \<Rightarrow> nat \<Rightarrow> nat dfu_run" where
  "write_region env tot r off written =
     (if off \<ge> length (data r) then ret written
      else
        (let n = min DEFAULT_TRANSFER_SIZE (length (data r) - off) in
         seq (throw_if_cancelled env written tot) (\<lambda>_.
         seq (dfuse_set_address env (address r + off)) (\<lambda>_.
         seq (dnload env 2 (take n (drop off (data r)))) (\<lambda>_.
         seq (wait_until_idle env (AtWrite (address r + off)) dfuDNLOAD_IDLE 100) (\<lambda>_.
         seq (emit Writing (written + n) tot) (\<lambda>_.
         write_region env tot r (off + n) (written + n))))))))"
  by pat_completeness auto

termination
  by (relation "measure (\<lambda>(env, tot, r, off, written). length (data r) - off)")
     (auto simp: DEFAULT_TRANSFER_SIZE_def)

declare write_region.simps [simp del]

fun write_all :: "dfu_env \<Rightarrow> nat \<Rightarrow> hex_region list \<Rightarrow> nat \<Rightarrow> nat dfu_run" where
  "write_all env tot [] written = ret written"
| "write_all env tot (r # rs) written =
     seq (throw_if_cancelled env written tot) (\<lambda>_.
     seq (write_region env tot r 0 written) (\<lambda>w. write_all env tot rs w))"

text \<open>\<open>n === 1 && address > DEFAULT_FLASH_BASE ? 1 : 0\<close>.\<close>

definition read_offset :: "nat \<Rightarrow> nat \<Rightarrow> nat" where
  "read_offset n a = (if n = 1 \<and> a > DEFAULT_FLASH_BASE then 1 else 0)"

function verify_region :: "dfu_env \<Rightarrow> nat \<Rightarrow> nat \<Rightarrow> hex_region \<Rightarrow> nat \<Rightarrow> unit dfu_run" where
  "verify_region env written tot r off =
     (if off \<ge> length (data r) then ret ()
      else
        (let n = min DEFAULT_TRANSFER_SIZE (length (data r) - off); a = address r + off; ro = read_offset n a in
         seq (throw_if_cancelled env written tot) (\<lambda>_.
         seq (dfuse_set_address env (a - ro)) (\<lambda>_.
         seq (abort_to_idle env) (\<lambda>_.
         seq (upload env (max n 2)) (\<lambda>reply.
           case in_data reply of
             None \<Rightarrow> throw (DataFault (ReadbackShort a))
           | Some b \<Rightarrow>
               if length b \<noteq> max n 2 then throw (DataFault (ReadbackShort a))
               else
                 (case find (\<lambda>i. u8_at b (i + ro) \<noteq> data r ! (off + i)) [0..<n] of
                    Some i \<Rightarrow> throw (DataFault (VerifyMismatch (a + i) (data r ! (off + i)) (u8_at b (i + ro))))
                  | None \<Rightarrow>
                      seq (abort_to_idle env) (\<lambda>_.
                      seq (emit Verifying written tot) (\<lambda>_.
                      verify_region env written tot r (off + DEFAULT_TRANSFER_SIZE))))))))))"
  by pat_completeness auto

termination
  by (relation "measure (\<lambda>(env, written, tot, r, off). length (data r) - off)")
     (auto simp: DEFAULT_TRANSFER_SIZE_def)

declare verify_region.simps [simp del]

fun verify_all :: "dfu_env \<Rightarrow> nat \<Rightarrow> nat \<Rightarrow> hex_region list \<Rightarrow> unit dfu_run" where
  "verify_all env written tot [] = ret ()"
| "verify_all env written tot (r # rs) =
     seq (verify_region env written tot r 0) (\<lambda>_. verify_all env written tot rs)"

text \<open>The status after manifestation; a device that drops off the bus (\<open>NetworkError\<close>) is accepted.\<close>

definition manifest_status :: "dfu_env \<Rightarrow> unit dfu_run" where
  "manifest_status env s =
     (case get_status env s of
        Inl (LinkFault (UsbRejected n m), s1) \<Rightarrow>
          if n = ''NetworkError'' then Inr ((), s1) else Inl (LinkFault (UsbRejected n m), s1)
      | Inl (e, s1) \<Rightarrow> Inl (e, s1)
      | Inr (st, s1) \<Rightarrow>
          if b_status st \<noteq> 0 \<or> b_state st \<notin> {6, 7, 8} then Inl (DataFault (LeaveFailed (b_status st) (b_state st)), s1)
          else Inr ((), s1))"

definition leave_dfu :: "dfu_env \<Rightarrow> nat \<Rightarrow> nat \<Rightarrow> nat \<Rightarrow> unit dfu_run" where
  "leave_dfu env start written tot =
     seq (emit Leaving written tot) (\<lambda>_.
     seq (dfuse_set_address env start) (\<lambda>_.
     seq (dnload env 0 []) (\<lambda>_.
     manifest_status env)))"

text \<open>The \<open>try\<close> block after the device is open; \<open>written\<close> is what \<open>write_all\<close> returns.\<close>

definition flash_steps ::
  "dfu_env \<Rightarrow> flash_options \<Rightarrow> hex_region list \<Rightarrow> nat \<Rightarrow> unit dfu_run" where
  "flash_steps env opts rs tot =
     (let full = (erase_mode opts = Some ''full-chip'');
          flash_bytes = (case Option.bind (expected_mcu opts) as_mcu of None \<Rightarrow> 0 | Some m \<Rightarrow> MCU_FLASH_SIZE m) in
      seq assert_claimed (\<lambda>_.
      seq (plan_erases env opts rs tot) (\<lambda>plan.
      seq (prepare_device env) (\<lambda>_.
      seq (throw_if_cancelled env 0 tot) (\<lambda>_.
      seq (emit Erasing 0 tot) (\<lambda>_.
      seq (erase_all env tot plan) (\<lambda>_.
      seq (if full then blank_check env tot flash_bytes 0 else ret ()) (\<lambda>_.
      seq (write_all env tot rs 0) (\<lambda>written.
      seq (if opt_verify opts \<noteq> Some False then verify_all env written tot rs else ret ()) (\<lambda>_.
      seq (throw_if_cancelled env written tot) (\<lambda>_.
      seq (if opt_leave opts \<noteq> Some False
           then leave_dfu env (case_option DEFAULT_FLASH_BASE id (start_address opts)) written tot else ret ()) (\<lambda>_.
      emit Done written tot))))))))))))"

definition report_failure :: "dfu_env \<Rightarrow> nat \<Rightarrow> dfu_state \<Rightarrow> dfu_state" where
  "report_failure env tot s =
     log_event (Emit (if cancel_flag env (trace s) then Cancelled else Failed) 0 tot) s"

definition flash_session ::
  "dfu_env \<Rightarrow> flash_options \<Rightarrow> hex_region list \<Rightarrow> nat \<Rightarrow> unit dfu_run" where
  "flash_session env opts rs tot s =
     (case open_device env DEFAULT_ALT s of
        Inl (e, s1) \<Rightarrow> Inl (e, report_failure env tot s1)
      | Inr (_, s1) \<Rightarrow>
          (case flash_steps env opts rs tot s1 of
             Inl (e, s2) \<Rightarrow> Inl (e, close_device env (report_failure env tot s2))
           | Inr (_, s2) \<Rightarrow> Inr ((), close_device env s2)))"

definition flash_checks :: "parsed_hex \<Rightarrow> flash_options \<Rightarrow> dfu_error + unit" where
  "flash_checks img opts =
     (case assert_mcu_gate img opts of
        Inl e \<Rightarrow> Inl (GateRefused e)
      | Inr _ \<Rightarrow>
          if erase_mode opts \<notin> {None, Some ''sectors'', Some ''full-chip''} then Inl UnsupportedEraseMode
          else if erase_mode opts = Some ''full-chip'' then
            (case plan_full_chip_erases (expected_mcu opts) of
               Inl e \<Rightarrow> Inl (LayoutRefused e)
             | Inr _ \<Rightarrow> if opt_verify opts = Some False then Inl NeedsReadback else Inr ())
          else Inr ())"

definition flash_regions :: "parsed_hex \<Rightarrow> hex_region list" where
  "flash_regions img =
     (if regions img \<noteq> [] then regions img else [\<lparr>address = base_address img, data = image_bytes img\<rparr>])"

definition flash_total :: "parsed_hex \<Rightarrow> nat" where
  "flash_total img =
     (if regions img \<noteq> [] then sum_list (List.map (\<lambda>r. length (data r)) (regions img)) else length (image_bytes img))"

text \<open>The image and the chip a call of \<open>flash\<close> is about.\<close>

definition flash_image :: "firmware \<Rightarrow> flash_options \<Rightarrow> parsed_hex" where
  "flash_image fw opts = normalize_firmware fw (case_option DEFAULT_FLASH_BASE id (start_address opts))"

definition flash_target :: "firmware \<Rightarrow> flash_options \<Rightarrow> string option" where
  "flash_target fw opts = (case expected_mcu opts of None \<Rightarrow> mcu_tag (flash_image fw opts) | Some t \<Rightarrow> Some t)"

definition flash :: "dfu_env \<Rightarrow> firmware \<Rightarrow> flash_options \<Rightarrow> unit dfu_run" where
  "flash env fw opts =
     (let start = case_option DEFAULT_FLASH_BASE id (start_address opts);
          img = flash_image fw opts;
          rs = flash_regions img;
          tot = flash_total img in
      case flash_checks img opts of
        Inl e \<Rightarrow> seq (emit Failed 0 0) (\<lambda>_. throw e)
      | Inr _ \<Rightarrow>
          seq (lift_flash (plan_sector_erases rs (flash_target fw opts))) (\<lambda>_.
          seq (unless_ok (start \<le> MAX_SAFE_INTEGER \<and> start = DEFAULT_FLASH_BASE) NeedsDefaultBase) (\<lambda>_.
          seq (unless_ok (browser_ready env) (LinkFault NoBrowser)) (\<lambda>_.
          if tot = 0 then seq (emit Failed 0 0) (\<lambda>_. throw NoBytes)
          else seq (emit Opening 0 tot) (\<lambda>_. flash_session env opts rs tot)))))"

subsection \<open>What a trace does to the flash\<close>

text \<open>
  The requests of a trace as the bootloader reads them (AN3156): a five-byte block 0 sets the address
  pointer or erases the sector at an address, block 2 programs at the pointer.
\<close>

datatype effect = EraseAt nat | WriteAt nat "byte list"

definition command_address :: "byte list \<Rightarrow> nat" where
  "command_address d = u32le d 1"

fun next_pointer :: "nat \<Rightarrow> event \<Rightarrow> nat" where
  "next_pointer p (Usb (Dnload 0 _ (op # d)) _) = (if op = DFUSE_SET_ADDRESS then command_address (op # d) else p)"
| "next_pointer p _ = p"

fun effect_of :: "nat \<Rightarrow> event \<Rightarrow> effect list" where
  "effect_of p (Usb (Dnload 0 _ (op # d)) _) = (if op = DFUSE_SET_ADDRESS then [] else [EraseAt (command_address (op # d))])"
| "effect_of p (Usb (Dnload 0 _ []) _) = []"
| "effect_of p (Usb (Dnload (Suc _) _ d) _) = [WriteAt p d]"
| "effect_of p _ = []"

fun pointer_after :: "nat \<Rightarrow> event list \<Rightarrow> nat" where
  "pointer_after p [] = p"
| "pointer_after p (e # es) = pointer_after (next_pointer p e) es"

fun effects :: "nat \<Rightarrow> event list \<Rightarrow> effect list" where
  "effects p [] = []"
| "effects p (e # es) = effect_of p e @ effects (next_pointer p e) es"

lemma effects_append: "effects p (xs @ ys) = effects p xs @ effects (pointer_after p xs) ys"
  by (induction xs arbitrary: p) auto

lemma pointer_after_append: "pointer_after p (xs @ ys) = pointer_after (pointer_after p xs) ys"
  by (induction xs arbitrary: p) auto

text \<open>The events that leave both flash and pointer alone.\<close>

definition harmless :: "event \<Rightarrow> bool" where
  "harmless e = (case e of Usb (Dnload b _ d) _ \<Rightarrow> b = 0 \<and> d = [] | _ \<Rightarrow> True)"

lemma harmless_effect: "harmless e \<Longrightarrow> effect_of p e = [] \<and> next_pointer p e = p"
  by (cases "(p, e)" rule: effect_of.cases) (auto simp: harmless_def)

lemma harmless_effects: "list_all harmless es \<Longrightarrow> effects p es = [] \<and> pointer_after p es = p"
  by (induction es arbitrary: p) (auto simp: harmless_effect)

subsection \<open>A calculus of effects\<close>

text \<open>
  \<open>emits P m xs Q\<close>: from a pointer with \<open>P\<close>, a run of \<open>m\<close> that returns has exactly the effects \<open>xs\<close> and ends
  with a pointer in \<open>Q\<close>; a run that throws has had some first part of them.
\<close>

definition emits :: "(nat \<Rightarrow> bool) \<Rightarrow> 'a dfu_run \<Rightarrow> effect list \<Rightarrow> (nat \<Rightarrow> bool) \<Rightarrow> bool" where
  "emits P m xs Q \<longleftrightarrow> (\<forall>s p. P p \<longrightarrow>
     (case m s of
        Inr (_, t) \<Rightarrow> \<exists>new. trace t = trace s @ new \<and> effects p new = xs \<and> Q (pointer_after p new)
      | Inl (_, t) \<Rightarrow> \<exists>new. trace t = trace s @ new \<and> prefix (effects p new) xs))"

lemma emits_seq:
  assumes "emits P m xs Q" and "\<And>x. emits Q (k x) ys R"
  shows "emits P (seq m k) (xs @ ys) R"
  unfolding emits_def
proof (intro allI impI)
  fix s p assume p: "P p"
  note m = assms(1) [unfolded emits_def, rule_format, OF p, of s]
  show "case seq m k s of
      Inr (_, t) \<Rightarrow> \<exists>new. trace t = trace s @ new \<and> effects p new = xs @ ys \<and> R (pointer_after p new)
    | Inl (_, t) \<Rightarrow> \<exists>new. trace t = trace s @ new \<and> prefix (effects p new) (xs @ ys)"
  proof (cases "m s")
    case (Inl a)
    with m show ?thesis by (fastforce simp: seq_def split: prod.splits intro: prefix_order.trans)
  next
    case (Inr a)
    obtain x t where a: "a = (x, t)" by (cases a)
    from m Inr a obtain new where new: "trace t = trace s @ new" "effects p new = xs" "Q (pointer_after p new)"
      by auto
    note k = assms(2) [of x, unfolded emits_def, rule_format, OF new(3), of t]
    have eq: "seq m k s = k x t" by (simp add: seq_def Inr a)
    show ?thesis
    proof (cases "k x t")
      case (Inl b)
      with k obtain e u new2 where "b = (e, u)" "trace u = trace t @ new2" "prefix (effects (pointer_after p new) new2) ys"
        by (cases b) auto
      then show ?thesis
        using new by (simp add: eq Inl effects_append)
    next
      case (Inr b)
      with k obtain y u new2 where "b = (y, u)" "trace u = trace t @ new2" "effects (pointer_after p new) new2 = ys"
        "R (pointer_after (pointer_after p new) new2)"
        by (cases b) auto
      then show ?thesis
        using new by (simp add: eq Inr effects_append pointer_after_append)
    qed
  qed
qed

lemma emits_harmless: "only harmless m \<Longrightarrow> emits P m [] P"
proof -
  assume m: "only harmless m"
  show ?thesis
    unfolding emits_def
  proof (intro allI impI)
    fix s p assume p: "P p"
    show "case m s of
        Inr (_, t) \<Rightarrow> \<exists>new. trace t = trace s @ new \<and> effects p new = [] \<and> P (pointer_after p new)
      | Inl (_, t) \<Rightarrow> \<exists>new. trace t = trace s @ new \<and> prefix (effects p new) []"
    proof (cases "m s")
      case (Inl a)
      obtain e t where a: "a = (e, t)" by (cases a)
      from onlyD_error [OF m Inl [unfolded a]] obtain new where "trace t = trace s @ new" "list_all harmless new" .
      then show ?thesis using harmless_effects [of new p] by (simp add: Inl a)
    next
      case (Inr a)
      obtain x t where a: "a = (x, t)" by (cases a)
      from onlyD [OF m Inr [unfolded a]] obtain new where "trace t = trace s @ new" "list_all harmless new" .
      then show ?thesis using harmless_effects [of new p] p by (simp add: Inr a)
    qed
  qed
qed

lemma emits_weaken: "emits P m xs Q \<Longrightarrow> (\<And>p. P' p \<Longrightarrow> P p) \<Longrightarrow> (\<And>p. Q p \<Longrightarrow> Q' p) \<Longrightarrow> emits P' m xs Q'"
  unfolding emits_def by (fastforce split: sum.splits)

lemma emits_throw: "emits P (throw e) xs Q"
  by (simp add: emits_def throw_def)

lemma emits_ret: "emits P (ret x) [] P"
  by (simp add: emits_def ret_def)

lemma emits_seq_harmless: "only harmless m \<Longrightarrow> (\<And>x. emits P (k x) xs Q) \<Longrightarrow> emits P (seq m k) xs Q"
  using emits_seq [OF emits_harmless, of m P k xs Q] by simp

lemma emits_seq_unless: "emits P k xs Q \<Longrightarrow> emits P (seq (unless_ok b e) (\<lambda>_. k)) xs Q"
  by (intro emits_seq_harmless only_intros)

text \<open>The steps that send no erase and no data.\<close>

lemma harmless_simps [simp]:
  "harmless (Emit p w t)" "harmless (Delay n)" "harmless (Usb (GetStatus i) r)" "harmless (Usb (Abort i) r)"
  "harmless (Usb (ClrStatus i) r)" "harmless (Usb (Upload b i n) r)" "harmless (Usb (GetDescriptor a b c d) r)"
  "harmless (Usb UsbOpen r)" "harmless (Usb UsbClose r)" "harmless (Usb (SelectConfiguration n) r)"
  "harmless (Usb (ClaimInterface n) r)" "harmless (Usb (ReleaseInterface n) r)" "harmless (Usb (SelectAlternate n a) r)"
  "harmless (Usb (Dnload 0 i []) r)"
  by (simp_all add: harmless_def)

lemma only_get_status [only_intros]: "(\<And>i r. P (Usb (GetStatus i) r)) \<Longrightarrow> only P (get_status env)"
  unfolding get_status_def by (intro only_intros)

lemma only_clear_status [only_intros]: "(\<And>i r. P (Usb (ClrStatus i) r)) \<Longrightarrow> only P (clear_status env)"
  unfolding clear_status_def by (intro only_intros)

lemma only_check_not_cancelled [only_intros]: "only P (check_not_cancelled env)"
  by (simp add: only_def stop_state_def check_not_cancelled_def)

lemma only_delay [only_intros]: "(\<And>n. P (Delay n)) \<Longrightarrow> only P (delay n)"
  by (simp add: only_def stop_state_def delay_def log_event_def)

lemma only_wait [only_intros]:
  "(\<And>i r. P (Usb (GetStatus i) r)) \<Longrightarrow> (\<And>n. P (Delay n)) \<Longrightarrow> only P (wait_until_idle env ctx expected n)"
  by (induction n) (auto intro!: only_intros)

lemma only_abort [only_intros]:
  "(\<And>i r. P (Usb (GetStatus i) r)) \<Longrightarrow> (\<And>n. P (Delay n)) \<Longrightarrow> (\<And>i r. P (Usb (Abort i) r)) \<Longrightarrow> only P (abort_to_idle env)"
  unfolding abort_to_idle_def by (intro only_intros)

lemma only_prepare [only_intros]:
  "(\<And>i r. P (Usb (GetStatus i) r)) \<Longrightarrow> (\<And>n. P (Delay n)) \<Longrightarrow> (\<And>i r. P (Usb (Abort i) r)) \<Longrightarrow>
   (\<And>i r. P (Usb (ClrStatus i) r)) \<Longrightarrow> only P (prepare_device env)"
  unfolding prepare_device_def by (intro only_intros)

lemma only_dnload [only_intros]: "(\<And>i r. P (Usb (Dnload b i d) r)) \<Longrightarrow> only P (dnload env b d)"
  unfolding dnload_def by (intro only_intros)

lemma only_upload [only_intros]: "(\<And>i r. P (Usb (Upload 2 i n) r)) \<Longrightarrow> only P (upload env n)"
  unfolding upload_def by (intro only_intros)

lemma only_lift_flash [only_intros]: "only P (lift_flash r)"
  unfolding lift_flash_def by (intro only_sum only_intros)

lemma only_assert_st_dfu [only_intros]: "only P (assert_st_dfu d)"
  unfolding assert_st_dfu_def by (rule only_intros)

lemma only_assert_claimed [only_intros]: "only P assert_claimed"
proof -
  have "trace (stop_state assert_claimed s) = trace s" for s
    by (auto simp: stop_state_def assert_claimed_def assert_st_dfu_def unless_ok_def ret_def throw_def
        split: option.splits)
  then show ?thesis by (simp add: only_def)
qed

lemma only_layout_name [only_intros]:
  "(\<And>k i g n r. P (Usb (GetDescriptor k i g n) r)) \<Longrightarrow> (\<And>w t. P (Emit Cancelled w t)) \<Longrightarrow> only P (layout_name env tot)"
  unfolding layout_name_def Let_def by (intro only_intros only_read_name)

lemma only_plan_erases [only_intros]:
  "(\<And>k i g n r. P (Usb (GetDescriptor k i g n) r)) \<Longrightarrow> (\<And>w t. P (Emit Cancelled w t)) \<Longrightarrow> only P (plan_erases env opts rs tot)"
  unfolding plan_erases_def Let_def by (intro only_intros)

lemma emits_dnload:
  assumes "\<And>i r p. P p \<Longrightarrow> effect_of p (Usb (Dnload b i d) r) = xs \<and> Q (next_pointer p (Usb (Dnload b i d) r))"
  shows "emits P (dnload env b d) xs Q"
  unfolding emits_def
proof (intro allI impI)
  fix s :: dfu_state and p assume p: "P p"
  define r where "r = reply env (trace s) (Dnload b (iface s) d)"
  have e: "effects p [Usb (Dnload b (iface s) d) r] = xs" "Q (pointer_after p [Usb (Dnload b (iface s) d) r])"
    using assms [OF p, of "iface s" r] by simp_all
  show "case dnload env b d s of
      Inr (_, t) \<Rightarrow> \<exists>new. trace t = trace s @ new \<and> effects p new = xs \<and> Q (pointer_after p new)
    | Inl (_, t) \<Rightarrow> \<exists>new. trace t = trace s @ new \<and> prefix (effects p new) xs"
    using e by (cases r) (auto simp: dnload_def reads_def seq_def usb_def Let_def r_def [symmetric] log_event_def
        unless_ok_def ret_def throw_def intro!: exI [of _ "[Usb (Dnload b (iface s) d) r]"])
qed

lemma command_address_dfuse: "a < 4294967296 \<Longrightarrow> command_address (dfuse_command op a) = a"
proof -
  assume a: "a < 4294967296"
  have "unat (of_nat n :: byte) = n mod 256" for n by (simp add: unat_of_nat)
  then have "command_address (dfuse_command op a)
      = a mod 256 + a div 256 mod 256 * 256 + a div 65536 mod 256 * 65536 + a div 16777216 mod 256 * 16777216"
    by (simp add: command_address_def dfuse_command_def u32le_value u8_at_def)
  also have "\<dots> = a"
  proof -
    define q1 q2 q3 where "q1 = a div 256" and "q2 = q1 div 256" and "q3 = q2 div 256"
    have d: "a div 256 = q1" "a div 65536 = q2" "a div 16777216 = q3"
      by (simp_all add: q1_def q2_def q3_def div_mult2_eq [symmetric])
    have "q3 < 256" using a by (simp flip: d(3) add: less_mult_imp_div_less)
    then have "q3 mod 256 = q3" by simp
    moreover have "a = q1 * 256 + a mod 256" "q1 = q2 * 256 + q1 mod 256" "q2 = q3 * 256 + q2 mod 256"
      by (simp_all add: q1_def q2_def q3_def)
    ultimately show ?thesis unfolding d by linarith
  qed
  finally show ?thesis .
qed

lemma dfuse_command_shape:
  "dfuse_command op a = op # [of_nat a, of_nat (a div 256), of_nat (a div 65536), of_nat (a div 16777216)]"
  by (simp add: dfuse_command_def)

lemma erase_not_set: "DFUSE_ERASE \<noteq> DFUSE_SET_ADDRESS"
  by (simp add: DFUSE_ERASE_def DFUSE_SET_ADDRESS_def)

lemma emits_after_cancel:
  "(\<And>x. emits P (k x) xs Q) \<Longrightarrow> emits P (seq (throw_if_cancelled env w t) k) xs Q"
  by (rule emits_seq_harmless, intro only_intros, simp_all)

lemma emits_after_emit:
  "(\<And>x. emits P (k x) xs Q) \<Longrightarrow> emits P (seq (emit ph w t) k) xs Q"
  by (rule emits_seq_harmless, intro only_intros, simp_all)

lemma emits_after_abort:
  "(\<And>x. emits P (k x) xs Q) \<Longrightarrow> emits P (seq (abort_to_idle env) k) xs Q"
  by (rule emits_seq_harmless, intro only_intros, simp_all)

lemma emits_after_wait:
  "(\<And>x. emits P (k x) xs Q) \<Longrightarrow> emits P (seq (wait_until_idle env ctx ex n) k) xs Q"
  by (rule emits_seq_harmless, intro only_intros, simp_all)

lemma emits_after_upload:
  "(\<And>x. emits P (k x) xs Q) \<Longrightarrow> emits P (seq (upload env n) k) xs Q"
  by (rule emits_seq_harmless, intro only_intros, simp_all)

lemma emits_wait: "emits P (wait_until_idle env ctx expected n) [] P"
  by (rule emits_harmless) (intro only_intros, simp_all)

lemma emits_set_address:
  assumes "a < 4294967296"
  shows "emits P (dfuse_set_address env a) [] (\<lambda>p. p = a)"
proof -
  have "emits P (dnload env 0 (dfuse_command DFUSE_SET_ADDRESS a)) [] (\<lambda>p. p = a)"
    by (rule emits_dnload) (simp add: dfuse_command_shape command_address_dfuse [OF assms, unfolded dfuse_command_shape])
  from emits_seq [OF this emits_wait] show ?thesis unfolding dfuse_set_address_def by simp
qed

lemma emits_erase:
  assumes "a < 4294967296"
  shows "emits (\<lambda>_. True) (dfuse_erase env a) [EraseAt a] (\<lambda>_. True)"
proof -
  have "emits (\<lambda>_. True) (dnload env 0 (dfuse_command DFUSE_ERASE a)) [EraseAt a] (\<lambda>_. True)"
    by (rule emits_dnload)
      (simp add: dfuse_command_shape command_address_dfuse [OF assms, unfolded dfuse_command_shape] erase_not_set)
  from emits_seq [OF this emits_wait] show ?thesis unfolding dfuse_erase_def by simp
qed

lemma emits_data: "emits (\<lambda>p. p = a) (dnload env 2 d) [WriteAt a d] (\<lambda>_. True)"
  by (rule emits_dnload) (simp add: numeral_2_eq_2)

lemma emits_erase_all:
  "\<forall>a \<in> set as. a < 4294967296 \<Longrightarrow> emits (\<lambda>_. True) (erase_all env tot as) (List.map EraseAt as) (\<lambda>_. True)"
proof (induction as)
  case Nil
  show ?case by (simp add: emits_ret)
next
  case (Cons a as)
  then have a: "a < 4294967296" and ih: "emits (\<lambda>_. True) (erase_all env tot as) (List.map EraseAt as) (\<lambda>_. True)" by auto
  show ?case
    unfolding erase_all.simps list.map
    by (rule emits_after_cancel, rule emits_after_emit, rule emits_after_cancel)
      (use emits_seq [OF emits_erase [OF a] ih] in simp)
qed

lemma emits_blank_check:
  assumes "DEFAULT_FLASH_BASE + flash_bytes \<le> 4294967296"
  shows "emits (\<lambda>_. True) (blank_check env tot flash_bytes off) [] (\<lambda>_. True)"
  using assms
proof (induction env tot flash_bytes off rule: blank_check.induct)
  case (1 env tot flash_bytes off)
  show ?case
  proof (cases "off \<ge> flash_bytes")
    case True
    then show ?thesis by (subst blank_check.simps) (simp add: emits_ret)
  next
    case False
    define n where "n = min DEFAULT_TRANSFER_SIZE (flash_bytes - off)"
    note ih = "1.IH" [OF False n_def]
    have a: "DEFAULT_FLASH_BASE + off < 4294967296" using False "1.prems" by simp
    define rest where "rest = (\<lambda>r. case in_data r of
             None \<Rightarrow> throw (DataFault (BlankShort (DEFAULT_FLASH_BASE + off)))
           | Some b \<Rightarrow>
               if length b \<noteq> n then throw (DataFault (BlankShort (DEFAULT_FLASH_BASE + off)))
               else
                 (case find (\<lambda>i. b ! i \<noteq> 255) [0..<n] of
                    Some i \<Rightarrow> throw (DataFault (BlankMismatch (DEFAULT_FLASH_BASE + off + i)))
                  | None \<Rightarrow>
                      seq (abort_to_idle env) (\<lambda>_.
                      seq (emit Erasing 0 tot) (\<lambda>_.
                      blank_check env tot flash_bytes (off + DEFAULT_TRANSFER_SIZE)))))"
    have rest_ok: "emits (\<lambda>_. True) (rest r) [] (\<lambda>_. True)" for r
      unfolding rest_def using "1.prems"
      by (auto split: option.splits intro!: emits_throw emits_after_abort emits_after_emit ih)
    have "emits (\<lambda>p. p = DEFAULT_FLASH_BASE + off)
       (seq (abort_to_idle env) (\<lambda>_. seq (upload env n) rest)) [] (\<lambda>_. True)"
      by (rule emits_after_abort, rule emits_after_upload, rule emits_weaken [OF rest_ok]) auto
    from emits_seq [OF emits_set_address [OF a] this]
    have "emits (\<lambda>_. True) (seq (throw_if_cancelled env 0 tot) (\<lambda>_.
        seq (dfuse_set_address env (DEFAULT_FLASH_BASE + off)) (\<lambda>_.
        seq (abort_to_idle env) (\<lambda>_. seq (upload env n) rest)))) [] (\<lambda>_. True)"
      by (intro emits_after_cancel) simp
    then show ?thesis
      using False by (subst blank_check.simps) (simp add: Let_def n_def [symmetric] rest_def)
  qed
qed

text \<open>The programming effects of one region: one write per transfer.\<close>

function chunk_writes :: "hex_region \<Rightarrow> nat \<Rightarrow> effect list" where
  "chunk_writes r off =
     (if off \<ge> length (data r) then []
      else WriteAt (address r + off) (take DEFAULT_TRANSFER_SIZE (drop off (data r)))
             # chunk_writes r (off + DEFAULT_TRANSFER_SIZE))"
  by pat_completeness auto

termination
  by (relation "measure (\<lambda>(r, off). length (data r) - off)") (auto simp: DEFAULT_TRANSFER_SIZE_def)

declare chunk_writes.simps [simp del]

lemma chunk_writes_end: "off \<ge> length (data r) \<Longrightarrow> chunk_writes r off = []"
  by (simp add: chunk_writes.simps)

lemma emits_write_region:
  assumes "region_end r \<le> 4294967296"
  shows "emits (\<lambda>_. True) (write_region env tot r off written) (chunk_writes r off) (\<lambda>_. True)"
  using assms
proof (induction env tot r off written rule: write_region.induct)
  case (1 env tot r off written)
  show ?case
  proof (cases "off \<ge> length (data r)")
    case True
    then show ?thesis by (subst write_region.simps) (simp add: emits_ret chunk_writes_end)
  next
    case False
    define n where "n = min DEFAULT_TRANSFER_SIZE (length (data r) - off)"
    note ih = "1.IH" [OF False n_def "1.prems"]
    have a: "address r + off < 4294967296" using False "1.prems" by (simp add: region_end_def)
    have cw: "chunk_writes r off = [] @ [WriteAt (address r + off) (take n (drop off (data r)))] @ chunk_writes r (off + n)"
    proof -
      have "take n (drop off (data r)) = take DEFAULT_TRANSFER_SIZE (drop off (data r))" by (simp add: n_def min_def)
      moreover have "chunk_writes r (off + DEFAULT_TRANSFER_SIZE) = chunk_writes r (off + n)"
        by (cases "n = DEFAULT_TRANSFER_SIZE") (auto simp: n_def min_def chunk_writes_end split: if_splits)
      ultimately show ?thesis using False by (subst chunk_writes.simps) simp
    qed
    have "emits (\<lambda>_. True) (seq (wait_until_idle env (AtWrite (address r + off)) dfuDNLOAD_IDLE 100) (\<lambda>_.
         seq (emit Writing (written + n) tot) (\<lambda>_. write_region env tot r (off + n) (written + n))))
         (chunk_writes r (off + n)) (\<lambda>_. True)"
      by (rule emits_after_wait, rule emits_after_emit, rule ih)
    note 2 = emits_seq [OF emits_data [of "address r + off" env "take n (drop off (data r))"] this]
    note 3 = emits_seq [OF emits_set_address [OF a, of "\<lambda>_. True" env] 2]
    show ?thesis
      unfolding cw using False 3
      by (subst write_region.simps) (simp add: Let_def n_def [symmetric] emits_after_cancel)
  qed
qed

lemma emits_write_all:
  "\<forall>r \<in> set rs. region_end r \<le> 4294967296 \<Longrightarrow>
   emits (\<lambda>_. True) (write_all env tot rs written) (concat (List.map (\<lambda>r. chunk_writes r 0) rs)) (\<lambda>_. True)"
proof (induction rs arbitrary: written)
  case Nil
  show ?case by (simp add: emits_ret)
next
  case (Cons r rs)
  then have "emits (\<lambda>_. True) (write_region env tot r 0 written) (chunk_writes r 0) (\<lambda>_. True)"
    and "\<And>w. emits (\<lambda>_. True) (write_all env tot rs w) (concat (List.map (\<lambda>r. chunk_writes r 0) rs)) (\<lambda>_. True)"
    by (auto intro: emits_write_region)
  from emits_seq [OF this] show ?case by (simp add: emits_after_cancel)
qed

lemma emits_verify_region:
  assumes "region_end r \<le> 4294967296"
  shows "emits (\<lambda>_. True) (verify_region env written tot r off) [] (\<lambda>_. True)"
  using assms
proof (induction env written tot r off rule: verify_region.induct)
  case (1 env written tot r off)
  show ?case
  proof (cases "off \<ge> length (data r)")
    case True
    then show ?thesis by (subst verify_region.simps) (simp add: emits_ret)
  next
    case False
    define n a ro where "n = min DEFAULT_TRANSFER_SIZE (length (data r) - off)" and "a = address r + off"
      and "ro = read_offset n a"
    note ih = "1.IH" [OF False n_def a_def ro_def]
    have lim: "a - ro < 4294967296" using False "1.prems" by (simp add: region_end_def a_def)
    define rest where "rest = (\<lambda>reply. case in_data reply of
             None \<Rightarrow> throw (DataFault (ReadbackShort a))
           | Some b \<Rightarrow>
               if length b \<noteq> max n 2 then throw (DataFault (ReadbackShort a))
               else
                 (case find (\<lambda>i. u8_at b (i + ro) \<noteq> data r ! (off + i)) [0..<n] of
                    Some i \<Rightarrow> throw (DataFault (VerifyMismatch (a + i) (data r ! (off + i)) (u8_at b (i + ro))))
                  | None \<Rightarrow>
                      seq (abort_to_idle env) (\<lambda>_.
                      seq (emit Verifying written tot) (\<lambda>_.
                      verify_region env written tot r (off + DEFAULT_TRANSFER_SIZE)))))"
    have rest_ok: "emits (\<lambda>_. True) (rest x) [] (\<lambda>_. True)" for x
      unfolding rest_def using "1.prems"
      by (auto split: option.splits intro!: emits_throw emits_after_abort emits_after_emit ih)
    have "emits (\<lambda>p. p = a - ro) (seq (abort_to_idle env) (\<lambda>_. seq (upload env (max n 2)) rest)) [] (\<lambda>_. True)"
      by (rule emits_after_abort, rule emits_after_upload, rule emits_weaken [OF rest_ok]) auto
    from emits_seq [OF emits_set_address [OF lim] this]
    have "emits (\<lambda>_. True) (seq (throw_if_cancelled env written tot) (\<lambda>_.
        seq (dfuse_set_address env (a - ro)) (\<lambda>_.
        seq (abort_to_idle env) (\<lambda>_. seq (upload env (max n 2)) rest)))) [] (\<lambda>_. True)"
      by (intro emits_after_cancel) simp
    then show ?thesis
      unfolding verify_region.simps [of env written tot r off] Let_def rest_def
        n_def [symmetric] a_def [symmetric] ro_def [symmetric]
      using False by simp
  qed
qed

lemma emits_verify_all:
  "\<forall>r \<in> set rs. region_end r \<le> 4294967296 \<Longrightarrow> emits (\<lambda>_. True) (verify_all env written tot rs) [] (\<lambda>_. True)"
proof (induction rs)
  case Nil
  show ?case by (simp add: emits_ret)
next
  case (Cons r rs)
  then have "emits (\<lambda>_. True) (verify_region env written tot r 0) [] (\<lambda>_. True)"
    "emits (\<lambda>_. True) (verify_all env written tot rs) [] (\<lambda>_. True)"
    by (auto intro: emits_verify_region)
  from emits_seq [OF this] show ?case by simp
qed

lemma only_manifest [only_intros]: "(\<And>i r. P (Usb (GetStatus i) r)) \<Longrightarrow> only P (manifest_status env)"
proof -
  assume "\<And>i r. P (Usb (GetStatus i) r)"
  then have g: "only P (get_status env)" by (intro only_intros)
  have "stop_state (manifest_status env) s = stop_state (get_status env) s" for s
    by (auto simp: stop_state_def manifest_status_def split: sum.splits dfu_error.splits link_fault.splits)
  with g show ?thesis by (simp add: only_def)
qed

lemma emits_leave: "start < 4294967296 \<Longrightarrow> emits (\<lambda>_. True) (leave_dfu env start written tot) [] (\<lambda>_. True)"
proof -
  assume s: "start < 4294967296"
  have "emits (\<lambda>p. p = start) (seq (dnload env 0 []) (\<lambda>_. manifest_status env)) [] (\<lambda>_. True)"
    by (rule emits_weaken [OF emits_harmless]) (auto intro!: only_intros)
  from emits_seq [OF emits_set_address [OF s] this] show ?thesis
    unfolding leave_dfu_def by (intro emits_after_emit) simp
qed

text \<open>The plan of the effects of one flash: all erases, then the transfers of each region.\<close>

definition flash_effects :: "nat list \<Rightarrow> hex_region list \<Rightarrow> effect list" where
  "flash_effects plan rs = List.map EraseAt plan @ concat (List.map (\<lambda>r. chunk_writes r 0) rs)"

text \<open>What the layout name must say for a plan to be used.\<close>

definition approved_plan :: "flash_options \<Rightarrow> hex_region list \<Rightarrow> string option \<Rightarrow> nat list \<Rightarrow> bool" where
  "approved_plan opts rs name plan \<longleftrightarrow>
     (\<exists>l part. parse_dfu_flash_layout name = Inr l \<and> plan_sector_erases_from_layout rs l = Inr part
        \<and> (if erase_mode opts = Some ''full-chip''
           then assert_main_flash_layout name (expected_mcu opts) = Inr ()
                \<and> plan_full_chip_erases (expected_mcu opts) = Inr plan
           else plan = part)
        \<and> (image_profile opts = Some ''f405-usb-diagnostic'' \<longrightarrow> assert_f405_dfu_layout name = Inr ()))"

lemma lift_flash_Inr_iff [simp]: "lift_flash r s = Inr (x, t) \<longleftrightarrow> r = Inr x \<and> t = s"
  by (auto simp: lift_flash_def split: sum.splits)

lemma lift_flash_else_iff:
  "(if b then lift_flash r else ret y) s = Inr (x, t) \<longleftrightarrow> (if b then r = Inr x else x = y) \<and> t = s"
  by (cases b) auto

lemma plan_erases_Inr:
  assumes "plan_erases env opts rs tot s = Inr (plan, t)"
  obtains name t1 where "layout_name env tot s = Inr (name, t1)" and "approved_plan opts rs name plan"
proof -
  from assms obtain name t1 part u v where n: "layout_name env tot s = Inr (name, t1)"
    and a: "if erase_mode opts = Some ''full-chip'' then assert_main_flash_layout name (expected_mcu opts) = Inr u
        else u = ()"
    and b: "if image_profile opts = Some ''f405-usb-diagnostic'' then assert_f405_dfu_layout name = Inr v else v = ()"
    and c: "res_bind (parse_dfu_flash_layout name) (plan_sector_erases_from_layout rs) = Inr part"
    and d: "if erase_mode opts = Some ''full-chip'' then plan_full_chip_erases (expected_mcu opts) = Inr plan
        else plan = part"
    unfolding plan_erases_def Let_def seq_Inr_iff lift_flash_else_iff lift_flash_Inr_iff ret_Inr_iff
    by blast
  from c obtain l where "parse_dfu_flash_layout name = Inr l" "plan_sector_erases_from_layout rs l = Inr part"
    by (auto simp: res_bind_Inr_iff)
  with n a b d show thesis by (intro that) (auto simp: approved_plan_def split: if_splits)
qed

lemma dec_num_less: "list_all is_digit s \<Longrightarrow> dec_num s < 10 ^ length s"
proof (induction s rule: rev_induct)
  case (snoc c s)
  have "(of_char c :: nat) - 48 < 10" using snoc.prems by (auto simp: is_digit_def)
  moreover have "dec_num (s @ [c]) = dec_num s * 10 + ((of_char c :: nat) - 48)" by (simp add: dec_num_def)
  moreover have "dec_num s < 10 ^ length s" using snoc by simp
  ultimately show ?case by simp
qed (simp add: dec_num_def)

lemma four_digits: "length (takeWhile is_digit u) \<le> 4 \<Longrightarrow> dec_num (takeWhile is_digit u) < 10000"
proof -
  assume l: "length (takeWhile is_digit u) \<le> 4"
  have "list_all is_digit (takeWhile is_digit u)" by (auto simp: list_all_iff dest: set_takeWhileD)
  note dec_num_less [OF this]
  also have "(10 :: nat) ^ length (takeWhile is_digit u) \<le> 10 ^ 4" using l by (intro power_increasing) auto
  finally show ?thesis by simp
qed

lemma match_group_bound: "match_group g = Some (c, k) \<Longrightarrow> k < 10000"
  by (auto simp: match_group_def Let_def bind_eq_Some_conv not_less split: if_splits intro!: four_digits)

lemma address_after_bound: "\<forall>k \<in> set ks. k < 10000 \<Longrightarrow> address_after a ks \<le> a + length ks * 10240000"
proof (induction ks arbitrary: a)
  case (Cons k ks)
  then have "address_after (a + k * 1024) ks \<le> a + k * 1024 + length ks * 10240000" "k < 10000" by auto
  then show ?case by simp
qed simp

lemma layout_bounds:
  assumes "parse_dfu_flash_layout name = Inr l"
  shows "layout_base l + total_bytes l < 4294967296"
    and "contiguous (layout_base l) (layout_base l + total_bytes l) (layout_sectors l)"
proof -
  obtain n g ks where f: "res_fold (group_step n) (split_char (CHR '','') g) [] = Inr ks"
    and l: "l = layout_of_sizes ks"
    using assms by (auto simp: parse_dfu_flash_layout_def res_bind_Inr_iff split: option.splits if_splits)
  have ks: "ks = sizes_kib l" by (simp add: l layout_of_sizes_def)
  show "contiguous (layout_base l) (layout_base l + total_bytes l) (layout_sectors l)"
    unfolding l by (rule device.no_holes)
  have "\<forall>k \<in> set xs'. k < 10000" if "group_step n x xs = Inr xs'" "\<forall>k \<in> set xs. k < 10000" for x xs xs'
    using that match_group_bound by (fastforce simp: group_step_def split: option.splits if_splits)
  with f have "\<forall>k \<in> set ks. k < 10000"
    by (intro res_fold_inv [OF f, where P = "\<lambda>xs. \<forall>k \<in> set xs. k < 10000"]) auto
  from address_after_bound [OF this, of DEFAULT_FLASH_BASE] parse_layout_bounds [OF assms]
  have "address_after DEFAULT_FLASH_BASE ks \<le> DEFAULT_FLASH_BASE + 64 * 10240000"
    by (fastforce simp: ks intro: le_trans)
  then show "layout_base l + total_bytes l < 4294967296"
    by (simp add: l layout_of_sizes_def DEFAULT_FLASH_BASE_def)
qed

text \<open>The sectors an approved plan erases are whole sectors of the device, and hold every image byte.\<close>

lemma approved_planE:
  assumes "approved_plan opts rs name plan"
  obtains l where "parse_dfu_flash_layout name = Inr l"
    and "set plan \<subseteq> sec_start ` set (layout_sectors l)" and "distinct plan"
    and "\<forall>r \<in> set rs. range_ok (layout_base l) (layout_base l + total_bytes l) r"
    and "\<forall>r \<in> set rs. \<forall>x. covers r x \<longrightarrow> (\<exists>s \<in> set (layout_sectors l). sector_covers s x \<and> sec_start s \<in> set plan)"
proof -
  from assms obtain l part where l: "parse_dfu_flash_layout name = Inr l" "plan_sector_erases_from_layout rs l = Inr part"
    and m: "if erase_mode opts = Some ''full-chip''
           then assert_main_flash_layout name (expected_mcu opts) = Inr ()
                \<and> plan_full_chip_erases (expected_mcu opts) = Inr plan
           else plan = part"
    by (auto simp: approved_plan_def)
  note ok = plan_from_layout_ok [OF l]
  show thesis
  proof (cases "erase_mode opts = Some ''full-chip''")
    case False
    with m have p: "plan = part" by simp
    have st: "starts_hit rs (layout_sectors l) \<subseteq> sec_start ` set (layout_sectors l)" by (auto simp: starts_hit_def)
    show thesis
      using ok [folded p] st by (intro that [OF l(1)]) (auto simp: plan_ok_def)
  next
    case True
    with m obtain k where k: "Option.bind (expected_mcu opts) as_mcu = Some k" "l = layout_of_sizes (SIZES k)"
      "plan = List.map sec_start (layout_sectors l)"
      using l by (auto simp: main_flash_layout_accepts)
    have "distinct plan" unfolding k by (cases k) (simp_all add: layout_of_sizes_def DEFAULT_FLASH_BASE_def)
    moreover have "\<forall>r \<in> set rs. \<forall>x. covers r x \<longrightarrow> (\<exists>s \<in> set (layout_sectors l). sector_covers s x \<and> sec_start s \<in> set plan)"
      using ok(2) by (auto simp: k(3))
    moreover have "set plan \<subseteq> sec_start ` set (layout_sectors l)" using k(3) by simp
    moreover have "\<forall>r \<in> set rs. range_ok (layout_base l) (layout_base l + total_bytes l) r"
      using ok(1) by (simp add: plan_ok_def)
    ultimately show thesis by (intro that [OF l(1)])
  qed
qed

lemma approved_bounds:
  assumes "approved_plan opts rs name plan"
  shows "\<forall>a \<in> set plan. a < 4294967296" and "\<forall>r \<in> set rs. region_end r \<le> 4294967296"
proof -
  from assms obtain l where l: "parse_dfu_flash_layout name = Inr l"
    and p: "set plan \<subseteq> sec_start ` set (layout_sectors l)"
    and r: "\<forall>r \<in> set rs. range_ok (layout_base l) (layout_base l + total_bytes l) r"
    by (rule approved_planE)
  note b = layout_bounds [OF l]
  show "\<forall>r \<in> set rs. region_end r \<le> 4294967296" using r b(1) by (fastforce simp: range_ok_def)
  have "sec_start s \<le> sec_end s" if "contiguous x y ss" "s \<in> set ss" for x y s ss
    using that by (induction ss arbitrary: x) auto
  then have "\<forall>s \<in> set (layout_sectors l). sec_start s < 4294967296"
    using contiguous_le [OF b(2)] b by (meson le_less_trans)
  then show "\<forall>a \<in> set plan. a < 4294967296" using p by auto
qed

lemma emits_seq_nil: "emits P m [] Q \<Longrightarrow> (\<And>x. emits Q (k x) ys R) \<Longrightarrow> emits P (seq m k) ys R"
  using emits_seq [of P m "[]" Q k ys R] by simp

lemma emits_seq_ret: "emits P m xs Q \<Longrightarrow> (\<And>x. emits Q (k x) [] R) \<Longrightarrow> emits P (seq m k) xs R"
  using emits_seq [of P m xs Q k "[]" R] by simp

lemma emits_flash_tail:
  assumes "\<forall>a \<in> set plan. a < 4294967296" and "\<forall>r \<in> set rs. region_end r \<le> 4294967296"
    and "case_option DEFAULT_FLASH_BASE id (start_address opts) < 4294967296"
    and "DEFAULT_FLASH_BASE + flash_bytes \<le> 4294967296"
  shows "emits (\<lambda>_. True)
     (seq (erase_all env tot plan) (\<lambda>_.
      seq (if full then blank_check env tot flash_bytes 0 else ret ()) (\<lambda>_.
      seq (write_all env tot rs 0) (\<lambda>written.
      seq (if opt_verify opts \<noteq> Some False then verify_all env written tot rs else ret ()) (\<lambda>_.
      seq (throw_if_cancelled env written tot) (\<lambda>_.
      seq (if opt_leave opts \<noteq> Some False
           then leave_dfu env (case_option DEFAULT_FLASH_BASE id (start_address opts)) written tot else ret ()) (\<lambda>_.
      emit Done written tot))))))) (flash_effects plan rs) (\<lambda>_. True)"
proof -
  let ?T = "\<lambda>_ :: nat. True"
  have 1: "emits ?T (seq (if opt_leave opts \<noteq> Some False
           then leave_dfu env (case_option DEFAULT_FLASH_BASE id (start_address opts)) written tot else ret ()) (\<lambda>_.
      emit Done written tot)) [] ?T" for written
  proof -
    have l: "emits ?T (if opt_leave opts \<noteq> Some False
           then leave_dfu env (case_option DEFAULT_FLASH_BASE id (start_address opts)) written tot else ret ()) [] ?T"
      by (simp add: emits_leave [OF assms(3)] emits_ret)
    have "emits ?T (emit Done written tot) [] ?T" by (rule emits_harmless) (intro only_intros, simp)
    from emits_seq [OF l this] show ?thesis by simp
  qed
  have 2: "emits ?T (if opt_verify opts \<noteq> Some False then verify_all env written tot rs else ret ()) [] ?T" for written
    by (simp add: emits_verify_all [OF assms(2)] emits_ret)
  have 3: "emits ?T (if full then blank_check env tot flash_bytes 0 else ret ()) [] ?T"
    by (simp add: emits_blank_check [OF assms(4)] emits_ret)
  show ?thesis
    unfolding flash_effects_def
  proof (rule emits_seq [OF emits_erase_all [OF assms(1)]], rule emits_seq_nil [OF 3], rule emits_seq_ret [OF emits_write_all [OF assms(2)]])
    fix written
    show "emits ?T (seq (if opt_verify opts \<noteq> Some False then verify_all env written tot rs else ret ()) (\<lambda>_.
      seq (throw_if_cancelled env written tot) (\<lambda>_.
      seq (if opt_leave opts \<noteq> Some False
           then leave_dfu env (case_option DEFAULT_FLASH_BASE id (start_address opts)) written tot else ret ()) (\<lambda>_.
      emit Done written tot)))) [] ?T"
      by (rule emits_seq_nil [OF 2], rule emits_after_cancel, rule 1)
  qed
qed

lemma emits_after_result:
  assumes m: "only harmless m" and r: "\<And>s x t. m s = Inr (x, t) \<Longrightarrow> R x"
    and k: "\<And>x. R x \<Longrightarrow> emits (\<lambda>_. True) (k x) (f x) (\<lambda>_. True)"
  shows "case seq m k s of
      Inr (_, t) \<Rightarrow> \<exists>new x. trace t = trace s @ new \<and> R x \<and> effects p new = f x
    | Inl (_, t) \<Rightarrow> \<exists>new. trace t = trace s @ new \<and> (effects p new = [] \<or> (\<exists>x. R x \<and> prefix (effects p new) (f x)))"
proof (cases "m s")
  case (Inl a)
  obtain e t where a: "a = (e, t)" by (cases a)
  from onlyD_error [OF m Inl [unfolded a]] obtain new where "trace t = trace s @ new" "list_all harmless new" .
  then show ?thesis by (auto simp: seq_def Inl a harmless_effects)
next
  case (Inr a)
  obtain x t where a: "a = (x, t)" by (cases a)
  have x: "R x" using r Inr a by simp
  from onlyD [OF m Inr [unfolded a]] obtain new where new: "trace t = trace s @ new" "list_all harmless new" .
  have h: "effects p new = []" "pointer_after p new = p" using harmless_effects [OF new(2)] by auto
  have eq: "seq m k s = k x t" by (simp add: seq_def Inr a)
  note kx = k [OF x, unfolded emits_def, rule_format, OF TrueI, of t p]
  show ?thesis
  proof (cases "k x t")
    case (Inl b)
    with kx obtain e u new2 where "b = (e, u)" "trace u = trace t @ new2" "prefix (effects p new2) (f x)" by (cases b) auto
    then show ?thesis unfolding eq Inl using new h x by (auto simp: effects_append)
  next
    case (Inr b)
    with kx obtain y u new2 where "b = (y, u)" "trace u = trace t @ new2" "effects p new2 = f x" by (cases b) auto
    then show ?thesis unfolding eq Inr using new h x by (auto simp: effects_append)
  qed
qed

text \<open>The plan a session works from: the layout name the device gave, and what it allows.\<close>

definition session_plan :: "dfu_env \<Rightarrow> flash_options \<Rightarrow> hex_region list \<Rightarrow> nat \<Rightarrow> nat list \<Rightarrow> bool" where
  "session_plan env opts rs tot plan \<longleftrightarrow>
     (\<exists>name s t. layout_name env tot s = Inr (name, t) \<and> approved_plan opts rs name plan)"

lemma flash_steps_effects:
  assumes "case_option DEFAULT_FLASH_BASE id (start_address opts) = DEFAULT_FLASH_BASE"
  shows "case flash_steps env opts rs tot s of
      Inr (_, t) \<Rightarrow> \<exists>new plan. trace t = trace s @ new \<and> session_plan env opts rs tot plan \<and> effects p new = flash_effects plan rs
    | Inl (_, t) \<Rightarrow> \<exists>new. trace t = trace s @ new
        \<and> (effects p new = [] \<or> (\<exists>plan. session_plan env opts rs tot plan \<and> prefix (effects p new) (flash_effects plan rs)))"
proof -
  define head where "head = seq assert_claimed (\<lambda>_. seq (plan_erases env opts rs tot) (\<lambda>plan.
      seq (prepare_device env) (\<lambda>_. seq (throw_if_cancelled env 0 tot) (\<lambda>_. seq (emit Erasing 0 tot) (\<lambda>_. ret plan)))))"
  have h: "only harmless head" unfolding head_def by (intro only_intros) simp_all
  have r: "session_plan env opts rs tot plan" if "head u = Inr (plan, t)" for u plan t
  proof -
    from that obtain u1 u2 where "plan_erases env opts rs tot u1 = Inr (plan, u2)"
      unfolding head_def seq_Inr_iff ret_Inr_iff by blast
    from plan_erases_Inr [OF this] show ?thesis unfolding session_plan_def by metis
  qed
  have fb: "DEFAULT_FLASH_BASE + (case Option.bind (expected_mcu opts) as_mcu of None \<Rightarrow> 0 | Some m \<Rightarrow> MCU_FLASH_SIZE m) \<le> 4294967296"
  proof (cases "Option.bind (expected_mcu opts) as_mcu")
    case (Some m)
    then show ?thesis by (cases m) (simp_all add: DEFAULT_FLASH_BASE_def)
  qed (simp add: DEFAULT_FLASH_BASE_def)
  have st: "case_option DEFAULT_FLASH_BASE id (start_address opts) < 4294967296"
    unfolding assms by (simp add: DEFAULT_FLASH_BASE_def)
  have k: "session_plan env opts rs tot plan \<Longrightarrow> emits (\<lambda>_. True)
     (seq (erase_all env tot plan) (\<lambda>_.
      seq (if erase_mode opts = Some ''full-chip'' then blank_check env tot
             (case Option.bind (expected_mcu opts) as_mcu of None \<Rightarrow> 0 | Some m \<Rightarrow> MCU_FLASH_SIZE m) 0 else ret ()) (\<lambda>_.
      seq (write_all env tot rs 0) (\<lambda>written.
      seq (if opt_verify opts \<noteq> Some False then verify_all env written tot rs else ret ()) (\<lambda>_.
      seq (throw_if_cancelled env written tot) (\<lambda>_.
      seq (if opt_leave opts \<noteq> Some False
           then leave_dfu env (case_option DEFAULT_FLASH_BASE id (start_address opts)) written tot else ret ()) (\<lambda>_.
      emit Done written tot))))))) (flash_effects plan rs) (\<lambda>_. True)" for plan
    using approved_bounds by (intro emits_flash_tail fb st) (auto simp: session_plan_def)
  have eq: "flash_steps env opts rs tot = seq head (\<lambda>plan.
      seq (erase_all env tot plan) (\<lambda>_.
      seq (if erase_mode opts = Some ''full-chip'' then blank_check env tot
             (case Option.bind (expected_mcu opts) as_mcu of None \<Rightarrow> 0 | Some m \<Rightarrow> MCU_FLASH_SIZE m) 0 else ret ()) (\<lambda>_.
      seq (write_all env tot rs 0) (\<lambda>written.
      seq (if opt_verify opts \<noteq> Some False then verify_all env written tot rs else ret ()) (\<lambda>_.
      seq (throw_if_cancelled env written tot) (\<lambda>_.
      seq (if opt_leave opts \<noteq> Some False
           then leave_dfu env (case_option DEFAULT_FLASH_BASE id (start_address opts)) written tot else ret ()) (\<lambda>_.
      emit Done written tot)))))))"
    unfolding flash_steps_def head_def Let_def by simp
  show ?thesis
    unfolding eq by (rule emits_after_result [OF h r k])
qed

lemma only_stop_state: "only P m \<longleftrightarrow> (\<forall>s. \<exists>new. trace (stop_state m s) = trace s @ new \<and> list_all P new)"
  by (simp add: only_def)

lemma only_choose_device [only_intros]: "only P (choose_device env)"
proof -
  have "trace (stop_state (choose_device env) s) = trace s" for s
    by (auto simp: stop_state_def choose_device_def assert_st_dfu_def unless_ok_def ret_def throw_def seq_def split: option.splits)
  then show ?thesis by (simp add: only_def)
qed

lemma only_use_interface [only_intros]: "only P (use_interface env alt)"
proof -
  have "trace (stop_state (use_interface env alt) s) = trace s" for s
    by (auto simp: stop_state_def use_interface_def split: sum.splits)
  then show ?thesis by (simp add: only_def)
qed

lemma ignoring_trace: "\<exists>r. trace (ignoring env op s) = trace s @ [Usb op r]"
  by (auto simp: ignoring_def stop_state_def usb_def Let_def log_event_def split: usb_reply.splits)

lemma only_prove_claim [only_intros]:
  assumes "\<And>i r. P (Usb (GetStatus i) r)" and "\<And>i r. P (Usb (ReleaseInterface i) r)"
  shows "only P (prove_claim env)"
  unfolding only_def
proof
  fix s
  have g: "only P (get_status env)" by (intro only_intros assms)
  show "\<exists>new. trace (stop_state (prove_claim env) s) = trace s @ new \<and> list_all P new"
  proof (cases "get_status env s")
    case (Inl a)
    obtain e t where a: "a = (e, t)" by (cases a)
    obtain new where "trace t = trace s @ new" "list_all P new" using onlyD_error [OF g Inl [unfolded a]] .
    moreover obtain r where "trace (ignoring env (ReleaseInterface (iface t)) (t\<lparr>claimed := False\<rparr>))
        = trace t @ [Usb (ReleaseInterface (iface t)) r]" using ignoring_trace [of env _ "t\<lparr>claimed := False\<rparr>"] by fastforce
    ultimately show ?thesis by (simp add: stop_state_def prove_claim_def Inl a assms)
  next
    case (Inr a)
    obtain e t where a: "a = (e, t)" by (cases a)
    obtain new where "trace t = trace s @ new" "list_all P new" using onlyD [OF g Inr [unfolded a]] .
    then show ?thesis by (simp add: stop_state_def prove_claim_def Inr a)
  qed
qed

lemma only_open_device: "only harmless (open_device env alt)"
  unfolding open_device_def open_if_closed_def select_if_unconfigured_def claim_interface_def select_alternate_def
  by (intro only_intros) simp_all

lemma close_device_trace:
  "\<exists>r1 r2. trace (close_device env s) = trace s @ [Usb (ReleaseInterface (iface s)) r1, Usb UsbClose r2]
     \<and> \<not> claimed (close_device env s)"
proof -
  have c: "claimed (ignoring env op s) = claimed s" for op s
    by (auto simp: ignoring_def stop_state_def usb_def Let_def log_event_def split: usb_reply.splits)
  obtain r1 where "trace (ignoring env (ReleaseInterface (iface s)) (s\<lparr>claimed := False\<rparr>))
      = trace s @ [Usb (ReleaseInterface (iface s)) r1]" using ignoring_trace [of env _ "s\<lparr>claimed := False\<rparr>"] by fastforce
  moreover obtain r2 where "trace (ignoring env UsbClose (ignoring env (ReleaseInterface (iface s)) (s\<lparr>claimed := False\<rparr>)))
      = trace (ignoring env (ReleaseInterface (iface s)) (s\<lparr>claimed := False\<rparr>)) @ [Usb UsbClose r2]"
    using ignoring_trace by blast
  ultimately show ?thesis by (simp add: close_device_def Let_def c)
qed

lemma report_failure_trace:
  "\<exists>ph. ph \<in> {Cancelled, Failed} \<and> trace (report_failure env tot s) = trace s @ [Emit ph 0 tot]"
  by (simp add: report_failure_def log_event_def)

subsection \<open>What successful runs did\<close>

text \<open>An upload in the list returned the byte \<open>c\<close> for the address \<open>x\<close>.\<close>

definition confirms :: "nat \<Rightarrow> event list \<Rightarrow> nat \<Rightarrow> byte \<Rightarrow> bool" where
  "confirms p es x c \<longleftrightarrow> (\<exists>pre i n b post. es = pre @ Usb (Upload 2 i n) (InReply True (Some b)) # post
     \<and> pointer_after p pre \<le> x \<and> x < pointer_after p pre + length b \<and> b ! (x - pointer_after p pre) = c)"

lemma confirms_right: "confirms p es x c \<Longrightarrow> confirms p (es @ es') x c"
  unfolding confirms_def by (metis append.assoc append_Cons)

lemma confirms_left: "confirms (pointer_after p es) es' x c \<Longrightarrow> confirms p (es @ es') x c"
  unfolding confirms_def by (metis append.assoc pointer_after_append)

definition does :: "'a dfu_run \<Rightarrow> (nat \<Rightarrow> event list \<Rightarrow> bool) \<Rightarrow> bool" where
  "does m F \<longleftrightarrow> (\<forall>s x t. m s = Inr (x, t) \<longrightarrow> (\<exists>new. trace t = trace s @ new \<and> (\<forall>p. F p new)))"

lemma doesD: "does m F \<Longrightarrow> m s = Inr (x, t) \<Longrightarrow> \<exists>new. trace t = trace s @ new \<and> (\<forall>p. F p new)"
  by (simp add: does_def)

lemma does_weaken: "does m F \<Longrightarrow> (\<And>p es. F p es \<Longrightarrow> G p es) \<Longrightarrow> does m G"
  unfolding does_def by blast

lemma does_emits: "emits (\<lambda>_. True) m xs Q \<Longrightarrow> does m (\<lambda>p es. effects p es = xs \<and> Q (pointer_after p es))"
  unfolding emits_def does_def
proof (intro allI impI)
  fix s x t
  assume a: "\<forall>s p. True \<longrightarrow> (case m s of
      Inr (_, t) \<Rightarrow> \<exists>new. trace t = trace s @ new \<and> effects p new = xs \<and> Q (pointer_after p new)
    | Inl (_, t) \<Rightarrow> \<exists>new. trace t = trace s @ new \<and> prefix (effects p new) xs)" and m: "m s = Inr (x, t)"
  have b: "\<exists>new. trace t = trace s @ new \<and> effects p new = xs \<and> Q (pointer_after p new)" for p
    using a [rule_format, OF TrueI, of s p] m by simp
  then obtain new where "trace t = trace s @ new" by blast
  with b show "\<exists>new. trace t = trace s @ new \<and> (\<forall>p. effects p new = xs \<and> Q (pointer_after p new))" by auto
qed

lemma does_harmless: "only harmless m \<Longrightarrow> does m (\<lambda>p es. effects p es = [] \<and> pointer_after p es = p)"
  unfolding does_def by (metis onlyD harmless_effects)

lemma does_seq:
  assumes "does m F" and "\<And>x. does (k x) G"
  shows "does (seq m k) (\<lambda>p es. \<exists>a b. es = a @ b \<and> F p a \<and> G (pointer_after p a) b)"
  unfolding does_def
proof (intro allI impI)
  fix s y u assume "seq m k s = Inr (y, u)"
  then obtain x t where "m s = Inr (x, t)" "k x t = Inr (y, u)" by (auto simp: seq_Inr_iff)
  from doesD [OF assms(1) this(1)] doesD [OF assms(2) this(2)]
  obtain a b where "trace t = trace s @ a" "\<forall>p. F p a" "trace u = trace t @ b" "\<forall>p. G p b" by blast
  then show "\<exists>new. trace u = trace s @ new \<and> (\<forall>p. \<exists>a b. new = a @ b \<and> F p a \<and> G (pointer_after p a) b)"
    by (intro exI [of _ "a @ b"]) auto
qed

lemma upload_Inr:
  assumes "upload env n s = Inr (r, t)"
  shows "\<exists>i. trace t = trace s @ [Usb (Upload 2 i n) r]"
  using assms by (auto simp: upload_def reads_def usb_def Let_def log_event_def split: usb_reply.splits)

lemma in_data_Some: "in_data r = Some b \<longleftrightarrow> r = InReply True (Some b)"
  by (auto simp: in_data_def split: usb_reply.splits option.splits bool.splits)

text \<open>One read: pointer set, session ended, \<open>n\<close> bytes fetched.\<close>

lemma read_step:
  assumes "seq (throw_if_cancelled env w tot) (\<lambda>_. seq (dfuse_set_address env a) (\<lambda>_. seq (abort_to_idle env) (\<lambda>_.
      seq (upload env n) k))) s = Inr (x, t)"
    and "a < 4294967296"
  obtains r u new where "trace u = trace s @ new" and "k r u = Inr (x, t)"
    and "\<And>p. effects p new = []" and "\<And>p b y. in_data r = Some b \<Longrightarrow> a \<le> y \<Longrightarrow> y < a + length b \<Longrightarrow> confirms p new y (b ! (y - a))"
proof -
  from assms(1) obtain s1 s2 s3 r u where s1: "throw_if_cancelled env w tot s = Inr ((), s1)"
    and s2: "dfuse_set_address env a s1 = Inr ((), s2)" and s3: "abort_to_idle env s2 = Inr ((), s3)"
    and u: "upload env n s3 = Inr (r, u)" and k: "k r u = Inr (x, t)"
    unfolding seq_Inr_iff by (metis old.unit.exhaust)
  have "s1 = s" using s1 by (auto simp: throw_if_cancelled_def split: if_splits)
  with doesD [OF does_emits [OF emits_set_address [OF assms(2), of "\<lambda>_. True"]] s2] obtain n1 where
    n1: "trace s2 = trace s @ n1" "\<And>p. effects p n1 = []" "\<And>p. pointer_after p n1 = a" by blast
  have "only harmless (abort_to_idle env)" by (intro only_intros) simp_all
  from doesD [OF does_harmless [OF this] s3] obtain n2 where
    n2: "trace s3 = trace s2 @ n2" "\<And>p. effects p n2 = []" "\<And>p. pointer_after p n2 = p" by blast
  from upload_Inr [OF u] obtain i where n3: "trace u = trace s3 @ [Usb (Upload 2 i n) r]" by blast
  show thesis
  proof (rule that [OF _ k])
    show "trace u = trace s @ (n1 @ n2 @ [Usb (Upload 2 i n) r])" using n1 n2 n3 by simp
    show "effects p (n1 @ n2 @ [Usb (Upload 2 i n) r]) = []" for p
      using n1 n2 harmless_effect [of "Usb (Upload 2 i n) r"] by (simp add: effects_append)
    show "confirms p (n1 @ n2 @ [Usb (Upload 2 i n) r]) y (b ! (y - a))"
      if "in_data r = Some b" "a \<le> y" "y < a + length b" for p b y
      unfolding confirms_def
      using that n1 n2 by (intro exI [of _ "n1 @ n2"] exI [of _ i] exI [of _ n] exI [of _ b] exI [of _ "[]"])
        (simp add: in_data_Some pointer_after_append)
  qed
qed

text \<open>The end of a read: session ended, progress reported, the next reads.\<close>

lemma tail_step:
  assumes "seq (abort_to_idle env) (\<lambda>_. seq (emit ph w tot) (\<lambda>_. m)) s = Inr (x, t)" and "does m F"
  obtains n1 n2 n3 where "trace t = trace s @ n1 @ n2 @ n3" and "\<And>p. effects p n1 = [] \<and> pointer_after p n1 = p"
    and "\<And>p. effects p n2 = [] \<and> pointer_after p n2 = p" and "\<And>p. F p n3"
proof -
  from assms(1) obtain s1 s2 where s1: "abort_to_idle env s = Inr ((), s1)" and s2: "emit ph w tot s1 = Inr ((), s2)"
    and m: "m s2 = Inr (x, t)"
    unfolding seq_Inr_iff by (metis old.unit.exhaust)
  have h: "only harmless (abort_to_idle env)" "only harmless (emit ph w tot)" by (intro only_intros, simp_all)+
  from doesD [OF does_harmless [OF h(1)] s1] obtain n1 where
    n1: "trace s1 = trace s @ n1" "\<And>p. effects p n1 = [] \<and> pointer_after p n1 = p" by blast
  from doesD [OF does_harmless [OF h(2)] s2] obtain n2 where
    n2: "trace s2 = trace s1 @ n2" "\<And>p. effects p n2 = [] \<and> pointer_after p n2 = p" by blast
  from doesD [OF assms(2) m] obtain n3 where n3: "trace t = trace s2 @ n3" "\<And>p. F p n3" by blast
  show thesis by (rule that [OF _ n1(2) n2(2) n3(2)]) (simp add: n1 n2 n3)
qed

lemma does_verify_region:
  assumes "region_end r \<le> 4294967296"
  shows "does (verify_region env written tot r off) (\<lambda>p es. effects p es = []
    \<and> (\<forall>i. off \<le> i \<and> i < length (data r) \<longrightarrow> confirms p es (address r + i) (data r ! i)))"
  using assms
proof (induction env written tot r off rule: verify_region.induct)
  case (1 env written tot r off)
  show ?case
  proof (cases "off \<ge> length (data r)")
    case True
    then show ?thesis by (subst verify_region.simps) (auto simp: does_def)
  next
    case False
    define n a ro where "n = min DEFAULT_TRANSFER_SIZE (length (data r) - off)" and "a = address r + off"
      and "ro = read_offset n a"
    note ih = "1.IH" [OF False n_def a_def ro_def]
    have lim: "a - ro < 4294967296" using False "1.prems" by (simp add: region_end_def a_def)
    have ro: "ro \<le> a" "ro + n \<le> max n 2" "n \<noteq> 0"
      using False by (auto simp: ro_def read_offset_def n_def DEFAULT_TRANSFER_SIZE_def DEFAULT_FLASH_BASE_def)
    define F where "F = (\<lambda>p es. effects p es = [] \<and> (\<forall>i. off \<le> i \<and> i < length (data r) \<longrightarrow> confirms p es (address r + i) (data r ! i)))"
    show ?thesis
      unfolding F_def [symmetric] does_def
    proof (intro allI impI)
      fix s x t
      assume "verify_region env written tot r off s = Inr (x, t)"
      note run = this [unfolded verify_region.simps [of env written tot r off] Let_def
        n_def [symmetric] a_def [symmetric] ro_def [symmetric], simplified False if_False]
      obtain reply u new where u: "trace u = trace s @ new"
        and k: "(case in_data reply of
             None \<Rightarrow> throw (DataFault (ReadbackShort a))
           | Some b \<Rightarrow>
               if length b \<noteq> max n 2 then throw (DataFault (ReadbackShort a))
               else
                 (case find (\<lambda>i. u8_at b (i + ro) \<noteq> data r ! (off + i)) [0..<n] of
                    Some i \<Rightarrow> throw (DataFault (VerifyMismatch (a + i) (data r ! (off + i)) (u8_at b (i + ro))))
                  | None \<Rightarrow>
                      seq (abort_to_idle env) (\<lambda>_.
                      seq (emit Verifying written tot) (\<lambda>_.
                      verify_region env written tot r (off + DEFAULT_TRANSFER_SIZE))))) u = Inr (x, t)"
        and e: "\<And>p. effects p new = []"
        and c: "\<And>p b y. in_data reply = Some b \<Longrightarrow> a - ro \<le> y \<Longrightarrow> y < a - ro + length b \<Longrightarrow> confirms p new y (b ! (y - (a - ro)))"
        by (rule read_step [OF run lim], rule that)
      from k obtain b where b: "in_data reply = Some b" "length b = max n 2"
        and f: "find (\<lambda>i. u8_at b (i + ro) \<noteq> data r ! (off + i)) [0..<n] = None"
        and r: "seq (abort_to_idle env) (\<lambda>_. seq (emit Verifying written tot) (\<lambda>_.
                      verify_region env written tot r (off + DEFAULT_TRANSFER_SIZE))) u = Inr (x, t)"
        by (auto split: option.splits if_splits)
      have same: "b ! (i + ro) = data r ! (off + i)" if "i < n" for i
        using f that ro b(2) by (auto simp: find_None_set u8_at_def split: if_splits)
      from ih [OF b(1) _ f] "1.prems" b(2) have "does (verify_region env written tot r (off + DEFAULT_TRANSFER_SIZE))
          (\<lambda>p es. effects p es = [] \<and> (\<forall>i. off + DEFAULT_TRANSFER_SIZE \<le> i \<and> i < length (data r) \<longrightarrow> confirms p es (address r + i) (data r ! i)))"
        by simp
      then obtain n1 n2 n3 where tail: "trace t = trace u @ n1 @ n2 @ n3" "\<And>p. effects p n1 = [] \<and> pointer_after p n1 = p"
        "\<And>p. effects p n2 = [] \<and> pointer_after p n2 = p" "\<And>p. effects p n3 = []"
        "\<And>p i. off + DEFAULT_TRANSFER_SIZE \<le> i \<Longrightarrow> i < length (data r) \<Longrightarrow> confirms p n3 (address r + i) (data r ! i)"
        by (rule tail_step [OF r]) (rule that, auto)
      show "\<exists>new. trace t = trace s @ new \<and> (\<forall>p. F p new)"
      proof (intro exI conjI allI)
        show "trace t = trace s @ (new @ n1 @ n2 @ n3)" using u tail by simp
        show "F p (new @ n1 @ n2 @ n3)" for p
          unfolding F_def
        proof (intro conjI allI impI)
          show "effects p (new @ n1 @ n2 @ n3) = []" using e tail by (simp add: effects_append)
          fix i assume i: "off \<le> i \<and> i < length (data r)"
          show "confirms p (new @ n1 @ n2 @ n3) (address r + i) (data r ! i)"
          proof (cases "i < off + n")
            case True
            have "confirms p new (address r + i) (b ! (address r + i - (a - ro)))"
              using True i b ro by (intro c) (auto simp: a_def)
            moreover have "address r + i - (a - ro) = (i - off) + ro" using i ro(1) by (simp add: a_def)
            moreover have "i - off < n" using True i by linarith
            from same [OF this] have "b ! ((i - off) + ro) = data r ! i" using i by simp
            ultimately show ?thesis by (simp add: confirms_right)
          next
            case False
            then have "off + DEFAULT_TRANSFER_SIZE \<le> i" using i by (auto simp: n_def min_def split: if_splits)
            then show ?thesis using tail(5) i by (intro confirms_left) simp
          qed
        qed
      qed
    qed
  qed
qed

lemma does_verify_all:
  "\<forall>r \<in> set rs. region_end r \<le> 4294967296 \<Longrightarrow> does (verify_all env written tot rs) (\<lambda>p es. effects p es = []
    \<and> (\<forall>r \<in> set rs. \<forall>i < length (data r). confirms p es (address r + i) (data r ! i)))"
proof (induction rs)
  case Nil
  show ?case by (simp add: does_def)
next
  case (Cons r rs)
  have r: "region_end r \<le> 4294967296" and ih: "does (verify_all env written tot rs) (\<lambda>p es. effects p es = []
    \<and> (\<forall>r \<in> set rs. \<forall>i < length (data r). confirms p es (address r + i) (data r ! i)))" using Cons by auto
  show ?case
    unfolding verify_all.simps
    by (rule does_weaken [OF does_seq [OF does_verify_region [OF r] ih]])
      (auto simp: effects_append intro: confirms_left confirms_right)
qed

lemma does_blank_check:
  assumes "DEFAULT_FLASH_BASE + size_bytes \<le> 4294967296"
  shows "does (blank_check env tot size_bytes off) (\<lambda>p es. effects p es = []
    \<and> (\<forall>i. off \<le> i \<and> i < size_bytes \<longrightarrow> confirms p es (DEFAULT_FLASH_BASE + i) 255))"
  using assms
proof (induction env tot size_bytes off rule: blank_check.induct)
  case (1 env tot size_bytes off)
  show ?case
  proof (cases "off \<ge> size_bytes")
    case True
    then show ?thesis by (subst blank_check.simps) (auto simp: does_def)
  next
    case False
    define n a where "n = min DEFAULT_TRANSFER_SIZE (size_bytes - off)" and "a = DEFAULT_FLASH_BASE + off"
    note ih = "1.IH" [OF False n_def]
    have lim: "a < 4294967296" using False "1.prems" by (simp add: a_def)
    define F where "F = (\<lambda>p es. effects p es = [] \<and> (\<forall>i. off \<le> i \<and> i < size_bytes \<longrightarrow> confirms p es (DEFAULT_FLASH_BASE + i) 255))"
    show ?thesis
      unfolding F_def [symmetric] does_def
    proof (intro allI impI)
      fix s x t
      assume "blank_check env tot size_bytes off s = Inr (x, t)"
      note run = this [unfolded blank_check.simps [of env tot size_bytes off] Let_def
        n_def [symmetric] a_def [symmetric], simplified False if_False]
      obtain reply u new where u: "trace u = trace s @ new"
        and k: "(case in_data reply of
             None \<Rightarrow> throw (DataFault (BlankShort a))
           | Some b \<Rightarrow>
               if length b \<noteq> n then throw (DataFault (BlankShort a))
               else
                 (case find (\<lambda>i. b ! i \<noteq> 255) [0..<n] of
                    Some i \<Rightarrow> throw (DataFault (BlankMismatch (a + i)))
                  | None \<Rightarrow>
                      seq (abort_to_idle env) (\<lambda>_.
                      seq (emit Erasing 0 tot) (\<lambda>_.
                      blank_check env tot size_bytes (off + DEFAULT_TRANSFER_SIZE))))) u = Inr (x, t)"
        and e: "\<And>p. effects p new = []"
        and c: "\<And>p b y. in_data reply = Some b \<Longrightarrow> a \<le> y \<Longrightarrow> y < a + length b \<Longrightarrow> confirms p new y (b ! (y - a))"
        by (rule read_step [OF run lim], rule that)
      from k obtain b where b: "in_data reply = Some b" "length b = n"
        and f: "find (\<lambda>i. b ! i \<noteq> 255) [0..<n] = None"
        and r: "seq (abort_to_idle env) (\<lambda>_. seq (emit Erasing 0 tot) (\<lambda>_.
                      blank_check env tot size_bytes (off + DEFAULT_TRANSFER_SIZE))) u = Inr (x, t)"
        by (auto split: option.splits if_splits)
      have blank: "b ! i = 255" if "i < n" for i
        using f that by (auto simp: find_None_set)
      from ih [OF b(1) _ f] "1.prems" b(2) have "does (blank_check env tot size_bytes (off + DEFAULT_TRANSFER_SIZE))
          (\<lambda>p es. effects p es = [] \<and> (\<forall>i. off + DEFAULT_TRANSFER_SIZE \<le> i \<and> i < size_bytes \<longrightarrow> confirms p es (DEFAULT_FLASH_BASE + i) 255))"
        by simp
      then obtain n1 n2 n3 where tail: "trace t = trace u @ n1 @ n2 @ n3" "\<And>p. effects p n1 = [] \<and> pointer_after p n1 = p"
        "\<And>p. effects p n2 = [] \<and> pointer_after p n2 = p" "\<And>p. effects p n3 = []"
        "\<And>p i. off + DEFAULT_TRANSFER_SIZE \<le> i \<Longrightarrow> i < size_bytes \<Longrightarrow> confirms p n3 (DEFAULT_FLASH_BASE + i) 255"
        by (rule tail_step [OF r]) (rule that, auto)
      show "\<exists>new. trace t = trace s @ new \<and> (\<forall>p. F p new)"
      proof (intro exI conjI allI)
        show "trace t = trace s @ (new @ n1 @ n2 @ n3)" using u tail by simp
        have "confirms p (new @ n1 @ n2 @ n3) (DEFAULT_FLASH_BASE + i) 255" if i: "off \<le> i" "i < size_bytes" for p i
        proof (cases "i < off + n")
          case True
          have "confirms p new (DEFAULT_FLASH_BASE + i) (b ! (DEFAULT_FLASH_BASE + i - a))"
            using True i b by (intro c) (auto simp: a_def)
          moreover have "b ! (DEFAULT_FLASH_BASE + i - a) = 255" using blank [of "i - off"] True i by (simp add: a_def)
          ultimately show ?thesis by (simp add: confirms_right)
        next
          case False
          then have "off + DEFAULT_TRANSFER_SIZE \<le> i" using i by (auto simp: n_def min_def split: if_splits)
          then show ?thesis using tail(5) i by (intro confirms_left) simp
        qed
        then show "F p (new @ n1 @ n2 @ n3)" for p
          unfolding F_def using e tail by (simp add: effects_append)
      qed
    qed
  qed
qed

lemma flash_steps_phases:
  assumes "flash_steps env opts rs tot s = Inr (x, t)"
    and "case_option DEFAULT_FLASH_BASE id (start_address opts) = DEFAULT_FLASH_BASE"
  obtains plan h e b w v d where "session_plan env opts rs tot plan"
    and "trace t = trace s @ h @ e @ b @ w @ v @ d"
    and "\<And>p. effects p h = []" and "\<And>p. effects p e = List.map EraseAt plan" and "\<And>p. effects p b = []"
    and "\<And>p. effects p w = concat (List.map (\<lambda>r. chunk_writes r 0) rs)"
    and "\<And>p. effects p v = []" and "\<And>p. effects p d = []"
    and "\<And>p m i. erase_mode opts = Some ''full-chip'' \<Longrightarrow> Option.bind (expected_mcu opts) as_mcu = Some m \<Longrightarrow>
          i < MCU_FLASH_SIZE m \<Longrightarrow> confirms p b (DEFAULT_FLASH_BASE + i) 255"
    and "\<And>p r i. opt_verify opts \<noteq> Some False \<Longrightarrow> r \<in> set rs \<Longrightarrow> i < length (data r) \<Longrightarrow>
          confirms p v (address r + i) (data r ! i)"
proof -
  let ?fb = "case Option.bind (expected_mcu opts) as_mcu of None \<Rightarrow> 0 | Some m \<Rightarrow> MCU_FLASH_SIZE m"
  from assms(1) obtain s1 s2 s3 s4 s5 s6 s7 s8 s9 s10 s11 plan written and u1 u3 u4 u5 u6 u7 u9 u10 u11 :: unit where
    1: "assert_claimed s = Inr (u1, s1)" and 2: "plan_erases env opts rs tot s1 = Inr (plan, s2)"
    and 3: "prepare_device env s2 = Inr (u3, s3)" and 4: "throw_if_cancelled env 0 tot s3 = Inr (u4, s4)"
    and 5: "emit Erasing 0 tot s4 = Inr (u5, s5)" and 6: "erase_all env tot plan s5 = Inr (u6, s6)"
    and 7: "(if erase_mode opts = Some ''full-chip'' then blank_check env tot ?fb 0 else ret ()) s6 = Inr (u7, s7)"
    and 8: "write_all env tot rs 0 s7 = Inr (written, s8)"
    and 9: "(if opt_verify opts \<noteq> Some False then verify_all env written tot rs else ret ()) s8 = Inr (u9, s9)"
    and 10: "throw_if_cancelled env written tot s9 = Inr (u10, s10)"
    and 11: "(if opt_leave opts \<noteq> Some False then leave_dfu env (case_option DEFAULT_FLASH_BASE id (start_address opts)) written tot
        else ret ()) s10 = Inr (u11, s11)" and 12: "emit Done written tot s11 = Inr (x, t)"
    unfolding flash_steps_def Let_def seq_Inr_iff by (elim exE conjE) (rule that)
  have plan: "session_plan env opts rs tot plan"
    using plan_erases_Inr [OF 2] unfolding session_plan_def by metis
  then obtain name where name: "approved_plan opts rs name plan" by (auto simp: session_plan_def)
  note bounds = approved_bounds [OF name]
  have fb: "DEFAULT_FLASH_BASE + ?fb \<le> 4294967296"
  proof (cases "Option.bind (expected_mcu opts) as_mcu")
    case (Some m)
    then show ?thesis by (cases m) (simp_all add: DEFAULT_FLASH_BASE_def)
  qed (simp add: DEFAULT_FLASH_BASE_def)
  have start: "case_option DEFAULT_FLASH_BASE id (start_address opts) < 4294967296"
    unfolding assms(2) by (simp add: DEFAULT_FLASH_BASE_def)
  have head: "only harmless (seq assert_claimed (\<lambda>_. seq (plan_erases env opts rs tot) (\<lambda>_. seq (prepare_device env) (\<lambda>_.
      seq (throw_if_cancelled env 0 tot) (\<lambda>_. emit Erasing 0 tot)))))"
    by (intro only_intros) simp_all
  have "seq assert_claimed (\<lambda>_. seq (plan_erases env opts rs tot) (\<lambda>_. seq (prepare_device env) (\<lambda>_.
      seq (throw_if_cancelled env 0 tot) (\<lambda>_. emit Erasing 0 tot)))) s = Inr (u5, s5)"
    unfolding seq_Inr_iff using 1 2 3 4 5 by blast
  from doesD [OF does_harmless [OF head] this] obtain h where h: "trace s5 = trace s @ h" "\<And>p. effects p h = []" by blast
  from doesD [OF does_emits [OF emits_erase_all [OF bounds(1)]] 6] obtain e where
    e: "trace s6 = trace s5 @ e" "\<And>p. effects p e = List.map EraseAt plan" by blast
  have "\<exists>b. trace s7 = trace s6 @ b \<and> (\<forall>p. effects p b = [])
     \<and> (erase_mode opts = Some ''full-chip'' \<longrightarrow> (\<forall>p i. i < ?fb \<longrightarrow> confirms p b (DEFAULT_FLASH_BASE + i) 255))"
  proof (cases "erase_mode opts = Some ''full-chip''")
    case True
    with 7 have "blank_check env tot ?fb 0 s6 = Inr (u7, s7)" by simp
    from doesD [OF does_blank_check [OF fb] this] show ?thesis by auto
  next
    case False
    with 7 show ?thesis by simp
  qed
  then obtain b where b: "trace s7 = trace s6 @ b" "\<And>p. effects p b = []"
    "\<And>p i. erase_mode opts = Some ''full-chip'' \<Longrightarrow> i < ?fb \<Longrightarrow> confirms p b (DEFAULT_FLASH_BASE + i) 255" by blast
  from doesD [OF does_emits [OF emits_write_all [OF bounds(2)]] 8] obtain w where
    w: "trace s8 = trace s7 @ w" "\<And>p. effects p w = concat (List.map (\<lambda>r. chunk_writes r 0) rs)" by blast
  have "\<exists>v. trace s9 = trace s8 @ v \<and> (\<forall>p. effects p v = [])
     \<and> (opt_verify opts \<noteq> Some False \<longrightarrow> (\<forall>p. \<forall>r \<in> set rs. \<forall>i < length (data r). confirms p v (address r + i) (data r ! i)))"
  proof (cases "opt_verify opts \<noteq> Some False")
    case True
    with 9 have "verify_all env written tot rs s8 = Inr (u9, s9)" by simp
    from doesD [OF does_verify_all [OF bounds(2)] this] show ?thesis by auto
  next
    case False
    with 9 show ?thesis by simp
  qed
  then obtain v where v: "trace s9 = trace s8 @ v" "\<And>p. effects p v = []"
    "\<And>p r i. opt_verify opts \<noteq> Some False \<Longrightarrow> r \<in> set rs \<Longrightarrow> i < length (data r) \<Longrightarrow> confirms p v (address r + i) (data r ! i)"
    by blast
  have s10: "s10 = s9" using 10 by (auto simp: throw_if_cancelled_def split: if_splits)
  have d1: "emits (\<lambda>_. True) (if opt_leave opts \<noteq> Some False then leave_dfu env (case_option DEFAULT_FLASH_BASE id (start_address opts)) written tot
        else ret ()) [] (\<lambda>_. True)"
    by (simp add: emits_leave [OF start] emits_ret)
  have d2: "emits (\<lambda>_. True) (emit Done written tot) [] (\<lambda>_. True)" by (rule emits_harmless) (intro only_intros, simp)
  have "seq (if opt_leave opts \<noteq> Some False then leave_dfu env (case_option DEFAULT_FLASH_BASE id (start_address opts)) written tot
        else ret ()) (\<lambda>_. emit Done written tot) s10 = Inr (x, t)"
    unfolding seq_Inr_iff using 11 12 by blast
  from doesD [OF does_emits [OF emits_seq_nil [OF d1 d2]] this] obtain d where
    d: "trace t = trace s10 @ d" "\<And>p. effects p d = []" by blast
  show thesis
  proof (rule that [OF plan _ h(2) e(2) b(2) w(2) v(2) d(2) _ v(3)])
    show "trace t = trace s @ h @ e @ b @ w @ v @ d" using h e b w v d s10 by simp
    show "confirms p b (DEFAULT_FLASH_BASE + i) 255" if "erase_mode opts = Some ''full-chip''"
      "Option.bind (expected_mcu opts) as_mcu = Some m" "i < MCU_FLASH_SIZE m" for p m i
      using that b(3) by simp
  qed
qed

lemma harmless_log: "harmless e \<Longrightarrow> effects p [e] = []"
  by (simp add: harmless_effect)

lemma flash_session_cases:
  "flash_session env opts rs tot s = Inr (x, t) \<longleftrightarrow>
     (\<exists>s1 s2 y. open_device env DEFAULT_ALT s = Inr ((), s1) \<and> flash_steps env opts rs tot s1 = Inr (y, s2)
        \<and> t = close_device env s2)"
  by (auto simp: flash_session_def split: sum.splits)

text \<open>Everything that is decided before the device is opened.\<close>

definition flash_allowed :: "dfu_env \<Rightarrow> firmware \<Rightarrow> flash_options \<Rightarrow> bool" where
  "flash_allowed env fw opts \<longleftrightarrow>
     flash_checks (flash_image fw opts) opts = Inr ()
     \<and> (\<exists>plan. plan_sector_erases (flash_regions (flash_image fw opts)) (flash_target fw opts) = Inr plan)
     \<and> case_option DEFAULT_FLASH_BASE id (start_address opts) = DEFAULT_FLASH_BASE
     \<and> browser_ready env \<and> flash_total (flash_image fw opts) \<noteq> 0"

lemma flash_allowed_eq:
  assumes "flash_allowed env fw opts"
  shows "flash env fw opts = seq (emit Opening 0 (flash_total (flash_image fw opts)))
     (\<lambda>_. flash_session env opts (flash_regions (flash_image fw opts)) (flash_total (flash_image fw opts)))"
proof -
  note a = assms [unfolded flash_allowed_def]
  have b: "DEFAULT_FLASH_BASE \<le> MAX_SAFE_INTEGER" by (simp add: DEFAULT_FLASH_BASE_def MAX_SAFE_INTEGER_def)
  obtain plan where p: "plan_sector_erases (flash_regions (flash_image fw opts)) (flash_target fw opts) = Inr plan"
    using a by blast
  show ?thesis
    using a b p by (simp add: flash_def Let_def lift_flash_def unless_ok_def)
qed

lemma flash_refused:
  assumes "\<not> flash_allowed env fw opts"
  shows "\<exists>e t. flash env fw opts s = Inl (e, t) \<and> (t = s \<or> t = log_event (Emit Failed 0 0) s)"
proof -
  have b: "DEFAULT_FLASH_BASE \<le> MAX_SAFE_INTEGER" by (simp add: DEFAULT_FLASH_BASE_def MAX_SAFE_INTEGER_def)
  define D where "D = DEFAULT_FLASH_BASE"
  define st where "st = case_option DEFAULT_FLASH_BASE id (start_address opts)"
  define img where "img = flash_image fw opts"
  define tg where "tg = flash_target fw opts"
  have eq: "flash env fw opts = (case flash_checks img opts of
        Inl e \<Rightarrow> seq (emit Failed 0 0) (\<lambda>_. throw e)
      | Inr _ \<Rightarrow>
          seq (lift_flash (plan_sector_erases (flash_regions img) tg)) (\<lambda>_.
          seq (unless_ok (st \<le> MAX_SAFE_INTEGER \<and> st = D) NeedsDefaultBase) (\<lambda>_.
          seq (unless_ok (browser_ready env) (LinkFault NoBrowser)) (\<lambda>_.
          if flash_total img = 0 then seq (emit Failed 0 0) (\<lambda>_. throw NoBytes)
          else seq (emit Opening 0 (flash_total img)) (\<lambda>_. flash_session env opts (flash_regions img) (flash_total img))))))"
    by (simp only: flash_def Let_def img_def tg_def st_def D_def)
  have na: "\<not> (flash_checks img opts = Inr () \<and> (\<exists>plan. plan_sector_erases (flash_regions img) tg = Inr plan)
     \<and> st = D \<and> browser_ready env \<and> flash_total img \<noteq> 0)"
    using assms by (simp add: flash_allowed_def img_def tg_def st_def D_def)
  have f: "seq (emit Failed 0 0) (\<lambda>_. throw e) s = Inl (e, log_event (Emit Failed 0 0) s)"
    and t: "throw e s = Inl (e, s)" for e :: dfu_error
    by (simp_all add: seq_def emit_def throw_def)
  show ?thesis
  proof (cases "flash_checks img opts")
    case (Inl e)
    then show ?thesis unfolding eq using f by auto
  next
    case (Inr u)
    then show ?thesis
      using na b unfolding eq lift_flash_def unless_ok_def
      by (cases "plan_sector_erases (flash_regions img) tg") (auto simp: D_def f t)
  qed
qed

subsection \<open>The flash memory a trace leaves behind\<close>

text \<open>
  NOR flash: an erase sets the bytes of its sector, programming can only clear bits. Of the sectors
  only the map the device reports is used.
\<close>

fun apply_effect :: "sector list \<Rightarrow> effect \<Rightarrow> (nat \<Rightarrow> byte) \<Rightarrow> nat \<Rightarrow> byte" where
  "apply_effect secs (EraseAt a) mem x =
     (if list_ex (\<lambda>s. sec_start s = a \<and> sector_covers s x) secs then 255 else mem x)"
| "apply_effect secs (WriteAt a d) mem x =
     (if a \<le> x \<and> x < a + length d then mem x AND d ! (x - a) else mem x)"

definition memory_after :: "sector list \<Rightarrow> effect list \<Rightarrow> (nat \<Rightarrow> byte) \<Rightarrow> nat \<Rightarrow> byte" where
  "memory_after secs es mem = fold (apply_effect secs) es mem"

text \<open>The byte that the regions of an image agree on.\<close>

definition regions_agree :: "hex_region list \<Rightarrow> (nat \<Rightarrow> byte) \<Rightarrow> bool" where
  "regions_agree rs f \<longleftrightarrow> (\<forall>r \<in> set rs. \<forall>i < length (data r). data r ! i = f (address r + i))"

lemma memory_erases:
  "memory_after secs (List.map EraseAt plan) mem x =
     (if \<exists>s \<in> set secs. sec_start s \<in> set plan \<and> sector_covers s x then 255 else mem x)"
  by (induction plan arbitrary: mem) (auto simp: memory_after_def list_ex_iff)

lemma byte_and_self: "(c :: byte) AND c = c"
  by simp

lemma byte_full_and: "(255 :: byte) AND c = c"
proof -
  have m: "(255 :: byte) = - 1" by simp
  show ?thesis unfolding m by (rule and.left_neutral)
qed

lemma memory_chunks:
  assumes "\<forall>i < length (data r). data r ! i = f (address r + i)"
  shows "memory_after secs (chunk_writes r off) mem x =
     (if address r + off \<le> x \<and> x < region_end r then mem x AND f x else mem x)"
  using assms
proof (induction r off arbitrary: mem rule: chunk_writes.induct)
  case (1 r off)
  show ?case
  proof (cases "off \<ge> length (data r)")
    case True
    then have "\<not> (address r + off \<le> x \<and> x < region_end r)" by (simp add: region_end_def)
    then show ?thesis unfolding chunk_writes_end [OF True] by (auto simp: memory_after_def)
  next
    case False
    define d where "d = take DEFAULT_TRANSFER_SIZE (drop off (data r))"
    define mem1 where "mem1 = apply_effect secs (WriteAt (address r + off) d) mem"
    have step: "memory_after secs (chunk_writes r off) mem x = memory_after secs (chunk_writes r (off + DEFAULT_TRANSFER_SIZE)) mem1 x"
      using False by (subst chunk_writes.simps) (simp add: memory_after_def mem1_def d_def)
    have len: "length d = min DEFAULT_TRANSFER_SIZE (length (data r) - off)" by (simp add: d_def)
    have m1: "mem1 x = (if address r + off \<le> x \<and> x < address r + off + length d then mem x AND f x else mem x)"
    proof (cases "address r + off \<le> x \<and> x < address r + off + length d")
      case True
      then have i: "x - (address r + off) < length d" "x - address r < length (data r)" using len by auto
      have "d ! (x - (address r + off)) = data r ! (x - address r)"
      proof -
        have "off + (x - (address r + off)) = x - address r" using True by linarith
        moreover have "x - (address r + off) < DEFAULT_TRANSFER_SIZE" using i(1) len by simp
        ultimately show ?thesis using False by (simp add: d_def)
      qed
      also have "\<dots> = f x" using "1.prems" i(2) True by auto
      finally show ?thesis using True by (simp add: mem1_def)
    next
      case False
      show ?thesis unfolding mem1_def apply_effect.simps by (simp only: False if_False)
    qed
    show ?thesis
    proof (cases "length d = DEFAULT_TRANSFER_SIZE")
      case True
      show ?thesis
        unfolding step "1.IH" [OF False "1.prems"] m1 using True len by (auto simp: region_end_def)
    next
      case short: False
      then have l: "length d = length (data r) - off" using len by (simp add: min_def split: if_splits)
      have "off + DEFAULT_TRANSFER_SIZE \<ge> length (data r)" using short len by (simp add: min_def split: if_splits)
      then show ?thesis
        unfolding step by (simp add: chunk_writes_end memory_after_def m1 l) (use False in \<open>auto simp: region_end_def\<close>)
    qed
  qed
qed

lemma memory_writes:
  assumes "regions_agree rs f" and "\<forall>r \<in> set rs. covers r x \<longrightarrow> mem x = 255 \<or> mem x = f x"
  shows "memory_after secs (concat (List.map (\<lambda>r. chunk_writes r 0) rs)) mem x =
     (if \<exists>r \<in> set rs. covers r x then f x else mem x)"
  using assms
proof (induction rs arbitrary: mem)
  case Nil
  then show ?case by (simp add: memory_after_def)
next
  case (Cons r rs)
  define mem1 where "mem1 = memory_after secs (chunk_writes r 0) mem"
  have m1: "mem1 x = (if covers r x then mem x AND f x else mem x)"
    using memory_chunks [of r f secs 0 mem x] Cons.prems(1) by (simp add: mem1_def regions_agree_def covers_def)
  have v: "mem1 x = f x" if "covers r x"
    using that m1 Cons.prems(2) by (auto simp: byte_full_and)
  have "\<forall>r \<in> set rs. covers r x \<longrightarrow> mem1 x = 255 \<or> mem1 x = f x"
    using v m1 Cons.prems(2) by auto
  from Cons.IH [where mem = mem1, OF _ this] Cons.prems(1)
  have "memory_after secs (concat (List.map (\<lambda>r. chunk_writes r 0) rs)) mem1 x
      = (if \<exists>r \<in> set rs. covers r x then f x else mem1 x)" by (simp add: regions_agree_def)
  then show ?case
    using v m1 by (auto simp: memory_after_def mem1_def)
qed

lemma memory_flash:
  assumes "approved_plan opts rs name plan" and "parse_dfu_flash_layout name = Inr l" and "regions_agree rs f"
  shows "memory_after (layout_sectors l) (flash_effects plan rs) mem x =
     (if \<exists>r \<in> set rs. covers r x then f x
      else if \<exists>s \<in> set (layout_sectors l). sec_start s \<in> set plan \<and> sector_covers s x then 255 else mem x)"
proof -
  define mem1 where "mem1 = memory_after (layout_sectors l) (List.map EraseAt plan) mem"
  have m1: "mem1 x = (if \<exists>s \<in> set (layout_sectors l). sec_start s \<in> set plan \<and> sector_covers s x then 255 else mem x)"
    unfolding mem1_def by (rule memory_erases)
  have "\<forall>r \<in> set rs. covers r x \<longrightarrow> (\<exists>s \<in> set (layout_sectors l). sec_start s \<in> set plan \<and> sector_covers s x)"
    using approved_planE [OF assms(1)] assms(2) by (metis Inr_inject)
  then have "\<forall>r \<in> set rs. covers r x \<longrightarrow> mem1 x = 255 \<or> mem1 x = f x" by (simp add: m1)
  from memory_writes [where mem = mem1, OF assms(3) this, of "layout_sectors l"] show ?thesis
    by (simp add: flash_effects_def memory_after_def mem1_def [unfolded memory_after_def, symmetric] m1)
qed

subsection \<open>No report of success without success\<close>

definition not_done :: "event \<Rightarrow> bool" where
  "not_done e = (case e of Emit Done _ _ \<Rightarrow> False | _ \<Rightarrow> True)"

lemma not_done_usb [simp]: "not_done (Usb op r)" "not_done (Delay n)"
  by (simp_all add: not_done_def)

lemma not_done_emit [simp]: "not_done (Emit ph w t) \<longleftrightarrow> ph \<noteq> Done"
  by (cases ph) (simp_all add: not_done_def)

lemma only_set_address [only_intros]: "only not_done (dfuse_set_address env a)"
  unfolding dfuse_set_address_def by (intro only_intros) simp_all

lemma only_erase_all [only_intros]: "only not_done (erase_all env tot as)"
  by (induction as) (auto simp: dfuse_erase_def intro!: only_intros)

lemma only_find [only_intros]:
  "(\<And>x. only P (k x)) \<Longrightarrow> only P m \<Longrightarrow> only P (case r of None \<Rightarrow> m | Some x \<Rightarrow> k x)"
  by (cases r) auto

lemma only_blank_check [only_intros]: "only not_done (blank_check env tot size_bytes off)"
proof (induction env tot size_bytes off rule: blank_check.induct)
  case (1 env tot size_bytes off)
  note ih = "1.IH" [OF _ refl]
  show ?case
    by (subst blank_check.simps, unfold Let_def) (intro only_intros ih; simp)
qed

lemma only_write_region [only_intros]: "only not_done (write_region env tot r off written)"
proof (induction env tot r off written rule: write_region.induct)
  case (1 env tot r off written)
  note ih = "1.IH" [OF _ refl]
  show ?case
    by (subst write_region.simps, unfold Let_def) (intro only_intros ih; simp)
qed

lemma only_verify_region [only_intros]: "only not_done (verify_region env written tot r off)"
proof (induction env written tot r off rule: verify_region.induct)
  case (1 env written tot r off)
  note ih = "1.IH" [OF _ refl refl refl]
  show ?case
    by (subst verify_region.simps, unfold Let_def) (intro only_intros ih; simp)
qed

lemma only_write_all [only_intros]: "only not_done (write_all env tot rs written)"
  by (induction rs arbitrary: written) (auto intro!: only_intros)

lemma only_verify_all [only_intros]: "only not_done (verify_all env written tot rs)"
  by (induction rs) (auto intro!: only_intros)

lemma only_leave [only_intros]: "only not_done (leave_dfu env a written tot)"
  unfolding leave_dfu_def by (intro only_intros) simp_all

subsection \<open>A device for the witnesses\<close>

text \<open>
  A bootloader that answers as AN3156 says: the state follows the last request, an upload returns the
  memory the trace has left at the pointer. The user never cancels.
\<close>

definition rom_sectors :: "sector list" where
  "rom_sectors = sectors_from DEFAULT_FLASH_BASE (SIZES F722)"

definition not_status :: "event \<Rightarrow> bool" where
  "not_status e = (case e of Usb (GetStatus _) _ \<Rightarrow> False | Usb _ _ \<Rightarrow> True | _ \<Rightarrow> False)"

definition rom_state :: "event list \<Rightarrow> byte" where
  "rom_state tr =
     (case filter not_status (rev tr) of
        Usb (Dnload b _ d) _ # _ \<Rightarrow> if b = 0 \<and> d = [] then 7 else 5
      | _ \<Rightarrow> 2)"

definition rom_reply :: "event list \<Rightarrow> usb_op \<Rightarrow> usb_reply" where
  "rom_reply tr op =
     (case op of
        GetStatus _ \<Rightarrow> InReply True (Some [0, 0, 0, 0, rom_state tr, 0])
      | Upload _ _ n \<Rightarrow>
          (let p = pointer_after 0 tr; mem = memory_after rom_sectors (effects 0 tr) (\<lambda>_. 0) in
           InReply True (Some (List.map (\<lambda>i. mem (p + i)) [0..<n])))
      | Dnload _ _ d \<Rightarrow> OutReply True (length d)
      | _ \<Rightarrow> OutReply True 0)"

definition rom_config :: usb_config where
  "rom_config = \<lparr>config_value = 1, interfaces = [\<lparr>if_number = 0, alternates =
     [\<lparr>alt_name = Some ''@Internal Flash /0x08000000/04*016Kg,01*64Kg,03*128Kg'', alt_setting = 0,
       alt_class = 254, alt_subclass = 1\<rparr>]\<rparr>]\<rparr>"

definition rom_env :: dfu_env where
  "rom_env = \<lparr>reply = rom_reply, cancel_flag = (\<lambda>_. False), config_now = (\<lambda>_. Some rom_config),
     opened_now = (\<lambda>_. False), browser_ready = True, granted = [(1155, 57105)], picked = None\<rparr>"

definition idle_flasher :: dfu_state where
  "idle_flasher = \<lparr>trace = [], dev_id = None, claimed = False, iface = 0\<rparr>"

definition rom_options :: flash_options where
  "rom_options = \<lparr>erase_mode = None, image_profile = None, start_address = None, opt_verify = None,
     opt_leave = None, expected_mcu = Some ''F722''\<rparr>"

definition rom_image :: firmware where
  "rom_image = RawBytes [1, 2, 3]"

definition returned :: "(dfu_error \<times> dfu_state) + (unit \<times> dfu_state) \<Rightarrow> bool" where
  "returned r = (case r of Inl _ \<Rightarrow> False | Inr _ \<Rightarrow> True)"

lemma parse_status_code [code]:
  "parse_status b = \<lparr>b_status = unat (b ! 0),
     poll_timeout = unat (b ! 1) + unat (b ! 2) * 256 + unat (b ! 3) * 65536, b_state = unat (b ! 4)\<rparr>"
proof -
  note B = byte_less [of "b ! 1"] byte_less [of "b ! 2"]
  have 1: "unat (b ! 1) + unat (b ! 2) * 256 < 2 ^ 16" using B by simp
  show ?thesis
    using unat_push_byte [of 0 "b ! 1"] B(1) or_push_bit_nat [OF 1] or_push_bit_nat [of "unat (b ! 1)" 8]
    by (simp add: parse_status_def unsigned_or_eq unat_push_byte or.assoc [symmetric])
qed
lemma rom_run: "returned (flash rom_env rom_image rom_options idle_flasher)"
  by code_simp

definition final_state :: "(dfu_error \<times> dfu_state) + (unit \<times> dfu_state) \<Rightarrow> dfu_state" where
  "final_state r = (case r of Inl (_, t) \<Rightarrow> t | Inr (_, t) \<Rightarrow> t)"

definition rom_end :: dfu_state where
  "rom_end = final_state (flash rom_env rom_image rom_options idle_flasher)"

lemma rom_result: "flash rom_env rom_image rom_options idle_flasher = Inr ((), rom_end)"
  using rom_run by (auto simp: returned_def rom_end_def final_state_def split: sum.splits)

subsection \<open>Properties\<close>

lemma flash_allowed_session:
  assumes "flash env fw opts s = Inr (u, t)"
  shows "flash_allowed env fw opts"
    and "\<exists>s1 s2 x. open_device env DEFAULT_ALT (log_event (Emit Opening 0 (flash_total (flash_image fw opts))) s) = Inr ((), s1)
       \<and> flash_steps env opts (flash_regions (flash_image fw opts)) (flash_total (flash_image fw opts)) s1 = Inr (x, s2)
       \<and> t = close_device env s2"
proof -
  show a: "flash_allowed env fw opts"
    using assms flash_refused [of env fw opts s] by fastforce
  show "\<exists>s1 s2 x. open_device env DEFAULT_ALT (log_event (Emit Opening 0 (flash_total (flash_image fw opts))) s) = Inr ((), s1)
       \<and> flash_steps env opts (flash_regions (flash_image fw opts)) (flash_total (flash_image fw opts)) s1 = Inr (x, s2)
       \<and> t = close_device env s2"
    using assms unfolding flash_allowed_eq [OF a]
    by (simp add: seq_def emit_def flash_session_cases)
qed

text \<open>
  C1: whatever the device, the user and the browser do, the erase and program requests a call of flash
  has sent when it stops are a first part of one list: all erases of an approved plan, then the
  transfers of the image in order. None is sent unless every check before the device is opened has
  passed and the device's own layout approved the plan.
\<close>

theorem flash_command_stream:
  "\<exists>new. trace (stop_state (flash env fw opts) s) = trace s @ new
     \<and> (effects p new = []
        \<or> flash_allowed env fw opts
          \<and> (\<exists>plan. session_plan env opts (flash_regions (flash_image fw opts)) (flash_total (flash_image fw opts)) plan
               \<and> prefix (effects p new) (flash_effects plan (flash_regions (flash_image fw opts)))))"
proof (cases "flash_allowed env fw opts")
  case False
  from flash_refused [OF this, of s] obtain e t where "flash env fw opts s = Inl (e, t)"
    "t = s \<or> t = log_event (Emit Failed 0 0) s" by blast
  then show ?thesis by (auto simp: stop_state_def log_event_def)
next
  case True
  define rs tot where "rs = flash_regions (flash_image fw opts)" and "tot = flash_total (flash_image fw opts)"
  define s0 where "s0 = log_event (Emit Opening 0 tot) s"
  have run: "flash env fw opts s = flash_session env opts rs tot s0"
    unfolding flash_allowed_eq [OF True] by (simp add: seq_def emit_def s0_def rs_def tot_def)
  have start: "case_option DEFAULT_FLASH_BASE id (start_address opts) = DEFAULT_FLASH_BASE"
    using True by (simp add: flash_allowed_def)
  have t0: "trace s0 = trace s @ [Emit Opening 0 tot]" by (simp add: s0_def log_event_def)
  define good where "good = (\<lambda>es. effects p es = [] \<or> (\<exists>plan. session_plan env opts rs tot plan
      \<and> prefix (effects p es) (flash_effects plan rs)))"
  have "\<exists>new. trace (stop_state (flash_session env opts rs tot) s0) = trace s0 @ new \<and> good new"
  proof (cases "open_device env DEFAULT_ALT s0")
    case (Inl a)
    obtain e t where a: "a = (e, t)" by (cases a)
    from onlyD_error [OF only_open_device Inl [unfolded a]] obtain n where n: "trace t = trace s0 @ n" "list_all harmless n" .
    obtain ph where "trace (report_failure env tot t) = trace t @ [Emit ph 0 tot]" using report_failure_trace by blast
    then show ?thesis
      using n harmless_effects [OF n(2)] by (simp add: stop_state_def flash_session_def Inl a good_def effects_append)
  next
    case (Inr a)
    obtain u t where a: "a = (u, t)" by (cases a)
    from onlyD [OF only_open_device Inr [unfolded a]] obtain n where n: "trace t = trace s0 @ n" "list_all harmless n" .
    note h = harmless_effects [OF n(2)]
    note steps = flash_steps_effects [OF start, where env = env and rs = rs and tot = tot and s = t and p = p]
    show ?thesis
    proof (cases "flash_steps env opts rs tot t")
      case (Inl b)
      obtain e t2 where b: "b = (e, t2)" by (cases b)
      from steps obtain m where m: "trace t2 = trace t @ m" "good m" by (auto simp: Inl b good_def)
      obtain ph where f: "trace (report_failure env tot t2) = trace t2 @ [Emit ph 0 tot]" using report_failure_trace by blast
      obtain r1 r2 i where "trace (close_device env (report_failure env tot t2))
          = trace (report_failure env tot t2) @ [Usb (ReleaseInterface i) r1, Usb UsbClose r2]"
        using close_device_trace by blast
      with m n h f show ?thesis
        using Inr by (simp add: stop_state_def flash_session_def Inl a b good_def effects_append)
    next
      case (Inr b)
      obtain v t2 where b: "b = (v, t2)" by (cases b)
      from steps obtain m plan where m1: "trace t2 = trace t @ m" "session_plan env opts rs tot plan"
        "effects p m = flash_effects plan rs" by (auto simp: Inr b)
      have m: "trace t2 = trace t @ m" "good m" using m1 by (auto simp: good_def)
      obtain r1 r2 i where "trace (close_device env t2) = trace t2 @ [Usb (ReleaseInterface i) r1, Usb UsbClose r2]"
        using close_device_trace by blast
      with m n h show ?thesis
        using \<open>open_device env DEFAULT_ALT s0 = Inr a\<close>
        by (simp add: stop_state_def flash_session_def Inr a b good_def effects_append)
    qed
  qed
  then obtain new where new: "trace (stop_state (flash_session env opts rs tot) s0) = trace s0 @ new" "good new" by blast
  have eq: "stop_state (flash env fw opts) s = stop_state (flash_session env opts rs tot) s0"
    by (simp add: stop_state_def run)
  show ?thesis
    unfolding eq using new True t0 by (auto simp: good_def rs_def [symmetric] tot_def [symmetric])
qed





lemma only_open_not_done: "only not_done (open_device env alt)"
  unfolding open_device_def open_if_closed_def select_if_unconfigured_def claim_interface_def select_alternate_def
  by (intro only_intros) simp_all

lemma flash_steps_body:
  obtains body where "flash_steps env opts rs tot = seq body (\<lambda>written. emit Done written tot)" and "only not_done body"
proof -
  let ?fb = "case Option.bind (expected_mcu opts) as_mcu of None \<Rightarrow> 0 | Some m \<Rightarrow> MCU_FLASH_SIZE m"
  define body where "body = seq assert_claimed (\<lambda>_. seq (plan_erases env opts rs tot) (\<lambda>plan.
      seq (prepare_device env) (\<lambda>_. seq (throw_if_cancelled env 0 tot) (\<lambda>_. seq (emit Erasing 0 tot) (\<lambda>_.
      seq (erase_all env tot plan) (\<lambda>_.
      seq (if erase_mode opts = Some ''full-chip'' then blank_check env tot ?fb 0 else ret ()) (\<lambda>_.
      seq (write_all env tot rs 0) (\<lambda>written.
      seq (if opt_verify opts \<noteq> Some False then verify_all env written tot rs else ret ()) (\<lambda>_.
      seq (throw_if_cancelled env written tot) (\<lambda>_.
      seq (if opt_leave opts \<noteq> Some False
           then leave_dfu env (case_option DEFAULT_FLASH_BASE id (start_address opts)) written tot else ret ()) (\<lambda>_.
      ret written)))))))))))"
  have b: "only not_done body" unfolding body_def by (intro only_intros) simp_all
  show thesis
    by (rule that [OF _ b]) (simp add: flash_steps_def body_def Let_def)
qed


end
