(* ===== verification/Cli_Framing.thy ===== *)
theory Cli_Framing
  imports Js_Text
begin

section \<open>Line framing of the command line: cli-framing.ts\<close>

text \<open>
  \<open>LineBuffer\<close> cuts the incoming text into lines; \<open>ResponseCollector\<close> gathers the reply to one command
  until it is quiet, framed, too long, timed out or cancelled. A chunk is text: the protocol is ASCII, so
  decoding it is the identity. Timers are flags: a timer may fire whenever it is armed. The em dash of the firmware's
  refusal line, the one character outside the range of \<open>char\<close>, is given the code 0x97, which the protocol
  does not use.
\<close>

subsection \<open>The line buffer\<close>

text \<open>
  The scan of \<open>push\<close>: the first argument is the text before the index, the second the text from it on. A
  carriage return takes a line feed with it only when that has already arrived.
\<close>

function line_scan :: "string \<Rightarrow> string \<Rightarrow> string list \<times> string" where
  "line_scan pre [] = ([], pre)"
| "line_scan pre (c # cs) =
     (if c = CR then
        (let (ls, r) = line_scan [] (if cs \<noteq> [] \<and> hd cs = LF then tl cs else cs) in (pre # ls, r))
      else if c = LF then (let (ls, r) = line_scan [] cs in (pre # ls, r))
      else line_scan (pre @ [c]) cs)"
  by pat_completeness auto
termination
  by (relation "measure (\<lambda>(p, s). length s)") auto

definition line_push :: "string \<Rightarrow> string \<Rightarrow> string list \<times> string" where
  "line_push buf chunk = line_scan [] (buf @ chunk)"

definition encode_command :: "string \<Rightarrow> string" where
  "encode_command cmd = js_trim cmd @ [LF]"

subsection \<open>The response collector\<close>

definition DEFAULT_IDLE_MS :: nat where "DEFAULT_IDLE_MS = 40"
definition DEFAULT_TIMEOUT_MS :: nat where "DEFAULT_TIMEOUT_MS = 2000"
definition DEFAULT_MAX_CHARS :: nat where "DEFAULT_MAX_CHARS = 65536"

datatype reply_error =
    TooLong nat
  | TerminatorMissing
  | EmptyReply
  | Cancelled string

record collector =
  parts :: "string list"
  received_chars :: nat
  outcome :: "(reply_error + string) option"
  idle_armed :: bool
  hard_armed :: bool
  end_marker :: "string option"
  max_chars :: nat

definition new_collector :: "string option \<Rightarrow> nat option \<Rightarrow> collector" where
  "new_collector marker limit = \<lparr>parts = [], received_chars = 0, outcome = None, idle_armed = False, hard_armed = True,
     end_marker = marker, max_chars = (case limit of Some n \<Rightarrow> n | None \<Rightarrow> DEFAULT_MAX_CHARS)\<rparr>"

definition collector_cancel :: "reply_error \<Rightarrow> collector \<Rightarrow> collector" where
  "collector_cancel e c = (if outcome c \<noteq> None then c else c\<lparr>outcome := Some (Inl e), idle_armed := False, hard_armed := False\<rparr>)"

definition collector_finish :: "bool \<Rightarrow> collector \<Rightarrow> collector" where
  "collector_finish from_timeout c =
     (if outcome c \<noteq> None then c
      else (let text = concat (parts c); d = c\<lparr>idle_armed := False, hard_armed := False\<rparr> in
        if from_timeout \<and> (text = [] \<or> end_marker c \<noteq> None)
        then d\<lparr>outcome := Some (Inl (if end_marker c \<noteq> None then TerminatorMissing else EmptyReply))\<rparr>
        else d\<lparr>outcome := Some (Inr text)\<rparr>))"

text \<open>\<open>/^unknown(?: \<emdash> try help| command)?$/\<close> on the trimmed line.\<close>

definition EM_DASH :: char where "EM_DASH = CHR 0x97"

definition unknown_line :: "string \<Rightarrow> bool" where
  "unknown_line l \<longleftrightarrow> js_trim l \<in> {''unknown'', ''unknown command'', ''unknown '' @ [EM_DASH] @ '' try help''}"

definition modes_refusal :: "string \<Rightarrow> bool" where
  "modes_refusal l \<longleftrightarrow> prefix ''mode_range refused:'' l \<or> prefix ''control_source refused:'' l"

definition frame_complete :: "string \<Rightarrow> string \<Rightarrow> bool" where
  "frame_complete marker text =
     (let ls = butlast (split_any_nl text) in
      marker \<in> set ls \<or> (marker = ''modes_end: 1'' \<and> list_ex modes_refusal ls) \<or> list_ex unknown_line ls)"

definition collector_push :: "string \<Rightarrow> collector \<Rightarrow> collector" where
  "collector_push text c =
     (if outcome c \<noteq> None then c
      else if int (length text) > int (max_chars c) - int (received_chars c) then collector_cancel (TooLong (max_chars c)) c
      else (let d = c\<lparr>received_chars := received_chars c + length text, parts := parts c @ [text], idle_armed := False\<rparr> in
        case end_marker c of
          Some marker \<Rightarrow> if frame_complete marker (concat (parts d)) then collector_finish False d else d
        | None \<Rightarrow> d\<lparr>idle_armed := True\<rparr>))"

datatype collector_event = Chunk string | IdleFires | HardFires | CancelWith string

fun collector_step :: "collector_event \<Rightarrow> collector \<Rightarrow> collector" where
  "collector_step (Chunk t) c = collector_push t c"
| "collector_step IdleFires c = (if idle_armed c then collector_finish False c else c)"
| "collector_step HardFires c = (if hard_armed c then collector_finish True c else c)"
| "collector_step (CancelWith m) c = collector_cancel (Cancelled m) c"

subsection \<open>Lines do not depend on the chunks, but for one case\<close>

lemma line_scan_append:
  "\<not> (xs \<noteq> [] \<and> last xs = CR \<and> ys \<noteq> [] \<and> hd ys = LF) \<Longrightarrow>
   line_scan pre (xs @ ys) = (let (l1, b1) = line_scan pre xs; (l2, b2) = line_scan b1 ys in (l1 @ l2, b2))"
proof (induction pre xs rule: line_scan.induct)
  case (1 pre)
  then show ?case by (simp split: prod.split)
next
  case (2 pre c cs)
  show ?case
  proof (cases cs)
    case Nil
    then show ?thesis using 2 by (cases ys) (auto split: prod.splits)
  next
    case (Cons d ds)
    show ?thesis
    proof (cases "ds = [] \<and> c = CR \<and> d = LF")
      case True
      then show ?thesis using Cons by (auto split: prod.splits)
    next
      case False
      then show ?thesis using 2 Cons by (auto split: prod.splits if_splits)
    qed
  qed
qed

definition no_break :: "string \<Rightarrow> bool" where
  "no_break s \<longleftrightarrow> CR \<notin> set s \<and> LF \<notin> set s"

lemma CR_not_LF [simp]: "CR \<noteq> LF" "LF \<noteq> CR"
  by (simp_all add: CR_def LF_def)

lemma line_scan_plain: "no_break s \<Longrightarrow> line_scan pre s = ([], pre @ s)"
  by (induction s arbitrary: pre) (auto simp: no_break_def)

lemma line_scan_rest: "no_break pre \<Longrightarrow> no_break (snd (line_scan pre s))"
  by (induction pre s rule: line_scan.induct) (auto simp: no_break_def split: prod.splits if_splits)

lemma line_scan_lines: "no_break pre \<Longrightarrow> list_all no_break (fst (line_scan pre s))"
  by (induction pre s rule: line_scan.induct) (auto simp: no_break_def split: prod.splits if_splits)

lemma line_push_scan: "no_break buf \<Longrightarrow> line_push buf c = line_scan buf c"
proof -
  assume b: "no_break buf"
  then have "\<not> (buf \<noteq> [] \<and> last buf = CR \<and> c \<noteq> [] \<and> hd c = LF)" by (metis last_in_set no_break_def)
  from line_scan_append [OF this] show ?thesis using b by (simp add: line_push_def line_scan_plain split: prod.splits)
qed

definition splits_crlf :: "string \<Rightarrow> string \<Rightarrow> bool" where
  "splits_crlf c1 c2 \<longleftrightarrow> c1 \<noteq> [] \<and> last c1 = CR \<and> c2 \<noteq> [] \<and> hd c2 = LF"

text \<open>C14: How the serial port cuts the text into chunks does not change the lines the buffer delivers, with one
  exception the theorem states: when a chunk ends between the carriage return and the line feed of one line end,
  the second chunk delivers one empty line too many. No line delivered holds a line end.\<close>
theorem line_chunks:
  assumes "no_break buf"
  shows "line_push buf (c1 @ c2)
    = (let (l1, b1) = line_push buf c1; (l2, b2) = line_push b1 c2 in (l1 @ (if splits_crlf c1 c2 then tl l2 else l2), b2))
    \<and> (if splits_crlf c1 c2 then hd (fst (line_push (snd (line_push buf c1)) c2)) = [] else True)
    \<and> list_all no_break (fst (line_push buf c1))"
proof -
  have b1: "no_break (snd (line_scan buf c1))" using assms by (rule line_scan_rest)
  note push = line_push_scan [OF assms] line_push_scan [OF b1]
  have lines: "list_all no_break (fst (line_push buf c1))" using assms by (simp add: push line_scan_lines)
  show ?thesis
  proof (cases "splits_crlf c1 c2")
    case False
    then have "\<not> (c1 \<noteq> [] \<and> last c1 = CR \<and> c2 \<noteq> [] \<and> hd c2 = LF)" by (simp add: splits_crlf_def)
    from line_scan_append [OF this] show ?thesis using False lines push
      by (cases "line_scan buf c1") (auto split: prod.splits)
  next
    case True
    then obtain xs ys where c: "c1 = xs @ [CR]" "c2 = LF # ys"
      by (metis append_butlast_last_id list.collapse splits_crlf_def)
    obtain l b where x: "line_scan buf xs = (l, b)" by fastforce
    obtain m r where y: "line_scan [] ys = (m, r)" by fastforce
    have "line_scan buf (xs @ CR # LF # ys) = (l @ b # m, r)" "line_scan buf (xs @ [CR]) = (l @ [b], [])"
      by (subst line_scan_append; simp add: x y)+
    then show ?thesis using True lines y push unfolding c by simp
  qed
qed

theorem line_chunks_witness:
  "line_push [] (''a'' @ [CR] @ [LF] @ ''b'') = ([''a''], ''b'')
   \<and> line_push [] (''a'' @ [CR]) = ([''a''], []) \<and> fst (line_push [] (LF # ''b'')) = [[]]"
proof -
  have "no_break []" by (simp add: no_break_def)
  from line_chunks [OF this, of "''a'' @ [CR]" "LF # ''b''"] show ?thesis
    by (simp add: line_push_def splits_crlf_def LF_def CR_def)
qed

subsection \<open>What a collected reply is\<close>

definition collector_run :: "collector_event list \<Rightarrow> collector \<Rightarrow> collector" where
  "collector_run es c = fold collector_step es c"

fun pushed :: "collector_event list \<Rightarrow> string list" where
  "pushed [] = []"
| "pushed (Chunk t # es) = t # pushed es"
| "pushed (IdleFires # es) = pushed es"
| "pushed (HardFires # es) = pushed es"
| "pushed (CancelWith m # es) = pushed es"

definition reply_ok :: "collector \<Rightarrow> bool" where
  "reply_ok c \<longleftrightarrow> received_chars c = length (concat (parts c)) \<and> received_chars c \<le> max_chars c
     \<and> (outcome c \<noteq> None \<longrightarrow> \<not> idle_armed c \<and> \<not> hard_armed c) \<and> (end_marker c \<noteq> None \<longrightarrow> \<not> idle_armed c)
     \<and> (case outcome c of Some (Inr text) \<Rightarrow> text = concat (parts c) \<and> (case end_marker c of None \<Rightarrow> True | Some m \<Rightarrow> frame_complete m text) | _ \<Rightarrow> True)"

lemma collector_step_keeps:
  "end_marker (collector_step e c) = end_marker c \<and> max_chars (collector_step e c) = max_chars c
   \<and> (outcome c \<noteq> None \<longrightarrow> reply_ok c \<longrightarrow> collector_step e c = c)"
  by (cases e) (auto simp: collector_push_def collector_cancel_def collector_finish_def reply_ok_def Let_def split: option.splits)

lemma collector_step_ok: "reply_ok c \<Longrightarrow> reply_ok (collector_step e c)"
proof (cases e)
  case (Chunk t)
  assume ok: "reply_ok c"
  show ?thesis
  proof (cases "outcome c = None \<and> length t + received_chars c \<le> max_chars c")
    case True
    then show ?thesis using ok Chunk
      by (cases "end_marker c") (auto simp: reply_ok_def collector_push_def collector_finish_def Let_def)
  next
    case False
    then show ?thesis using ok Chunk
      by (auto simp: reply_ok_def collector_push_def collector_cancel_def split: option.splits sum.splits)
  qed
qed (auto simp: reply_ok_def collector_cancel_def collector_finish_def Let_def split: option.splits sum.splits)

lemma collector_run_ok: "reply_ok c \<Longrightarrow> reply_ok (collector_run es c)"
  by (induction es arbitrary: c) (simp_all add: collector_run_def collector_step_ok)

lemma collector_run_settled:
  "reply_ok c \<Longrightarrow> outcome c \<noteq> None \<Longrightarrow> collector_run es c = c"
  using collector_step_keeps by (induction es) (simp_all add: collector_run_def)

lemma collector_run_keeps: "end_marker (collector_run es c) = end_marker c \<and> max_chars (collector_run es c) = max_chars c"
  using collector_step_keeps by (induction es arbitrary: c) (simp_all add: collector_run_def)

lemma new_collector_ok: "reply_ok (new_collector m lim)"
  by (simp add: reply_ok_def new_collector_def)

lemma collector_step_parts: "parts (collector_step e c) = parts c \<or> parts (collector_step e c) = parts c @ pushed [e]"
  by (cases e) (auto simp: collector_push_def collector_cancel_def collector_finish_def Let_def split: option.splits)

definition collected :: "string option \<Rightarrow> nat option \<Rightarrow> collector_event list \<Rightarrow> collector" where
  "collected m lim es = collector_run es (new_collector m lim)"

end
