(* ===== verification/Fc_Replies.thy ===== *)
theory Fc_Replies
  imports Js_Text Complex_Main
begin

section \<open>Replies of the controller: values, reports and the filter settings\<close>

text \<open>
  The reply parsers of protocol/src that share one shape: a reply is split into trimmed lines, a report is a
  frame of \<open>key: token\<close> lines, and a key that is missing, repeated or outside its domain is unknown. The
  report scanner of the sources, a map of what was seen and a set of what was repeated, is modelled once;
  gyro-notch.ts and rpm-filter.ts follow. A number the code only compares is a rational, \<open>None\<close> when
  it is not finite.
\<close>

subsection \<open>Numbers in replies\<close>

text \<open>
  \<open>Number(s)\<close> of a text without white space: a decimal literal is \<open>m * 10 ^ e\<close> before it is rounded. It is
  finite when it is below the midpoint above the largest double, and zero when it is at most half of the
  smallest one.
\<close>

definition split_digits :: "string \<Rightarrow> string \<times> string" where
  "split_digits s = (takeWhile is_digit s, dropWhile is_digit s)"

definition drop_sign :: "string \<Rightarrow> bool \<times> string" where
  "drop_sign s = (if s \<noteq> [] \<and> hd s = CHR ''-'' then (True, tl s) else if s \<noteq> [] \<and> hd s = CHR ''+'' then (False, tl s) else (False, s))"

definition decimal_exponent :: "string \<Rightarrow> int option" where
  "decimal_exponent s =
     (if s = [] then Some 0
      else if hd s = CHR ''e'' \<or> hd s = CHR ''E'' then
        (let (neg, d) = drop_sign (tl s) in
         if all_digits d then Some (if neg then - int (dec_num d) else int (dec_num d)) else None)
      else None)"

definition js_decimal :: "string \<Rightarrow> (nat \<times> int) option" where
  "js_decimal s =
     (let (a, r) = split_digits (snd (drop_sign s));
          (b, t) = (if r \<noteq> [] \<and> hd r = CHR ''.'' then split_digits (tl r) else ([], r))
      in if a = [] \<and> b = [] then None
         else map_option (\<lambda>e. (dec_num (a @ b), e - int (length b))) (decimal_exponent t))"

definition in_radix :: "nat \<Rightarrow> string \<Rightarrow> bool" where
  "in_radix r s \<longleftrightarrow> s \<noteq> [] \<and> list_all (\<lambda>c. case hex_val c of Some v \<Rightarrow> v < r | None \<Rightarrow> False) s"

definition radix_num :: "nat \<Rightarrow> string \<Rightarrow> nat" where
  "radix_num r s = foldl (\<lambda>a c. a * r + (case hex_val c of Some v \<Rightarrow> v | None \<Rightarrow> 0)) 0 s"

definition js_number :: "string \<Rightarrow> (nat \<times> int) option" where
  "js_number s =
     (if s = [] then Some (0, 0)
      else if prefix ''0x'' s \<or> prefix ''0X'' s then (if in_radix 16 (drop 2 s) then Some (radix_num 16 (drop 2 s), 0) else None)
      else if prefix ''0o'' s \<or> prefix ''0O'' s then (if in_radix 8 (drop 2 s) then Some (radix_num 8 (drop 2 s), 0) else None)
      else if prefix ''0b'' s \<or> prefix ''0B'' s then (if in_radix 2 (drop 2 s) then Some (radix_num 2 (drop 2 s), 0) else None)
      else js_decimal s)"

definition DOUBLE_OVERFLOW :: nat where "DOUBLE_OVERFLOW = 2 ^ 1024 - 2 ^ 970"

definition js_finite :: "string \<Rightarrow> bool" where
  "js_finite s = (case js_number s of None \<Rightarrow> False
     | Some (m, e) \<Rightarrow> (if 0 \<le> e then m * 10 ^ nat e < DOUBLE_OVERFLOW else m < DOUBLE_OVERFLOW * 10 ^ nat (- e)))"

definition js_zero :: "string \<Rightarrow> bool" where
  "js_zero s = (case js_number s of None \<Rightarrow> False
     | Some (m, e) \<Rightarrow> (if 0 \<le> e then m = 0 else m * 2 ^ 1075 \<le> 10 ^ nat (- e)))"

subsection \<open>Reply lines\<close>

text \<open>\<open>/^([a-z0-9_]+): (\S+)$/\<close>, \<open>/^([a-z0-9_]+)=(\S+)$/\<close> and \<open>/^ok ([a-z0-9_]+)=(\S+)$/\<close>.\<close>

definition sep_line :: "(char \<Rightarrow> bool) \<Rightarrow> string \<Rightarrow> string \<Rightarrow> (string \<times> string) option" where
  "sep_line key sep l =
     (let k = takeWhile key l; r = dropWhile key l; v = drop (length sep) r
      in if k \<noteq> [] \<and> prefix sep r \<and> no_space v then Some (k, v) else None)"

abbreviation token_line :: "string \<Rightarrow> (string \<times> string) option" where
  "token_line \<equiv> sep_line setting_char '': ''"

abbreviation value_line :: "string \<Rightarrow> (string \<times> string) option" where
  "value_line \<equiv> sep_line setting_char ''=''"

definition ok_line :: "string \<Rightarrow> (string \<times> string) option" where
  "ok_line l = (if prefix ''ok '' l then value_line (drop 3 l) else None)"

record report_scan =
  seen :: "string \<rightharpoonup> string"
  repeated :: "string list"

definition empty_scan :: report_scan where
  "empty_scan = \<lparr>seen = Map.empty, repeated = []\<rparr>"

definition scan_field :: "(string \<Rightarrow> (string \<times> string) option) \<Rightarrow> string \<Rightarrow> report_scan \<Rightarrow> report_scan" where
  "scan_field m l st = (case m l of None \<Rightarrow> st
     | Some (k, v) \<Rightarrow> \<lparr>seen = (seen st)(k \<mapsto> v), repeated = (if seen st k \<noteq> None then k # repeated st else repeated st)\<rparr>)"

definition scan_report :: "(string \<Rightarrow> (string \<times> string) option) \<Rightarrow> string list \<Rightarrow> report_scan" where
  "scan_report m ls = fold (scan_field m) ls empty_scan"

definition once :: "report_scan \<Rightarrow> string \<Rightarrow> string option" where
  "once st k = (if k \<in> set (repeated st) then None else seen st k)"

definition option_filter :: "('a \<Rightarrow> bool) \<Rightarrow> 'a option \<Rightarrow> 'a option" where
  "option_filter P x = (case x of None \<Rightarrow> None | Some v \<Rightarrow> if P v then Some v else None)"

text \<open>\<open>indexOf\<close> and \<open>lastIndexOf\<close>.\<close>

fun index_of :: "'a \<Rightarrow> 'a list \<Rightarrow> nat option" where
  "index_of x [] = None"
| "index_of x (y # ys) = (if x = y then Some 0 else map_option Suc (index_of x ys))"

definition last_index_of :: "'a \<Rightarrow> 'a list \<Rightarrow> nat option" where
  "last_index_of x ys = map_option (\<lambda>i. length ys - 1 - i) (index_of x (rev ys))"

text \<open>The frame of a report: the lines after the first head line and before the last end line.\<close>

definition framed :: "string \<Rightarrow> string \<Rightarrow> string list \<Rightarrow> string list option" where
  "framed a b ls = (case (index_of a ls, last_index_of b ls) of
     (Some s, Some e) \<Rightarrow> if e < s then None else Some (drop (Suc s) (take e ls))
   | _ \<Rightarrow> None)"

text \<open>The class \<open>[a-z_]\<close>.\<close>

definition key_char :: "char \<Rightarrow> bool" where
  "key_char c \<longleftrightarrow> is_lower c \<or> c = CHR ''_''"

definition is_word :: "char \<Rightarrow> bool" where
  "is_word c \<longleftrightarrow> is_lower c \<or> is_upper c \<or> is_digit c \<or> c = CHR ''_''"

text \<open>\<open>/^unknown\b.*try help$/\<close>.\<close>

definition old_firmware_line :: "string \<Rightarrow> bool" where
  "old_firmware_line l \<longleftrightarrow> prefix ''unknown'' l \<and> (let r = drop 7 l in
     r \<noteq> [] \<and> \<not> is_word (hd r) \<and> LF \<notin> set r \<and> CR \<notin> set r \<and> suffix ''try help'' r)"

datatype get_result = GotValue string | GetUnsupported | GetMalformed string
datatype set_result = SetOk string | SetRefused bool string

definition get_reply :: "(string \<Rightarrow> string \<Rightarrow> bool) \<Rightarrow> string \<Rightarrow> get_result" where
  "get_reply accept raw =
     (let ls = reply_lines raw in
      if ls = [''unknown key''] then GetUnsupported
      else case ls of
        [l] \<Rightarrow> (case value_line l of Some (k, v) \<Rightarrow> if accept k v then GotValue v else GetMalformed (js_trim raw)
                                | None \<Rightarrow> GetMalformed (js_trim raw))
      | _ \<Rightarrow> GetMalformed (js_trim raw))"

definition set_reply :: "string \<Rightarrow> string \<Rightarrow> set_result" where
  "set_reply key raw =
     (let ls = reply_lines raw; first = (case ls of [] \<Rightarrow> [] | l # _ \<Rightarrow> l);
          refused = SetRefused (first = ''unknown key'') (if first = [] then ''no reply'' else first)
      in case ok_line first of
           Some (k, v) \<Rightarrow> if k = key \<and> length ls = 1 then SetOk v else refused
         | None \<Rightarrow> refused)"

subsection \<open>Gyro notches: gyro-notch.ts\<close>

definition GYRO_NOTCH_KEYS :: "string list" where
  "GYRO_NOTCH_KEYS = [''gyro_notch1_hz'', ''gyro_notch1_cutoff_hz'', ''gyro_notch2_hz'', ''gyro_notch2_cutoff_hz'']"

datatype notch_index = Notch1 | Notch2

fun notch_center_key :: "notch_index \<Rightarrow> string" where
  "notch_center_key Notch1 = ''gyro_notch1_hz''"
| "notch_center_key Notch2 = ''gyro_notch2_hz''"

fun notch_cutoff_key :: "notch_index \<Rightarrow> string" where
  "notch_cutoff_key Notch1 = ''gyro_notch1_cutoff_hz''"
| "notch_cutoff_key Notch2 = ''gyro_notch2_cutoff_hz''"

definition is_gyro_notch_key :: "string \<Rightarrow> bool" where
  "is_gyro_notch_key k \<longleftrightarrow> k \<in> set GYRO_NOTCH_KEYS"

text \<open>\<open>(?:0|[1-9]\d{0,3})\<close>, and the same with up to six decimals.\<close>

definition uint4 :: "string \<Rightarrow> bool" where
  "uint4 s \<longleftrightarrow> canonical_uint s \<and> length s \<le> 4"

definition decimal4_6 :: "string \<Rightarrow> bool" where
  "decimal4_6 s = (case split_digits s of (a, r) \<Rightarrow>
     uint4 a \<and> (r = [] \<or> hd r = CHR ''.'' \<and> all_digits (tl r) \<and> length (tl r) \<le> 6))"

definition is_gyro_notch_cli_command :: "string \<Rightarrow> bool" where
  "is_gyro_notch_cli_command cmd \<longleftrightarrow>
     cmd = ''filters''
     \<or> cmd \<in> (\<lambda>k. ''get '' @ k) ` set GYRO_NOTCH_KEYS
     \<or> (\<exists>k \<in> set GYRO_NOTCH_KEYS. prefix (''set '' @ k @ '' '') cmd \<and> decimal4_6 (drop (length (''set '' @ k @ '' '')) cmd))"

definition validate_notch_center :: "rat option \<Rightarrow> bool" where
  "validate_notch_center v = (case v of None \<Rightarrow> False | Some x \<Rightarrow> x = 0 \<or> 20 \<le> x \<and> x \<le> 1000)"

definition validate_notch_cutoff_alone :: "rat option \<Rightarrow> bool" where
  "validate_notch_cutoff_alone v = (case v of None \<Rightarrow> False | Some x \<Rightarrow> 0 \<le> x \<and> x < 1000)"

datatype notch_problem = EnterNumbers | CutoffRange | CenterRange | CutoffBelowCenter

definition notch_pair_problem :: "rat option \<Rightarrow> rat option \<Rightarrow> notch_problem option" where
  "notch_pair_problem c f = (case (c, f) of
     (Some center, Some cutoff) \<Rightarrow>
       (if center = 0 then (if 0 \<le> cutoff \<and> cutoff < 1000 then None else Some CutoffRange)
        else if center < 20 \<or> center > 1000 then Some CenterRange
        else if \<not> (cutoff > 0 \<and> cutoff < center) then Some CutoffBelowCenter
        else None)
   | _ \<Rightarrow> Some EnterNumbers)"

record notch_pair =
  center :: rat
  cutoff :: rat

definition notch_write_plan :: "notch_index \<Rightarrow> notch_pair option \<Rightarrow> notch_pair \<Rightarrow> (string \<times> rat) list" where
  "notch_write_plan i current next1 =
     (let c = notch_center_key i; f = notch_cutoff_key i;
          set_center = (c, center next1); set_cutoff = (f, cutoff next1) in
      case current of
        Some cur \<Rightarrow>
          (if center cur = center next1 \<and> cutoff cur = cutoff next1 then []
           else if center cur \<noteq> 0 \<and> center next1 \<noteq> 0 then
             (if center cur = center next1 then [set_cutoff]
              else if cutoff cur = cutoff next1 then [set_center]
              else if cutoff next1 < center cur then [set_cutoff, set_center] else [set_center, set_cutoff])
           else (if center cur \<noteq> 0 then [(c, 0)] else [])
             @ (if cutoff cur \<noteq> cutoff next1 then [set_cutoff] else [])
             @ (if center next1 \<noteq> 0 then [set_center] else []))
      | None \<Rightarrow> (c, 0) # set_cutoff # (if center next1 \<noteq> 0 then [set_center] else []))"

definition parse_notch_get_reply :: "string \<Rightarrow> string \<Rightarrow> get_result" where
  "parse_notch_get_reply raw key = get_reply (\<lambda>k v. k = key \<and> js_finite v) raw"

definition parse_notch_set_reply :: "string \<Rightarrow> string \<Rightarrow> set_result" where
  "parse_notch_set_reply raw key = set_reply key raw"

record notch_report =
  notch_active :: "string option"
  notch_reason :: "string option"

record filters_report =
  sample_hz :: "string option"
  notch1 :: notch_report
  notch2 :: notch_report

datatype 'r report_result = Report 'r | ReportUnsupported | ReportMalformed string

fun notch_digit :: "notch_index \<Rightarrow> string" where
  "notch_digit Notch1 = ''1''"
| "notch_digit Notch2 = ''2''"

definition notch_fields :: "report_scan \<Rightarrow> notch_index \<Rightarrow> notch_report" where
  "notch_fields st i = \<lparr>notch_active = once st (''gyro_notch'' @ notch_digit i @ ''_active''),
     notch_reason = once st (''gyro_notch'' @ notch_digit i @ ''_reason'')\<rparr>"

definition framed_report :: "string \<Rightarrow> string \<Rightarrow> (report_scan \<Rightarrow> 'r) \<Rightarrow> string \<Rightarrow> 'r report_result" where
  "framed_report a b rd raw =
     (let ls = reply_lines raw in
      if ls \<noteq> [] \<and> old_firmware_line (hd ls) \<and> a \<notin> set ls then ReportUnsupported
      else case framed a b ls of
        None \<Rightarrow> ReportMalformed (js_trim raw)
      | Some body \<Rightarrow> Report (rd (scan_report token_line body)))"

definition parse_filters_report :: "string \<Rightarrow> filters_report report_result" where
  "parse_filters_report raw = framed_report ''filters_api: 1'' ''filters_end: 1''
     (\<lambda>st. \<lparr>sample_hz = once st ''filters_sample_hz'', notch1 = notch_fields st Notch1, notch2 = notch_fields st Notch2\<rparr>) raw"

record notch_row_view =
  row_index :: notch_index
  row_supported :: bool
  row_center :: string
  row_cutoff :: string
  row_off :: "bool option"
  row_cutoff_disabled :: bool
  row_active :: string
  row_reason :: string

fun got_value :: "get_result option \<Rightarrow> string option" where
  "got_value (Some (GotValue v)) = Some v"
| "got_value x = None"

text \<open>\<open>supported && r?.x ? r.x : "unknown"\<close>: an empty text counts as missing.\<close>

definition shown :: "bool \<Rightarrow> string option \<Rightarrow> string" where
  "shown supported v = (case v of Some t \<Rightarrow> if supported \<and> t \<noteq> [] then t else ''unknown'' | None \<Rightarrow> ''unknown'')"

fun notch_of :: "filters_report report_result option \<Rightarrow> notch_index \<Rightarrow> notch_report option" where
  "notch_of (Some (Report r)) i = Some (case i of Notch1 \<Rightarrow> notch1 r | Notch2 \<Rightarrow> notch2 r)"
| "notch_of x i = None"

definition notch_row :: "notch_index \<Rightarrow> get_result option \<Rightarrow> get_result option \<Rightarrow> filters_report report_result option \<Rightarrow> notch_row_view" where
  "notch_row i c f rep =
     (let cv = got_value c; fv = got_value f; supported = (cv \<noteq> None \<and> fv \<noteq> None); r = notch_of rep i;
          off = map_option js_zero cv
      in \<lparr>row_index = i, row_supported = supported,
          row_center = (if supported then the cv else ''unknown''),
          row_cutoff = (if supported then the fv else ''unknown''),
          row_off = (if supported then off else None),
          row_cutoff_disabled = (\<not> supported \<or> off \<noteq> Some False),
          row_active = shown supported (Option.bind r notch_active),
          row_reason = shown supported (Option.bind r notch_reason)\<rparr>)"

subsection \<open>RPM filter: rpm-filter.ts\<close>

datatype rpm_key = RpmHarmonics | RpmMinHz | RpmQ | MotorPoles

fun rpm_key_text :: "rpm_key \<Rightarrow> string" where
  "rpm_key_text RpmHarmonics = ''rpm_filter_harmonics''"
| "rpm_key_text RpmMinHz = ''rpm_filter_min_hz''"
| "rpm_key_text RpmQ = ''rpm_filter_q_x100''"
| "rpm_key_text MotorPoles = ''motor_poles''"

definition RPM_FILTER_KEYS :: "rpm_key list" where
  "RPM_FILTER_KEYS = [RpmHarmonics, RpmMinHz, RpmQ, MotorPoles]"

definition is_rpm_filter_key :: "string \<Rightarrow> bool" where
  "is_rpm_filter_key k \<longleftrightarrow> k \<in> set (List.map rpm_key_text RPM_FILTER_KEYS)"

definition is_rpm_filter_cli_command :: "string \<Rightarrow> bool" where
  "is_rpm_filter_cli_command cmd \<longleftrightarrow>
     cmd = ''rpm_filter''
     \<or> cmd \<in> set (List.map (\<lambda>k. ''get '' @ rpm_key_text k) RPM_FILTER_KEYS)
     \<or> (\<exists>k \<in> set RPM_FILTER_KEYS. prefix (''set '' @ rpm_key_text k @ '' '') cmd \<and> uint4 (drop (length (''set '' @ rpm_key_text k @ '' '')) cmd))"

text \<open>\<open>rpmValueProblem\<close>: \<open>None\<close> for a number that is not whole; the hint is its constructor.\<close>

datatype rpm_problem = UseWhole | UseHarmonics | UseMinHz | UseQ | UsePoles

definition rpm_value_problem :: "rpm_key \<Rightarrow> int option \<Rightarrow> rpm_problem option" where
  "rpm_value_problem key n = (case n of
     None \<Rightarrow> Some UseWhole
   | Some v \<Rightarrow> (case key of
       RpmHarmonics \<Rightarrow> if 0 \<le> v \<and> v \<le> 3 then None else Some UseHarmonics
     | RpmMinHz \<Rightarrow> if 50 \<le> v \<and> v \<le> 200 then None else Some UseMinHz
     | RpmQ \<Rightarrow> if 100 \<le> v \<and> v \<le> 1000 then None else Some UseQ
     | MotorPoles \<Rightarrow> if 4 \<le> v \<and> v \<le> 36 \<and> v mod 2 = 0 then None else Some UsePoles))"

text \<open>\<open>rpmExportValueValid\<close> of storage.ts, on a key that may be any text.\<close>

definition rpm_export_value_valid :: "string \<Rightarrow> int option \<Rightarrow> bool" where
  "rpm_export_value_valid key n = (case n of
     None \<Rightarrow> False
   | Some v \<Rightarrow>
       (if key = ''rpm_filter_harmonics'' then 0 \<le> v \<and> v \<le> 3
        else if key = ''rpm_filter_min_hz'' then 50 \<le> v \<and> v \<le> 200
        else if key = ''rpm_filter_q_x100'' then 100 \<le> v \<and> v \<le> 1000
        else if key = ''motor_poles'' then 4 \<le> v \<and> v \<le> 36 \<and> v mod 2 = 0
        else False))"

text \<open>
  \<open>qFromX100\<close>: the digits are below \<open>2 ^ 53\<close> in every reply of the firmware, where \<open>Number\<close> is exact.
  \<open>qToX100\<close> is \<open>/^(\d{1,2})(?:\.(\d{1,2}))?$/\<close>.
\<close>

definition drop_zero :: "string \<Rightarrow> string" where
  "drop_zero s = (if s \<noteq> [] \<and> last s = CHR ''0'' then butlast s else s)"

definition q_from_x100 :: "string \<Rightarrow> string" where
  "q_from_x100 v =
     (if \<not> all_digits v then ''unknown''
      else (let n = dec_num v; whole = n div 100; frac = n mod 100 in
        if frac = 0 then show_nat whole
        else show_nat whole @ ''.'' @ drop_zero (pad_start 2 (CHR ''0'') (show_nat frac))))"

definition pad_end :: "nat \<Rightarrow> char \<Rightarrow> string \<Rightarrow> string" where
  "pad_end w c s = s @ replicate (w - length s) c"

definition digits_1_2 :: "string \<Rightarrow> bool" where
  "digits_1_2 s \<longleftrightarrow> all_digits s \<and> length s \<le> 2"

definition q_to_x100 :: "string \<Rightarrow> nat option" where
  "q_to_x100 q =
     (let (a, r) = split_digits (js_trim q) in
      if \<not> digits_1_2 a then None
      else if r = [] then Some (dec_num a * 100 + dec_num (pad_end 2 (CHR ''0'') ''0''))
      else if hd r = CHR ''.'' \<and> digits_1_2 (tl r) then Some (dec_num a * 100 + dec_num (pad_end 2 (CHR ''0'') (tl r)))
      else None)"

definition parse_rpm_get_reply :: "string \<Rightarrow> rpm_key \<Rightarrow> get_result" where
  "parse_rpm_get_reply raw key = get_reply (\<lambda>k v. k = rpm_key_text key \<and> js_finite v) raw"

definition parse_rpm_set_reply :: "string \<Rightarrow> rpm_key \<Rightarrow> set_result" where
  "parse_rpm_set_reply raw key = set_reply (rpm_key_text key) raw"

definition RPM_FILTER_REPORT_FIELDS :: "string list" where
  "RPM_FILTER_REPORT_FIELDS = [''rpm_filter_active'', ''rpm_filter_reason'', ''rpm_filter_sample_hz'',
     ''rpm_filter_harmonics_active'', ''rpm_filter_m1_hz'', ''rpm_filter_m2_hz'', ''rpm_filter_m3_hz'', ''rpm_filter_m4_hz'']"

record rpm_report =
  rpm_active :: "string option"
  rpm_reason :: "string option"
  rpm_sample_hz :: "string option"
  rpm_harmonics_active :: "string option"
  rpm_motor_hz :: "string option list"

text \<open>\<open>/^[a-z]+(?:-[a-z]+)*$/\<close>: lower-case words joined by single dashes.\<close>

definition dashed_words :: "string \<Rightarrow> bool" where
  "dashed_words s \<longleftrightarrow> list_all (\<lambda>w. w \<noteq> [] \<and> list_all is_lower w) (split_char (CHR ''-'') s)"

definition rpm_motor_keys :: "string list" where
  "rpm_motor_keys = [''rpm_filter_m1_hz'', ''rpm_filter_m2_hz'', ''rpm_filter_m3_hz'', ''rpm_filter_m4_hz'']"

definition report_token :: "string \<Rightarrow> string \<Rightarrow> string option" where
  "report_token key v =
     (if key = ''rpm_filter_sample_hz'' \<or> key = ''rpm_filter_harmonics_active'' then (if all_digits v then Some v else None)
      else if key \<in> set rpm_motor_keys then (if all_digits v \<or> dashed_words v then Some v else None)
      else Some v)"

definition rpm_field :: "report_scan \<Rightarrow> string \<Rightarrow> string option" where
  "rpm_field st k = Option.bind (once st k) (report_token k)"

definition parse_rpm_filter_report :: "string \<Rightarrow> rpm_report report_result" where
  "parse_rpm_filter_report raw = framed_report ''rpm_filter_api: 1'' ''rpm_filter_end: 1''
     (\<lambda>st. \<lparr>rpm_active = rpm_field st ''rpm_filter_active'', rpm_reason = rpm_field st ''rpm_filter_reason'',
            rpm_sample_hz = rpm_field st ''rpm_filter_sample_hz'',
            rpm_harmonics_active = rpm_field st ''rpm_filter_harmonics_active'',
            rpm_motor_hz = List.map (rpm_field st) rpm_motor_keys\<rparr>) raw"

definition rpm_filter_report_is_exact :: "string \<Rightarrow> bool" where
  "rpm_filter_report_is_exact raw =
     (let ls = filter (\<lambda>l. l \<noteq> []) (split_nl raw) in
      length ls = length RPM_FILTER_REPORT_FIELDS + 2
      \<and> hd ls = ''rpm_filter_api: 1'' \<and> last ls = ''rpm_filter_end: 1''
      \<and> list_all (\<lambda>(k, l). prefix (k @ '': '') l \<and> no_space (drop (length (k @ '': '')) l))
          (zip RPM_FILTER_REPORT_FIELDS (tl ls)))"

record rpm_view =
  rv_supported :: bool
  rv_harmonics :: string
  rv_min_hz :: string
  rv_q_x100 :: string
  rv_q :: string
  rv_motor_poles :: string
  rv_sample_hz :: string
  rv_harmonics_active :: string
  rv_active :: string
  rv_reason :: string
  rv_bidir_off :: bool
  rv_motors :: "string list"

fun rpm_of :: "rpm_report report_result option \<Rightarrow> rpm_report option" where
  "rpm_of (Some (Report r)) = Some r"
| "rpm_of x = None"

definition rpm_filter_view :: "(rpm_key \<Rightarrow> get_result option) \<Rightarrow> rpm_report report_result option \<Rightarrow> rpm_view" where
  "rpm_filter_view values report =
     (let val = (\<lambda>k. got_value (values k)); rep = rpm_of report;
          supported = (list_all (\<lambda>k. val k \<noteq> None) RPM_FILTER_KEYS \<and> rep \<noteq> None);
          u = shown supported; q = u (val RpmQ)
      in \<lparr>rv_supported = supported, rv_harmonics = u (val RpmHarmonics), rv_min_hz = u (val RpmMinHz), rv_q_x100 = q,
          rv_q = (if q = ''unknown'' then ''unknown'' else q_from_x100 q),
          rv_motor_poles = u (val MotorPoles),
          rv_sample_hz = u (Option.bind rep rpm_sample_hz), rv_harmonics_active = u (Option.bind rep rpm_harmonics_active),
          rv_active = u (Option.bind rep rpm_active), rv_reason = u (Option.bind rep rpm_reason),
          rv_bidir_off = (supported \<and> Option.bind rep rpm_reason = Some ''bidir-off''),
          rv_motors = (case rep of Some r \<Rightarrow> List.map u (rpm_motor_hz r) | None \<Rightarrow> replicate 4 ''unknown'')\<rparr>)"

subsection \<open>What a report shows\<close>

text \<open>
  A key that occurs on exactly one line of a report has the value of that line; any other key has none. The
  fold of the sources, a map and a set, computes exactly this.
\<close>

definition occurrences :: "(string \<Rightarrow> (string \<times> string) option) \<Rightarrow> string list \<Rightarrow> string \<Rightarrow> string list" where
  "occurrences m ls k = [v. l \<leftarrow> ls, (k', v) \<leftarrow> (case m l of None \<Rightarrow> [] | Some p \<Rightarrow> [p]), k' = k]"

lemma occurrences_simps [simp]:
  "occurrences m [] k = []"
  "occurrences m (l # ls) k = (case m l of Some (k', v) \<Rightarrow> if k' = k then v # occurrences m ls k else occurrences m ls k
     | None \<Rightarrow> occurrences m ls k)"
  by (auto simp: occurrences_def split: option.splits)

lemma fold_scan_field:
  "seen (fold (scan_field m) ls st) k = (case rev (occurrences m ls k) of [] \<Rightarrow> seen st k | v # _ \<Rightarrow> Some v)"
  "k \<in> set (repeated (fold (scan_field m) ls st)) \<longleftrightarrow>
     k \<in> set (repeated st) \<or> length (occurrences m ls k) > (if seen st k = None then 1 else 0)"
proof (induction ls arbitrary: st)
  case (Cons l ls)
  { case 1 show ?case using Cons [of "scan_field m l st"]
      by (auto simp: scan_field_def split: option.splits list.splits prod.splits if_splits) }
  { case 2 show ?case using Cons [of "scan_field m l st"]
      by (auto simp: scan_field_def split: option.splits list.splits prod.splits if_splits) }
qed simp_all

lemma once_scan:
  "once (scan_report m ls) k = (case occurrences m ls k of [v] \<Rightarrow> Some v | _ \<Rightarrow> None)"
  using fold_scan_field [where m = m and ls = ls and st = empty_scan and k = k]
  by (cases "occurrences m ls k" rule: rev_cases)
     (auto simp: once_def scan_report_def empty_scan_def split: list.splits)

subsection \<open>Printing a report\<close>

text \<open>
  How the controller writes a line and how the code reads it back. A reader is a line matcher; a writer
  is one the matcher understands.
\<close>

locale report_line =
  fixes put :: "string \<Rightarrow> string \<Rightarrow> string" and mtch :: "string \<Rightarrow> (string \<times> string) option"
    and key_ok :: "string \<Rightarrow> bool" and value_ok :: "string \<Rightarrow> bool"
  assumes read_put: "key_ok k \<Longrightarrow> value_ok v \<Longrightarrow> mtch (put k v) = Some (k, v)"
begin

definition written :: "(string \<times> string) list \<Rightarrow> string list" where
  "written kvs = List.map (\<lambda>(k, v). put k v) kvs"

definition well_formed :: "(string \<times> string) list \<Rightarrow> bool" where
  "well_formed kvs \<longleftrightarrow> list_all (\<lambda>(k, v). key_ok k \<and> value_ok v) kvs"

lemma occurrences_written:
  "well_formed kvs \<Longrightarrow> occurrences mtch (written kvs) k = [v. (k', v) \<leftarrow> kvs, k' = k]"
  by (induction kvs) (auto simp: written_def well_formed_def read_put)

theorem once_written:
  "well_formed kvs \<Longrightarrow> once (scan_report mtch (written kvs)) k = (case [v. (k', v) \<leftarrow> kvs, k' = k] of [v] \<Rightarrow> Some v | _ \<Rightarrow> None)"
  by (simp add: once_scan occurrences_written)

text \<open>The order of distinct fields does not matter.\<close>

theorem once_written_distinct:
  assumes "well_formed kvs" and "distinct (List.map fst kvs)"
  shows "once (scan_report mtch (written kvs)) = map_of kvs"
proof
  fix k
  have "[v. (k', v) \<leftarrow> kvs, k' = k] = (case map_of kvs k of None \<Rightarrow> [] | Some v \<Rightarrow> [v])"
    using assms(2)
  proof (induction kvs)
    case (Cons a kvs)
    then have "map_of kvs (fst a) = None" by (simp add: map_of_eq_None_iff)
    with Cons show ?case by (cases a) auto
  qed simp
  then show "once (scan_report mtch (written kvs)) k = map_of kvs k"
    using assms(1) by (simp add: once_written split: option.splits)
qed

end

definition key_text :: "string \<Rightarrow> bool" where
  "key_text k \<longleftrightarrow> k \<noteq> [] \<and> list_all setting_char k"

lemma sep_line_read:
  "k \<noteq> [] \<Longrightarrow> list_all key k \<Longrightarrow> no_space v \<Longrightarrow> sep \<noteq> [] \<Longrightarrow> \<not> key (hd sep) \<Longrightarrow> sep_line key sep (k @ sep @ v) = Some (k, v)"
proof -
  assume a: "k \<noteq> []" "list_all key k" "no_space v" "sep \<noteq> []" "\<not> key (hd sep)"
  then have "takeWhile key (k @ sep @ v) = k" "dropWhile key (k @ sep @ v) = sep @ v"
    by (cases sep; simp add: takeWhile_append2 dropWhile_append2 list_all_iff takeWhile_append dropWhile_append; fail)+
  then show ?thesis using a by (simp add: sep_line_def)
qed

definition colon_line :: "string \<Rightarrow> string \<Rightarrow> string" where
  "colon_line k v = k @ '': '' @ v"

definition equals_line :: "string \<Rightarrow> string \<Rightarrow> string" where
  "equals_line k v = k @ ''='' @ v"

interpretation colon: report_line colon_line token_line key_text no_space
proof
  fix k v assume "key_text k" "no_space v"
  then show "token_line (colon_line k v) = Some (k, v)"
    using sep_line_read [of k setting_char v "'': ''"]
    by (simp add: colon_line_def key_text_def setting_char_def is_lower_def is_digit_def)
qed

interpretation equals: report_line equals_line value_line key_text no_space
proof
  fix k v assume "key_text k" "no_space v"
  then show "value_line (equals_line k v) = Some (k, v)"
    using sep_line_read [of k setting_char v "''=''"]
    by (simp add: equals_line_def key_text_def setting_char_def is_lower_def is_digit_def)
qed

definition crlf_text :: "string list \<Rightarrow> string" where
  "crlf_text ls = concat (List.map (\<lambda>l. l @ [CR, LF]) ls)"

definition plain_line :: "string \<Rightarrow> bool" where
  "plain_line l \<longleftrightarrow> l \<noteq> [] \<and> \<not> js_space (hd l) \<and> \<not> js_space (last l) \<and> LF \<notin> set l \<and> CR \<notin> set l"

lemma split_nl_crlf: "LF \<notin> set l \<Longrightarrow> CR \<notin> set l \<Longrightarrow> split_nl (l @ CR # LF # s) = l # split_nl s"
  by (induction l) (auto simp: LF_def CR_def)

lemma reply_lines_crlf: "list_all plain_line ls \<Longrightarrow> reply_lines (crlf_text ls) = ls"
proof (induction ls)
  case Nil
  then show ?case by (simp add: reply_lines_def crlf_text_def js_trim_def js_trim_end_def js_trim_start_def)
next
  case (Cons l ls)
  have "crlf_text (l # ls) = l @ CR # LF # crlf_text ls" by (simp add: crlf_text_def)
  moreover have "js_trim l = l" using Cons.prems by (intro js_trim_id) (auto simp: plain_line_def)
  ultimately show ?case using Cons by (simp add: reply_lines_def split_nl_crlf plain_line_def)
qed

lemma index_of_append: "x \<notin> set xs \<Longrightarrow> index_of x (xs @ x # ys) = Some (length xs)"
  by (induction xs) auto

lemma framed_body: "framed a b (a # body @ [b]) = Some body"
proof -
  have "index_of a (a # body @ [b]) = Some 0" by simp
  moreover have "last_index_of b (a # body @ [b]) = Some (Suc (length body))"
    by (simp add: last_index_of_def)
  ultimately show ?thesis by (simp add: framed_def)
qed

lemma no_space_ends: "no_space v \<Longrightarrow> c \<in> set v \<Longrightarrow> \<not> js_space c"
  by (simp add: no_space_def list_all_iff)

lemma setting_char_no_space: "setting_char c \<Longrightarrow> \<not> js_space c"
  by (auto simp: setting_char_def is_lower_def is_digit_def js_space_def)

lemma line_break_space: "js_space LF" "js_space CR"
  by (simp_all add: js_space_def LF_def CR_def)

lemma plain_colon:
  assumes "key_text k" and "no_space v"
  shows "plain_line (colon_line k v)"
proof -
  have v: "v \<noteq> []" "\<not> js_space (last v)" "LF \<notin> set v" "CR \<notin> set v"
    using assms(2) no_space_ends [OF assms(2)] line_break_space by (auto simp: no_space_def)
  have k: "k \<noteq> []" "\<And>c. c \<in> set k \<Longrightarrow> \<not> js_space c"
    using assms(1) by (auto simp: key_text_def list_all_iff setting_char_no_space)
  then have "\<not> js_space (hd k)" "LF \<notin> set k" "CR \<notin> set k" using line_break_space by auto
  then show ?thesis using v k(1) by (simp add: plain_line_def colon_line_def LF_def CR_def)
qed

lemma framed_report_print:
  assumes "plain_line a" and "plain_line b" and "colon.well_formed kvs"
  shows "framed_report a b rd (crlf_text (a # colon.written kvs @ [b])) = Report (rd (scan_report token_line (colon.written kvs)))"
proof -
  have "list_all plain_line (colon.written kvs)"
    using assms(3) by (auto simp: colon.written_def colon.well_formed_def list_all_iff plain_colon)
  then have "reply_lines (crlf_text (a # colon.written kvs @ [b])) = a # colon.written kvs @ [b]"
    using assms by (intro reply_lines_crlf) simp
  then show ?thesis by (simp add: framed_report_def framed_body)
qed

subsection \<open>The properties\<close>

text \<open>One field of a report as the page gets it, from the lines as they were sent.\<close>

definition sent_once :: "(string \<times> string) list \<Rightarrow> string \<Rightarrow> string option" where
  "sent_once kvs k = (case [v. (k', v) \<leftarrow> kvs, k' = k] of [v] \<Rightarrow> Some v | _ \<Rightarrow> None)"

lemma bind_report_token:
  "Option.bind x (report_token ''rpm_filter_active'') = x"
  "Option.bind x (report_token ''rpm_filter_reason'') = x"
  "Option.bind x (report_token ''rpm_filter_sample_hz'') = option_filter all_digits x"
  "Option.bind x (report_token ''rpm_filter_harmonics_active'') = option_filter all_digits x"
  "k \<in> set rpm_motor_keys \<Longrightarrow> Option.bind x (report_token k) = option_filter (\<lambda>v. all_digits v \<or> dashed_words v) x"
  by (cases x; auto simp: report_token_def rpm_motor_keys_def option_filter_def)+

text \<open>Whatever \<open>key: token\<close> lines the controller puts between the frame lines of its RPM filter report, in any
  order, with unknown, missing or repeated keys, the parser returns a report in which each field is
  the token of its line when that line was sent exactly once and the token is in the field's domain, and is
  unknown otherwise.\<close>
theorem parse_print_rpm_report:
  assumes "colon.well_formed kvs"
  shows "parse_rpm_filter_report (crlf_text (''rpm_filter_api: 1'' # colon.written kvs @ [''rpm_filter_end: 1'']))
    = Report \<lparr>rpm_active = sent_once kvs ''rpm_filter_active'', rpm_reason = sent_once kvs ''rpm_filter_reason'',
        rpm_sample_hz = option_filter all_digits (sent_once kvs ''rpm_filter_sample_hz''),
        rpm_harmonics_active = option_filter all_digits (sent_once kvs ''rpm_filter_harmonics_active''),
        rpm_motor_hz = List.map (\<lambda>k. option_filter (\<lambda>v. all_digits v \<or> dashed_words v) (sent_once kvs k)) rpm_motor_keys\<rparr>"
proof -
  let ?st = "scan_report token_line (colon.written kvs)"
  have once: "once ?st k = sent_once kvs k" for k
    using assms by (simp add: colon.once_written sent_once_def)
  have plain: "plain_line ''rpm_filter_api: 1''" "plain_line ''rpm_filter_end: 1''"
    by (simp_all add: plain_line_def js_space_def LF_def CR_def)
  show ?thesis
    unfolding parse_rpm_filter_report_def framed_report_print [OF plain assms]
    by (simp add: rpm_field_def once bind_report_token)
qed

theorem parse_print_rpm_report_witness:
  "parse_rpm_filter_report (crlf_text (''rpm_filter_api: 1''
      # colon.written [(''rpm_filter_active'', ''yes''), (''rpm_filter_m1_hz'', ''4OO''), (''rpm_filter_reason'', ''ok''), (''rpm_filter_active'', ''no'')]
      @ [''rpm_filter_end: 1'']))
   = Report \<lparr>rpm_active = None, rpm_reason = Some ''ok'', rpm_sample_hz = None, rpm_harmonics_active = None,
       rpm_motor_hz = [None, None, None, None]\<rparr>"
proof -
  let ?kvs = "[(''rpm_filter_active'', ''yes''), (''rpm_filter_m1_hz'', ''4OO''), (''rpm_filter_reason'', ''ok''), (''rpm_filter_active'', ''no'')]"
  have "colon.well_formed ?kvs"
    by (simp add: colon.well_formed_def key_text_def setting_char_def is_lower_def is_digit_def no_space_def js_space_def)
  moreover have "option_filter (\<lambda>v. all_digits v \<or> dashed_words v) (Some ''4OO'') = None" by code_simp
  ultimately show ?thesis
    by (subst parse_print_rpm_report) (simp_all add: sent_once_def rpm_motor_keys_def, simp_all add: option_filter_def)
qed

lemma takeWhile_digits: "all_digits d \<Longrightarrow> r = [] \<or> \<not> is_digit (hd r) \<Longrightarrow> split_digits (d @ r) = (d, r)"
  by (cases r) (auto simp: split_digits_def all_digits_def list_all_iff takeWhile_append dropWhile_append)

lemma digit_not_space: "is_digit c \<Longrightarrow> \<not> js_space c"
  by (auto simp: is_digit_def js_space_def)

lemma show_nat_all_digits: "all_digits (show_nat n)"
  by (simp add: all_digits_def show_nat_digits)

lemma length_show_nat_2: "n < 100 \<Longrightarrow> length (show_nat n) \<le> 2"
  by (subst show_nat.simps, subst show_nat.simps) auto

lemma is_digit_char: "d < 10 \<Longrightarrow> is_digit (digit_char d)"
  by (simp add: is_digit_def digit_char_def)

lemma digit_char_0: "CHR ''0'' = digit_char 0"
  by code_simp

lemma of_char_digit: "d < 10 \<Longrightarrow> (of_char (digit_char d) :: nat) = 48 + d"
  by (simp add: digit_char_def)

lemma digit_char_eq_0: "d < 10 \<Longrightarrow> digit_char d = CHR ''0'' \<longleftrightarrow> d = 0"
  unfolding digit_char_0 using of_char_digit [of d] of_char_digit [of 0] by fastforce

text \<open>The two decimals of a hundredth, and what \<open>qFromX100\<close> prints of them.\<close>

lemma show_nat_hd: "n \<noteq> 0 \<Longrightarrow> hd (show_nat n) \<noteq> CHR ''0''"
proof (induction n rule: show_nat.induct)
  case (1 n)
  then show ?case by (subst show_nat.simps) (auto simp: digit_char_eq_0)
qed

lemma canonical_show_nat: "canonical_uint (show_nat n)"
proof (cases "n = 0")
  case True
  then show ?thesis by (simp add: canonical_uint_def show_nat.simps digit_char_0)
next
  case False
  then show ?thesis by (simp add: canonical_uint_def show_nat_all_digits show_nat_hd)
qed

lemma pad_frac: "f < 100 \<Longrightarrow> pad_start 2 (CHR ''0'') (show_nat f) = [digit_char (f div 10), digit_char (f mod 10)]"
  by (subst show_nat.simps, subst show_nat.simps) (auto simp: pad_start_def digit_char_0)

lemma dec_num_digits: "dec_num [digit_char a] = a" "dec_num [digit_char a, digit_char b] = 10 * a + b" if "a < 10" "b < 10"
  using that by (simp_all add: dec_num_def digit_char_def)

lemma q_fraction:
  assumes "f < 100" and "f \<noteq> 0"
  defines "t \<equiv> drop_zero (pad_start 2 (CHR ''0'') (show_nat f))"
  shows "digits_1_2 t" and "dec_num (pad_end 2 (CHR ''0'') t) = f"
proof -
  have d: "f div 10 < 10" "f mod 10 < 10" using assms by simp_all
  have t: "t = (if f mod 10 = 0 then [digit_char (f div 10)] else [digit_char (f div 10), digit_char (f mod 10)])"
    using assms d by (simp add: pad_frac drop_zero_def digit_char_eq_0)
  then show "digits_1_2 t" using d by (simp add: digits_1_2_def all_digits_def is_digit_char)
  show "dec_num (pad_end 2 (CHR ''0'') t) = f"
    unfolding t pad_end_def digit_char_0 using dec_num_digits [OF d] dec_num_digits [OF d(1), of 0] by (auto simp: mult_div_mod_eq)
qed

lemma no_decimals: "dec_num (pad_end 2 (CHR ''0'') ''0'') = 0"
  by code_simp

text \<open>A filter quality held by the controller as hundredths is shown as a decimal and, sent back unedited, is the
  same number of hundredths, for every value of up to four digits (the firmware allows 100 to 1000).\<close>
theorem q_round_trip:
  assumes "n < 10000"
  shows "q_to_x100 (q_from_x100 (show_nat n)) = Some n"
proof -
  define w f where "w = n div 100" and "f = n mod 100"
  have w: "w < 100" using assms by (simp add: w_def)
  have f: "f < 100" by (simp add: f_def)
  have dw: "all_digits (show_nat w)" "digits_1_2 (show_nat w)"
    using w length_show_nat_2 by (simp_all add: show_nat_all_digits digits_1_2_def)
  let ?t = "drop_zero (pad_start 2 (CHR ''0'') (show_nat f))"
  have q: "q_from_x100 (show_nat n) = (if f = 0 then show_nat w else show_nat w @ ''.'' @ ?t)"
    by (simp add: q_from_x100_def show_nat_all_digits w_def f_def Let_def)
  have n: "n = w * 100 + f" by (simp add: w_def f_def)
  have trim: "js_trim (show_nat w @ r) = show_nat w @ r" if "r = [] \<or> is_digit (last r)" for r
  proof (rule js_trim_id, rule disjI2, rule conjI)
    have d: "is_digit c" if "c \<in> set (show_nat w)" for c using show_nat_digits [of w] that by (simp add: list_all_iff)
    then show "\<not> js_space (hd (show_nat w @ r))" by (simp add: digit_not_space)
    show "\<not> js_space (last (show_nat w @ r))" using that d by (auto simp: last_append digit_not_space)
  qed
  have "q_to_x100 (q_from_x100 (show_nat n)) = Some (w * 100 + f)"
  proof (cases "f = 0")
    case True
    then show ?thesis using trim [of "[]"] takeWhile_digits [OF dw(1), of "[]"] dw
      by (simp add: q q_to_x100_def no_decimals)
  next
    case False
    have t: "digits_1_2 ?t" "dec_num (pad_end 2 (CHR ''0'') ?t) = f" using q_fraction [OF f False] by simp_all
    then have "is_digit (last (CHR ''.'' # ?t))" by (auto simp: digits_1_2_def all_digits_def list_all_iff)
    then show ?thesis using False trim [of "''.'' @ ?t"] takeWhile_digits [OF dw(1), of "''.'' @ ?t"] dw t
      by (simp add: q q_to_x100_def is_digit_def)
  qed
  then show ?thesis using n by simp
qed

theorem q_round_trip_witness: "q_to_x100 (q_from_x100 (show_nat 350)) = Some 350"
  using q_round_trip [of 350] by simp

text \<open>The controller holds a notch pair; a write replaces one of its two numbers.\<close>

definition apply_write :: "notch_index \<Rightarrow> notch_pair \<Rightarrow> string \<times> rat \<Rightarrow> notch_pair" where
  "apply_write i p w = (if fst w = notch_center_key i then p\<lparr>center := snd w\<rparr>
     else if fst w = notch_cutoff_key i then p\<lparr>cutoff := snd w\<rparr> else p)"

fun states_of :: "notch_index \<Rightarrow> notch_pair \<Rightarrow> (string \<times> rat) list \<Rightarrow> notch_pair list" where
  "states_of i p [] = [p]"
| "states_of i p (w # ws) = p # states_of i (apply_write i p w) ws"

definition pair_ok :: "notch_pair \<Rightarrow> bool" where
  "pair_ok p \<longleftrightarrow> notch_pair_problem (Some (center p)) (Some (cutoff p)) = None"

lemma pair_ok_iff: "pair_ok p \<longleftrightarrow> (center p = 0 \<and> 0 \<le> cutoff p \<and> cutoff p < 1000)
    \<or> (20 \<le> center p \<and> center p \<le> 1000 \<and> 0 < cutoff p \<and> cutoff p < center p)"
  by (auto simp: pair_ok_def notch_pair_problem_def split: if_splits)

lemma apply_write_simps [simp]:
  "apply_write i p (notch_center_key i, v) = p\<lparr>center := v\<rparr>"
  "apply_write i p (notch_cutoff_key i, v) = p\<lparr>cutoff := v\<rparr>"
  by (cases i; simp add: apply_write_def)+

text \<open>C13: Changing a notch writes one number at a time, and every pair the controller holds on the way is one its
  pair rule accepts, whatever valid pair it held before; the last one is the wanted pair. A notch that is on stays
  on throughout when the wanted one is on and the pair held before is the one the page knows.\<close>
theorem notch_write_plan_safe:
  assumes "pair_ok held" and "pair_ok wanted" and "current = None \<or> current = Some held"
  shows "list_all pair_ok (states_of i held (notch_write_plan i current wanted))
    \<and> last (states_of i held (notch_write_plan i current wanted)) = wanted
    \<and> (current \<noteq> None \<longrightarrow> center held \<noteq> 0 \<longrightarrow> center wanted \<noteq> 0 \<longrightarrow>
         list_all (\<lambda>p. center p \<noteq> 0) (states_of i held (notch_write_plan i current wanted)))"
  using assms
  by (cases held; cases wanted; elim disjE)
     (auto simp: notch_write_plan_def Let_def pair_ok_iff split: if_splits)

theorem notch_write_plan_safe_witness:
  "list_all pair_ok (states_of Notch1 \<lparr>center = 200, cutoff = 150\<rparr>
     (notch_write_plan Notch1 (Some \<lparr>center = 200, cutoff = 150\<rparr>) \<lparr>center = 400, cutoff = 300\<rparr>))"
  using notch_write_plan_safe [of "\<lparr>center = 200, cutoff = 150\<rparr>" "\<lparr>center = 400, cutoff = 300\<rparr>" "Some \<lparr>center = 200, cutoff = 150\<rparr>" Notch1]
  by (simp add: pair_ok_iff)

end
