(* ===== verification/Cli_Snapshots.thy ===== *)
theory Cli_Snapshots
  imports Fc_Replies "HOL-Library.Multiset"
begin

section \<open>Framed snapshots, status and settings replies\<close>

text \<open>
  The strict readers of protocol/src: parse-modes.ts, parse-ports.ts and storage.ts read a framed snapshot in
  which every line must be a field or a row and no field may repeat, and refuse what contradicts itself;
  settings.ts reads the replies of get, set, save and defaults; parse-status.ts reads the tolerant status reply.
  A thrown \<open>Error\<close> is its message.
\<close>

subsection \<open>Snapshots: parse-modes.ts\<close>

definition read_uint :: "string \<Rightarrow> nat \<Rightarrow> nat \<Rightarrow> string + nat" where
  "read_uint s lo hi =
     (if \<not> canonical_uint s then Inl ''Expected canonical unsigned integer''
      else (let n = dec_num s in
        if MAX_SAFE_INTEGER < n \<or> n < lo \<or> hi < n then Inl ''Integer outside supported bounds'' else Inr n))"

definition read_bit :: "string \<Rightarrow> string + bool" where
  "read_bit s = res_bind (read_uint s 0 1) (\<lambda>n. Inr (n = 1))"

record snapshot_data =
  sfields :: "string \<rightharpoonup> string"
  rows :: "string list"
  api_version :: nat

fun snapshot_lines :: "string \<Rightarrow> string \<Rightarrow> string list \<Rightarrow> snapshot_data \<Rightarrow> string + snapshot_data" where
  "snapshot_lines kind row_key [] d = Inr d"
| "snapshot_lines kind row_key (l # ls) d =
     (case field_line key_char '': '' l of
        None \<Rightarrow> Inl ''Malformed snapshot line''
      | Some (k, v) \<Rightarrow>
          if k = row_key then snapshot_lines kind row_key ls (d\<lparr>rows := rows d @ [v]\<rparr>)
          else if sfields d k \<noteq> None \<or> k = kind @ ''_api'' \<or> k = kind @ ''_end'' then Inl ''Duplicate snapshot field''
          else snapshot_lines kind row_key ls (d\<lparr>sfields := (sfields d)(k \<mapsto> v)\<rparr>))"

definition snapshot :: "string \<Rightarrow> string \<Rightarrow> string \<Rightarrow> nat list \<Rightarrow> string + snapshot_data" where
  "snapshot raw kind row_key versions =
     (let ls = split_nl (js_trim raw) in
      case find (\<lambda>v. hd ls = kind @ ''_api: '' @ show_nat v) versions of
        None \<Rightarrow> Inl (''Unsupported or incomplete '' @ kind @ '' response'')
      | Some v \<Rightarrow>
          if last ls \<noteq> kind @ ''_end: 1'' then Inl (''Unsupported or incomplete '' @ kind @ '' response'')
          else snapshot_lines kind row_key (butlast (tl ls)) \<lparr>sfields = Map.empty, rows = [], api_version = v\<rparr>)"

definition field_of :: "(string \<rightharpoonup> string) \<Rightarrow> string \<Rightarrow> string + string" where
  "field_of f key = (case f key of None \<Rightarrow> Inl (''Missing '' @ key) | Some x \<Rightarrow> Inr x)"

definition bit_field :: "(string \<rightharpoonup> string) \<Rightarrow> string \<Rightarrow> string + bool" where
  "bit_field f key = res_bind (field_of f key) read_bit"

datatype mode_name = ARM | ANGLE | ACRO | HORIZON

fun mode_text :: "mode_name \<Rightarrow> string" where
  "mode_text ARM = ''ARM''"
| "mode_text ANGLE = ''ANGLE''"
| "mode_text ACRO = ''ACRO''"
| "mode_text HORIZON = ''HORIZON''"

fun mode_lower :: "mode_name \<Rightarrow> string" where
  "mode_lower ARM = ''arm''"
| "mode_lower ANGLE = ''angle''"
| "mode_lower ACRO = ''acro''"
| "mode_lower HORIZON = ''horizon''"

definition mode_of :: "mode_name list \<Rightarrow> string \<Rightarrow> mode_name option" where
  "mode_of names s = find (\<lambda>m. mode_text m = s) names"

record mode_row =
  mode_name :: mode_name
  enabled :: bool
  aux :: nat
  min_us :: nat
  max_us :: nat
  active :: bool

definition mode_names :: "nat \<Rightarrow> mode_name list" where
  "mode_names version = (if version = 2 then [ARM, ANGLE, ACRO, HORIZON] else [ARM, ANGLE])"

definition parse_mode_row :: "nat \<Rightarrow> bool \<Rightarrow> string \<Rightarrow> string + mode_row" where
  "parse_mode_row version rx_fresh r =
     (let a = split_char (CHR '','') r in
      case mode_of (mode_names version) (hd a) of
        None \<Rightarrow> Inl ''Invalid mode row''
      | Some name \<Rightarrow>
          if length a \<noteq> 6 then Inl ''Invalid mode row''
          else res_bind (read_bit (a ! 1)) (\<lambda>en. res_bind (read_uint (a ! 2) 1 12) (\<lambda>ax.
               res_bind (read_uint (a ! 3) 900 2100) (\<lambda>lo. res_bind (read_uint (a ! 4) 900 2100) (\<lambda>hi.
               res_bind (read_bit (a ! 5)) (\<lambda>act.
                 if lo \<ge> hi \<or> act \<and> (\<not> rx_fresh \<or> \<not> en) then Inl ''Contradictory mode row''
                 else Inr \<lparr>mode_name = name, enabled = en, aux = ax, min_us = lo, max_us = hi, active = act\<rparr>))))))"

datatype control_source = Manual | Aux

record mode_routing =
  calibration_active :: bool
  arm_configured :: bool
  source_of_control :: control_source
  requested_mode :: string
  effective_mode :: string
  mode_conflict :: bool

record parsed_modes =
  modes_raw :: string
  modes_api :: nat
  persistence_flash :: bool
  semantics :: string
  flight_enabled :: bool
  modes_armed :: bool
  modes_bench :: bool
  rx_fresh :: bool
  modes :: "mode_row list"
  channels :: "nat list option"
  modes_source :: "string option"
  routing :: "mode_routing option"

definition parse_channels :: "(string \<rightharpoonup> string) \<Rightarrow> string + nat list option" where
  "parse_channels f = (case f ''channels'' of None \<Rightarrow> Inr None
     | Some v \<Rightarrow> res_bind (res_map (\<lambda>x. read_uint x 900 2100) (split_char (CHR '','') v))
         (\<lambda>cs. if length cs \<noteq> 16 then Inl ''Expected 16 channels'' else Inr (Some cs)))"

definition control_modes :: "string list" where "control_modes = [''angle'', ''acro'', ''horizon'']"

definition active_matches :: "mode_row list \<Rightarrow> mode_row list" where
  "active_matches ms = filter (\<lambda>m. mode_name m \<noteq> ARM \<and> active m) ms"

text \<open>The part of \<open>parseModes\<close> that reads what only API version 2 has.\<close>

definition parse_routing :: "(string \<rightharpoonup> string) \<Rightarrow> mode_row list \<Rightarrow> bool \<Rightarrow> string + mode_routing" where
  "parse_routing f ms flight =
     res_bind (field_of f ''control_source'') (\<lambda>source. res_bind (field_of f ''requested_mode'') (\<lambda>requested.
     res_bind (field_of f ''effective_mode'') (\<lambda>effective.
       if source \<noteq> ''manual'' \<and> source \<noteq> ''aux'' then Inl ''Invalid control source''
       else if requested \<notin> set control_modes \<or> effective \<notin> set control_modes then Inl ''Invalid control mode''
       else res_bind (field_of f ''arm_semantics'') (\<lambda>arm.
         if arm \<noteq> ''preview'' \<and> arm \<noteq> ''configured'' then Inl ''Unsupported ARM semantics''
         else res_bind (bit_field f ''mode_conflict'') (\<lambda>conflict.
           (let matches = active_matches ms; expected = (case matches of [m] \<Rightarrow> mode_lower (mode_name m) | _ \<Rightarrow> ''angle'') in
            if conflict \<noteq> (source = ''aux'' \<and> length matches > 1) then Inl ''Contradictory conflict indication''
            else if source = ''aux'' \<and> requested \<noteq> expected then Inl ''Contradictory AUX selection''
            else if flight \<and> source = ''aux'' then Inl ''AUX mode routing is unavailable in this firmware''
            else res_bind (bit_field f ''calibration_active'') (\<lambda>cal.
              Inr \<lparr>calibration_active = cal, arm_configured = (arm = ''configured''),
                   source_of_control = (if source = ''aux'' then Aux else Manual),
                   requested_mode = requested, effective_mode = effective, mode_conflict = conflict\<rparr>)))))))"

definition read_mode_rows :: "nat \<Rightarrow> bool \<Rightarrow> string list \<Rightarrow> string + mode_row list" where
  "read_mode_rows version fresh rs =
     res_bind (res_map (parse_mode_row version fresh) rs) (\<lambda>ms.
       if length ms \<noteq> length (mode_names version) \<or> card (mode_name ` set ms) \<noteq> length (mode_names version)
       then Inl ''Expected exactly one of each supported mode'' else Inr ms)"

definition parse_modes :: "string \<Rightarrow> string + parsed_modes" where
  "parse_modes raw =
     res_bind (snapshot raw ''modes'' ''mode'' [1, 2]) (\<lambda>d. (let f = sfields d in
     res_bind (field_of f ''persistence'') (\<lambda>pers.
     if pers \<noteq> ''session'' \<and> pers \<noteq> ''flash'' then Inl ''Unsupported persistence''
     else res_bind (field_of f ''semantics'') (\<lambda>sem.
     if (if api_version d = 2 then sem \<noteq> ''bench-control'' else sem \<noteq> ''control'' \<and> sem \<noteq> ''preview'')
     then Inl ''Unsupported mode semantics''
     else res_bind (bit_field f ''rx_fresh'') (\<lambda>fresh.
     res_bind (read_mode_rows (api_version d) fresh (rows d)) (\<lambda>ms.
     res_bind (parse_channels f) (\<lambda>ch.
     res_bind (bit_field f ''flight_enabled'') (\<lambda>flight. res_bind (bit_field f ''armed'') (\<lambda>armed.
     res_bind (bit_field f ''bench_active'') (\<lambda>bench.
       (let base = \<lparr>modes_raw = raw, modes_api = api_version d, persistence_flash = (pers = ''flash''), semantics = sem,
              flight_enabled = flight, modes_armed = armed, modes_bench = bench, rx_fresh = fresh, modes = ms,
              channels = ch, modes_source = f ''source'', routing = None\<rparr> in
        if api_version d = 2 then res_bind (parse_routing f ms flight) (\<lambda>r. Inr (base\<lparr>routing := Some r\<rparr>))
        else Inr base)))))))))))"

definition is_control_source_command :: "string \<Rightarrow> bool" where
  "is_control_source_command s \<longleftrightarrow> s = ''control_source manual'' \<or> s = ''control_source aux''"

definition is_control_mode_command :: "string \<Rightarrow> bool" where
  "is_control_mode_command s \<longleftrightarrow> s = ''control_mode angle'' \<or> s = ''control_mode acro'' \<or> s = ''control_mode horizon''"

definition modes_calibrating :: "parsed_modes \<Rightarrow> bool" where
  "modes_calibrating m = (case routing m of Some r \<Rightarrow> calibration_active r | None \<Rightarrow> False)"

definition can_edit_mode_ranges :: "parsed_modes option \<Rightarrow> bool \<Rightarrow> bool \<Rightarrow> bool" where
  "can_edit_mode_ranges s online pending = (case s of None \<Rightarrow> False
     | Some m \<Rightarrow> online \<and> \<not> pending \<and> \<not> modes_armed m \<and> \<not> modes_bench m \<and> \<not> modes_calibrating m)"

definition can_select_control_source :: "parsed_modes option \<Rightarrow> bool \<Rightarrow> bool \<Rightarrow> bool" where
  "can_select_control_source s online pending = (case s of None \<Rightarrow> False
     | Some m \<Rightarrow> can_edit_mode_ranges s online pending \<and> modes_api m = 2 \<and> \<not> flight_enabled m)"

definition can_select_control_mode :: "parsed_modes option \<Rightarrow> bool \<Rightarrow> bool \<Rightarrow> bool" where
  "can_select_control_mode s online pending = (case s of None \<Rightarrow> False
     | Some m \<Rightarrow> can_edit_mode_ranges s online pending \<and> modes_api m = 2)"

definition is_mode_range_command :: "string \<Rightarrow> bool" where
  "is_mode_range_command s =
     (let a = split_char (CHR '' '') s in
      length a = 6 \<and> a ! 0 = ''mode_range'' \<and> a ! 1 \<in> set (List.map mode_text [ARM, ANGLE, ACRO, HORIZON])
      \<and> (case res_bind (read_bit (a ! 2)) (\<lambda>_. res_bind (read_uint (a ! 3) 1 12) (\<lambda>_.
              res_bind (read_uint (a ! 4) 900 2100) (\<lambda>lo. res_bind (read_uint (a ! 5) 900 2100) (\<lambda>hi. Inr (lo < hi)))))
         of Inl _ \<Rightarrow> False | Inr ok \<Rightarrow> ok))"

definition mode_range_text :: "mode_name \<Rightarrow> bool \<Rightarrow> nat \<Rightarrow> nat \<Rightarrow> nat \<Rightarrow> string" where
  "mode_range_text name en ax lo hi = ''mode_range '' @ mode_text name @ '' '' @ (if en then ''1'' else ''0'') @ '' ''
     @ show_nat ax @ '' '' @ show_nat lo @ '' '' @ show_nat hi"

definition mode_range_command :: "mode_name \<Rightarrow> bool \<Rightarrow> nat \<Rightarrow> nat \<Rightarrow> nat \<Rightarrow> string option" where
  "mode_range_command name en ax lo hi =
     (let s = mode_range_text name en ax lo hi in if is_mode_range_command s then Some s else None)"

subsection \<open>Ports: parse-ports.ts\<close>

datatype port_role = CliRole | CrsfRole | NoRole

definition role_of :: "string \<Rightarrow> port_role option" where
  "role_of s = (if s = ''cli'' then Some CliRole else if s = ''crsf'' then Some CrsfRole else if s = ''none'' then Some NoRole else None)"

record port_row =
  port_id :: nat
  port_label :: string
  tx_pin :: string
  rx_pin :: string
  role :: port_role
  selectable :: bool

text \<open>\<open>/^(?:-|P[A-K](?:[0-9]|1[0-5]))$/\<close> and \<open>/^[A-Za-z0-9_-]+$/\<close>.\<close>

definition pin_text :: "string \<Rightarrow> bool" where
  "pin_text s \<longleftrightarrow> s = ''-'' \<or> (2 < length s \<and> s ! 0 = CHR ''P'' \<and> s ! 1 \<in> set ''ABCDEFGHIJK'' \<and>
     (let n = drop 2 s in n \<in> set (List.map show_nat [0..<16])))"

definition label_text :: "string \<Rightarrow> bool" where
  "label_text s \<longleftrightarrow> s \<noteq> [] \<and> list_all (\<lambda>c. is_word c \<or> c = CHR ''-'') s"

definition parse_port_row :: "string \<Rightarrow> string + port_row" where
  "parse_port_row r =
     (let a = split_char (CHR '','') r in
      if length a \<noteq> 6 \<or> \<not> pin_text (a ! 2) \<or> \<not> pin_text (a ! 3) then Inl ''Invalid port row''
      else res_bind (read_uint (a ! 0) 0 255) (\<lambda>i. res_bind (read_bit (a ! 5)) (\<lambda>sel.
        (case role_of (a ! 4) of
           None \<Rightarrow> Inl ''Invalid port role/label''
         | Some ro \<Rightarrow>
             if \<not> label_text (a ! 1) then Inl ''Invalid port role/label''
             else if i = 0 \<and> (ro \<noteq> CliRole \<or> sel \<or> a ! 2 \<noteq> ''-'' \<or> a ! 3 \<noteq> ''-'') then Inl ''USB must be fixed CLI''
             else if i \<noteq> 0 \<and> (ro = CliRole \<or> sel \<and> a ! 3 = ''-'') then Inl ''Invalid UART capability''
             else Inr \<lparr>port_id = i, port_label = a ! 1, tx_pin = a ! 2, rx_pin = a ! 3, role = ro, selectable = sel\<rparr>))))"

record parsed_ports =
  ports_raw :: string
  ports_board :: string
  receiver_uart :: nat
  reboot_required :: bool
  ports_flash :: bool
  ports_armed :: bool
  ports_bench :: bool
  ports :: "port_row list"
  ports_source :: "string option"

definition receiver_consistent :: "nat \<Rightarrow> port_row list \<Rightarrow> bool" where
  "receiver_consistent uart ps =
     (let rx = filter (\<lambda>p. role p = CrsfRole) ps in if uart = 0 then rx = [] else List.map port_id rx = [uart])"

definition parse_ports :: "string \<Rightarrow> string + parsed_ports" where
  "parse_ports raw =
     res_bind (snapshot raw ''ports'' ''port'' [1]) (\<lambda>d. (let f = sfields d in
     res_bind (field_of f ''board'') (\<lambda>board.
     if board = [] \<or> \<not> list_all (\<lambda>c. is_word c \<or> c = CHR ''.'' \<or> c = CHR ''-'') board then Inl ''Invalid board ID''
     else res_bind (field_of f ''persistence'') (\<lambda>pers.
     if pers \<noteq> ''session'' \<and> pers \<noteq> ''flash'' then Inl ''Unsupported persistence''
     else res_bind (field_of f ''reboot_required'') (\<lambda>rr.
     if rr \<noteq> ''no'' \<and> rr \<noteq> ''yes'' then Inl ''Invalid reboot requirement''
     else res_bind (field_of f ''receiver_uart'') (\<lambda>ru. res_bind (read_uint ru 0 255) (\<lambda>uart.
     res_bind (res_map parse_port_row (rows d)) (\<lambda>ps.
     if list_all (\<lambda>p. port_id p \<noteq> 0) ps \<or> card (port_id ` set ps) \<noteq> length ps then Inl ''Missing USB or duplicate port''
     else if \<not> receiver_consistent uart ps then Inl ''Inconsistent receiver assignment''
     else res_bind (bit_field f ''armed'') (\<lambda>armed. res_bind (bit_field f ''bench_active'') (\<lambda>bench.
       Inr \<lparr>ports_raw = raw, ports_board = board, receiver_uart = uart, reboot_required = (rr = ''yes''), ports_flash = (pers = ''flash''),
            ports_armed = armed, ports_bench = bench, ports = ps, ports_source = f ''source''\<rparr>))))))))))"

subsection \<open>Storage: storage.ts\<close>

definition STORAGE_SCOPE :: string where
  "STORAGE_SCOPE = ''pid_rates,receiver_uart,receiver_map,mode_ranges,control_selection,accel_calibration,power,dshot,min_throttle,airmode,gyro_lpf_hz,dterm_lpf_hz,pid_yaw_d,loop_rate_hz,gyro_notch1_hz,gyro_notch1_cutoff_hz,gyro_notch2_hz,gyro_notch2_cutoff_hz,rpm_filter_harmonics,rpm_filter_min_hz,rpm_filter_q_x100,motor_poles,motor_direction,align_board_roll,align_board_pitch,align_board_yaw,actual_rates''"

definition STORAGE_SCHEMA :: nat where "STORAGE_SCHEMA = 13"

definition scope_for :: "string \<Rightarrow> string option" where
  "scope_for v = (if v = ''13'' then Some STORAGE_SCOPE else None)"

datatype storage_backend = FlashBackend | HostSim | UnsupportedBackend
datatype storage_state = Saved | Dirty | Defaults | ErrorState | UnsupportedState
datatype storage_error = StorageReplyError string | StorageFreshInstall nat

definition backend_of :: "string \<Rightarrow> storage_backend option" where
  "backend_of s = (if s = ''flash'' then Some FlashBackend else if s = ''host_sim'' then Some HostSim
     else if s = ''unsupported'' then Some UnsupportedBackend else None)"

definition state_of :: "string \<Rightarrow> storage_state option" where
  "state_of s = (if s = ''saved'' then Some Saved else if s = ''dirty'' then Some Dirty else if s = ''defaults'' then Some Defaults
     else if s = ''error'' then Some ErrorState else if s = ''unsupported'' then Some UnsupportedState else None)"

record storage_snapshot =
  backend :: storage_backend
  store_state :: storage_state
  dirty :: bool
  store_generation :: nat
  last_error :: string
  scope :: string
  store_armed :: bool
  bench_active :: bool
  store_calibrating :: bool
  store_flight :: bool

definition bad :: "string \<Rightarrow> storage_error + 'a" where
  "bad reason = Inl (StorageReplyError reason)"

definition storage_get :: "(string \<rightharpoonup> string) \<Rightarrow> string \<Rightarrow> storage_error + string" where
  "storage_get f k = (case f k of None \<Rightarrow> bad (''missing '' @ k) | Some v \<Rightarrow> Inr v)"

text \<open>A reader inside \<open>try\<close>: a missing key keeps its own reason, any other failure gets the reason given.\<close>

definition storage_read :: "(string \<rightharpoonup> string) \<Rightarrow> string \<Rightarrow> (string \<Rightarrow> string + 'a) \<Rightarrow> string \<Rightarrow> storage_error + 'a" where
  "storage_read f k read reason = res_bind (storage_get f k) (\<lambda>v. case read v of Inl _ \<Rightarrow> bad reason | Inr x \<Rightarrow> Inr x)"

definition storage_flag :: "(string \<rightharpoonup> string) \<Rightarrow> string \<Rightarrow> storage_error + bool" where
  "storage_flag f k = storage_read f k read_bit (''invalid '' @ k)"

text \<open>\<open>/^(?:0|[1-9]\d{0,3})$/\<close> and below the schema read here.\<close>

definition older_schema :: "string \<Rightarrow> bool" where
  "older_schema s \<longleftrightarrow> uint4 s \<and> dec_num s < STORAGE_SCHEMA"

definition error_token :: "string \<Rightarrow> bool" where
  "error_token s \<longleftrightarrow> s \<noteq> [] \<and> list_all key_char s"

definition storage_facts :: "(string \<rightharpoonup> string) \<Rightarrow> string \<Rightarrow> storage_error + storage_snapshot" where
  "storage_facts f schema =
     res_bind (storage_get f ''backend'') (\<lambda>b. res_bind (storage_get f ''state'') (\<lambda>st.
     (case (backend_of b, state_of st) of
        (None, _) \<Rightarrow> bad (''unknown backend \"'' @ b @ ''\"'')
      | (Some be, None) \<Rightarrow> bad (''unknown state \"'' @ st @ ''\"'')
      | (Some be, Some ss) \<Rightarrow>
          res_bind (storage_get f ''scope'') (\<lambda>sc.
          if Some sc \<noteq> scope_for schema then bad ''scope does not match storage schema 13''
          else res_bind (storage_read f ''dirty'' read_bit ''invalid dirty flag'') (\<lambda>dt.
          if ss = Saved \<and> dt \<or> ss = Dirty \<and> \<not> dt \<or> be = UnsupportedBackend \<and> ss \<noteq> UnsupportedState
          then bad ''contradictory storage state''
          else res_bind (storage_get f ''last_error'') (\<lambda>le.
          if \<not> error_token le \<or> ss = Saved \<and> le \<noteq> ''none'' then bad ''invalid storage status''
          else res_bind (storage_read f ''generation'' (\<lambda>v. read_uint v 0 4294967295) ''invalid generation'') (\<lambda>gn.
          res_bind (storage_flag f ''armed'') (\<lambda>ar. res_bind (storage_flag f ''bench_active'') (\<lambda>bn.
          res_bind (storage_flag f ''calibration_active'') (\<lambda>ca. res_bind (storage_flag f ''flight_enabled'') (\<lambda>fl.
            Inr \<lparr>backend = be, store_state = ss, dirty = dt, store_generation = gn, last_error = le, scope = sc,
                 store_armed = ar, bench_active = bn, store_calibrating = ca, store_flight = fl\<rparr>)))))))))))"

definition parse_storage :: "string \<Rightarrow> storage_error + storage_snapshot" where
  "parse_storage raw =
     (case snapshot raw ''storage'' ''unused'' [1] of
        Inl e \<Rightarrow> bad e
      | Inr d \<Rightarrow>
          if rows d \<noteq> [] then bad ''unexpected storage rows''
          else res_bind (storage_get (sfields d) ''schema'') (\<lambda>schema.
            if older_schema schema then Inl (StorageFreshInstall (dec_num schema))
            else if schema \<noteq> show_nat STORAGE_SCHEMA then bad (''storage schema \"'' @ schema @ ''\" is not schema 13'')
            else storage_facts (sfields d) schema))"

definition is_verified_flash_save :: "string \<Rightarrow> bool" where
  "is_verified_flash_save raw \<longleftrightarrow> js_trim raw = ''saved: flash verified''"

definition can_save_storage :: "storage_snapshot option \<Rightarrow> bool \<Rightarrow> bool \<Rightarrow> bool" where
  "can_save_storage s online pending = (case s of None \<Rightarrow> False
     | Some x \<Rightarrow> online \<and> \<not> pending \<and> backend x = FlashBackend \<and> last_error x \<noteq> ''fresh_install_required''
         \<and> last_error x \<noteq> ''invalid_record'' \<and> \<not> store_armed x \<and> \<not> bench_active x \<and> \<not> store_calibrating x)"

definition align_axes :: "string list" where "align_axes = [''roll'', ''pitch'', ''yaw'']"

text \<open>\<open>-?(?:0|[1-9]\d{0,2})\<close> of magnitude at most 180.\<close>

definition angle_text :: "string \<Rightarrow> bool" where
  "angle_text s = (let d = (if s \<noteq> [] \<and> hd s = CHR ''-'' then tl s else s) in canonical_uint d \<and> length d \<le> 3 \<and> dec_num d \<le> 180)"

definition is_board_alignment_command :: "string \<Rightarrow> bool" where
  "is_board_alignment_command cmd \<longleftrightarrow>
     cmd \<in> set (List.map (\<lambda>a. ''get align_board_'' @ a) align_axes)
     \<or> (\<exists>a \<in> set align_axes. prefix (''set align_board_'' @ a @ '' '') cmd \<and> angle_text (drop (length (''set align_board_'' @ a @ '' '')) cmd))"

subsection \<open>Settings replies: settings.ts\<close>

definition SETTINGS_KEYS :: "string list" where
  "SETTINGS_KEYS = [''rate_max_roll'', ''rate_max_pitch'', ''rate_max_yaw'', ''pid_roll_p'', ''pid_roll_i'', ''pid_roll_d'',
     ''pid_pitch_p'', ''pid_pitch_i'', ''pid_pitch_d'', ''pid_yaw_p'', ''pid_yaw_i'', ''pid_yaw_d'', ''min_throttle'', ''airmode'',
     ''gyro_lpf_hz'', ''dterm_lpf_hz''] @ GYRO_NOTCH_KEYS @ List.map rpm_key_text RPM_FILTER_KEYS
     @ [''rate_center_roll'', ''rate_center_pitch'', ''rate_center_yaw'', ''rate_expo_roll'', ''rate_expo_pitch'', ''rate_expo_yaw'']"

definition is_settings_key :: "string \<Rightarrow> bool" where
  "is_settings_key k \<longleftrightarrow> k \<in> set SETTINGS_KEYS"

definition is_optional_settings_key :: "string \<Rightarrow> bool" where
  "is_optional_settings_key k \<longleftrightarrow> k \<in> set GYRO_NOTCH_KEYS \<or> is_rpm_filter_key k"

text \<open>
  \<open>validateSettingValue\<close> on a number: \<open>None\<close> when it is not finite. The literal 0.2 of the source is the
  double nearest to it.
\<close>

definition DOUBLE_0_2 :: rat where "DOUBLE_0_2 = 3602879701896397 / 18014398509481984"

definition in_range :: "rat \<Rightarrow> rat \<Rightarrow> rat \<Rightarrow> bool" where
  "in_range lo hi v \<longleftrightarrow> lo \<le> v \<and> v \<le> hi"

definition is_whole :: "rat \<Rightarrow> bool" where
  "is_whole v \<longleftrightarrow> of_int (floor v) = v"

definition validate_setting_value :: "string \<Rightarrow> rat option \<Rightarrow> bool" where
  "validate_setting_value key value = (case value of
     None \<Rightarrow> False
   | Some v \<Rightarrow>
       if prefix ''rate_center_'' key then in_range 0 2000 v
       else if prefix ''rate_expo_'' key then in_range 0 1 v
       else if prefix ''rate_max_'' key then in_range 10 2000 v
       else if key = ''min_throttle'' then in_range 0 DOUBLE_0_2 v
       else if key = ''airmode'' then v = 0 \<or> v = 1
       else if key = ''gyro_lpf_hz'' \<or> key = ''dterm_lpf_hz'' then v = 0 \<or> in_range 10 1000 v
       else if key = ''gyro_notch1_hz'' \<or> key = ''gyro_notch2_hz'' then v = 0 \<or> in_range 20 1000 v
       else if key = ''gyro_notch1_cutoff_hz'' \<or> key = ''gyro_notch2_cutoff_hz'' then 0 \<le> v \<and> v < 1000
       else if key = ''rpm_filter_harmonics'' then is_whole v \<and> in_range 0 3 v
       else if key = ''rpm_filter_min_hz'' then is_whole v \<and> in_range 50 200 v
       else if key = ''rpm_filter_q_x100'' then is_whole v \<and> in_range 100 1000 v
       else if key = ''motor_poles'' then is_whole v \<and> in_range 4 36 v \<and> is_whole (v / 2)
       else in_range 0 10 v)"

text \<open>\<open>raw.replace(/\r\n/g, "\n").trim()\<close>.\<close>

fun crlf_to_lf :: "string \<Rightarrow> string" where
  "crlf_to_lf [] = []"
| "crlf_to_lf [c] = [c]"
| "crlf_to_lf (c # d # cs) = (if c = CR \<and> d = LF then LF # crlf_to_lf cs else c # crlf_to_lf (d # cs))"

definition reply_text :: "string \<Rightarrow> string" where
  "reply_text raw = js_trim (crlf_to_lf raw)"

text \<open>\<open>/^([A-Za-z0-9_]+)=(.+)$/\<close>, after \<open>ok\<close> and white space for a set.\<close>

definition setting_line :: "string \<Rightarrow> (string \<times> string) option" where
  "setting_line s = (case field_line is_word ''='' s of Some (k, v) \<Rightarrow> if v = [] then None else Some (k, v) | None \<Rightarrow> None)"

definition ok_setting_line :: "string \<Rightarrow> (string \<times> string) option" where
  "ok_setting_line s =
     (if prefix ''ok'' s \<and> drop 2 s \<noteq> [] \<and> js_space (hd (drop 2 s)) then setting_line (dropWhile js_space (drop 2 s)) else None)"

datatype setting_reply = SettingOk string string | SettingUnknown | SettingFailed | SettingUnreadable

definition parse_get_reply :: "string \<Rightarrow> setting_reply" where
  "parse_get_reply raw = (let text = reply_text raw in
     if text = ''unknown key'' then SettingUnknown
     else case setting_line text of Some (k, v) \<Rightarrow> SettingOk k v | None \<Rightarrow> SettingUnreadable)"

definition parse_set_reply :: "string \<Rightarrow> setting_reply" where
  "parse_set_reply raw = (let text = reply_text raw in
     if text = ''unknown key'' then SettingUnknown
     else if text = ''set failed'' then SettingFailed
     else case ok_setting_line text of Some (k, v) \<Rightarrow> SettingOk k v | None \<Rightarrow> SettingUnreadable)"

definition parse_save_reply :: "string \<Rightarrow> bool" where
  "parse_save_reply raw \<longleftrightarrow> reply_text raw = ''saved: flash verified''"

definition parse_defaults_reply :: "string \<Rightarrow> bool" where
  "parse_defaults_reply raw \<longleftrightarrow> reply_text raw = ''defaults restored''"

subsection \<open>The status reply: parse-status.ts\<close>

definition KNOWN_KEYS :: "string list" where
  "KNOWN_KEYS = [''board'', ''flight_mode'', ''gyro_calibrated'', ''gyro_dps'', ''accel_g'', ''attitude_deg'', ''rx_uart'',
     ''rx_fresh'', ''rx_frames'', ''channels'', ''motor_output'', ''ir'', ''mcu'', ''gyro_ok'', ''gyro_bind'', ''dshot_bound'', ''rx'',
     ''mmio'', ''arm'', ''failsafe'', ''loop'']"

text \<open>One line of the loop of \<open>parseStatus\<close>; a later line overwrites an earlier one.\<close>

definition status_step :: "string \<Rightarrow> (string \<rightharpoonup> string) \<Rightarrow> (string \<rightharpoonup> string)" where
  "status_step line mp =
     (let t = js_trim line in
      case index_of (CHR '':'') t of
        None \<Rightarrow> mp
      | Some i \<Rightarrow> if i = 0 then mp
          else (let key = js_trim (take i t); value = js_trim (drop (Suc i) t) in
            if key \<in> set KNOWN_KEYS then mp(key \<mapsto> value) else mp))"

definition status_map :: "string \<Rightarrow> string \<rightharpoonup> string" where
  "status_map raw = fold status_step (split_nl raw) Map.empty"

definition fail_closed_reasons :: "(string \<rightharpoonup> string) \<Rightarrow> string list" where
  "fail_closed_reasons mp =
     (if mp ''flight_mode'' = Some ''bench-only'' then [''bench firmware: flight arming disabled''] else [])
     @ (if mp ''gyro_calibrated'' = Some ''no'' then [''gyro calibration incomplete''] else [])
     @ (if mp ''rx_fresh'' = Some ''no'' then [''receiver data stale''] else [])
     @ (if mp ''gyro_ok'' = Some ''no'' then [''gyro_ok:no''] else [])
     @ (if mp ''failsafe'' = Some ''ACTIVE'' then [''failsafe:ACTIVE''] else [])"

record parsed_status =
  status_raw :: string
  status_fields :: "string \<rightharpoonup> string"
  fail_closed :: bool
  reasons :: "string list"

definition parse_status_reply :: "string \<Rightarrow> parsed_status" where
  "parse_status_reply raw = (let mp = status_map raw; rs = fail_closed_reasons mp in
     \<lparr>status_raw = raw, status_fields = mp, fail_closed = (rs \<noteq> []), reasons = rs\<rparr>)"

text \<open>\<open>/^(BobFlight\s+\S+?)(?:\s+ready)?$/\<close> on a trimmed line, and \<open>replace(/\s+ready$/, "")\<close>.\<close>

definition banner :: "string \<Rightarrow> string option" where
  "banner l =
     (let r = drop 9 l; sp = takeWhile js_space r; tok = takeWhile (\<lambda>c. \<not> js_space c) (dropWhile js_space r);
          rest = dropWhile (\<lambda>c. \<not> js_space c) (dropWhile js_space r)
      in if prefix ''BobFlight'' l \<and> sp \<noteq> [] \<and> tok \<noteq> [] \<and> (rest = [] \<or> dropWhile js_space rest = ''ready'')
         then Some (''BobFlight'' @ sp @ tok) else None)"

definition strip_ready :: "string \<Rightarrow> string" where
  "strip_ready s = (let h = take (length s - 5) s in
     if suffix ''ready'' s \<and> h \<noteq> [] \<and> js_space (last h) then js_trim_end h else s)"

definition parse_version_line :: "string \<Rightarrow> string" where
  "parse_version_line text =
     (let ls = reply_lines text in
      case List.map_filter banner ls of
        v # _ \<Rightarrow> v
      | [] \<Rightarrow> js_trim (strip_ready (if ls = [] then js_trim text else hd ls)))"

subsection \<open>What the readers accept\<close>

lemma read_uint_Inr: "read_uint s lo hi = Inr n \<longleftrightarrow> canonical_uint s \<and> n = dec_num s \<and> n \<le> MAX_SAFE_INTEGER \<and> lo \<le> n \<and> n \<le> hi"
  by (auto simp: read_uint_def Let_def)

lemma snapshot_api: "snapshot raw kind row_key vs = Inr d \<Longrightarrow> api_version d \<in> set vs"
proof -
  have keep: "snapshot_lines kind row_key ls d0 = Inr d \<Longrightarrow> api_version d = api_version d0" for ls d0
    by (induction kind row_key ls d0 rule: snapshot_lines.induct) (auto split: option.splits if_splits)
  assume "snapshot raw kind row_key vs = Inr d"
  then show ?thesis by (auto simp: snapshot_def Let_def find_Some_iff dest!: keep split: option.splits if_splits)
qed

definition mode_row_ok :: "bool \<Rightarrow> mode_row \<Rightarrow> bool" where
  "mode_row_ok fresh m \<longleftrightarrow> 1 \<le> aux m \<and> aux m \<le> 12 \<and> 900 \<le> min_us m \<and> min_us m < max_us m \<and> max_us m \<le> 2100
     \<and> (active m = (active m \<and> fresh \<and> enabled m))"

lemma parse_mode_row_ok:
  "parse_mode_row version fresh r = Inr m \<Longrightarrow> mode_row_ok fresh m \<and> mode_name m \<in> set (mode_names version)"
  by (auto simp: parse_mode_row_def Let_def mode_of_def find_Some_iff res_bind_Inr_iff read_uint_Inr mode_row_ok_def
    split: option.splits if_splits)

lemma read_mode_rows_ok:
  assumes "read_mode_rows version fresh rs = Inr ms"
  shows "list_all (mode_row_ok fresh) ms" and "mset (List.map mode_name ms) = mset (mode_names version)"
proof -
  have "res_map (parse_mode_row version fresh) rs = Inr ms" "length ms = length (mode_names version)"
    "card (mode_name ` set ms) = length (mode_names version)"
    using assms by (auto simp: read_mode_rows_def res_bind_Inr_iff split: if_splits)
  note f = this
  have rows: "mode_row_ok fresh m \<and> mode_name m \<in> set (mode_names version)" if "m \<in> set ms" for m
    using res_map_Inr_set [OF f(1) that] parse_mode_row_ok by blast
  then show "list_all (mode_row_ok fresh) ms" by (simp add: list_all_iff)
  have "distinct (List.map mode_name ms)" using f(2,3) by (simp add: card_distinct)
  moreover have "distinct (mode_names version)" by (simp add: mode_names_def)
  moreover have "mode_name ` set ms = set (mode_names version)"
    using rows f(3) \<open>distinct (mode_names version)\<close> by (intro card_subset_eq) (auto simp: distinct_card)
  ultimately show "mset (List.map mode_name ms) = mset (mode_names version)"
    using set_eq_iff_mset_eq_distinct [of "List.map mode_name ms" "mode_names version"] by simp
qed

definition routing_ok :: "mode_row list \<Rightarrow> bool \<Rightarrow> mode_routing \<Rightarrow> bool" where
  "routing_ok ms flight r \<longleftrightarrow> requested_mode r \<in> set control_modes \<and> effective_mode r \<in> set control_modes
     \<and> mode_conflict r = (source_of_control r = Aux \<and> 1 < length (active_matches ms))
     \<and> (case source_of_control r of Manual \<Rightarrow> True
        | Aux \<Rightarrow> \<not> flight \<and> requested_mode r = (case active_matches ms of [m] \<Rightarrow> mode_lower (mode_name m) | _ \<Rightarrow> ''angle''))"

lemma parse_routing_ok: "parse_routing f ms flight = Inr r \<Longrightarrow> routing_ok ms flight r"
  unfolding parse_routing_def Let_def
  by (elim res_bind_InrE; simp split: if_split_asm; elim res_bind_InrE; simp split: if_split_asm;
      elim res_bind_InrE; simp split: if_split_asm; elim res_bind_InrE; auto simp: routing_ok_def)

text \<open>A mode snapshot that is accepted lists each mode of its API version exactly once, with an AUX channel of 1 to
  12 and a non-empty pulse range inside 900 to 2100; a mode is active only when it is enabled and the receiver is
  fresh; channels, when present, are 16 values in range; routing is present exactly in version 2, its conflict flag
  tells whether AUX selects several modes, and under AUX the requested mode is the one active mode or angle.\<close>
theorem parse_modes_consistent:
  assumes "parse_modes raw = Inr m"
  shows "modes_api m \<in> {1, 2}
    \<and> mset (List.map mode_name (modes m)) = mset (mode_names (modes_api m))
    \<and> list_all (mode_row_ok (rx_fresh m)) (modes m)
    \<and> (case channels m of None \<Rightarrow> True | Some cs \<Rightarrow> length cs = 16 \<and> list_all (\<lambda>c. 900 \<le> c \<and> c \<le> 2100) cs)
    \<and> (case routing m of None \<Rightarrow> modes_api m = 1 | Some r \<Rightarrow> modes_api m = 2 \<and> routing_ok (modes m) (flight_enabled m) r)"
proof -
  obtain d where d: "snapshot raw ''modes'' ''mode'' [1, 2] = Inr d" using assms by (auto simp: parse_modes_def elim!: res_bind_InrE)
  have v: "api_version d \<in> {1, 2}" using snapshot_api [OF d] by simp
  obtain fresh ms flight where r: "read_mode_rows (api_version d) fresh (rows d) = Inr ms" "modes m = ms" "rx_fresh m = fresh"
    "parse_channels (sfields d) = Inr (channels m)" "modes_api m = api_version d" "flight_enabled m = flight"
    "if api_version d = 2 then \<exists>x. parse_routing (sfields d) ms flight = Inr x \<and> routing m = Some x else routing m = None"
    using assms d unfolding parse_modes_def Let_def
    by (elim res_bind_InrE; simp split: if_split_asm; elim res_bind_InrE; simp split: if_split_asm;
        elim res_bind_InrE; simp split: if_split_asm; elim res_bind_InrE; auto)
  have "case channels m of None \<Rightarrow> True | Some cs \<Rightarrow> length cs = 16 \<and> list_all (\<lambda>c. 900 \<le> c \<and> c \<le> 2100) cs"
    using r(4) res_map_Inr_set
    by (fastforce simp: parse_channels_def list_all_iff read_uint_Inr elim!: res_bind_InrE split: option.splits if_splits)
  moreover have "case routing m of None \<Rightarrow> modes_api m = 1 | Some r \<Rightarrow> modes_api m = 2 \<and> routing_ok (modes m) (flight_enabled m) r"
    using r(2,5-7) v by (auto simp: parse_routing_ok split: if_splits)
  ultimately show ?thesis using read_mode_rows_ok [OF r(1)] r v by simp
qed

definition modes_sample :: string where
  "modes_sample = crlf_text [''modes_api: 2'', ''persistence: flash'', ''semantics: bench-control'', ''rx_fresh: 1'',
     ''mode: ARM,0,1,1700,2100,0'', ''mode: ANGLE,1,2,1300,1700,1'', ''mode: ACRO,0,3,900,1000,0'', ''mode: HORIZON,0,4,900,1000,0'',
     ''flight_enabled: 0'', ''armed: 0'', ''bench_active: 0'', ''calibration_active: 0'', ''control_source: aux'',
     ''requested_mode: angle'', ''effective_mode: angle'', ''arm_semantics: preview'', ''mode_conflict: 0'', ''modes_end: 1'']"

definition modes_of_reply :: "string + parsed_modes \<Rightarrow> mode_row list" where
  "modes_of_reply r = (case r of Inl e \<Rightarrow> [] | Inr m \<Rightarrow> modes m)"

theorem parse_modes_consistent_witness:
  "\<exists>m. parse_modes modes_sample = Inr m \<and> mset (List.map mode_name (modes m)) = mset (mode_names (modes_api m))"
proof -
  have "length (modes_of_reply (parse_modes modes_sample)) = 4" by code_simp
  then obtain m where m: "parse_modes modes_sample = Inr m" by (auto simp: modes_of_reply_def split: sum.splits)
  then show ?thesis using parse_modes_consistent [OF m] by blast
qed
subsection \<open>Mode range commands\<close>

lemma split_char_single: "sep \<notin> set l \<Longrightarrow> split_char sep l = [l]"
  by (induction l) auto

lemma split_char_append: "sep \<notin> set l \<Longrightarrow> split_char sep (l @ sep # r) = l # split_char sep r"
  by (induction l) auto

lemma read_uint_show_nat: "read_uint (show_nat n) lo hi = Inr m \<longleftrightarrow> m = n \<and> n \<le> MAX_SAFE_INTEGER \<and> lo \<le> n \<and> n \<le> hi"
  by (auto simp: read_uint_Inr canonical_show_nat)

lemma space_not_digit: "CHR '' '' \<notin> set (show_nat n)"
  using show_nat_digits [of n] by (auto simp: list_all_iff is_digit_def)

lemma read_bit_texts: "read_bit ''0'' = Inr False" "read_bit ''1'' = Inr True"
  by code_simp+

text \<open>The command for a mode range exists exactly when the firmware takes it: an AUX channel of 1 to 12 and bounds of
  900 to 2100 in ascending order; it is then the text of these numbers, and the allowlist accepts it.\<close>
theorem mode_range_command_iff:
  "mode_range_command name en ax lo hi =
     (if 1 \<le> ax \<and> ax \<le> 12 \<and> 900 \<le> lo \<and> lo < hi \<and> hi \<le> 2100 then Some (mode_range_text name en ax lo hi) else None)
   \<and> is_mode_range_command (mode_range_text name en ax lo hi) = (1 \<le> ax \<and> ax \<le> 12 \<and> 900 \<le> lo \<and> lo < hi \<and> hi \<le> 2100)"
proof -
  let ?bit = "if en then ''1'' else ''0''"
  have name: "CHR '' '' \<notin> set (mode_text name)" by (cases name) simp_all
  have "mode_range_text name en ax lo hi = ''mode_range'' @ CHR '' '' # mode_text name @ CHR '' '' # ?bit @ CHR '' '' # show_nat ax
      @ CHR '' '' # show_nat lo @ CHR '' '' # show_nat hi"
    by (simp add: mode_range_text_def)
  moreover have c: "CHR '' '' \<notin> set ''mode_range''" "CHR '' '' \<notin> set ?bit" by simp_all
  ultimately have split: "split_char (CHR '' '') (mode_range_text name en ax lo hi)
      = [''mode_range'', mode_text name, ?bit, show_nat ax, show_nat lo, show_nat hi]"
    by (simp only: split_char_append [OF name] split_char_append [OF c(1)] split_char_append [OF c(2)]
        split_char_append [OF space_not_digit] split_char_single [OF space_not_digit])
  have b: "read_bit ?bit = Inr en" using read_bit_texts by simp
  have u: "read_uint (show_nat n) l h = (if n \<le> MAX_SAFE_INTEGER \<and> l \<le> n \<and> n \<le> h then Inr n else Inl ''Integer outside supported bounds'')" for n l h
    by (auto simp: read_uint_def canonical_show_nat)
  have n: "mode_text name \<in> set (List.map mode_text [ARM, ANGLE, ACRO, HORIZON])" by (cases name) simp_all
  have "is_mode_range_command (mode_range_text name en ax lo hi) = (1 \<le> ax \<and> ax \<le> 12 \<and> 900 \<le> lo \<and> lo < hi \<and> hi \<le> 2100)"
    unfolding is_mode_range_command_def split Let_def using n
    by (auto simp: b u MAX_SAFE_INTEGER_def)
  then show ?thesis by (simp add: mode_range_command_def Let_def)
qed

end
