(* ===== verification/Cli_Client.thy ===== *)
theory Cli_Client
  imports Cli_Framing Cli_Snapshots
begin

section \<open>The command line client: client.ts\<close>

text \<open>
  \<open>BobFlightCliClient\<close>: which lines may be sent, how a reply to each is framed, the connection with its one
  command in flight, and the calls made of several commands. The serial port and the time are the
  environment: an event says what happens next, and opening a port succeeds or fails as the event says. A connect
  runs to its end in one event. A caller's promise is an entry of the log of results.
\<close>

subsection \<open>The allowlist of \<open>sendCommand\<close>\<close>

definition is_r0b_dshot_cli_command :: "string \<Rightarrow> bool" where
  "is_r0b_dshot_cli_command cmd \<longleftrightarrow>
     cmd \<in> set [''get erpm_m1'', ''get erpm_m2'', ''get erpm_m3'', ''get erpm_m4'']
     \<or> cmd \<in> set [''get dshot_telem_m1'', ''get dshot_telem_m2'', ''get dshot_telem_m3'', ''get dshot_telem_m4'']
     \<or> cmd = ''get dshot_bidir'' \<or> cmd = ''set dshot_bidir on'' \<or> cmd = ''set dshot_bidir off''"

definition ALLOWED_COMMANDS :: "string list" where
  "ALLOWED_COMMANDS = [
     ''help'', ''ports'', ''modes'', ''storage'', ''save'', ''diff all'', ''dump all'',
     ''version'', ''sd probe'', ''sd status'', ''sd cancel'',
     ''blackbox start'', ''blackbox stop'', ''blackbox status'',
     ''status'', ''receiver'', ''receiver_map AETR'', ''receiver_map TAER'',
     ''pid_diag'', ''pid_diag status'', ''pid_diag start'', ''pid_diag start rx'', ''pid_diag stop'',
     ''timing'', ''power'', ''arm'', ''bench_switch'', ''bench_stop'', ''bench_status'',
     ''disarm'', ''reboot'', ''bl'', ''bl discard'',
     ''barometer'', ''flash_info'', ''calibrate_gyro'', ''sensors'', ''calibration'', ''calibration_cancel'',
     ''calibrate_accel level'', ''calibrate_accel start'', ''calibrate_accel apply'', ''calibrate_accel cancel'',
     ''calibrate_accel +x'', ''calibrate_accel -x'', ''calibrate_accel +y'',
     ''calibrate_accel -y'', ''calibrate_accel +z'', ''calibrate_accel -z'',
     ''motor_seq'', ''dshot'', ''dshot 300'', ''dshot 600'',
     ''get loop_rate_hz'', ''set loop_rate_hz 1000'', ''set loop_rate_hz 4000'', ''set loop_rate_hz 8000'', ''loop_rate'',
     ''get motor_direction'', ''set motor_direction props-out'', ''set motor_direction props-in'', ''mixer'']"

text \<open>\<open>/^sd read (?:0|[1-9][0-9]{0,9})$/\<close> with a 32-bit sector number.\<close>

definition is_sd_read_command :: "string \<Rightarrow> bool" where
  "is_sd_read_command cmd \<longleftrightarrow> prefix ''sd read '' cmd \<and>
     (let n = drop 8 cmd in canonical_uint n \<and> length n \<le> 10 \<and> dec_num n \<le> 4294967295)"

text \<open>\<open>/^(receiver_uart [123467]|motor_test [0-4]|motor_pulse [1-4] (?:[0-9]|[1-9][0-9]|100))$/\<close>.\<close>

definition is_motor_or_uart_command :: "string \<Rightarrow> bool" where
  "is_motor_or_uart_command cmd \<longleftrightarrow>
     cmd \<in> set (List.map (\<lambda>c. ''receiver_uart '' @ [c]) ''123467'')
     \<or> cmd \<in> set (List.map (\<lambda>c. ''motor_test '' @ [c]) ''01234'')
     \<or> (prefix ''motor_pulse '' cmd \<and> 14 < length cmd \<and> cmd ! 12 \<in> set ''1234'' \<and> cmd ! 13 = CHR '' ''
        \<and> canonical_uint (drop 14 cmd) \<and> length (drop 14 cmd) \<le> 3 \<and> dec_num (drop 14 cmd) \<le> 100)"

text \<open>\<open>/^power_config(?: [0-9]+(?:\.[0-9]+)?){7}$/\<close>.\<close>

definition plain_decimal :: "string \<Rightarrow> bool" where
  "plain_decimal s = (case split_digits s of (a, r) \<Rightarrow> a \<noteq> [] \<and> (r = [] \<or> hd r = CHR ''.'' \<and> all_digits (tl r)))"

definition is_power_config_command :: "string \<Rightarrow> bool" where
  "is_power_config_command cmd \<longleftrightarrow>
     (let ps = split_char (CHR '' '') cmd in length ps = 8 \<and> hd ps = ''power_config'' \<and> list_all plain_decimal (tl ps))"

definition has_line_break :: "string \<Rightarrow> bool" where
  "has_line_break cmd \<longleftrightarrow> CR \<in> set cmd \<or> LF \<in> set cmd"

definition supported_command :: "string \<Rightarrow> bool" where
  "supported_command cmd \<longleftrightarrow> \<not> has_line_break cmd \<and>
     (is_sd_read_command cmd \<or> is_mode_range_command cmd \<or> is_control_source_command cmd \<or> is_control_mode_command cmd
      \<or> cmd \<in> set ALLOWED_COMMANDS \<or> is_motor_or_uart_command cmd \<or> is_power_config_command cmd
      \<or> is_r0b_dshot_cli_command cmd \<or> is_gyro_notch_cli_command cmd \<or> is_rpm_filter_cli_command cmd
      \<or> is_board_alignment_command cmd)"

subsection \<open>How a line is sent\<close>

definition is_pid_diag :: "string \<Rightarrow> bool" where
  "is_pid_diag line \<longleftrightarrow> line = ''pid_diag'' \<or> prefix ''pid_diag '' line"

definition is_modes_line :: "string \<Rightarrow> bool" where
  "is_modes_line line \<longleftrightarrow> line = ''modes'' \<or> prefix ''mode_range '' line \<or> prefix ''control_source '' line"

definition line_end_marker :: "string \<Rightarrow> string option" where
  "line_end_marker line =
     (if line = ''barometer'' then Some ''barometer_end: 1''
      else if line = ''flash_info'' then Some ''flash_info_end: 1''
      else if prefix ''sd read'' line then Some ''sd_data_end: 1''
      else if prefix ''blackbox '' line then Some ''blackbox_end: 1''
      else if prefix ''sd '' line then Some ''sd_end: 1''
      else if is_pid_diag line then Some ''pid_diag_end: 1''
      else if line = ''storage'' then Some ''storage_end: 1''
      else if line = ''diff all'' \<or> line = ''dump all'' then Some ''# config_end: 1''
      else if line = ''ports'' then Some ''ports_end: 1''
      else if is_modes_line line then Some ''modes_end: 1''
      else if line = ''timing'' then Some ''timing_end: 1''
      else if line = ''loop_rate'' then Some ''loop_rate_end: 1''
      else if line = ''mixer'' then Some ''mixer_end: 1''
      else if line = ''sensors'' then Some ''sensors_end: 1''
      else if line = ''calibration'' then Some ''calibration_end: 1''
      else None)"

definition framed_for_resync :: "string \<Rightarrow> bool" where
  "framed_for_resync line \<longleftrightarrow> is_pid_diag line \<or> line \<in> {''barometer'', ''storage'', ''flash_info''} \<or> prefix ''sd '' line
     \<or> prefix ''blackbox '' line
     \<or> line \<in> {''diff all'', ''dump all'', ''sensors'', ''calibration'', ''timing'', ''loop_rate'', ''mixer'', ''ports''}
     \<or> is_modes_line line"

text \<open>Which failure of which line makes the client drop the connection.\<close>

definition drops_connection :: "string \<Rightarrow> reply_error \<Rightarrow> bool" where
  "drops_connection line e \<longleftrightarrow> line = ''save'' \<or> framed_for_resync line \<and> e = TerminatorMissing"

definition send_timeout :: "nat option \<Rightarrow> string \<Rightarrow> nat" where
  "send_timeout given line = (case given of Some t \<Rightarrow> t | None \<Rightarrow> if line = ''save'' then 15000 else DEFAULT_TIMEOUT_MS)"

subsection \<open>The connection\<close>

datatype connection_status = Disconnected | Connecting | Connected | Reconnecting | ErrorStatus

record client =
  port_open :: bool
  cstatus :: connection_status
  line_buf :: string
  in_flight :: "(string \<times> collector) option"
  last_connect :: bool
  reconnect_enabled :: bool
  max_attempts :: nat
  attempt :: nat
  intentional :: bool
  sent_commands :: "string list"
  wire :: "string list"
  answered :: "(string \<times> (reply_error + string)) list"
  lines_seen :: "string list"
  attempts_log :: nat

definition new_client :: "bool \<Rightarrow> nat \<Rightarrow> client" where
  "new_client retry n = \<lparr>port_open = False, cstatus = Disconnected, line_buf = [], in_flight = None, last_connect = False,
     reconnect_enabled = retry, max_attempts = n, attempt = 0, intentional = False, sent_commands = [], wire = [],
     answered = [], lines_seen = [], attempts_log = 0\<rparr>"

definition drop_port :: "client \<Rightarrow> client" where
  "drop_port c = c\<lparr>intentional := True, port_open := False, line_buf := [], cstatus := Disconnected\<rparr>"

text \<open>The callbacks of the collector: it is forgotten, the connection is dropped when the failure asks for it,
  the caller learns the result.\<close>

definition settle_flight :: "collector \<Rightarrow> client \<Rightarrow> client" where
  "settle_flight k c = (case in_flight c of
     None \<Rightarrow> c
   | Some (line, old) \<Rightarrow>
       (case outcome k of
          None \<Rightarrow> c\<lparr>in_flight := Some (line, k)\<rparr>
        | Some (Inr text) \<Rightarrow> c\<lparr>in_flight := None, answered := answered c @ [(line, Inr text)]\<rparr>
        | Some (Inl e) \<Rightarrow>
            (let d = c\<lparr>in_flight := None, answered := answered c @ [(line, Inl e)]\<rparr> in
             if drops_connection line e then drop_port d else d)))"

definition cancel_flight :: "string \<Rightarrow> client \<Rightarrow> client" where
  "cancel_flight why c = (case in_flight c of None \<Rightarrow> c | Some (line, k) \<Rightarrow> settle_flight (collector_cancel (Cancelled why) k) c)"

definition client_disconnect :: "client \<Rightarrow> client" where
  "client_disconnect c = drop_port (cancel_flight ''disconnected'' (c\<lparr>intentional := True\<rparr>))"

definition client_connect :: "bool \<Rightarrow> client \<Rightarrow> client" where
  "client_connect opens c =
     (let d = (if port_open c then client_disconnect c else c);
          e = d\<lparr>intentional := False, attempt := 0, sent_commands := [], last_connect := True, cstatus := Connecting\<rparr>
      in if opens then e\<lparr>port_open := True, cstatus := Connected\<rparr> else e\<lparr>port_open := False, cstatus := ErrorStatus\<rparr>)"

definition client_data :: "string \<Rightarrow> client \<Rightarrow> client" where
  "client_data text c =
     (let d = (case in_flight c of None \<Rightarrow> c | Some (line, k) \<Rightarrow> settle_flight (collector_push text k) c);
          (ls, b) = line_push (line_buf d) text
      in d\<lparr>line_buf := b, lines_seen := lines_seen d @ ls\<rparr>)"

definition client_timer :: "bool \<Rightarrow> client \<Rightarrow> client" where
  "client_timer hard c = (case in_flight c of None \<Rightarrow> c
     | Some (line, k) \<Rightarrow> settle_flight (collector_step (if hard then HardFires else IdleFires) k) c)"

text \<open>\<open>onPortClosed\<close> up to the delay, and what happens after it.\<close>

definition client_port_closed :: "client \<Rightarrow> client" where
  "client_port_closed c =
     (let d = cancel_flight ''port closed'' (c\<lparr>port_open := False\<rparr>) in
      if intentional d then d\<lparr>cstatus := Disconnected\<rparr>
      else if reconnect_enabled d \<and> last_connect d \<and> attempt d < max_attempts d
      then d\<lparr>cstatus := Reconnecting, attempt := Suc (attempt d)\<rparr>
      else d\<lparr>cstatus := Disconnected\<rparr>)"

definition client_retry :: "bool \<Rightarrow> client \<Rightarrow> client" where
  "client_retry opens c =
     (if cstatus c \<noteq> Reconnecting \<or> intentional c \<or> \<not> last_connect c then c
      else (client_connect opens c)\<lparr>attempts_log := Suc (attempts_log c)\<rparr>)"

datatype send_error = NotConnected | InFlight | UnsupportedCommand string

definition send_raw :: "nat option \<Rightarrow> string \<Rightarrow> client \<Rightarrow> send_error + client" where
  "send_raw limit line c =
     (if \<not> port_open c \<or> cstatus c \<noteq> Connected then Inl NotConnected
      else if in_flight c \<noteq> None then Inl InFlight
      else Inr (c\<lparr>in_flight := Some (line, new_collector (line_end_marker line) limit),
             sent_commands := sent_commands c @ [js_trim line], wire := wire c @ [encode_command (js_trim line)]\<rparr>))"

definition send_command :: "nat option \<Rightarrow> string \<Rightarrow> client \<Rightarrow> send_error + client" where
  "send_command limit cmd c = (if supported_command cmd then send_raw limit cmd c else Inl (UnsupportedCommand cmd))"

datatype client_event =
    Connect bool
  | Disconnect
  | Send "nat option" string
  | Data string
  | Timer bool
  | PortClosed
  | PortError
  | Retry bool

fun client_step :: "client_event \<Rightarrow> client \<Rightarrow> client" where
  "client_step (Connect opens) c = client_connect opens c"
| "client_step Disconnect c = client_disconnect c"
| "client_step (Send limit line) c = (case send_raw limit line c of Inl e \<Rightarrow> c | Inr d \<Rightarrow> d)"
| "client_step (Data text) c = (if port_open c then client_data text c else c)"
| "client_step (Timer hard) c = client_timer hard c"
| "client_step PortClosed c = (if port_open c then client_port_closed c else c)"
| "client_step PortError c = (if port_open c then c\<lparr>cstatus := ErrorStatus\<rparr> else c)"
| "client_step (Retry opens) c = client_retry opens c"

text \<open>Data, closing and errors reach the client only while its handlers are attached to a port.\<close>

definition client_run :: "client_event list \<Rightarrow> client \<Rightarrow> client" where
  "client_run es c = fold client_step es c"

subsection \<open>Calls made of commands\<close>

text \<open>
  A call sends lines one after the other and reads each reply before it goes on. The controller is a
  parameter: what it answers to a line after the lines sent before, or how the line fails. The state is the
  list of lines sent.
\<close>

datatype call_error =
    SendFailed send_error
  | ReplyFailed reply_error
  | StorageFailed storage_error
  | UnsupportedKey string
  | GetFailed string
  | SetFailed string
  | FirmwareRefused string
  | SaveUnavailable
  | SaveUnverified
  | PostSaveFailed
  | DefaultsFailed

type_synonym controller = "string list \<Rightarrow> string \<Rightarrow> call_error + string"
type_synonym 'a call = "string list \<Rightarrow> (call_error + 'a) \<times> string list"

definition give :: "'a \<Rightarrow> 'a call" where
  "give x h = (Inr x, h)"

definition give_up :: "call_error \<Rightarrow> 'a call" where
  "give_up e h = (Inl e, h)"

definition and_then :: "'a call \<Rightarrow> ('a \<Rightarrow> 'b call) \<Rightarrow> 'b call" where
  "and_then m k h = (case m h of (Inl e, h') \<Rightarrow> (Inl e, h') | (Inr x, h') \<Rightarrow> k x h')"

definition ask :: "controller \<Rightarrow> string \<Rightarrow> string call" where
  "ask fc line h = (fc h line, h @ [line])"

definition get_version :: "controller \<Rightarrow> string call" where
  "get_version fc = and_then (ask fc ''version'') (\<lambda>raw. give (parse_version_line raw))"

definition get_fc_status :: "controller \<Rightarrow> parsed_status call" where
  "get_fc_status fc = and_then (ask fc ''status'') (\<lambda>raw. give (parse_status_reply raw))"

definition setting_answer :: "call_error \<Rightarrow> string \<Rightarrow> setting_reply \<Rightarrow> string call" where
  "setting_answer e key r = (case r of SettingOk k v \<Rightarrow> if k = key then give v else give_up e | _ \<Rightarrow> give_up e)"

definition get_setting :: "controller \<Rightarrow> string \<Rightarrow> string call" where
  "get_setting fc key =
     (if \<not> is_settings_key key then give_up (UnsupportedKey key)
      else and_then (ask fc (''get '' @ key)) (\<lambda>raw. setting_answer (GetFailed key) key (parse_get_reply raw)))"

text \<open>\<open>/^set failed\b/\<close>.\<close>

definition set_failed_line :: "string \<Rightarrow> bool" where
  "set_failed_line l \<longleftrightarrow> prefix ''set failed'' l \<and> (drop 10 l = [] \<or> \<not> is_word (hd (drop 10 l)))"

definition set_refusal :: "string \<Rightarrow> string \<Rightarrow> call_error" where
  "set_refusal key raw = (let first = (case reply_lines raw of [] \<Rightarrow> [] | l # _ \<Rightarrow> l) in
     if set_failed_line first \<or> first = ''unknown key'' then FirmwareRefused first else SetFailed key)"

definition set_setting :: "controller \<Rightarrow> string \<Rightarrow> string \<Rightarrow> string call" where
  "set_setting fc key value =
     (if \<not> is_settings_key key then give_up (UnsupportedKey key)
      else and_then (ask fc (''set '' @ key @ '' '' @ value)) (\<lambda>raw. setting_answer (set_refusal key raw) key (parse_set_reply raw)))"

definition read_storage :: "controller \<Rightarrow> storage_snapshot call" where
  "read_storage fc = and_then (ask fc ''storage'') (\<lambda>raw. case parse_storage raw of
     Inl e \<Rightarrow> give_up (StorageFailed e) | Inr s \<Rightarrow> give s)"

definition may_save :: "storage_snapshot \<Rightarrow> bool" where
  "may_save s \<longleftrightarrow> \<not> (backend s \<noteq> FlashBackend \<or> store_armed s \<or> bench_active s \<or> store_calibrating s)"

definition save_settings :: "controller \<Rightarrow> unit call" where
  "save_settings fc =
     and_then (read_storage fc) (\<lambda>before.
       if \<not> may_save before then give_up SaveUnavailable
       else and_then (ask fc ''save'') (\<lambda>raw.
         if \<not> is_verified_flash_save raw then give_up SaveUnverified
         else and_then (read_storage fc) (\<lambda>after.
           if backend after \<noteq> FlashBackend \<or> dirty after \<or> store_state after \<noteq> Saved then give_up PostSaveFailed
           else give ())))"

text \<open>One round of the loop of \<open>getAllSettings\<close>, and the loop: a key that an older controller may not have is
  left out when it answers that it does not know it.\<close>

definition get_optional :: "controller \<Rightarrow> string \<Rightarrow> string option call" where
  "get_optional fc key =
     (if is_optional_settings_key key
      then and_then (ask fc (''get '' @ key)) (\<lambda>raw. case parse_get_reply raw of
             SettingUnknown \<Rightarrow> give None
           | SettingOk k v \<Rightarrow> if k = key then give (Some v) else give_up (GetFailed key)
           | _ \<Rightarrow> give_up (GetFailed key))
      else and_then (get_setting fc key) (\<lambda>v. give (Some v)))"

fun get_settings :: "controller \<Rightarrow> string list \<Rightarrow> (string \<rightharpoonup> string) \<Rightarrow> (string \<rightharpoonup> string) call" where
  "get_settings fc [] out = give out"
| "get_settings fc (k # ks) out = and_then (get_optional fc k)
     (\<lambda>v. get_settings fc ks (case v of None \<Rightarrow> out | Some x \<Rightarrow> out(k \<mapsto> x)))"

definition get_all_settings :: "controller \<Rightarrow> (string \<rightharpoonup> string) call" where
  "get_all_settings fc = get_settings fc SETTINGS_KEYS Map.empty"

definition restore_defaults :: "controller \<Rightarrow> (string \<rightharpoonup> string) call" where
  "restore_defaults fc = and_then (ask fc ''defaults'') (\<lambda>raw.
     if parse_defaults_reply raw then get_all_settings fc else give_up DefaultsFailed)"

subsection \<open>What the calls promise\<close>

lemma and_then_cases:
  "and_then m k h = (r, h') \<longleftrightarrow>
     (\<exists>e. m h = (Inl e, h') \<and> r = Inl e) \<or> (\<exists>x h1. m h = (Inr x, h1) \<and> k x h1 = (r, h'))"
  by (auto simp: and_then_def split: prod.splits sum.splits)

lemma ask_cases: "ask fc line h = (r, h') \<longleftrightarrow> r = fc h line \<and> h' = h @ [line]"
  by (auto simp: ask_def)

lemma read_storage_eq:
  "read_storage fc h = (case fc h ''storage'' of Inl e \<Rightarrow> (Inl e, h @ [''storage''])
     | Inr raw \<Rightarrow> (case parse_storage raw of Inl e \<Rightarrow> (Inl (StorageFailed e), h @ [''storage'']) | Inr s \<Rightarrow> (Inr s, h @ [''storage''])))"
  by (simp add: read_storage_def and_then_def ask_def give_def give_up_def split: sum.split)

lemma bad_not_Inr [simp]: "bad r \<noteq> Inr s"
  by (simp add: bad_def)

lemma storage_read_Inr: "storage_read f k rd r = Inr x \<longleftrightarrow> (\<exists>v. storage_get f k = Inr v \<and> rd v = Inr x)"
proof (cases "storage_get f k")
  case (Inr v)
  then show ?thesis by (cases "rd v") (simp_all add: storage_read_def)
qed (simp add: storage_read_def)

lemma storage_facts_consistent:
  assumes "storage_facts f schema = Inr s"
  shows "(store_state s = Saved \<longrightarrow> \<not> dirty s \<and> last_error s = ''none'')
     \<and> (store_state s = Dirty \<longrightarrow> dirty s) \<and> (backend s = UnsupportedBackend \<longrightarrow> store_state s = UnsupportedState)
     \<and> store_generation s \<le> 4294967295"
  using assms unfolding storage_facts_def
  apply (elim res_bind_InrE)
  apply (simp split: option.split_asm)
  apply (elim res_bind_InrE)
  apply (simp split: if_split_asm)
  apply (elim res_bind_InrE)
  apply (simp split: if_split_asm)
  apply (elim res_bind_InrE)
  apply (simp split: if_split_asm)
  apply (elim res_bind_InrE)
  apply (simp only: storage_read_Inr read_uint_Inr)
  apply (elim exE conjE)
  apply (drule sum.inject(2) [THEN iffD1])
  apply hypsubst
  apply simp
  done

lemma parse_storage_consistent:
  "parse_storage raw = Inr s \<Longrightarrow> (store_state s = Saved \<longrightarrow> \<not> dirty s \<and> last_error s = ''none'')
     \<and> (store_state s = Dirty \<longrightarrow> dirty s) \<and> (backend s = UnsupportedBackend \<longrightarrow> store_state s = UnsupportedState)
     \<and> store_generation s \<le> 4294967295"
  by (auto simp: parse_storage_def dest: storage_facts_consistent elim!: res_bind_InrE split: sum.split_asm if_split_asm)

text \<open>C17: A save that is reported as done has sent exactly storage, save, storage; the controller answered to save that
  flash was verified, and stated after it that nothing is unsaved and no error is left. In any case save is sent only
  after the controller stated that it stores in flash and is disarmed, not bench testing and not calibrating.\<close>
theorem save_settings_durable:
  "(case save_settings fc h of (r, h') \<Rightarrow>
      (h' = h @ [''storage'']
       \<or> (\<exists>raw s. fc h ''storage'' = Inr raw \<and> parse_storage raw = Inr s \<and> backend s = FlashBackend
            \<and> \<not> store_armed s \<and> \<not> bench_active s \<and> \<not> store_calibrating s))
      \<and> (case r of Inl e \<Rightarrow> True
         | Inr u \<Rightarrow> h' = h @ [''storage'', ''save'', ''storage'']
             \<and> (\<exists>raw. fc (h @ [''storage'']) ''save'' = Inr raw \<and> js_trim raw = ''saved: flash verified'')
             \<and> (\<exists>raw s. fc (h @ [''storage'', ''save'']) ''storage'' = Inr raw \<and> parse_storage raw = Inr s
                  \<and> backend s = FlashBackend \<and> store_state s = Saved \<and> \<not> dirty s \<and> last_error s = ''none'')))"
proof (cases "fc h ''storage''")
  case (Inl e)
  then show ?thesis by (simp add: save_settings_def and_then_def read_storage_eq)
next
  case (Inr raw)
  show ?thesis
  proof (cases "parse_storage raw")
    case (Inl e)
    then show ?thesis using Inr by (simp add: save_settings_def and_then_def read_storage_eq)
  next
    case p: (Inr s)
    show ?thesis
    proof (cases "may_save s")
      case False
      then show ?thesis using Inr p by (simp add: save_settings_def and_then_def read_storage_eq give_up_def)
    next
      case True
      then show ?thesis using Inr p parse_storage_consistent
        by (auto simp: save_settings_def and_then_def read_storage_eq give_up_def give_def ask_def may_save_def
          is_verified_flash_save_def split: sum.split)
    qed
  qed
qed

lemma get_optional_eq:
  assumes "is_settings_key k"
  shows "get_optional fc k h = (case fc h (''get '' @ k) of Inl e \<Rightarrow> (Inl e, h @ [''get '' @ k])
    | Inr raw \<Rightarrow> ((case parse_get_reply raw of
         SettingOk k' v \<Rightarrow> if k' = k then Inr (Some v) else Inl (GetFailed k)
       | SettingUnknown \<Rightarrow> if is_optional_settings_key k then Inr None else Inl (GetFailed k)
       | _ \<Rightarrow> Inl (GetFailed k)), h @ [''get '' @ k]))"
  using assms
  by (auto simp: get_optional_def get_setting_def setting_answer_def and_then_def ask_def give_def give_up_def
    split: sum.split setting_reply.split)

subsection \<open>One command at a time\<close>

definition lines_of :: "client \<Rightarrow> string list" where
  "lines_of c = List.map fst (answered c) @ (case in_flight c of None \<Rightarrow> [] | Some (l, k) \<Rightarrow> [l])"

definition answer_ok :: "string \<times> (reply_error + string) \<Rightarrow> bool" where
  "answer_ok a = (case snd a of Inl e \<Rightarrow> True | Inr text \<Rightarrow> (case line_end_marker (fst a) of None \<Rightarrow> True | Some m \<Rightarrow> frame_complete m text))"

definition client_ok :: "client \<Rightarrow> bool" where
  "client_ok c \<longleftrightarrow> wire c = List.map (\<lambda>l. encode_command (js_trim l)) (lines_of c)
     \<and> list_all answer_ok (answered c)
     \<and> (case in_flight c of None \<Rightarrow> True | Some (l, k) \<Rightarrow> outcome k = None \<and> reply_ok k \<and> end_marker k = line_end_marker l)
     \<and> attempt c \<le> 1"

lemma settle_flight_fields:
  "wire (settle_flight k c) = wire c" "attempt (settle_flight k c) = attempt c" "line_buf (settle_flight k c) \<in> {line_buf c, []}"
  by (auto simp: settle_flight_def drop_port_def Let_def split: option.splits sum.splits prod.splits)

lemma settle_flight_ok:
  assumes "client_ok c" and "in_flight c = Some (l, k0)" and "reply_ok k" and "end_marker k = line_end_marker l"
  shows "client_ok (settle_flight k c)"
  using assms
  by (cases "outcome k")
     (auto simp: client_ok_def settle_flight_def lines_of_def drop_port_def answer_ok_def reply_ok_def Let_def split: sum.splits option.splits)

lemma settle_step_ok:
  assumes "client_ok c" and "in_flight c = Some (l, k)"
  shows "client_ok (settle_flight (collector_step e k) c)"
  using assms collector_step_ok [of k e] collector_step_keeps [of e k]
  by (intro settle_flight_ok) (auto simp: client_ok_def)

lemma cancel_flight_ok: "client_ok c \<Longrightarrow> client_ok (cancel_flight why c)"
  using settle_step_ok [of c _ _ "CancelWith why"] by (auto simp: cancel_flight_def split: option.splits)

lemma client_ok_change:
  "client_ok c \<Longrightarrow> wire d = wire c \<Longrightarrow> answered d = answered c \<Longrightarrow> in_flight d = in_flight c \<Longrightarrow> attempt d \<le> 1 \<Longrightarrow> client_ok d"
  by (simp add: client_ok_def lines_of_def)

lemma client_disconnect_ok: "client_ok c \<Longrightarrow> client_ok (client_disconnect c)"
  unfolding client_disconnect_def
proof -
  assume "client_ok c"
  then have "client_ok (c\<lparr>intentional := True\<rparr>)" by (simp add: client_ok_def lines_of_def)
  from cancel_flight_ok [OF this, of "''disconnected''"]
  show "client_ok (drop_port (cancel_flight ''disconnected'' (c\<lparr>intentional := True\<rparr>)))"
    by (simp add: client_ok_def lines_of_def drop_port_def)
qed

lemma client_connect_ok: "client_ok c \<Longrightarrow> client_ok (client_connect opens c)"
  using client_disconnect_ok [of c] by (auto simp: client_connect_def Let_def client_ok_def lines_of_def)

lemma cancel_flight_attempt: "attempt (cancel_flight why c) = attempt c"
  by (auto simp: cancel_flight_def settle_flight_fields split: option.splits)

text \<open>A connection that is up has no failed attempt on record.\<close>

definition attempt_fresh :: "client \<Rightarrow> bool" where
  "attempt_fresh c \<longleftrightarrow> (port_open c \<longrightarrow> attempt c = 0)"

lemma client_port_closed_ok:
  assumes "client_ok c" and "attempt c = 0"
  shows "client_ok (client_port_closed c)"
proof -
  have "client_ok (c\<lparr>port_open := False\<rparr>)" using assms by (simp add: client_ok_def lines_of_def)
  from cancel_flight_ok [OF this, of "''port closed''"] show ?thesis
    using assms(2) by (simp add: client_port_closed_def Let_def client_ok_def lines_of_def cancel_flight_attempt)
qed
lemma settle_flight_fresh: "attempt_fresh c \<Longrightarrow> attempt_fresh (settle_flight k c)"
  by (auto simp: attempt_fresh_def settle_flight_def drop_port_def Let_def split: option.splits sum.splits prod.splits)

lemma cancel_flight_fresh: "attempt_fresh c \<Longrightarrow> attempt_fresh (cancel_flight why c)"
  by (auto simp: cancel_flight_def settle_flight_fresh split: option.splits)

lemma cancel_flight_port: "\<not> port_open c \<Longrightarrow> \<not> port_open (cancel_flight why c)"
  by (auto simp: cancel_flight_def settle_flight_def drop_port_def Let_def split: option.splits sum.splits)

lemma client_step_ok: "client_ok c \<and> attempt_fresh c \<Longrightarrow> client_ok (client_step e c) \<and> attempt_fresh (client_step e c)"
proof (cases e)
  case (Connect opens)
  assume "client_ok c \<and> attempt_fresh c"
  then show ?thesis using Connect client_connect_ok [of c opens]
    by (auto simp: client_connect_def attempt_fresh_def Let_def)
next
  case Disconnect
  assume "client_ok c \<and> attempt_fresh c"
  then show ?thesis using Disconnect client_disconnect_ok [of c]
    by (auto simp: client_disconnect_def drop_port_def attempt_fresh_def)
next
  case (Send limit line)
  assume "client_ok c \<and> attempt_fresh c"
  then show ?thesis using Send new_collector_ok [of "line_end_marker line" limit]
    by (auto simp: send_raw_def client_ok_def lines_of_def attempt_fresh_def new_collector_def split: option.splits)
next
  case (Data t)
  assume ok: "client_ok c \<and> attempt_fresh c"
  define d where "d = (case in_flight c of None \<Rightarrow> c | Some (line, k) \<Rightarrow> settle_flight (collector_push t k) c)"
  have "client_ok d" "attempt_fresh d"
    using ok settle_step_ok [of c _ _ "Chunk t"] settle_flight_fresh by (auto simp: d_def split: option.splits)
  then show ?thesis using ok Data
    by (auto simp: client_data_def Let_def client_ok_def lines_of_def attempt_fresh_def simp flip: d_def split: prod.splits)
next
  case (Timer hard)
  assume ok: "client_ok c \<and> attempt_fresh c"
  then show ?thesis using Timer settle_step_ok [of c] settle_flight_fresh
    by (auto simp: client_timer_def simp del: collector_step.simps split: option.splits)
next
  case PortClosed
  assume ok: "client_ok c \<and> attempt_fresh c"
  show ?thesis
  proof (cases "port_open c")
    case True
    then show ?thesis using ok PortClosed client_port_closed_ok [of c] cancel_flight_port [of "c\<lparr>port_open := False\<rparr>" "''port closed''"]
      by (auto simp: attempt_fresh_def client_port_closed_def Let_def)
  qed (simp add: ok PortClosed)
next
  case PortError
  assume "client_ok c \<and> attempt_fresh c"
  then show ?thesis using PortError by (auto simp: client_ok_def lines_of_def attempt_fresh_def)
next
  case (Retry opens)
  assume "client_ok c \<and> attempt_fresh c"
  then show ?thesis using Retry client_connect_ok [of c opens]
    by (auto simp: client_retry_def client_connect_def client_ok_def lines_of_def attempt_fresh_def Let_def)
qed

lemma client_run_ok: "client_ok (client_run es (new_client retry n)) \<and> attempt_fresh (client_run es (new_client retry n))"
proof -
  have "client_ok c \<and> attempt_fresh c \<Longrightarrow> client_ok (client_run es c) \<and> attempt_fresh (client_run es c)" for c
    unfolding client_run_def by (induction es arbitrary: c) (use client_step_ok in auto)
  then show ?thesis by (simp add: client_ok_def lines_of_def attempt_fresh_def new_client_def)
qed

text \<open>Exactly the framed lines are the ones whose missing end marker drops the connection.\<close>

lemma resync_iff_framed: "framed_for_resync line \<longleftrightarrow> line_end_marker line \<noteq> None"
proof -
  have "prefix ''sd read'' line \<Longrightarrow> prefix ''sd '' line" by (auto simp: prefix_def)
  then show ?thesis by (auto simp: framed_for_resync_def line_end_marker_def)
qed

text \<open>The lines requested, in order.\<close>

fun requested :: "client_event list \<Rightarrow> string list" where
  "requested [] = []"
| "requested (e # es) = (case e of Send limit line \<Rightarrow> line # requested es | _ \<Rightarrow> requested es)"

lemma client_step_wire:
  "wire (client_step e c) = wire c \<or> (\<exists>limit line. e = Send limit line \<and> wire (client_step e c) = wire c @ [encode_command (js_trim line)])"
proof -
  have cancel: "wire (cancel_flight why d) = wire d" for why d
    by (auto simp: cancel_flight_def settle_flight_fields split: option.splits)
  have disc: "wire (client_disconnect d) = wire d" for d
    by (simp add: client_disconnect_def drop_port_def cancel)
  show ?thesis
    by (cases e) (auto simp: client_connect_def disc cancel send_raw_def client_data_def client_timer_def client_port_closed_def
      client_retry_def Let_def settle_flight_fields split: option.splits prod.splits)
qed

lemma client_run_wire:
  "subseq (wire (client_run es c)) (wire c @ List.map (\<lambda>l. encode_command (js_trim l)) (requested es))"
proof (induction es arbitrary: c)
  case (Cons e es)
  let ?m = "List.map (\<lambda>l. encode_command (js_trim l))"
  have run: "client_run (e # es) c = client_run es (client_step e c)" by (simp add: client_run_def)
  have "subseq (wire (client_step e c) @ ?m (requested es)) (wire c @ ?m (requested (e # es)))"
    using client_step_wire [of e c]
  proof (elim disjE exE conjE)
    assume "wire (client_step e c) = wire c"
    moreover have "subseq (?m (requested es)) (?m (requested (e # es)))" by (auto split: client_event.splits)
    ultimately show ?thesis by (simp only: list_emb_append_mono subseq_order.refl)
  qed auto
  with Cons [of "client_step e c"] show ?case unfolding run by (rule subseq_order.trans)
qed (simp add: client_run_def)


end
