(* ===== verification/Bench_Controller.thy ===== *)
theory Bench_Controller
  imports Cli_Snapshots
begin

section \<open>Motor tests: motors/benchController.ts\<close>

text \<open>
  The controller behind the motor page. Its asynchronous methods become steps: a flight (a poll, a motor test or a
  rate change) waits in a chain for the flight before it and continues when the controller answers; user
  actions may come between any two answers. A field holds what the object holds; the trace lists the clicks,
  the events that cancel pending work, and every line handed to the host. Time is the caller's clock in milliseconds.
  Texts shown to the user are constructors.
\<close>

subsection \<open>eRPM replies: erpmTelemetry.ts\<close>

datatype telem_status = TelemOk | TelemCrcFail | TelemInvalid | TelemTimeout | TelemStale | TelemNone

datatype erpm_detail = WaitingTelem | Unavailable | Live | OkNoErpm | CrcFail | InvalidTelem | TimeoutTelem | StaleTelem

record erpm_cell =
  erpm_value :: "nat option"
  erpm_detail :: erpm_detail

definition no_erpm :: "erpm_detail \<Rightarrow> erpm_cell" where
  "no_erpm d = \<lparr>erpm_value = None, erpm_detail = d\<rparr>"

definition empty_erpm_cells :: "nat \<Rightarrow> erpm_cell" where
  "empty_erpm_cells = (\<lambda>_. no_erpm WaitingTelem)"

definition motor_line :: "string \<Rightarrow> nat \<Rightarrow> string" where
  "motor_line pre m = pre @ show_nat m"

text \<open>\<open>/^erpm_mN=(.+)$/im\<close>: the first line with the key and a value.\<close>

definition erpm_line :: "nat \<Rightarrow> string \<Rightarrow> string option" where
  "erpm_line m l = (let key = motor_line ''erpm_m'' m @ ''='' in
     if prefix key (js_lower_ascii l) \<and> length key < length l then Some (drop (length key) l) else None)"

definition parse_erpm_reply :: "nat \<Rightarrow> string \<Rightarrow> erpm_cell" where
  "parse_erpm_reply m raw =
     (let text = js_trim raw in
      if js_includes ''unknown key'' (js_lower_ascii text) then no_erpm Unavailable
      else case List.map_filter (erpm_line m) (split_any_nl text) of
        [] \<Rightarrow> no_erpm WaitingTelem
      | v # _ \<Rightarrow>
          (let token = js_lower_ascii (js_trim v) in
           if canonical_uint token \<and> js_finite token then \<lparr>erpm_value = Some (dec_num token), erpm_detail = Live\<rparr>
           else no_erpm WaitingTelem))"

fun detail_for_telem_status :: "telem_status \<Rightarrow> erpm_detail" where
  "detail_for_telem_status TelemOk = OkNoErpm"
| "detail_for_telem_status TelemCrcFail = CrcFail"
| "detail_for_telem_status TelemInvalid = InvalidTelem"
| "detail_for_telem_status TelemTimeout = TimeoutTelem"
| "detail_for_telem_status TelemStale = StaleTelem"
| "detail_for_telem_status TelemNone = WaitingTelem"

definition parse_telem_reply :: "string \<Rightarrow> telem_status option" where
  "parse_telem_reply raw = map_of
     [(''ok'', TelemOk), (''crc_fail'', TelemCrcFail), (''invalid'', TelemInvalid), (''timeout'', TelemTimeout),
      (''stale'', TelemStale), (''none'', TelemNone)] (takeWhile (\<lambda>c. \<not> js_space c) (js_lower_ascii (js_trim raw)))"

subsection \<open>Replies of the bench commands\<close>

record bench_capabilities =
  individual :: bool
  can_pulse :: bool
  can_sequence :: bool
  can_dshot :: bool

definition help_has :: "string \<Rightarrow> string \<Rightarrow> bool" where
  "help_has name text \<longleftrightarrow> list_ex (\<lambda>l. let t = js_trim_start l; r = drop (length name) t in
     prefix name t \<and> (r = [] \<or> js_space (hd r))) (split_any_nl text)"

definition parse_bench_help :: "string \<Rightarrow> bench_capabilities" where
  "parse_bench_help text = \<lparr>individual = help_has ''motor_test'' text, can_pulse = help_has ''motor_pulse'' text,
     can_sequence = help_has ''motor_seq'' text, can_dshot = help_has ''dshot'' text\<rparr>"

text \<open>\<open>/refused|unknown|unsupported|failed/i\<close>, and a line that matches a pattern up to trailing white space.\<close>

definition sounds_refused :: "string \<Rightarrow> bool" where
  "sounds_refused text \<longleftrightarrow> list_ex (\<lambda>w. js_includes w (js_lower_ascii text)) [''refused'', ''unknown'', ''unsupported'', ''failed'']"

definition has_line :: "string \<Rightarrow> string \<Rightarrow> bool" where
  "has_line line text \<longleftrightarrow> list_ex (\<lambda>l. js_trim_end l = line) (split_any_nl text)"

definition dshot_rate_line :: "string \<Rightarrow> nat option" where
  "dshot_rate_line l = map_of [(''dshot: 300 kbps'', 300), (''dshot: 600 kbps'', 600)] (js_trim_end l)"

definition parse_dshot :: "string \<Rightarrow> nat option" where
  "parse_dshot text =
     (if sounds_refused text then None
      else case List.map_filter dshot_rate_line (split_any_nl text) of [] \<Rightarrow> None | r # _ \<Rightarrow> Some r)"

definition expected_ack :: "string \<Rightarrow> string" where
  "expected_ack cmd =
     (if cmd = ''motor_seq'' then ''sequence running: RR FR RL FL, 1s each - watch spin direction''
      else if prefix ''motor_pulse '' cmd then ''motor pulse accepted (one second maximum)''
      else if prefix ''motor_test '' cmd then ''motor test accepted (one second maximum)''
      else ''dshot: switched to '' @ drop 6 cmd @ '' kbps'')"

definition bench_ack :: "string \<Rightarrow> string \<Rightarrow> bool" where
  "bench_ack cmd text \<longleftrightarrow> \<not> sounds_refused text \<and> has_line (expected_ack cmd) text"

subsection \<open>The state of the page\<close>

definition STATUS_MAX_AGE_MS :: int where "STATUS_MAX_AGE_MS = 1500"
definition MAX_PULSE_PERCENT :: int where "MAX_PULSE_PERCENT = 100"

datatype bench_reply = NoReply | SendingTest | ReplyText string | StopAcknowledged
datatype bench_error = NoError | ErrorText string | RequestExpired | NoAcknowledgment string | RateUnreadable | RateMismatch | StopNotConfirmed

record bench_state =
  bench_connected :: bool
  bench_visible :: bool
  bench_status :: "parsed_status option"
  status_at :: int
  capabilities :: "bench_capabilities option"
  dshot_rate :: "nat option"
  props_off :: bool
  stationary :: bool
  busy :: bool
  action_pending :: bool
  stopping :: bool
  pulse_percent :: "nat \<Rightarrow> int"
  erpm_cells :: "nat \<Rightarrow> erpm_cell"
  estimated_until :: int
  test_label :: string
  bench_reply :: bench_reply
  bench_error :: bench_error
  rate_revision :: nat

definition zero_sliders :: "nat \<Rightarrow> int" where "zero_sliders = (\<lambda>_. 0)"

definition initial_bench :: bench_state where
  "initial_bench = \<lparr>bench_connected = False, bench_visible = True, bench_status = None, status_at = 0, capabilities = None,
     dshot_rate = None, props_off = False, stationary = False, busy = False, action_pending = False, stopping = False,
     pulse_percent = zero_sliders, erpm_cells = empty_erpm_cells, estimated_until = 0, test_label = [], bench_reply = NoReply,
     bench_error = NoError, rate_revision = 0\<rparr>"

definition is_pulse_percent :: "int \<Rightarrow> bool" where
  "is_pulse_percent v \<longleftrightarrow> 0 \<le> v \<and> v \<le> MAX_PULSE_PERCENT"

datatype block_reason = NotConnected | PageHidden | StatusNotFresh | NotDisarmed | OutputsUnhealthy | PropsNotConfirmed | TestWindow | NotStationary

text \<open>\<open>/^DShot(?:300|600)? ready$/\<close> and \<open>/^allowed(?:\s|$)/\<close>.\<close>

definition outputs_ready :: "parsed_status \<Rightarrow> bool" where
  "outputs_ready st \<longleftrightarrow>
     (case status_fields st ''motor_output'' of Some m \<Rightarrow> m \<in> {''DShot ready'', ''DShot300 ready'', ''DShot600 ready''} | None \<Rightarrow> False)
     \<and> status_fields st ''dshot_bound'' = Some ''4/4''
     \<and> (case status_fields st ''mmio'' of Some m \<Rightarrow> prefix ''allowed'' m \<and> (drop 7 m = [] \<or> js_space (hd (drop 7 m))) | None \<Rightarrow> False)"

definition bench_block_reason :: "bench_state \<Rightarrow> int \<Rightarrow> block_reason option" where
  "bench_block_reason s now =
     (if \<not> bench_connected s then Some NotConnected
      else if \<not> bench_visible s then Some PageHidden
      else case bench_status s of
        None \<Rightarrow> Some StatusNotFresh
      | Some st \<Rightarrow>
          if now - status_at s > STATUS_MAX_AGE_MS then Some StatusNotFresh
          else if status_fields st ''arm'' \<noteq> Some ''disarmed'' then Some NotDisarmed
          else if \<not> outputs_ready st then Some OutputsUnhealthy
          else if \<not> props_off s then Some PropsNotConfirmed
          else if now < estimated_until s then Some TestWindow
          else if \<not> stationary s then Some NotStationary
          else None)"

subsection \<open>Flights\<close>

datatype bench_task = PollTask | TestTask string string int | RateTask nat

datatype bench_stage =
    Waiting | AtStatus | AtHelp | AtDshot
  | AtErpm nat "nat \<Rightarrow> erpm_cell" | AtTelem nat erpm_cell "nat \<Rightarrow> erpm_cell"
  | AtTestReply | AtRateReply | AtReadback string

text \<open>\<open>clicked\<close> is the place of the user's click in the trace.\<close>

record flight =
  task :: bench_task
  flight_gen :: nat
  requested_at :: int
  clicked :: nat
  stage :: bench_stage

datatype bench_mark = Clicked int | Cancelled | Asked string | Sent string nat int bench_state | StopSent

record bench =
  ui :: bench_state
  generation :: nat
  session :: nat
  flights :: "flight list"
  stop_flight :: "nat option"
  possible_motion :: bool
  host_up :: bool
  trace :: "bench_mark list"

definition new_bench :: bench where
  "new_bench = \<lparr>ui = initial_bench, generation = 0, session = 0, flights = [], stop_flight = None, possible_motion = False,
     host_up = False, trace = []\<rparr>"

definition is_action :: "bench_task \<Rightarrow> bool" where
  "is_action t \<longleftrightarrow> t \<noteq> PollTask"

definition patch :: "(bench_state \<Rightarrow> bench_state) \<Rightarrow> bench \<Rightarrow> bench" where
  "patch f b = b\<lparr>ui := f (ui b)\<rparr>"

definition mark :: "bench_mark \<Rightarrow> bench \<Rightarrow> bench" where
  "mark m b = b\<lparr>trace := trace b @ [m]\<rparr>"

text \<open>\<open>this.generation++\<close>.\<close>

definition bump :: "bench \<Rightarrow> bench" where
  "bump b = mark Cancelled (b\<lparr>generation := Suc (generation b)\<rparr>)"

definition valid :: "flight \<Rightarrow> bench \<Rightarrow> bool" where
  "valid f b \<longleftrightarrow> flight_gen f = generation b \<and> bench_connected (ui b) \<and> host_up b"

definition expired :: "int \<Rightarrow> flight \<Rightarrow> bool" where
  "expired now f \<longleftrightarrow> now - requested_at f > STATUS_MAX_AGE_MS"

definition expire :: "bench \<Rightarrow> bench" where
  "expire = patch (\<lambda>s. s\<lparr>stationary := False, bench_error := RequestExpired\<rparr>)"

definition stop_now :: "bench \<Rightarrow> bench" where
  "stop_now b0 =
     (let b = bump b0 in
      if stop_flight b \<noteq> None then b
      else if \<not> bench_connected (ui b) \<or> \<not> host_up b then b
      else mark StopSent (patch (\<lambda>s. s\<lparr>busy := True, action_pending := True, stopping := True, stationary := False,
             pulse_percent := zero_sliders\<rparr>) (b\<lparr>stop_flight := Some (session b)\<rparr>)))"

text \<open>The flights that wait, once the one before them has ended. The last one to end clears the busy marks.\<close>

fun launch :: "int \<Rightarrow> flight list \<Rightarrow> bench \<Rightarrow> bench" where
  "launch now [] b = (let c = b\<lparr>flights := []\<rparr> in
     if stop_flight c = None then patch (\<lambda>s. s\<lparr>busy := False, action_pending := False\<rparr>) c else c)"
| "launch now (f # fs) b =
     (if \<not> valid f b then launch now fs b
      else if is_action (task f) \<and> expired now f then launch now fs (expire b)
      else mark (Asked ''status'') (b\<lparr>flights := f\<lparr>stage := AtStatus\<rparr> # fs\<rparr>))"

definition enter :: "bench_stage \<Rightarrow> string \<Rightarrow> flight \<Rightarrow> flight list \<Rightarrow> bench \<Rightarrow> bench" where
  "enter st line f fs b = mark (Asked line) (b\<lparr>flights := f\<lparr>stage := st\<rparr> # fs\<rparr>)"

text \<open>The error handler of a flight.\<close>

definition fail_flight :: "int \<Rightarrow> bench_error \<Rightarrow> bool \<Rightarrow> flight \<Rightarrow> flight list \<Rightarrow> bench \<Rightarrow> bench" where
  "fail_flight now e not_sent f fs b = launch now fs
     (if \<not> valid f b then b
      else if not_sent then (if is_action (task f) then patch (\<lambda>s. s\<lparr>bench_error := e\<rparr>) b else b)
      else patch (\<lambda>s. s\<lparr>bench_error := e, bench_status := None, dshot_rate := None, props_off := False, stationary := False,
             pulse_percent := zero_sliders\<rparr>) b)"

definition poll_motor :: "int \<Rightarrow> nat \<Rightarrow> (nat \<Rightarrow> erpm_cell) \<Rightarrow> flight \<Rightarrow> flight list \<Rightarrow> bench \<Rightarrow> bench" where
  "poll_motor now m cells f fs b =
     (if 4 < m then launch now fs (if valid f b then patch (\<lambda>s. s\<lparr>erpm_cells := cells\<rparr>) b else b)
      else if \<not> valid f b then launch now fs b
      else enter (AtErpm m cells) (motor_line ''get erpm_m'' m) f fs b)"

definition poll_rate :: "int \<Rightarrow> flight \<Rightarrow> flight list \<Rightarrow> bench \<Rightarrow> bench" where
  "poll_rate now f fs b =
     (case capabilities (ui b) of
        Some c \<Rightarrow> if can_dshot c then enter AtDshot ''dshot'' f fs b else poll_motor now 1 (erpm_cells (ui b)) f fs b
      | None \<Rightarrow> poll_motor now 1 (erpm_cells (ui b)) f fs b)"

text \<open>The moment a motor test or a rate change is handed to the host, after its fresh status.\<close>

definition send_test :: "int \<Rightarrow> string \<Rightarrow> string \<Rightarrow> int \<Rightarrow> flight \<Rightarrow> flight list \<Rightarrow> bench \<Rightarrow> bench" where
  "send_test now cmd label duration f fs b =
     mark (Sent cmd (clicked f) now (ui b))
      (patch (\<lambda>s. s\<lparr>stationary := False, estimated_until := now + duration, test_label := label, bench_error := NoError,
          bench_reply := SendingTest\<rparr>)
       (b\<lparr>possible_motion := True, flights := f\<lparr>stage := AtTestReply\<rparr> # fs\<rparr>))"

definition rate_command :: "nat \<Rightarrow> string" where
  "rate_command r = ''dshot '' @ show_nat r"

definition send_rate :: "int \<Rightarrow> nat \<Rightarrow> flight \<Rightarrow> flight list \<Rightarrow> bench \<Rightarrow> bench" where
  "send_rate now r f fs b =
     mark (Sent (rate_command r) (clicked f) now (ui b))
      (patch (\<lambda>s. s\<lparr>dshot_rate := None, bench_error := NoError\<rparr>) (b\<lparr>flights := f\<lparr>stage := AtRateReply\<rparr> # fs\<rparr>))"

definition after_status :: "int \<Rightarrow> parsed_status \<Rightarrow> flight \<Rightarrow> flight list \<Rightarrow> bench \<Rightarrow> bench" where
  "after_status now st f fs b0 =
     (let b = (if valid f b0 then patch (\<lambda>s. s\<lparr>bench_status := Some st, status_at := now\<rparr>) b0 else b0) in
      if \<not> valid f b then launch now fs b
      else case task f of
        PollTask \<Rightarrow> if capabilities (ui b) = None then enter AtHelp ''help'' f fs b else poll_rate now f fs b
      | TestTask cmd label duration \<Rightarrow>
          if expired now f then launch now fs (expire b)
          else if bench_block_reason (ui b) now \<noteq> None then launch now fs b
          else send_test now cmd label duration f fs b
      | RateTask r \<Rightarrow>
          if expired now f then launch now fs (expire b)
          else if bench_block_reason (ui b) now \<noteq> None then launch now fs b
          else send_rate now r f fs b)"

definition after_text :: "int \<Rightarrow> string \<Rightarrow> flight \<Rightarrow> flight list \<Rightarrow> bench \<Rightarrow> bench" where
  "after_text now text f fs b = (case stage f of
     AtHelp \<Rightarrow>
       if \<not> valid f b then launch now fs b
       else poll_rate now f fs (patch (\<lambda>s. s\<lparr>capabilities := Some (parse_bench_help text)\<rparr>) b)
   | AtDshot \<Rightarrow>
       poll_motor now 1 (erpm_cells (ui b)) f fs
        (if \<not> valid f b then b
         else case parse_dshot text of
           Some r \<Rightarrow> patch (\<lambda>s. s\<lparr>dshot_rate := Some r\<rparr>) b
         | None \<Rightarrow> patch (\<lambda>s. s\<lparr>dshot_rate := None, bench_error := RateUnreadable\<rparr>) b)
   | AtErpm m cells \<Rightarrow>
       if \<not> valid f b then launch now fs b
       else (let c = parse_erpm_reply m text in
         if erpm_value c = None then enter (AtTelem m c cells) (motor_line ''get dshot_telem_m'' m) f fs b
         else poll_motor now (Suc m) (cells(m := c)) f fs b)
   | AtTelem m c cells \<Rightarrow>
       if \<not> valid f b then launch now fs b
       else poll_motor now (Suc m)
         (cells(m := (case parse_telem_reply text of Some t \<Rightarrow> no_erpm (detail_for_telem_status t) | None \<Rightarrow> c))) f fs b
   | AtTestReply \<Rightarrow> (case task f of
       TestTask cmd label duration \<Rightarrow>
         if \<not> valid f b then launch now fs b
         else if \<not> bench_ack cmd text then fail_flight now (NoAcknowledgment cmd) False f fs b
         else launch now fs (patch (\<lambda>s. s\<lparr>estimated_until := now + duration, bench_reply := ReplyText (js_trim text)\<rparr>) b)
     | _ \<Rightarrow> b)
   | AtRateReply \<Rightarrow> (case task f of
       RateTask r \<Rightarrow>
         if \<not> valid f b then launch now fs b
         else if \<not> bench_ack (rate_command r) text then fail_flight now (NoAcknowledgment (rate_command r)) False f fs b
         else enter (AtReadback text) ''dshot'' f fs b
     | _ \<Rightarrow> b)
   | AtReadback ack \<Rightarrow> (case task f of
       RateTask r \<Rightarrow>
         if \<not> valid f b then launch now fs b
         else (case parse_dshot text of
             None \<Rightarrow> fail_flight now RateUnreadable False f fs b
           | Some reported \<Rightarrow>
               if reported \<noteq> r then fail_flight now RateMismatch False f fs b
               else launch now fs (patch (\<lambda>s. s\<lparr>dshot_rate := Some reported, bench_reply := ReplyText (js_trim ack),
                       rate_revision := Suc (rate_revision s)\<rparr>) b))
     | _ \<Rightarrow> b)
   | _ \<Rightarrow> b)"

definition after_failure :: "int \<Rightarrow> string \<Rightarrow> bool \<Rightarrow> flight \<Rightarrow> flight list \<Rightarrow> bench \<Rightarrow> bench" where
  "after_failure now msg not_sent f fs b = (case stage f of
     Waiting \<Rightarrow> b
   | AtDshot \<Rightarrow>
       poll_motor now 1 (erpm_cells (ui b)) f fs
        (if valid f b \<and> \<not> not_sent then patch (\<lambda>s. s\<lparr>dshot_rate := None, bench_error := ErrorText msg\<rparr>) b else b)
   | AtErpm m cells \<Rightarrow> poll_motor now (Suc m) cells f fs b
   | AtTelem m c cells \<Rightarrow> poll_motor now (Suc m) (cells(m := c)) f fs b
   | _ \<Rightarrow> fail_flight now (ErrorText msg) not_sent f fs b)"

subsection \<open>What the user and the controller do\<close>

definition run_task :: "int \<Rightarrow> bench_task \<Rightarrow> bench \<Rightarrow> bench" where
  "run_task now t b0 =
     (if stop_flight b0 \<noteq> None \<or> \<not> bench_connected (ui b0) \<or> \<not> bench_visible (ui b0)
         \<or> (flights b0 \<noteq> [] \<and> (\<not> is_action t \<or> action_pending (ui b0))) then b0
      else (let b1 = (if flights b0 \<noteq> [] then bump b0 else b0);
                f = \<lparr>task = t, flight_gen = generation b1, requested_at = now, clicked = length (trace b1), stage = Waiting\<rparr>;
                b2 = patch (\<lambda>s. s\<lparr>busy := True, action_pending := is_action t\<rparr>) (if is_action t then mark (Clicked now) b1 else b1)
            in if flights b2 = [] then launch now [f] b2 else b2\<lparr>flights := flights b2 @ [f]\<rparr>))"

definition test_motor :: "int \<Rightarrow> string \<Rightarrow> string \<Rightarrow> int \<Rightarrow> bench \<Rightarrow> bench" where
  "test_motor now cmd label duration b =
     (if bench_block_reason (ui b) now \<noteq> None then b else run_task now (TestTask cmd label duration) b)"

definition pulse_line :: "nat \<Rightarrow> nat \<Rightarrow> string" where
  "pulse_line m p = ''motor_pulse '' @ show_nat m @ '' '' @ show_nat p"

definition pulse_motor :: "int \<Rightarrow> nat \<Rightarrow> bench \<Rightarrow> bench" where
  "pulse_motor now m b =
     (let percent = pulse_percent (ui b) m in
      if m \<notin> {1..4} \<or> (case capabilities (ui b) of Some c \<Rightarrow> \<not> can_pulse c | None \<Rightarrow> True) then b
      else if \<not> is_pulse_percent percent then b
      else if percent = 0 then stop_now b
      else test_motor now (pulse_line m (nat percent))
             (''Motor '' @ show_nat m @ '' at '' @ show_nat (nat percent) @ ''% command'') 1200 b)"

text \<open>\<open>None\<close> is the motor sequence.\<close>

definition start_motor :: "int \<Rightarrow> nat option \<Rightarrow> bench \<Rightarrow> bench" where
  "start_motor now which b = (case (which, capabilities (ui b)) of
     (None, Some c) \<Rightarrow> if can_sequence c then test_motor now ''motor_seq'' ''Sequence M1 M2 M3 M4, fixed 8%'' 7000 b else b
   | (Some m, Some c) \<Rightarrow>
       if individual c then test_motor now (motor_line ''motor_test '' m) (''Motor '' @ show_nat m @ '', fixed 8%'') 1200 b else b
   | (_, None) \<Rightarrow> b)"

definition set_rate :: "int \<Rightarrow> nat \<Rightarrow> bench \<Rightarrow> bench" where
  "set_rate now r b =
     (if bench_block_reason (ui b) now \<noteq> None \<or> (case capabilities (ui b) of Some c \<Rightarrow> \<not> can_dshot c | None \<Rightarrow> True) then b
      else run_task now (RateTask r) b)"

definition set_pulse_percent :: "int \<Rightarrow> nat \<Rightarrow> int \<Rightarrow> bench \<Rightarrow> bench" where
  "set_pulse_percent now m percent b =
     (if m \<notin> {1..4} \<or> \<not> is_pulse_percent percent \<or> (case capabilities (ui b) of Some c \<Rightarrow> \<not> can_pulse c | None \<Rightarrow> True)
         \<or> \<not> bench_connected (ui b) \<or> \<not> bench_visible (ui b) \<or> action_pending (ui b) \<or> stopping (ui b)
         \<or> now < estimated_until (ui b) \<or> possible_motion b then b
      else patch (\<lambda>s. s\<lparr>pulse_percent := (pulse_percent s)(m := percent)\<rparr>) b)"

definition bench_connection :: "bool \<Rightarrow> bench \<Rightarrow> bench" where
  "bench_connection c b =
     (if c = bench_connected (ui b) then b
      else patch (\<lambda>s. initial_bench\<lparr>bench_connected := c, bench_visible := bench_visible s\<rparr>)
             (bump (b\<lparr>session := Suc (session b), possible_motion := False\<rparr>)))"

definition confirm_props :: "bool \<Rightarrow> bench \<Rightarrow> bench" where
  "confirm_props v b =
     (let p = patch (\<lambda>s. s\<lparr>props_off := v, pulse_percent := (if v then pulse_percent s else zero_sliders)\<rparr>) b in
      if v then p else if possible_motion b then stop_now (bump p) else bump p)"

definition confirm_stationary :: "int \<Rightarrow> bool \<Rightarrow> bench \<Rightarrow> bench" where
  "confirm_stationary now v b =
     (if action_pending (ui b) \<or> stopping (ui b) \<or> now < estimated_until (ui b) then b
      else (let p = patch (\<lambda>s. s\<lparr>stationary := v\<rparr>) b in if v then p\<lparr>possible_motion := False\<rparr> else p))"

definition hide_page :: "bench_state \<Rightarrow> bench_state" where
  "hide_page s = s\<lparr>bench_visible := False, props_off := False, stationary := False, pulse_percent := zero_sliders\<rparr>"

definition set_visible :: "bool \<Rightarrow> bench \<Rightarrow> bench" where
  "set_visible v b = (if v then patch (\<lambda>s. s\<lparr>bench_visible := True\<rparr>) b else stop_now (patch hide_page b))"

definition leave_page :: "bench \<Rightarrow> bench" where
  "leave_page b = (let p = bump (patch hide_page b) in if possible_motion b then stop_now p else p)"

definition end_stop :: "bench_state \<Rightarrow> bench_state" where
  "end_stop s = s\<lparr>busy := False, action_pending := False, stopping := False\<rparr>"

text \<open>The answer to a stop: a text, or no answer.\<close>

definition stop_answered :: "string option \<Rightarrow> bench \<Rightarrow> bench" where
  "stop_answered text b = (case stop_flight b of
     None \<Rightarrow> b
   | Some s \<Rightarrow> patch end_stop
       ((if s \<noteq> session b then b
         else if (case text of Some t \<Rightarrow> bench_ack ''motor_test 0'' t | None \<Rightarrow> False)
         then patch (\<lambda>u. u\<lparr>estimated_until := 0, bench_reply := StopAcknowledged, bench_error := NoError\<rparr>) b
         else patch (\<lambda>u. u\<lparr>bench_error := StopNotConfirmed\<rparr>) b)\<lparr>stop_flight := None\<rparr>))"

datatype host_answer = StatusAnswer parsed_status | TextAnswer string | FailedAnswer string bool

datatype bench_event =
    Connection bool | HostConnected bool | ConfirmProps bool | ConfirmStationary bool | SetVisible bool | Leave
  | SetPulse nat int | Pulse nat | Start "nat option" | SetRate nat | Stop | Poll
  | Answer host_answer | StopAnswer "string option"

definition answer :: "int \<Rightarrow> host_answer \<Rightarrow> bench \<Rightarrow> bench" where
  "answer now a b = (case flights b of
     [] \<Rightarrow> b
   | f # fs \<Rightarrow> (case a of
       StatusAnswer st \<Rightarrow> if stage f = AtStatus then after_status now st f fs b else b
     | TextAnswer text \<Rightarrow> after_text now text f fs b
     | FailedAnswer msg not_sent \<Rightarrow> after_failure now msg not_sent f fs b))"

definition motor_choice :: "nat option \<Rightarrow> bool" where
  "motor_choice which = (case which of None \<Rightarrow> True | Some m \<Rightarrow> m \<in> {1..4})"

fun bench_step :: "int \<times> bench_event \<Rightarrow> bench \<Rightarrow> bench" where
  "bench_step (now, Connection c) b = bench_connection c b"
| "bench_step (now, HostConnected c) b = b\<lparr>host_up := c\<rparr>"
| "bench_step (now, ConfirmProps v) b = confirm_props v b"
| "bench_step (now, ConfirmStationary v) b = confirm_stationary now v b"
| "bench_step (now, SetVisible v) b = set_visible v b"
| "bench_step (now, Leave) b = leave_page b"
| "bench_step (now, SetPulse m p) b = set_pulse_percent now m p b"
| "bench_step (now, Pulse m) b = pulse_motor now m b"
| "bench_step (now, Start which) b = (if motor_choice which then start_motor now which b else b)"
| "bench_step (now, SetRate r) b = (if r = 300 \<or> r = 600 then set_rate now r b else b)"
| "bench_step (now, Stop) b = stop_now b"
| "bench_step (now, Poll) b = run_task now PollTask b"
| "bench_step (now, Answer a) b = answer now a b"
| "bench_step (now, StopAnswer t) b = stop_answered t b"

definition bench_run :: "(int \<times> bench_event) list \<Rightarrow> bench" where
  "bench_run es = fold bench_step es new_bench"

subsection \<open>No motor start without its click and its guards\<close>

definition BENCH_LINES :: "string list" where
  "BENCH_LINES = ''motor_seq'' # List.map (motor_line ''motor_test '') [1..<5]
     @ concat (List.map (\<lambda>m. List.map (pulse_line m) [1..<101]) [1..<5])
     @ [rate_command 300, rate_command 600]"

text \<open>
  What makes the line at place \<open>p\<close> of the trace right: its click is older but at most 1.5 s, nothing cancelled it
  since, the guards held in the state it was sent from, and no earlier line used the same click.
\<close>

definition sent_ok :: "bench_mark list \<Rightarrow> nat \<Rightarrow> bool" where
  "sent_ok tr p = (case tr ! p of
     Sent line q now s \<Rightarrow>
       q < p \<and> (case tr ! q of Clicked t \<Rightarrow> now - t \<le> 1500 | _ \<Rightarrow> False) \<and> Cancelled \<notin> set (drop q (take p tr))
       \<and> bench_block_reason s now = None \<and> line \<in> set BENCH_LINES
       \<and> list_all (\<lambda>p'. case tr ! p' of Sent line' q' now' s' \<Rightarrow> q' \<noteq> q | _ \<Rightarrow> True) [0..<p]
   | _ \<Rightarrow> True)"

definition sents_ok :: "bench_mark list \<Rightarrow> bool" where
  "sents_ok tr = list_all (sent_ok tr) [0..<length tr]"

fun task_ok :: "bench_task \<Rightarrow> bool" where
  "task_ok PollTask \<longleftrightarrow> True"
| "task_ok (TestTask cmd label duration) \<longleftrightarrow> cmd \<in> set BENCH_LINES"
| "task_ok (RateTask r) \<longleftrightarrow> rate_command r \<in> set BENCH_LINES"

definition early :: "bench_stage \<Rightarrow> bool" where
  "early st \<longleftrightarrow> st = Waiting \<or> st = AtStatus"

definition used :: "bench_mark list \<Rightarrow> nat \<Rightarrow> bool" where
  "used tr q \<longleftrightarrow> (\<exists>line now s. Sent line q now s \<in> set tr)"

definition cancels :: "bench_mark list \<Rightarrow> nat" where
  "cancels tr = count_list tr Cancelled"

definition flight_ok :: "bench_mark list \<Rightarrow> flight \<Rightarrow> bool" where
  "flight_ok tr f \<longleftrightarrow> task_ok (task f) \<and> (is_action (task f) \<longrightarrow>
     clicked f < length tr \<and> tr ! clicked f = Clicked (requested_at f) \<and> flight_gen f = cancels (take (clicked f) tr)
     \<and> (early (stage f) \<longrightarrow> \<not> used tr (clicked f)))"

definition actions :: "flight list \<Rightarrow> nat list" where
  "actions fs = List.map clicked (filter (\<lambda>f. is_action (task f)) fs)"

definition core :: "nat \<Rightarrow> flight list \<Rightarrow> bench_mark list \<Rightarrow> bool" where
  "core g fs tr \<longleftrightarrow> g = cancels tr \<and> list_all (flight_ok tr) fs \<and> distinct (actions fs) \<and> sents_ok tr"

definition bench_inv :: "flight list \<Rightarrow> bench \<Rightarrow> bool" where
  "bench_inv fs b \<longleftrightarrow> core (generation b) fs (trace b)"

lemma sent_ok_snoc: "p < length tr \<Longrightarrow> sent_ok (tr @ [m]) p = sent_ok tr p"
proof -
  assume p: "p < length tr"
  have "list_all (\<lambda>p'. case (tr @ [m]) ! p' of Sent line' q' now' s' \<Rightarrow> q' \<noteq> q | _ \<Rightarrow> True) [0..<p]
    = list_all (\<lambda>p'. case tr ! p' of Sent line' q' now' s' \<Rightarrow> q' \<noteq> q | _ \<Rightarrow> True) [0..<p]" for q
    using p by (intro list.pred_cong) (auto simp: nth_append)
  then show ?thesis using p by (auto simp: sent_ok_def nth_append split: bench_mark.split)
qed

lemma sents_ok_snoc: "sents_ok (tr @ [m]) \<longleftrightarrow> sents_ok tr \<and> sent_ok (tr @ [m]) (length tr)"
  by (auto simp: sents_ok_def list_all_iff sent_ok_snoc)

lemma cancels_snoc [simp]: "cancels (tr @ [m]) = (if m = Cancelled then Suc (cancels tr) else cancels tr)" "cancels [] = 0"
  by (simp_all add: cancels_def)

lemma used_snoc: "used (tr @ [m]) q \<longleftrightarrow> used tr q \<or> (\<exists>line now s. m = Sent line q now s)"
  by (auto simp: used_def)

lemma not_used: "\<not> used tr q \<Longrightarrow> list_all (\<lambda>p'. case tr ! p' of Sent line' q' now' s' \<Rightarrow> q' \<noteq> q | _ \<Rightarrow> True) [0..<length tr]"
  unfolding used_def list_all_iff by (auto split: bench_mark.split) (metis nth_mem)

lemma flight_ok_snoc:
  assumes "flight_ok tr f" and "is_action (task f) \<and> early (stage f) \<Longrightarrow> \<forall>line now s. m \<noteq> Sent line (clicked f) now s"
  shows "flight_ok (tr @ [m]) f"
  using assms by (auto simp: flight_ok_def nth_append used_snoc)

lemma core_tail: "core g (f # fs) tr \<Longrightarrow> core g fs tr"
  by (auto simp: core_def actions_def split: if_split_asm)

lemma core_stage: "core g (f # fs) tr \<Longrightarrow> early st \<longrightarrow> early (stage f) \<Longrightarrow> core g (f\<lparr>stage := st\<rparr> # fs) tr"
  by (auto simp: core_def actions_def flight_ok_def)

lemma core_mark:
  assumes "core g fs tr" and "m \<noteq> Cancelled" and "\<And>line q now s. m \<noteq> Sent line q now s"
  shows "core g fs (tr @ [m])"
proof -
  have "sent_ok (tr @ [m]) (length tr)" using assms(3) by (cases m) (auto simp: sent_ok_def)
  then show ?thesis using assms by (auto simp: core_def sents_ok_snoc list_all_iff intro!: flight_ok_snoc)
qed

lemma core_cancel: "core g fs tr \<Longrightarrow> core (Suc g) fs (tr @ [Cancelled])"
  by (auto simp: core_def sents_ok_snoc list_all_iff sent_ok_def intro!: flight_ok_snoc)

lemma core_click:
  assumes "core g fs tr" and "task_ok t" and "is_action t"
  shows "core g (fs @ [\<lparr>task = t, flight_gen = g, requested_at = now, clicked = length tr, stage = Waiting\<rparr>]) (tr @ [Clicked now])"
proof -
  have old: "clicked f < length tr" if "f \<in> set fs" "is_action (task f)" for f
    using assms(1) that by (auto simp: core_def flight_ok_def list_all_iff)
  have "\<not> used tr (length tr)"
  proof
    assume "used tr (length tr)"
    then obtain p line n s where p: "p < length tr" "tr ! p = Sent line (length tr) n s" by (auto simp: used_def in_set_conv_nth)
    then have "sent_ok tr p" using assms(1) by (auto simp: core_def sents_ok_def list_all_iff)
    then show False using p by (simp add: sent_ok_def)
  qed
  moreover have "core g fs (tr @ [Clicked now])" using assms(1) by (rule core_mark) auto
  ultimately show ?thesis
    using assms(2,3) old by (fastforce simp: core_def actions_def flight_ok_def used_snoc)
qed

lemma core_sent:
  assumes "core g (f # fs) tr" and "is_action (task f)" and "early (stage f)" and "\<not> early st" and "flight_gen f = g"
    and "now - requested_at f \<le> 1500" and "bench_block_reason s now = None" and "line \<in> set BENCH_LINES"
  shows "core g (f\<lparr>stage := st\<rparr> # fs) (tr @ [Sent line (clicked f) now s])"
proof -
  have f: "clicked f < length tr" "tr ! clicked f = Clicked (requested_at f)" "cancels tr = cancels (take (clicked f) tr)" "\<not> used tr (clicked f)"
    using assms(1-3,5) by (auto simp: core_def flight_ok_def)
  have "cancels tr = cancels (take (clicked f) tr) + cancels (drop (clicked f) tr)"
    unfolding cancels_def by (metis append_take_drop_id count_list_append)
  then have "cancels (drop (clicked f) tr) = 0" using f(3) by simp
  then have no_cancel: "Cancelled \<notin> set (drop (clicked f) tr)" by (simp add: cancels_def count_list_0_iff)
  have "list_all (\<lambda>p'. case (tr @ [m]) ! p' of Sent line' q' now' s' \<Rightarrow> q' \<noteq> clicked f | _ \<Rightarrow> True) [0..<length tr]" for m
    using not_used [OF f(4)] by (auto simp: list_all_iff nth_append)
  then have sent: "sent_ok (tr @ [Sent line (clicked f) now s]) (length tr)"
    using f no_cancel assms(6-8) by (simp add: sent_ok_def nth_append)
  have other: "clicked h \<noteq> clicked f" if "h \<in> set fs" "is_action (task h)" for h
  proof -
    have "clicked h \<in> clicked ` {x \<in> set fs. is_action (task x)}" using that by blast
    then show ?thesis using assms(1,2) by (auto simp: core_def actions_def)
  qed
  have "flight_ok (tr @ [Sent line (clicked f) now s]) h" if "h \<in> set fs" for h
    using assms(1) that other [OF that] by (intro flight_ok_snoc) (auto simp: core_def list_all_iff)
  moreover have "flight_ok (tr @ [Sent line (clicked f) now s]) (f\<lparr>stage := st\<rparr>)"
    using assms(1,4) by (auto simp: core_def flight_ok_def nth_append)
  ultimately show ?thesis
    using assms(1) sent by (auto simp: core_def actions_def sents_ok_snoc list_all_iff)
qed

subsection \<open>Every step keeps it\<close>

lemma bench_inv_simps [simp]:
  "bench_inv fs (patch h b) = bench_inv fs b"
  "bench_inv fs (b\<lparr>flights := fs'\<rparr>) = bench_inv fs b"
  "bench_inv fs (b\<lparr>stop_flight := sf\<rparr>) = bench_inv fs b"
  "bench_inv fs (b\<lparr>possible_motion := pm\<rparr>) = bench_inv fs b"
  "bench_inv fs (b\<lparr>session := sn\<rparr>) = bench_inv fs b"
  "bench_inv fs (b\<lparr>host_up := hu\<rparr>) = bench_inv fs b"
  "bench_inv fs (expire b) = bench_inv fs b"
  by (simp_all add: bench_inv_def patch_def expire_def)

lemma bench_inv_mark: "bench_inv fs b \<Longrightarrow> bench_inv fs (mark (Asked l) b)" "bench_inv fs b \<Longrightarrow> bench_inv fs (mark StopSent b)"
  by (auto simp: bench_inv_def mark_def intro!: core_mark)

lemma bench_inv_bump: "bench_inv fs b \<Longrightarrow> bench_inv fs (bump b)"
  by (simp add: bench_inv_def bump_def mark_def core_cancel)

lemma bench_inv_tail: "bench_inv (f # fs) b \<Longrightarrow> bench_inv fs b"
  by (auto simp: bench_inv_def intro: core_tail)

lemma bench_inv_stage: "bench_inv (f # fs) b \<Longrightarrow> early st \<longrightarrow> early (stage f) \<Longrightarrow> bench_inv (f\<lparr>stage := st\<rparr> # fs) b"
  by (auto simp: bench_inv_def intro: core_stage)

lemma flights_simps [simp]:
  "flights (patch h b) = flights b" "flights (mark m b) = flights b" "flights (bump b) = flights b" "flights (expire b) = flights b"
  by (simp_all add: patch_def mark_def bump_def expire_def)

definition rest_early :: "flight list \<Rightarrow> bool" where
  "rest_early fs = list_all (\<lambda>f. early (stage f)) fs"

definition bench_ok :: "bench \<Rightarrow> bool" where
  "bench_ok b \<longleftrightarrow> bench_inv (flights b) b \<and> rest_early (tl (flights b))"

text \<open>A flight that has taken control, with the flights that wait for it.\<close>

definition held :: "flight \<Rightarrow> flight list \<Rightarrow> bench \<Rightarrow> bool" where
  "held f fs b \<longleftrightarrow> bench_inv (f # fs) b \<and> rest_early fs"

lemma held_simps [simp]: "held f fs (patch h b) = held f fs b" "held f fs (expire b) = held f fs b"
  by (simp_all add: held_def)

lemma launch_all: "bench_inv fs b \<Longrightarrow> rest_early fs \<Longrightarrow> bench_ok (launch now fs b)"
proof (induction now fs b rule: launch.induct)
  case (1 now b)
  then show ?case by (simp add: bench_ok_def rest_early_def Let_def)
next
  case (2 now f fs b)
  have "bench_inv (f\<lparr>stage := AtStatus\<rparr> # fs) b" using 2(3,4) by (intro bench_inv_stage) (auto simp: rest_early_def)
  then show ?case using 2 bench_inv_tail [OF 2(3)] by (auto simp: bench_ok_def rest_early_def intro!: bench_inv_mark)
qed

lemma launch_ok: "held f fs b \<Longrightarrow> bench_ok (launch now fs b)"
  by (auto simp: held_def intro: launch_all bench_inv_tail)

lemma enter_ok: "held f fs b \<Longrightarrow> \<not> early st \<Longrightarrow> bench_ok (enter st line f fs b)"
  by (auto simp: held_def enter_def bench_ok_def intro!: bench_inv_mark bench_inv_stage)

lemma fail_flight_ok: "held f fs b \<Longrightarrow> bench_ok (fail_flight now e ns f fs b)"
  unfolding fail_flight_def by (rule launch_ok [of f]) simp

lemma poll_motor_ok: "held f fs b \<Longrightarrow> bench_ok (poll_motor now m cells f fs b)"
  unfolding poll_motor_def by (auto simp: early_def intro!: launch_ok enter_ok)

lemma poll_rate_ok: "held f fs b \<Longrightarrow> bench_ok (poll_rate now f fs b)"
  unfolding poll_rate_def by (auto simp: early_def intro!: enter_ok poll_motor_ok split: option.split)

lemma sent_state_ok:
  assumes "held f fs b" and "early (stage f)" and "\<not> early st" and "valid f b" and "\<not> expired now f" and "is_action (task f)"
    and "bench_block_reason (ui b) now = None" and "line \<in> set BENCH_LINES"
  shows "bench_inv (f\<lparr>stage := st\<rparr> # fs) (mark (Sent line (clicked f) now (ui b)) b)"
  using assms unfolding bench_inv_def mark_def held_def
  by (simp add: core_sent valid_def expired_def STATUS_MAX_AGE_MS_def)

lemma mark_patch: "mark m (patch h b) = patch h (mark m b)" "mark m (b\<lparr>flights := fs\<rparr>) = (mark m b)\<lparr>flights := fs\<rparr>"
  "mark m (b\<lparr>possible_motion := pm\<rparr>) = (mark m b)\<lparr>possible_motion := pm\<rparr>"
  "mark m (b\<lparr>possible_motion := pm, flights := fs\<rparr>) = (mark m b)\<lparr>possible_motion := pm, flights := fs\<rparr>"
  by (simp_all add: mark_def patch_def)

lemma send_ok:
  assumes "held f fs b" and "early (stage f)" and "valid f b" and "\<not> expired now f" and "is_action (task f)"
    and "bench_block_reason (ui b) now = None"
  shows "cmd \<in> set BENCH_LINES \<Longrightarrow> bench_ok (send_test now cmd label duration f fs b)"
    and "rate_command r \<in> set BENCH_LINES \<Longrightarrow> bench_ok (send_rate now r f fs b)"
  using sent_state_ok [OF assms(1,2) _ assms(3-6), of AtTestReply] sent_state_ok [OF assms(1,2) _ assms(3-6), of AtRateReply] assms(1)
  by (simp_all add: send_test_def send_rate_def mark_patch bench_ok_def held_def early_def)

lemma held_task: "held f fs b \<Longrightarrow> task_ok (task f)"
  by (auto simp: held_def bench_inv_def core_def flight_ok_def)

lemma after_status_ok: "held f fs b \<Longrightarrow> stage f = AtStatus \<Longrightarrow> bench_ok (after_status now st f fs b)"
proof -
  assume h: "held f fs b" and s: "stage f = AtStatus"
  define c where "c = (if valid f b then patch (\<lambda>s. s\<lparr>bench_status := Some st, status_at := now\<rparr>) b else b)"
  have c: "held f fs c" using h by (simp add: c_def)
  show ?thesis
    using launch_ok [OF c] launch_ok [of f fs "expire c"] c held_task [OF c] s
    unfolding after_status_def c_def [symmetric] Let_def
    by (auto simp: is_action_def early_def intro!: enter_ok poll_rate_ok send_ok split: bench_task.split)
qed

lemma after_text_ok: "held f fs b \<Longrightarrow> flights b = f # fs \<Longrightarrow> bench_ok (after_text now text f fs b)"
proof -
  assume h: "held f fs b" and fl: "flights b = f # fs"
  have ok: "bench_ok b" using h fl by (simp add: held_def bench_ok_def)
  show ?thesis
    using ok h launch_ok [OF h]
    by (cases "stage f"; cases "task f")
      (auto simp: after_text_def Let_def early_def intro!: enter_ok poll_rate_ok poll_motor_ok fail_flight_ok launch_ok split: option.split)
qed

lemma after_failure_ok: "held f fs b \<Longrightarrow> flights b = f # fs \<Longrightarrow> bench_ok (after_failure now msg ns f fs b)"
proof -
  assume h: "held f fs b" and fl: "flights b = f # fs"
  have ok: "bench_ok b" using h fl by (simp add: held_def bench_ok_def)
  show ?thesis
    using ok h
    by (cases "stage f") (auto simp: after_failure_def intro!: poll_motor_ok fail_flight_ok)
qed

lemma bench_ok_simps [simp]:
  "bench_ok (patch h b) = bench_ok b" "bench_ok (b\<lparr>stop_flight := sf\<rparr>) = bench_ok b" "bench_ok (b\<lparr>possible_motion := pm\<rparr>) = bench_ok b"
  "bench_ok (b\<lparr>session := sn\<rparr>) = bench_ok b" "bench_ok (b\<lparr>host_up := hu\<rparr>) = bench_ok b"
  by (simp_all add: bench_ok_def)

lemma bench_ok_bump: "bench_ok b \<Longrightarrow> bench_ok (bump b)"
  by (simp add: bench_ok_def bench_inv_bump)

lemma stop_now_ok: "bench_ok b \<Longrightarrow> bench_ok (stop_now b)"
  by (auto simp: stop_now_def Let_def bench_ok_def intro!: bench_inv_mark bench_inv_bump)

lemma bench_inv_click:
  "bench_inv fs b \<Longrightarrow> task_ok t \<Longrightarrow> is_action t \<Longrightarrow>
   bench_inv (fs @ [\<lparr>task = t, flight_gen = generation b, requested_at = now, clicked = length (trace b), stage = Waiting\<rparr>]) (mark (Clicked now) b)"
  by (simp add: bench_inv_def mark_def core_click)

lemma bench_inv_poll:
  "bench_inv fs b \<Longrightarrow> \<not> is_action (task f) \<Longrightarrow> bench_inv (fs @ [f]) b"
  by (simp add: bench_inv_def core_def flight_ok_def actions_def is_action_def)

lemma run_task_ok: "bench_ok b \<Longrightarrow> task_ok t \<Longrightarrow> bench_ok (run_task now t b)"
proof -
  assume ok: "bench_ok b" and t: "task_ok t"
  define b1 where "b1 = (if flights b \<noteq> [] then bump b else b)"
  define f where "f = \<lparr>task = t, flight_gen = generation b1, requested_at = now, clicked = length (trace b1), stage = Waiting\<rparr>"
  define b2 where "b2 = patch (\<lambda>s. s\<lparr>busy := True, action_pending := is_action t\<rparr>) (if is_action t then mark (Clicked now) b1 else b1)"
  have fl: "flights b2 = flights b" by (simp add: b2_def b1_def)
  have b1: "bench_inv (flights b) b1" "rest_early (tl (flights b))" using ok bench_inv_bump by (auto simp: b1_def bench_ok_def)
  have all: "bench_inv (flights b @ [f]) b2"
    using bench_inv_click [OF b1(1) t] bench_inv_poll [OF b1(1), of f] unfolding b2_def by (auto simp: f_def)
  have early_f: "rest_early [f]" by (simp add: rest_early_def f_def early_def)
  have "bench_ok (if flights b2 = [] then launch now [f] b2 else b2\<lparr>flights := flights b2 @ [f]\<rparr>)"
    using all launch_all [of "[f]" b2 now] early_f b1(2) by (auto simp: fl bench_ok_def rest_early_def tl_append split: list.split)
  then show ?thesis using ok unfolding run_task_def b1_def [symmetric] Let_def f_def [symmetric] b2_def [symmetric] by simp
qed

lemma test_motor_ok: "bench_ok b \<Longrightarrow> cmd \<in> set BENCH_LINES \<Longrightarrow> bench_ok (test_motor now cmd label duration b)"
  by (auto simp: test_motor_def intro!: run_task_ok)

lemma bench_lines:
  "''motor_seq'' \<in> set BENCH_LINES" "m \<in> {1..4} \<Longrightarrow> motor_line ''motor_test '' m \<in> set BENCH_LINES"
  "m \<in> {1..4} \<Longrightarrow> 0 < p \<Longrightarrow> p \<le> 100 \<Longrightarrow> pulse_line m p \<in> set BENCH_LINES"
  "rate_command 300 \<in> set BENCH_LINES" "rate_command 600 \<in> set BENCH_LINES"
proof -
  show "''motor_seq'' \<in> set BENCH_LINES" unfolding BENCH_LINES_def by (rule list.set_intros)
  show "rate_command 300 \<in> set BENCH_LINES" "rate_command 600 \<in> set BENCH_LINES"
    unfolding BENCH_LINES_def set_append list.set by blast+
next
  assume "m \<in> {1..4}"
  then have m: "m \<in> set [1..<5]" by simp
  then show "motor_line ''motor_test '' m \<in> set BENCH_LINES" unfolding BENCH_LINES_def set_append set_map list.set by blast
  assume "0 < p" "p \<le> 100"
  then have "p \<in> set [1..<101]" by simp
  then have p: "pulse_line m p \<in> set (List.map (pulse_line m) [1..<101])" unfolding set_map by (rule imageI)
  have "List.map (pulse_line m) [1..<101] \<in> (\<lambda>m. List.map (pulse_line m) [1..<101]) ` set [1..<5]" using m by (rule imageI)
  from UnionI [OF imageI [OF this, of set] p]
  have "pulse_line m p \<in> set (concat (List.map (\<lambda>m. List.map (pulse_line m) [1..<101]) [1..<5]))" unfolding set_concat set_map .
  then show "pulse_line m p \<in> set BENCH_LINES" unfolding BENCH_LINES_def set_append list.set by (intro insertI2 UnI2 UnI1)
qed

lemma answer_ok: "bench_ok b \<Longrightarrow> bench_ok (answer now a b)"
proof (cases "flights b")
  case (Cons f fs)
  assume ok: "bench_ok b"
  then have "held f fs b" using Cons by (simp add: bench_ok_def held_def)
  then show ?thesis
    using ok Cons after_status_ok [of f fs b now] after_text_ok [of f fs b now] after_failure_ok [of f fs b now]
    by (cases a) (simp_all add: answer_def)
qed (simp add: answer_def)

lemma bench_step_ok: "bench_ok b \<Longrightarrow> bench_ok (bench_step ev b)"
proof (induction ev b rule: bench_step.induct)
  case (8 now m b)
  then show ?case
    by (auto simp: pulse_motor_def Let_def is_pulse_percent_def MAX_PULSE_PERCENT_def intro!: stop_now_ok test_motor_ok bench_lines)
next
  case (9 now which b)
  then show ?case
    by (auto simp: start_motor_def motor_choice_def intro!: test_motor_ok bench_lines split: option.split_asm option.split)
qed (auto simp: bench_connection_def confirm_props_def confirm_stationary_def set_visible_def leave_page_def set_pulse_percent_def
  set_rate_def stop_answered_def Let_def intro!: bench_ok_bump stop_now_ok run_task_ok answer_ok bench_lines split: option.split)

lemma bench_run_ok: "bench_ok (bench_run es)"
proof -
  have "bench_ok b \<Longrightarrow> bench_ok (fold bench_step es b)" for b
    by (induction es arbitrary: b) (auto simp: bench_step_ok)
  moreover have "bench_ok new_bench"
    by (simp add: bench_ok_def new_bench_def bench_inv_def core_def actions_def rest_early_def sents_ok_def)
  ultimately show ?thesis by (simp add: bench_run_def)
qed

text \<open>C40: However clicks, page changes, answers and failures interleave, a motor command or rate change goes out only for its
  own click at most 1.5 s before, at most once for a click, with nothing since that cancels it, in a state in which every
  guard held, and it is one of the known lines with a power of 1 to 100 percent. A stop on a live connection is
  handed over at once, whatever is pending, and cancels it.\<close>
theorem bench_start_safe:
  "list_all (\<lambda>p. case trace (bench_run es) ! p of
       Sent line q now s \<Rightarrow>
         q < p \<and> (case trace (bench_run es) ! q of Clicked t \<Rightarrow> now - t \<le> 1500 | _ \<Rightarrow> False)
         \<and> Cancelled \<notin> set (drop q (take p (trace (bench_run es))))
         \<and> bench_block_reason s now = None \<and> line \<in> set BENCH_LINES
         \<and> list_all (\<lambda>p'. case trace (bench_run es) ! p' of Sent line' q' now' s' \<Rightarrow> q' \<noteq> q | _ \<Rightarrow> True) [0..<p]
     | _ \<Rightarrow> True) [0..<length (trace (bench_run es))]
   \<and> trace (bench_step (t, Stop) (bench_run es)) = trace (bench_run es) @ Cancelled #
       (if stop_flight (bench_run es) = None \<and> bench_connected (ui (bench_run es)) \<and> host_up (bench_run es) then [StopSent] else [])"
proof
  have "sents_ok (trace (bench_run es))" using bench_run_ok [of es] by (simp add: bench_ok_def bench_inv_def core_def)
  then show "list_all (\<lambda>p. case trace (bench_run es) ! p of
       Sent line q now s \<Rightarrow>
         q < p \<and> (case trace (bench_run es) ! q of Clicked t \<Rightarrow> now - t \<le> 1500 | _ \<Rightarrow> False)
         \<and> Cancelled \<notin> set (drop q (take p (trace (bench_run es))))
         \<and> bench_block_reason s now = None \<and> line \<in> set BENCH_LINES
         \<and> list_all (\<lambda>p'. case trace (bench_run es) ! p' of Sent line' q' now' s' \<Rightarrow> q' \<noteq> q | _ \<Rightarrow> True) [0..<p]
     | _ \<Rightarrow> True) [0..<length (trace (bench_run es))]"
    unfolding sents_ok_def sent_ok_def [abs_def] .
qed (simp add: stop_now_def Let_def bump_def mark_def patch_def)

end
