(* ===== verification/State_Result.thy ===== *)
theory State_Result
  imports Js_Text
begin

section \<open>Stateful code that may throw\<close>

text \<open>
  An async method of the sources reads and writes the fields of its object and may throw. It becomes a
  function from the state to a result and the new state; what was written before a throw stays written. The rules
  below prove an invariant of the state for a composed method from its parts.
\<close>

type_synonym ('s, 'e, 'a) act = "'s \<Rightarrow> ('e + 'a) \<times> 's"

named_theorems act_keeps "parts of a method that keep an invariant"

definition act_ret :: "'a \<Rightarrow> ('s, 'e, 'a) act" where
  "act_ret x s = (Inr x, s)"

definition act_throw :: "'e \<Rightarrow> ('s, 'e, 'a) act" where
  "act_throw e s = (Inl e, s)"

definition act_bind :: "('s, 'e, 'a) act \<Rightarrow> ('a \<Rightarrow> ('s, 'e, 'b) act) \<Rightarrow> ('s, 'e, 'b) act" where
  "act_bind m k s = (case m s of (Inl e, t) \<Rightarrow> (Inl e, t) | (Inr x, t) \<Rightarrow> k x t)"

definition act_then :: "('s, 'e, 'a) act \<Rightarrow> ('s, 'e, 'b) act \<Rightarrow> ('s, 'e, 'b) act" where
  "act_then m k = act_bind m (\<lambda>_. k)"

definition act_get :: "('s \<Rightarrow> 'a) \<Rightarrow> ('s, 'e, 'a) act" where
  "act_get f s = (Inr (f s), s)"

definition act_mod :: "('s \<Rightarrow> 's) \<Rightarrow> ('s, 'e, unit) act" where
  "act_mod f s = (Inr (), f s)"

definition act_unless :: "bool \<Rightarrow> 'e \<Rightarrow> ('s, 'e, unit) act" where
  "act_unless ok e s = (if ok then (Inr (), s) else (Inl e, s))"

fun act_each :: "('x \<Rightarrow> ('s, 'e, unit) act) \<Rightarrow> 'x list \<Rightarrow> ('s, 'e, unit) act" where
  "act_each f [] = act_ret ()"
| "act_each f (x # xs) = act_bind (f x) (\<lambda>_. act_each f xs)"

lemma act_bind_cong [fundef_cong]:
  "m s = m' s' \<Longrightarrow> (\<And>x t. m' s' = (Inr x, t) \<Longrightarrow> k x t = k' x t) \<Longrightarrow> act_bind m k s = act_bind m' k' s'"
  by (auto simp: act_bind_def split: prod.split sum.split)

lemma act_bind_Inr: "act_bind m k s = (Inr y, t) \<longleftrightarrow> (\<exists>x u. m s = (Inr x, u) \<and> k x u = (Inr y, t))"
  by (auto simp: act_bind_def split: prod.splits sum.splits)

lemma act_bindE:
  "act_bind m k s = (Inr y, t) \<Longrightarrow> (\<And>x u. m s = (Inr x, u) \<Longrightarrow> k x u = (Inr y, t) \<Longrightarrow> P) \<Longrightarrow> P"
  by (auto simp: act_bind_Inr)

lemma act_thenE:
  "act_then m k s = (Inr y, t) \<Longrightarrow> (\<And>x u. m s = (Inr x, u) \<Longrightarrow> k u = (Inr y, t) \<Longrightarrow> P) \<Longrightarrow> P"
  by (auto simp: act_then_def act_bind_Inr)

lemma act_simps [simp]:
  "act_ret x s = (r, t) \<longleftrightarrow> r = Inr x \<and> t = s"
  "act_throw e s = (r, t) \<longleftrightarrow> r = Inl e \<and> t = s"
  "act_get f s = (r, t) \<longleftrightarrow> r = Inr (f s) \<and> t = s"
  "act_mod g s = (q, t) \<longleftrightarrow> q = Inr () \<and> t = g s"
  "act_unless ok e s = (Inr u, t) \<longleftrightarrow> ok \<and> t = s"
  by (auto simp: act_ret_def act_throw_def act_get_def act_mod_def act_unless_def)

subsection \<open>Invariants\<close>

text \<open>\<open>keeps I m\<close>: the method leaves \<open>I\<close> true, whether it returns or throws.\<close>

definition keeps :: "('s \<Rightarrow> bool) \<Rightarrow> ('s, 'e, 'a) act \<Rightarrow> bool" where
  "keeps I m \<longleftrightarrow> (\<forall>s. I s \<longrightarrow> I (snd (m s)))"

lemma keepsD: "keeps I m \<Longrightarrow> I s \<Longrightarrow> m s = (r, t) \<Longrightarrow> I t"
  by (metis keeps_def snd_conv)

lemma keeps_ret [act_keeps]: "keeps I (act_ret x)"
  and keeps_throw [act_keeps]: "keeps I (act_throw e)"
  and keeps_get [act_keeps]: "keeps I (act_get f)"
  and keeps_unless [act_keeps]: "keeps I (act_unless ok e)"
  by (auto simp: keeps_def act_ret_def act_throw_def act_get_def act_unless_def)

lemma keeps_mod: "(\<And>s. I s \<Longrightarrow> I (f s)) \<Longrightarrow> keeps I (act_mod f)"
  by (simp add: keeps_def act_mod_def)

lemma keeps_bind [act_keeps]: "keeps I m \<Longrightarrow> (\<And>x. keeps I (k x)) \<Longrightarrow> keeps I (act_bind m k)"
  by (fastforce simp: keeps_def act_bind_def split: prod.split sum.split)

lemma keeps_then [act_keeps]: "keeps I m \<Longrightarrow> keeps I k \<Longrightarrow> keeps I (act_then m k)"
  by (simp add: act_then_def keeps_bind)

lemma keeps_if [act_keeps]: "keeps I m \<Longrightarrow> keeps I k \<Longrightarrow> keeps I (if b then m else k)"
  by simp

lemma keeps_each [act_keeps]: "(\<And>x. x \<in> set xs \<Longrightarrow> keeps I (f x)) \<Longrightarrow> keeps I (act_each f xs)"
  by (induction xs) (auto intro: act_keeps)

end
