(* ===== verification/Fat32_Root.thy ===== *)
theory Fat32_Root
  imports State_Result "HOL-Library.List_Lexorder" "HOL-Library.Char_ord"
begin

section \<open>The FAT32 root directory reader: fat32-root.ts\<close>

text \<open>
  \<open>Fat32RootReader\<close> reads logs from a card it knows only through \<open>readSector(lba)\<close>. That call is the
  parameter \<open>dev\<close>: what the card returns for a sector after the sectors read before, or how the read
  fails. Nothing is assumed of it: a card may be corrupt, change between reads or return short sectors. The state
  is the object: the geometry, the metadata cache and a log of the sectors asked for. A thrown error is named by the start
  of its message.
\<close>

type_synonym card = "nat list \<Rightarrow> nat \<Rightarrow> string + byte list"

definition FAT32_MAX_FILE_BYTES :: nat where "FAT32_MAX_FILE_BYTES = 64 * 1024 * 1024"
definition FAT32_ROOT_SCAN_SECTORS :: nat where "FAT32_ROOT_SCAN_SECTORS = 4096"
definition META_CACHE_CAP :: nat where "META_CACHE_CAP = 4096"
definition EOC :: nat where "EOC = 268435448"

record bbl_entry =
  bbl_name :: string
  bbl_size :: nat
  first_cluster :: nat

record fat =
  card_sectors :: nat
  partition_limit :: nat
  partition_offset :: nat
  sec_per_clus :: nat
  rsvd_sec_cnt :: nat
  num_fats :: nat
  fat_sz32 :: nat
  root_clus :: nat
  tot_sec :: nat
  count_of_clusters :: nat
  fat1_start :: nat
  fat2_start :: nat
  first_data_sector :: nat
  cache :: "(nat \<times> byte list) list"
  asked :: "nat list"
  root_clusters :: "nat list"
  mounted :: bool
  listed :: bool
  bbl_subdirectories :: "string list"

definition new_reader :: "nat \<Rightarrow> fat" where
  "new_reader n = \<lparr>card_sectors = n, partition_limit = n, partition_offset = 0, sec_per_clus = 0, rsvd_sec_cnt = 0,
     num_fats = 0, fat_sz32 = 0, root_clus = 0, tot_sec = 0, count_of_clusters = 0, fat1_start = 0, fat2_start = 0,
     first_data_sector = 0, cache = [], asked = [], root_clusters = [], mounted = False, listed = False,
     bbl_subdirectories = []\<rparr>"

type_synonym 'a fat_act = "(fat, string, 'a) act"

text \<open>The cache keeps its entries in the order they came and drops the oldest one when it is full.\<close>

definition cache_put :: "nat \<Rightarrow> byte list \<Rightarrow> fat \<Rightarrow> fat" where
  "cache_put lba sec st = st\<lparr>cache := (if length (cache st) \<ge> META_CACHE_CAP then tl (cache st) else cache st) @ [(lba, sec)]\<rparr>"

definition meta :: "card \<Rightarrow> nat \<Rightarrow> byte list fat_act" where
  "meta dev lba st =
     (if lba > MAX_SAFE_INTEGER \<or> lba \<ge> card_sectors st
      then (Inl (''Sector '' @ show_nat lba @ '' out of device bounds''), st)
      else case map_of (cache st) lba of
        Some sec \<Rightarrow> (Inr sec, st)
      | None \<Rightarrow>
          (let t = st\<lparr>asked := asked st @ [lba]\<rparr> in
           case dev (asked st) lba of
             Inl e \<Rightarrow> (Inl e, t)
           | Inr sec \<Rightarrow>
               if length sec \<noteq> 512 then (Inl (''Sector '' @ show_nat lba @ '' read returned '' @ show_nat (length sec) @ '' bytes, expected 512''), t)
               else (Inr sec, cache_put lba sec t)))"

definition is_fat32_vbr :: "byte list \<Rightarrow> bool" where
  "is_fat32_vbr sec \<longleftrightarrow> length sec = 512 \<and> u8_at sec 510 = 0x55 \<and> u8_at sec 511 = 0xAA \<and> u16le sec 11 = 512
     \<and> u8_at sec 13 \<in> {1, 2, 4, 8, 16, 32, 64, 128} \<and> u16le sec 14 \<noteq> 0 \<and> (u8_at sec 16 = 1 \<or> u8_at sec 16 = 2)
     \<and> u16le sec 17 = 0 \<and> u16le sec 22 = 0 \<and> u32le sec 36 \<noteq> 0"

definition mbr_slots :: "nat list" where "mbr_slots = [446, 462, 478, 494]"

text \<open>The loop over the four partition entries: a GPT entry ends it, FAT32 entries are collected.\<close>

fun mbr_entries :: "byte list \<Rightarrow> nat list \<Rightarrow> (nat \<times> nat) list \<Rightarrow> string + (nat \<times> nat) list" where
  "mbr_entries sec [] es = Inr es"
| "mbr_entries sec (off # offs) es =
     (let t = u8_at sec (off + 4) in
      if t = 0xEE then Inl ''GPT is not supported''
      else if t = 0x0B \<or> t = 0x0C then mbr_entries sec offs (es @ [(u32le sec (off + 8), u32le sec (off + 12))])
      else mbr_entries sec offs es)"

definition act_of :: "string + 'a \<Rightarrow> 'a fat_act" where
  "act_of r st = (r, st)"

definition detect_partition_offset :: "card \<Rightarrow> byte list \<Rightarrow> nat fat_act" where
  "detect_partition_offset dev sec0 =
     (if is_fat32_vbr sec0 then act_ret 0
      else act_then (act_unless (u8_at sec0 510 = 0x55 \<and> u8_at sec0 511 = 0xAA) ''Invalid boot signature'')
       (act_bind (act_of (mbr_entries sec0 mbr_slots [])) (\<lambda>es.
        act_bind (act_get card_sectors) (\<lambda>cards.
        (case es of
           [(start, cnt)] \<Rightarrow>
             act_then (act_unless (start \<noteq> 0 \<and> cnt \<noteq> 0 \<and> start + cnt \<le> cards) ''Partition exceeds device bounds'')
              (act_then (act_mod (\<lambda>st. st\<lparr>partition_limit := start + cnt\<rparr>))
               (act_bind (meta dev start) (\<lambda>vbr.
                act_then (act_unless (is_fat32_vbr vbr) ''Invalid FAT32 boot sector'') (act_ret start))))
         | _ \<Rightarrow> act_throw ''Exactly one FAT32 MBR partition is required'')))))"

text \<open>The checks and assignments of \<open>parseVbr\<close>, in the order the source has them.\<close>

definition act_check :: "(fat \<Rightarrow> bool) \<Rightarrow> string \<Rightarrow> unit fat_act" where
  "act_check ok why = act_bind (act_get ok) (\<lambda>b. act_unless b why)"

definition vbr_steps :: "byte list \<Rightarrow> unit fat_act list" where
  "vbr_steps vbr =
     [act_unless (u16le vbr 11 = 512) ''Invalid sector size'',
      act_unless (u8_at vbr 13 \<noteq> 0 \<and> u8_at vbr 13 AND (u8_at vbr 13 - 1) = 0 \<and> u8_at vbr 13 \<le> 128) ''Invalid sectors per cluster'',
      act_mod (\<lambda>st. st\<lparr>sec_per_clus := unat (u8_at vbr 13)\<rparr>),
      act_mod (\<lambda>st. st\<lparr>rsvd_sec_cnt := u16le vbr 14\<rparr>),
      act_unless (u16le vbr 14 \<noteq> 0) ''Reserved sector count must be non-zero'',
      act_mod (\<lambda>st. st\<lparr>num_fats := unat (u8_at vbr 16)\<rparr>),
      act_unless (u8_at vbr 16 = 1 \<or> u8_at vbr 16 = 2) ''Number of FATs must be 1 or 2'',
      act_unless (u16le vbr 17 = 0) ''BPB_RootEntCnt must be 0 for FAT32'',
      act_unless (u16le vbr 19 = 0) ''BPB_TotSec16 must be 0 for FAT32'',
      act_unless (u16le vbr 22 = 0) ''BPB_FATSz16 must be 0 for FAT32'',
      act_mod (\<lambda>st. st\<lparr>tot_sec := u32le vbr 32\<rparr>),
      act_unless (u32le vbr 32 \<noteq> 0) ''BPB_TotSec32 must be non-zero'',
      act_check (\<lambda>st. partition_offset st + tot_sec st \<le> card_sectors st) ''FAT32 volume bounds exceed device capacity'',
      act_mod (\<lambda>st. st\<lparr>fat_sz32 := u32le vbr 36\<rparr>),
      act_unless (u32le vbr 36 \<noteq> 0) ''BPB_FATSz32 must be non-zero'',
      act_unless (\<not> bit (u16le vbr 40) 7) ''FAT32 is not in mirrored mode (BPB_ExtFlags active FAT set)'',
      act_unless (u16le vbr 42 = 0) ''FSversion must be 0'',
      act_mod (\<lambda>st. st\<lparr>root_clus := u32le vbr 44\<rparr>),
      act_unless (2 \<le> u32le vbr 44) ''Invalid root cluster'',
      act_mod (\<lambda>st. st\<lparr>fat1_start := partition_offset st + rsvd_sec_cnt st\<rparr>),
      act_mod (\<lambda>st. st\<lparr>fat2_start := fat1_start st + fat_sz32 st\<rparr>),
      act_mod (\<lambda>st. st\<lparr>first_data_sector := partition_offset st + rsvd_sec_cnt st + num_fats st * fat_sz32 st\<rparr>),
      act_check (\<lambda>st. rsvd_sec_cnt st + num_fats st * fat_sz32 st < tot_sec st) ''Invalid data sector count <= 0'',
      act_check (\<lambda>st. partition_offset st + tot_sec st \<le> partition_limit st) ''Volume exceeds MBR partition'',
      act_mod (\<lambda>st. st\<lparr>count_of_clusters := (tot_sec st - (rsvd_sec_cnt st + num_fats st * fat_sz32 st)) div sec_per_clus st\<rparr>),
      act_check (\<lambda>st. count_of_clusters st \<le> 268435437 \<and> (count_of_clusters st + 2) * 4 \<le> fat_sz32 st * 512)
        ''FAT capacity or cluster count invalid'',
      act_check (\<lambda>st. 2 \<le> root_clus st \<and> root_clus st < count_of_clusters st + 2) ''Root cluster out of bounds'',
      act_check (\<lambda>st. 65525 \<le> count_of_clusters st) ''Cluster count is less than FAT32 minimum 65525'']"

definition parse_vbr :: "byte list \<Rightarrow> unit fat_act" where
  "parse_vbr vbr = act_each (\<lambda>m. m) (vbr_steps vbr)"

definition fat_entry :: "card \<Rightarrow> nat \<Rightarrow> nat fat_act" where
  "fat_entry dev cluster =
     act_bind (act_get (\<lambda>st. 2 \<le> cluster \<and> cluster < count_of_clusters st + 2)) (\<lambda>valid.
     act_then (act_unless valid (''Cluster index '' @ show_nat cluster @ '' out of valid range''))
      (let sec_idx = cluster * 4 div 512; intra = cluster * 4 mod 512 in
       act_bind (act_get (\<lambda>st. sec_idx < fat_sz32 st)) (\<lambda>fits.
       act_then (act_unless fits (''FAT access for cluster '' @ show_nat cluster @ '' exceeds FAT size''))
        (act_bind (act_get (\<lambda>st. (fat1_start st, fat2_start st, num_fats st))) (\<lambda>(f1, f2, nf).
         act_bind (meta dev (f1 + sec_idx)) (\<lambda>a.
         if nf = 2 then act_bind (meta dev (f2 + sec_idx)) (\<lambda>b.
              act_then (act_unless (a = b) (''FAT mirror mismatch for cluster '' @ show_nat cluster))
               (act_ret (u32le a intra mod 268435456)))
         else act_ret (u32le a intra mod 268435456)))))))"

definition verify_clean_fat :: "card \<Rightarrow> unit fat_act" where
  "verify_clean_fat dev =
     act_bind (act_get (\<lambda>st. (fat1_start st, fat2_start st, num_fats st))) (\<lambda>(f1, f2, nf).
     act_bind (meta dev f1) (\<lambda>a.
     act_then (if nf = 2 then act_bind (meta dev f2) (\<lambda>b. act_unless (a = b) ''FAT mirror mismatch'') else act_ret ())
      (act_then (act_unless (bit (u32le a 4) 27) ''Dirty FAT volume detected (CleanShutBit is 0)'')
       (act_unless (bit (u32le a 4) 26) ''FAT volume hard error detected (HardErrorBit is 0)''))))"

definition mount :: "card \<Rightarrow> unit fat_act" where
  "mount dev =
     act_bind (meta dev 0) (\<lambda>sec0.
     act_bind (detect_partition_offset dev sec0) (\<lambda>off.
     act_then (act_mod (\<lambda>st. st\<lparr>partition_offset := off\<rparr>))
      (act_bind (if off = 0 then act_ret sec0 else meta dev off) (\<lambda>vbr.
       act_then (parse_vbr vbr)
        (act_then (verify_clean_fat dev) (act_mod (\<lambda>st. st\<lparr>mounted := True\<rparr>)))))))"

definition cluster_lba :: "fat \<Rightarrow> nat \<Rightarrow> nat" where
  "cluster_lba st c = first_data_sector st + (c - 2) * sec_per_clus st"

subsection \<open>The root directory\<close>

record listing =
  files :: "bbl_entry list"
  subdirs :: "string list"
  scanned :: nat
  ended :: bool

text \<open>\<open>/^BFL[0-9]{5}BBL$/\<close>, and the name with its dot.\<close>

definition bbl_short :: "string \<Rightarrow> bool" where
  "bbl_short s \<longleftrightarrow> length s = 11 \<and> prefix ''BFL'' s \<and> list_all is_digit (take 5 (drop 3 s)) \<and> drop 8 s = ''BBL''"

definition short_name :: "byte list \<Rightarrow> nat \<Rightarrow> string" where
  "short_name sec off = List.map (\<lambda>i. char_of (unat (u8_at sec (off + i)))) [0..<11]"

definition dotted :: "string \<Rightarrow> string" where
  "dotted s = take 8 s @ ''.'' @ drop 8 s"

definition scan_entry :: "byte list \<Rightarrow> nat \<Rightarrow> listing \<Rightarrow> string + listing" where
  "scan_entry sec off l =
     (let first = u8_at sec off; attr = u8_at sec (off + 11); short = short_name sec off; name = dotted short in
      if ended l then Inr l
      else if first = 0 then Inr (l\<lparr>ended := True\<rparr>)
      else if first = 0xE5 \<or> attr = 0x0F \<or> bit attr 3 then Inr l
      else if \<not> bbl_short short then Inr l
      else if name \<in> bbl_name ` set (files l) \<or> name \<in> set (subdirs l) then Inl (''Duplicate filename in root directory'')
      else if bit attr 4 then Inr (l\<lparr>subdirs := subdirs l @ [name]\<rparr>)
      else Inr (l\<lparr>files := files l @ [\<lparr>bbl_name = name, bbl_size = u32le sec (off + 28),
               first_cluster = u16le sec (off + 20) * 65536 + u16le sec (off + 26)\<rparr>]\<rparr>))"

definition entry_offsets :: "nat list" where
  "entry_offsets = List.map (\<lambda>e. e * 32) [0..<16]"

definition scan_sector :: "byte list \<Rightarrow> listing \<Rightarrow> string + listing" where
  "scan_sector sec l = res_fold (scan_entry sec) entry_offsets l"

fun scan_sectors :: "card \<Rightarrow> nat list \<Rightarrow> listing \<Rightarrow> listing fat_act" where
  "scan_sectors dev [] l = act_ret l"
| "scan_sectors dev (lba # lbas) l =
     (if ended l then act_ret l
      else if Suc (scanned l) > FAT32_ROOT_SCAN_SECTORS then act_throw ''Root directory scan exceeded 4096 sectors limit''
      else act_bind (meta dev lba) (\<lambda>sec.
           act_bind (act_of (scan_sector sec (l\<lparr>scanned := Suc (scanned l)\<rparr>))) (scan_sectors dev lbas)))"

definition cluster_sectors :: "fat \<Rightarrow> nat \<Rightarrow> nat list" where
  "cluster_sectors st c = List.map (\<lambda>s. cluster_lba st c + s) [0..<sec_per_clus st]"

definition chain_link_ok :: "fat \<Rightarrow> nat \<Rightarrow> bool" where
  "chain_link_ok st n \<longleftrightarrow> n \<ge> EOC \<or> 2 \<le> n \<and> n < min (count_of_clusters st + 2) 268435440"

subsection \<open>What reading does not change\<close>

text \<open>Everything but the cache and the log of reads.\<close>

definition geo :: "fat \<Rightarrow> fat" where
  "geo st = st\<lparr>cache := [], asked := []\<rparr>"

definition same_geo :: "fat \<Rightarrow> fat \<Rightarrow> bool" where
  "same_geo g st \<longleftrightarrow> geo st = geo g"

lemma same_geo_refl: "same_geo g g"
  by (simp add: same_geo_def)

lemma same_geoD:
  assumes "same_geo g st"
  shows "card_sectors st = card_sectors g" "count_of_clusters st = count_of_clusters g" "fat_sz32 st = fat_sz32 g"
    "fat1_start st = fat1_start g" "fat2_start st = fat2_start g" "num_fats st = num_fats g" "sec_per_clus st = sec_per_clus g"
    "first_data_sector st = first_data_sector g" "root_clusters st = root_clusters g" "tot_sec st = tot_sec g"
    "partition_offset st = partition_offset g" "mounted st = mounted g" "listed st = listed g" "root_clus st = root_clus g"
proof -
  have *: "f (geo st) = f (geo g)" for f :: "fat \<Rightarrow> 'a" using assms by (simp add: same_geo_def)
  have n: "f (geo st) = f (geo g)" for f :: "fat \<Rightarrow> nat" using assms by (simp add: same_geo_def)
  have b: "f (geo st) = f (geo g)" for f :: "fat \<Rightarrow> bool" using assms by (simp add: same_geo_def)
  have l: "f (geo st) = f (geo g)" for f :: "fat \<Rightarrow> nat list" using assms by (simp add: same_geo_def)
  show "card_sectors st = card_sectors g" "count_of_clusters st = count_of_clusters g" "fat_sz32 st = fat_sz32 g"
    "fat1_start st = fat1_start g" "fat2_start st = fat2_start g" "num_fats st = num_fats g" "sec_per_clus st = sec_per_clus g"
    "first_data_sector st = first_data_sector g" "root_clusters st = root_clusters g" "tot_sec st = tot_sec g"
    "partition_offset st = partition_offset g" "mounted st = mounted g" "listed st = listed g" "root_clus st = root_clus g"
    using n [of card_sectors] n [of count_of_clusters] n [of fat_sz32] n [of fat1_start] n [of fat2_start] n [of num_fats]
      n [of sec_per_clus] n [of first_data_sector] l [of root_clusters] n [of tot_sec] n [of partition_offset]
      b [of mounted] b [of listed] n [of root_clus]
    by (simp_all add: geo_def)
qed

lemma keeps_meta_geo [act_keeps]: "keeps (same_geo g) (meta dev lba)"
  by (auto simp: keeps_def same_geo_def geo_def meta_def cache_put_def Let_def split: option.split sum.split)

lemma keeps_act_of [act_keeps]: "keeps I (act_of r)"
  by (simp add: keeps_def act_of_def)

lemma keeps_case_prod3 [act_keeps]: "(\<And>a b c. keeps I (f a b c)) \<Longrightarrow> keeps I (case x of (a, b, c) \<Rightarrow> f a b c)"
  by (cases x) simp

lemma keeps_fat_entry [act_keeps]: "(\<And>lba. keeps I (meta dev lba)) \<Longrightarrow> keeps I (fat_entry dev c)"
  unfolding fat_entry_def Let_def by (intro act_keeps)

lemma keeps_scan_sectors [act_keeps]: "(\<And>lba. keeps I (meta dev lba)) \<Longrightarrow> keeps I (scan_sectors dev lbas l)"
  by (induction dev lbas l rule: scan_sectors.induct) (auto intro!: act_keeps)

lemma fat_entry_range:
  "fat_entry dev c st = (Inr n, t) \<Longrightarrow> 2 \<le> c \<and> c < count_of_clusters st + 2 \<and> same_geo st t"
proof -
  assume a: "fat_entry dev c st = (Inr n, t)"
  have "same_geo st t" by (rule keepsD [OF keeps_fat_entry [OF keeps_meta_geo] same_geo_refl a])
  with a show ?thesis by (auto simp: fat_entry_def elim!: act_bindE act_thenE)
qed

lemma scan_sectors_geo: "scan_sectors dev lbas l st = (r, t) \<Longrightarrow> same_geo st t"
  by (rule keepsD [OF keeps_scan_sectors [OF keeps_meta_geo] same_geo_refl])

subsection \<open>The cluster chains\<close>

text \<open>
  The loop of \<open>listBblFiles\<close>. It ends because a cluster is never visited twice and a FAT entry is only read
  for the clusters of the volume.
\<close>

function list_chain :: "card \<Rightarrow> nat \<Rightarrow> nat list \<Rightarrow> listing \<Rightarrow> (nat list \<times> listing) fat_act" where
  "list_chain dev cur visited l st =
     (if cur \<in> set visited then (Inl ''Cycle detected in root directory cluster chain'', st)
      else case fat_entry dev cur st of
        (Inl e, t) \<Rightarrow> (Inl e, t)
      | (Inr nxt, t) \<Rightarrow>
          if \<not> chain_link_ok t nxt then (Inl ''Invalid root chain link'', t)
          else case scan_sectors dev (cluster_sectors t cur) l t of
            (Inl e, u) \<Rightarrow> (Inl e, u)
          | (Inr l', u) \<Rightarrow>
              if ended l' \<or> nxt \<ge> EOC then (Inr (visited @ [cur], l'), u)
              else list_chain dev nxt (visited @ [cur]) l' u)"
  by pat_completeness auto
termination
proof (relation "measure (\<lambda>(dev, cur, visited, l, st). card ({2..<count_of_clusters st + 2} - set visited))")
  show "wf (measure (\<lambda>(dev, cur, visited, l, st). card ({2..<count_of_clusters st + 2} - set visited)))" by simp
next
  fix dev :: card and cur visited l st r t nxt v u l'
  assume cur: "cur \<notin> set visited" and fe: "(r, t) = fat_entry dev cur st" "r = Inr nxt"
    and sc: "(v, u) = scan_sectors dev (cluster_sectors t cur) l t" "v = Inr l'"
  have range: "2 \<le> cur \<and> cur < count_of_clusters st + 2 \<and> same_geo st t"
    using fe by (intro fat_entry_range [of dev cur st nxt t]) simp
  have tu: "same_geo t u" using sc by (intro scan_sectors_geo [of dev "cluster_sectors t cur" l t "Inr l'"]) simp
  have st: "same_geo st t" using range by simp
  have "count_of_clusters u = count_of_clusters st" using same_geoD(2) [OF tu] same_geoD(2) [OF st] by simp
  moreover have "card ({2..<count_of_clusters st + 2} - set (visited @ [cur])) < card ({2..<count_of_clusters st + 2} - set visited)"
  proof (rule psubset_card_mono)
    have "cur \<in> {2..<count_of_clusters st + 2} - set visited" using range cur by simp
    then show "{2..<count_of_clusters st + 2} - set (visited @ [cur]) \<subset> {2..<count_of_clusters st + 2} - set visited"
      unfolding set_append list.set psubset_eq by blast
  qed simp
  ultimately show "((dev, nxt, visited @ [cur], l', u), (dev, cur, visited, l, st))
      \<in> measure (\<lambda>(dev, cur, visited, l, st). card ({2..<count_of_clusters st + 2} - set visited))"
    unfolding in_measure prod.case by (simp only:)
qed

declare list_chain.simps [simp del]

definition empty_listing :: listing where
  "empty_listing = \<lparr>files = [], subdirs = [], scanned = 0, ended = False\<rparr>"

definition list_bbl_files :: "card \<Rightarrow> bbl_entry list fat_act" where
  "list_bbl_files dev =
     act_bind (act_get (\<lambda>st. (mounted st, root_clus st))) (\<lambda>(ready, root).
     act_then (act_unless ready ''FAT32 volume is not mounted'')
      (act_bind (list_chain dev root [] empty_listing) (\<lambda>(visited, l).
       act_then (act_mod (\<lambda>st. st\<lparr>root_clusters := visited, bbl_subdirectories := sort (subdirs l), listed := True\<rparr>))
        (act_ret (sort_key bbl_name (files l))))))"

text \<open>The loop of \<open>fileDataSectors\<close> over the cluster chain; it ends because a chain that is too long is refused.\<close>

function file_chain :: "card \<Rightarrow> nat \<Rightarrow> nat \<Rightarrow> nat list \<Rightarrow> nat list fat_act" where
  "file_chain dev expected cur chain st =
     (if cur < 2 \<or> cur \<ge> count_of_clusters st + 2 then (Inl (''Cluster '' @ show_nat cur @ '' out of valid cluster range''), st)
      else if cur \<in> set chain then (Inl (''Cycle detected in file cluster chain at cluster '' @ show_nat cur), st)
      else if cur \<in> set (root_clusters st) then (Inl ''File overlaps root directory'', st)
      else if length (chain @ [cur]) > expected then (Inl ''File cluster chain longer than allocated size'', st)
      else case fat_entry dev cur st of
        (Inl e, t) \<Rightarrow> (Inl e, t)
      | (Inr nxt, t) \<Rightarrow>
          if nxt \<ge> EOC then
            (if length (chain @ [cur]) < expected then (Inl ''File cluster chain ended prematurely'', t) else (Inr (chain @ [cur]), t))
          else file_chain dev expected nxt (chain @ [cur]) t)"
  by pat_completeness auto
termination
  by (relation "measure (\<lambda>(dev, expected, cur, chain, st). Suc expected - length chain)") auto

declare file_chain.simps [simp del]

definition ceil_div :: "nat \<Rightarrow> nat \<Rightarrow> nat" where
  "ceil_div a b = (a + b - 1) div b"

fun collect_sectors :: "nat \<Rightarrow> nat \<Rightarrow> nat list \<Rightarrow> nat list \<Rightarrow> string + nat list" where
  "collect_sectors volume_end want [] acc = Inr acc"
| "collect_sectors volume_end want (lba # lbas) acc =
     (if length acc \<ge> want then Inr acc
      else if lba \<ge> volume_end then Inl (''Data sector '' @ show_nat lba @ '' out of volume bounds'')
      else collect_sectors volume_end want lbas (acc @ [lba]))"

definition file_data_sectors :: "card \<Rightarrow> bbl_entry \<Rightarrow> nat list fat_act" where
  "file_data_sectors dev entry =
     act_bind (act_get listed) (\<lambda>ready.
     act_then (act_unless ready ''Root directory has not been scanned'')
      (act_then (act_unless (bbl_size entry \<noteq> 0) (''File is empty: '' @ bbl_name entry))
       (act_then (act_unless (bbl_size entry \<le> FAT32_MAX_FILE_BYTES) ''File size exceeds maximum 64 MiB limit'')
        (act_bind (act_get (\<lambda>st. ceil_div (bbl_size entry) (sec_per_clus st * 512))) (\<lambda>expected.
         act_bind (file_chain dev expected (first_cluster entry) []) (\<lambda>chain.
         act_bind (act_get (\<lambda>st. (concat (List.map (cluster_sectors st) chain), partition_offset st + tot_sec st))) (\<lambda>(lbas, volume_end).
         act_bind (act_of (collect_sectors volume_end (ceil_div (bbl_size entry) 512) lbas [])) (\<lambda>sectors.
         act_then (act_unless (length sectors = ceil_div (bbl_size entry) 512) ''File sectors do not cover the directory size'')
          (act_ret sectors)))))))))"

subsection \<open>Reads stay inside the card\<close>

definition reads_ok :: "nat \<Rightarrow> fat \<Rightarrow> bool" where
  "reads_ok n st \<longleftrightarrow> card_sectors st = n \<and> list_all (\<lambda>l. l < n) (asked st) \<and> list_all (\<lambda>(l, s). l \<in> set (asked st) \<and> length s = 512) (cache st)
     \<and> length (cache st) \<le> META_CACHE_CAP"

lemma list_all_tl: "list_all P xs \<Longrightarrow> list_all P (tl xs)"
  by (cases xs) auto

lemma keeps_meta_reads [act_keeps]: "keeps (reads_ok n) (meta dev lba)"
proof -
  have c: "cap \<ge> 1 \<Longrightarrow> n \<le> cap \<Longrightarrow> (if n \<ge> cap then Suc (n - 1) else Suc n) \<le> cap" for n cap :: nat by auto
  have "META_CACHE_CAP \<ge> 1" by (simp add: META_CACHE_CAP_def)
  note c = c [OF this]
  show ?thesis
    unfolding keeps_def
  proof (intro allI impI)
    fix st assume ok: "reads_ok n st"
    have mono: "list_all (\<lambda>(l, s). l \<in> set (asked st @ [lba]) \<and> length s = 512) (cache st)"
      using ok by (auto simp: reads_ok_def list_all_iff)
    show "reads_ok n (snd (meta dev lba st))"
      using ok mono list_all_tl [OF mono] c [of "length (cache st)"]
      by (auto simp: meta_def reads_ok_def cache_put_def Let_def split: option.split sum.split)
  qed
qed

lemma keeps_check [act_keeps]: "keeps I (act_check ok why)"
  unfolding act_check_def by (intro act_keeps)

text \<open>\<open>parseVbr\<close> writes the geometry only.\<close>

lemma keeps_vbr:
  assumes "\<And>s t. I s \<Longrightarrow> asked t = asked s \<Longrightarrow> cache t = cache s \<Longrightarrow> card_sectors t = card_sectors s \<Longrightarrow> mounted t = mounted s \<Longrightarrow> I t"
  shows "keeps I (parse_vbr vbr)"
  unfolding parse_vbr_def
proof (rule keeps_each)
  have mod: "keeps I (act_mod f)" if "\<And>s. asked (f s) = asked s \<and> cache (f s) = cache s \<and> card_sectors (f s) = card_sectors s \<and> mounted (f s) = mounted s" for f
    using that by (intro keeps_mod) (auto intro: assms)
  have "list_all (keeps I) (vbr_steps vbr)"
    unfolding vbr_steps_def list.pred_inject by (intro conjI TrueI keeps_unless keeps_check mod) simp_all
  then show "keeps I m" if "m \<in> set (vbr_steps vbr)" for m using that by (simp add: list_all_iff)
qed

lemma keeps_case_single [act_keeps]:
  "(\<And>a b. keeps I (f a b)) \<Longrightarrow> (\<And>z. keeps I z0) \<Longrightarrow> keeps I (case es of [(a, b)] \<Rightarrow> f a b | _ \<Rightarrow> z0)"
  by (auto split: list.split)

lemma keeps_verify [act_keeps]: "(\<And>lba. keeps I (meta dev lba)) \<Longrightarrow> keeps I (verify_clean_fat dev)"
  unfolding verify_clean_fat_def by (intro act_keeps)

lemma list_chain_inv:
  "(\<And>lba. keeps I (meta dev lba)) \<Longrightarrow> I st \<Longrightarrow> I (snd (list_chain dev cur visited l st))"
proof (induction dev cur visited l st rule: list_chain.induct)
  case (1 dev cur visited l st)
  show ?case
  proof (cases "cur \<in> set visited")
    case True
    then show ?thesis using 1(3) by (simp add: list_chain.simps)
  next
    case new: False
    obtain r t where fe: "fat_entry dev cur st = (r, t)" by fastforce
    have it: "I t" by (rule keepsD [OF keeps_fat_entry [OF 1(2)] 1(3) fe])
    obtain v u where sc: "scan_sectors dev (cluster_sectors t cur) l t = (v, u)" by fastforce
    have iu: "I u" by (rule keepsD [OF keeps_scan_sectors [OF 1(2)] it sc])
    show ?thesis
    proof (cases r)
      case (Inl e)
      then show ?thesis using new fe it by (simp add: list_chain.simps)
    next
      case r: (Inr nxt)
      show ?thesis
      proof (cases "chain_link_ok t nxt \<and> (\<exists>l'. v = Inr l' \<and> \<not> (ended l' \<or> EOC \<le> nxt))")
        case True
        then obtain l' where l': "v = Inr l'" "\<not> (ended l' \<or> EOC \<le> nxt)" by blast
        have "list_chain dev cur visited l st = list_chain dev nxt (visited @ [cur]) l' u"
          using new fe r sc l' True by (subst list_chain.simps) simp
        moreover have "I (snd (list_chain dev nxt (visited @ [cur]) l' u))"
          using 1(1) [OF new fe [symmetric] r _ sc [symmetric] l'(1) l'(2) 1(2) iu] True by simp
        ultimately show ?thesis by simp
      next
        case False
        then show ?thesis using new fe r sc it iu
          by (subst list_chain.simps) (auto split: sum.split)
      qed
    qed
  qed
qed

lemma file_chain_inv:
  "(\<And>lba. keeps I (meta dev lba)) \<Longrightarrow> I st \<Longrightarrow> I (snd (file_chain dev expected cur chain st))"
proof (induction dev expected cur chain st rule: file_chain.induct)
  case (1 dev expected cur chain st)
  obtain r t where fe: "fat_entry dev cur st = (r, t)" by fastforce
  have it: "I t" by (rule keepsD [OF keeps_fat_entry [OF 1(2)] 1(3) fe])
  show ?case
    using 1 fe it by (subst file_chain.simps) (auto split: sum.split)
qed

lemma keeps_list_chain [act_keeps]: "(\<And>lba. keeps I (meta dev lba)) \<Longrightarrow> keeps I (list_chain dev cur visited l)"
  and keeps_file_chain [act_keeps]: "(\<And>lba. keeps I (meta dev lba)) \<Longrightarrow> keeps I (file_chain dev expected cur chain)"
  by (simp_all add: keeps_def [of I "list_chain dev cur visited l"] keeps_def [of I "file_chain dev expected cur chain"]
    list_chain_inv file_chain_inv)

lemma keeps_case_prod2 [act_keeps]: "(\<And>a b. keeps I (f a b)) \<Longrightarrow> keeps I (case x of (a, b) \<Rightarrow> f a b)"
  by (cases x) simp

lemma reads_ok_geometry:
  "asked t = asked s \<Longrightarrow> cache t = cache s \<Longrightarrow> card_sectors t = card_sectors s \<Longrightarrow> reads_ok n s \<Longrightarrow> reads_ok n t"
  by (simp add: reads_ok_def)

lemma keeps_mount: "keeps (reads_ok n) (mount dev)"
proof -
  have "keeps (reads_ok n) (detect_partition_offset dev sec0)" for sec0
    unfolding detect_partition_offset_def by (intro act_keeps keeps_mod) (auto intro: reads_ok_geometry)
  moreover have "keeps (reads_ok n) (parse_vbr vbr)" for vbr
    by (rule keeps_vbr) (auto intro: reads_ok_geometry)
  ultimately show ?thesis
    unfolding mount_def by (intro act_keeps keeps_mod) (auto intro: reads_ok_geometry)
qed

lemma keeps_list_bbl: "keeps (reads_ok n) (list_bbl_files dev)"
  unfolding list_bbl_files_def by (intro act_keeps keeps_mod) (auto intro: reads_ok_geometry)

lemma keeps_data_sectors: "keeps (reads_ok n) (file_data_sectors dev e)"
  unfolding file_data_sectors_def by (intro act_keeps)

text \<open>A caller of the reader: any sequence of its methods, whatever the earlier ones returned.\<close>

datatype fat_call = Mount | ListFiles | DataSectors bbl_entry

fun run_call :: "card \<Rightarrow> fat_call \<Rightarrow> fat \<Rightarrow> fat" where
  "run_call dev Mount st = snd (mount dev st)"
| "run_call dev ListFiles st = snd (list_bbl_files dev st)"
| "run_call dev (DataSectors e) st = snd (file_data_sectors dev e st)"

lemma run_call_reads: "reads_ok n st \<Longrightarrow> reads_ok n (run_call dev c st)"
  using keeps_mount keeps_list_bbl keeps_data_sectors by (cases c) (auto simp: keeps_def)

text \<open>C29: Whatever the card returns and whichever methods are called in whatever order, the reader asks only for sectors
  inside the card, and its cache holds at most 4096 sectors of 512 bytes, each of which was read.\<close>
theorem fat32_reads_in_bounds:
  "list_all (\<lambda>lba. lba < n) (asked (fold (run_call dev) calls (new_reader n)))
   \<and> length (cache (fold (run_call dev) calls (new_reader n))) \<le> 4096
   \<and> list_all (\<lambda>(lba, sec). lba \<in> set (asked (fold (run_call dev) calls (new_reader n))) \<and> length sec = 512)
       (cache (fold (run_call dev) calls (new_reader n)))"
proof -
  have "reads_ok n st \<Longrightarrow> reads_ok n (fold (run_call dev) calls st)" for st
    by (induction calls arbitrary: st) (auto simp: run_call_reads)
  from this [of "new_reader n"] show ?thesis
    by (simp add: reads_ok_def new_reader_def META_CACHE_CAP_def)
qed

subsection \<open>The sectors of a file\<close>

definition volume_ok :: "fat \<Rightarrow> bool" where
  "volume_ok st \<longleftrightarrow> 0 < sec_per_clus st \<and> partition_offset st + tot_sec st \<le> card_sectors st
     \<and> first_data_sector st + count_of_clusters st * sec_per_clus st \<le> partition_offset st + tot_sec st
     \<and> partition_offset st < fat1_start st \<and> fat1_start st + num_fats st * fat_sz32 st = first_data_sector st
     \<and> (num_fats st = 1 \<or> num_fats st = 2) \<and> fat2_start st = fat1_start st + fat_sz32 st
     \<and> 65525 \<le> count_of_clusters st \<and> (count_of_clusters st + 2) * 4 \<le> fat_sz32 st * 512
     \<and> 2 \<le> root_clus st \<and> root_clus st < count_of_clusters st + 2"

lemma act_each_steps:
  "act_each (\<lambda>m. m) [] s = (Inr u, t) \<longleftrightarrow> t = s"
  "act_each (\<lambda>m. m) (act_unless ok why # ms) s = (Inr u, t) \<longleftrightarrow> ok \<and> act_each (\<lambda>m. m) ms s = (Inr u, t)"
  "act_each (\<lambda>m. m) (act_mod f # ms) s = (Inr u, t) \<longleftrightarrow> act_each (\<lambda>m. m) ms (f s) = (Inr u, t)"
  "act_each (\<lambda>m. m) (act_check p why # ms) s = (Inr u, t) \<longleftrightarrow> p s \<and> act_each (\<lambda>m. m) ms s = (Inr u, t)"
  by (auto simp: act_bind_Inr act_check_def)

lemma parse_vbr_ok:
  assumes "parse_vbr vbr st = (Inr u, t)"
  shows "volume_ok t"
proof (cases st)
  let ?spc = "unat (u8_at vbr 13)" and ?over = "u16le vbr 14 + unat (u8_at vbr 16) * u32le vbr 36"
  case (fields cards plimit off a1 a2 a3 a4 a5 a6 a7 a8 a9 a10 cch rds rcs mt ls bsd)
  have c: "u8_at vbr 13 \<noteq> 0 \<and> u16le vbr 14 \<noteq> 0 \<and> (u8_at vbr 16 = 1 \<or> u8_at vbr 16 = 2) \<and> 2 \<le> u32le vbr 44 \<and> ?over < u32le vbr 32
    \<and> off + u32le vbr 32 \<le> cards \<and> 65525 \<le> (u32le vbr 32 - ?over) div ?spc
    \<and> ((u32le vbr 32 - ?over) div ?spc + 2) * 4 \<le> u32le vbr 36 * 512 \<and> u32le vbr 44 < (u32le vbr 32 - ?over) div ?spc + 2"
    and t: "t = \<lparr>card_sectors = cards, partition_limit = plimit, partition_offset = off, sec_per_clus = ?spc,
      rsvd_sec_cnt = u16le vbr 14, num_fats = unat (u8_at vbr 16), fat_sz32 = u32le vbr 36, root_clus = u32le vbr 44,
      tot_sec = u32le vbr 32, count_of_clusters = (u32le vbr 32 - ?over) div ?spc, fat1_start = off + u16le vbr 14,
      fat2_start = off + u16le vbr 14 + u32le vbr 36, first_data_sector = off + u16le vbr 14 + unat (u8_at vbr 16) * u32le vbr 36,
      cache = cch, asked = rds, root_clusters = rcs, mounted = mt, listed = ls, bbl_subdirectories = bsd\<rparr>"
    using assms unfolding parse_vbr_def vbr_steps_def fields act_each_steps fat.simps
    by blast+
  have nf: "unat (u8_at vbr 16) = 1 \<or> unat (u8_at vbr 16) = 2" and spc: "0 < ?spc" using c by (auto simp: unat_gt_0)
  have "(u32le vbr 32 - ?over) div ?spc * ?spc \<le> u32le vbr 32 - ?over" by (rule div_times_less_eq_dividend)
  then have "?over + (u32le vbr 32 - ?over) div ?spc * ?spc \<le> u32le vbr 32" using c by linarith
  then show ?thesis using nf spc c unfolding t volume_ok_def fat.simps by simp
qed

lemma volume_ok_geo: "same_geo s t \<Longrightarrow> volume_ok s \<Longrightarrow> volume_ok t"
  by (frule same_geoD) (auto simp: volume_ok_def same_geoD)

lemma mount_ok:
  assumes "mount dev st = (Inr u, t)"
  shows "volume_ok t"
proof -
  obtain vbr s1 s2 s3 where "parse_vbr vbr s1 = (Inr (), s2)" "verify_clean_fat dev s2 = (Inr (), s3)" "t = s3\<lparr>mounted := True\<rparr>"
    using assms by (auto simp: mount_def elim!: act_bindE act_thenE)
  moreover from this have "same_geo s2 s3" by (intro keepsD [OF keeps_verify [OF keeps_meta_geo] same_geo_refl])
  ultimately show ?thesis using parse_vbr_ok volume_ok_geo [of s2 s3] by (fastforce simp: volume_ok_def)
qed

definition cluster_of :: "fat \<Rightarrow> nat \<Rightarrow> nat" where
  "cluster_of st lba = (lba - first_data_sector st) div sec_per_clus st + 2"

lemma cluster_sectors_inv:
  "lba \<in> set (cluster_sectors st c) \<Longrightarrow> 2 \<le> c \<Longrightarrow> cluster_of st lba = c \<and> first_data_sector st \<le> lba
     \<and> lba < first_data_sector st + (c - 1) * sec_per_clus st"
proof -
  assume a: "lba \<in> set (cluster_sectors st c)" and c: "2 \<le> c"
  from a obtain s where s: "s < sec_per_clus st" "lba = first_data_sector st + ((c - 2) * sec_per_clus st + s)"
    unfolding cluster_sectors_def cluster_lba_def set_map set_upt by (elim imageE) (auto simp: add.assoc)
  then have "(lba - first_data_sector st) div sec_per_clus st = c - 2" by simp
  moreover have "(c - 2) * sec_per_clus st + sec_per_clus st = (c - 1) * sec_per_clus st"
    using c by (cases c; cases "c - 1") (auto simp: algebra_simps)
  ultimately show ?thesis using s c unfolding cluster_of_def by linarith
qed

lemma distinct_cluster_sectors: "distinct (cluster_sectors st c)"
  by (simp add: cluster_sectors_def distinct_map inj_on_def)

lemma chain_sectors:
  assumes "distinct cs" and "list_all (\<lambda>c. 2 \<le> c \<and> c < n + 2) cs"
  shows "distinct (concat (List.map (cluster_sectors st) cs))"
    and "lba \<in> set (concat (List.map (cluster_sectors st) cs)) \<Longrightarrow> cluster_of st lba \<in> set cs \<and> first_data_sector st \<le> lba
      \<and> lba < first_data_sector st + n * sec_per_clus st \<or> sec_per_clus st = 0"
proof -
  have "distinct (concat (List.map (cluster_sectors st) cs)) \<and> (\<forall>lba \<in> set (concat (List.map (cluster_sectors st) cs)). cluster_of st lba \<in> set cs)"
    using assms
  proof (induction cs)
    case (Cons c cs)
    then show ?case using cluster_sectors_inv [of _ st c] distinct_cluster_sectors by fastforce
  qed simp
  then show "distinct (concat (List.map (cluster_sectors st) cs))" by simp
  assume "lba \<in> set (concat (List.map (cluster_sectors st) cs))"
  then obtain c where c: "c \<in> set cs" "lba \<in> set (cluster_sectors st c)" by auto
  then have r: "2 \<le> c" "c < n + 2" using assms(2) by (auto simp: list_all_iff)
  have "(c - 1) * sec_per_clus st \<le> n * sec_per_clus st" using r by (intro mult_right_mono) auto
  then show "cluster_of st lba \<in> set cs \<and> first_data_sector st \<le> lba \<and> lba < first_data_sector st + n * sec_per_clus st \<or> sec_per_clus st = 0"
    using cluster_sectors_inv [OF c(2) r(1)] c(1) by (metis add_left_mono less_le_trans)
qed

lemma file_chain_ok:
  "file_chain dev expected cur chain st = (Inr cs, t) \<Longrightarrow> distinct chain \<Longrightarrow> set chain \<inter> set (root_clusters st) = {} \<Longrightarrow>
   list_all (\<lambda>c. 2 \<le> c \<and> c < count_of_clusters st + 2) chain \<Longrightarrow>
   distinct cs \<and> set cs \<inter> set (root_clusters st) = {} \<and> list_all (\<lambda>c. 2 \<le> c \<and> c < count_of_clusters st + 2) cs
     \<and> length cs = expected \<and> same_geo st t"
proof (induction dev expected cur chain st rule: file_chain.induct)
  case (1 dev expected cur chain st)
  obtain nxt u where fe: "fat_entry dev cur st = (Inr nxt, u)" and ok: "2 \<le> cur" "cur < count_of_clusters st + 2"
    "cur \<notin> set chain" "cur \<notin> set (root_clusters st)" "length (chain @ [cur]) \<le> expected"
    using 1(2) by (subst (asm) file_chain.simps) (auto split: if_split_asm prod.split_asm sum.split_asm)
  have su: "same_geo st u" using fat_entry_range [OF fe] by simp
  note geo = same_geoD [OF su]
  show ?case
  proof (cases "EOC \<le> nxt")
    case True
    then have "cs = chain @ [cur]" "t = u" "length (chain @ [cur]) = expected"
      using 1(2) fe ok by (subst (asm) file_chain.simps; auto split: if_split_asm)+
    then show ?thesis using 1(3-5) ok su by auto
  next
    case False
    have rest: "file_chain dev expected nxt (chain @ [cur]) u = (Inr cs, t)"
      using 1(2) fe ok False by (subst (asm) file_chain.simps) (auto split: if_split_asm)
    have "distinct (chain @ [cur])" "set (chain @ [cur]) \<inter> set (root_clusters u) = {}"
      "list_all (\<lambda>c. 2 \<le> c \<and> c < count_of_clusters u + 2) (chain @ [cur])"
      using 1(3-5) ok geo by auto
    from 1(1) [OF _ _ _ _ fe [symmetric] refl False rest this] ok
    have "distinct cs \<and> set cs \<inter> set (root_clusters u) = {} \<and> list_all (\<lambda>c. 2 \<le> c \<and> c < count_of_clusters u + 2) cs
        \<and> length cs = expected \<and> same_geo u t" by simp
    then show ?thesis using geo su by (simp add: same_geo_def)
  qed
qed

lemma collect_sectors_ok:
  "collect_sectors volume_end want lbas acc = Inr r \<Longrightarrow> length acc \<le> want \<Longrightarrow> list_all (\<lambda>l. l < volume_end) acc \<Longrightarrow>
   r = acc @ take (want - length acc) lbas \<and> list_all (\<lambda>l. l < volume_end) r"
proof (induction volume_end want lbas acc rule: collect_sectors.induct)
  case (2 volume_end want lba lbas acc)
  show ?case
  proof (cases "want \<le> length acc")
    case True
    then show ?thesis using 2 by simp
  next
    case False
    then obtain k where "want - length acc = Suc k" by (cases "want - length acc") auto
    moreover from this have "want - length (acc @ [lba]) = k" by simp
    ultimately show ?thesis using 2 False by (auto split: if_split_asm)
  qed
qed simp

definition root_sectors :: "fat \<Rightarrow> nat list" where
  "root_sectors st = concat (List.map (cluster_sectors st) (root_clusters st))"

lemma root_chain_range:
  "list_chain dev cur visited l st = (Inr (vs, l'), t) \<Longrightarrow> list_all (\<lambda>c. 2 \<le> c \<and> c < count_of_clusters st + 2) visited \<Longrightarrow>
   list_all (\<lambda>c. 2 \<le> c \<and> c < count_of_clusters st + 2) vs"
proof (induction dev cur visited l st rule: list_chain.induct)
  case (1 dev cur visited l st)
  obtain nxt u l1 w where fe: "fat_entry dev cur st = (Inr nxt, u)" and sc: "scan_sectors dev (cluster_sectors u cur) l u = (Inr l1, w)"
    and ok: "cur \<notin> set visited" "chain_link_ok u nxt"
    using 1(2) by (subst (asm) list_chain.simps) (auto split: if_split_asm prod.split_asm sum.split_asm)
  have r: "2 \<le> cur" "cur < count_of_clusters st + 2" "same_geo st u" using fat_entry_range [OF fe] by auto
  have w: "same_geo u w" by (rule scan_sectors_geo [OF sc])
  have n: "count_of_clusters w = count_of_clusters st" using same_geoD(2) [OF r(3)] same_geoD(2) [OF w] by simp
  show ?case
  proof (cases "ended l1 \<or> EOC \<le> nxt")
    case True
    then have "vs = visited @ [cur]" using 1(2) fe sc ok by (subst (asm) list_chain.simps) auto
    then show ?thesis using r 1(3) by simp
  next
    case False
    have rest: "list_chain dev nxt (visited @ [cur]) l1 w = (Inr (vs, l'), t)"
      using 1(2) fe sc ok False by (subst (asm) list_chain.simps) auto
    from 1(1) [OF _ fe [symmetric] refl _ sc [symmetric] refl False rest] ok r 1(3) n show ?thesis by simp
  qed
qed

text \<open>A small card: one volume without a partition table, a root directory of one cluster and one log of 300 bytes.\<close>

definition sparse_sector :: "(nat \<times> byte) list \<Rightarrow> byte list" where
  "sparse_sector bs = List.map (\<lambda>i. case map_of bs i of None \<Rightarrow> 0 | Some b \<Rightarrow> b) [0..<512]"

definition sample_card :: card where
  "sample_card before lba = Inr (sparse_sector (
     if lba = 0 then [(12, 2), (13, 1), (14, 1), (16, 1), (32, 0xF6), (33, 1), (34, 1), (37, 2), (44, 2), (510, 0x55), (511, 0xAA)]
     else if lba = 1 then [(7, 0x0C), (8, 0xFF), (9, 0xFF), (10, 0xFF), (11, 0x0F), (12, 0xFF), (13, 0xFF), (14, 0xFF), (15, 0x0F)]
     else if lba = 513 then [(0, 66), (1, 70), (2, 76), (3, 48), (4, 48), (5, 48), (6, 48), (7, 49), (8, 66), (9, 66), (10, 76), (26, 3), (28, 44), (29, 1)]
     else []))"

lemma sparse_sector_at [simp]: "u8_at (sparse_sector bs) i = (if i < 512 then (case map_of bs i of None \<Rightarrow> 0 | Some b \<Rightarrow> b) else 0)"
  by (simp add: u8_at_def sparse_sector_def)

lemma length_sparse_sector [simp]: "length (sparse_sector bs) = 512"
  by (simp add: sparse_sector_def)

lemmas sample_eval = sample_card_def act_bind_def act_then_def act_unless_def act_get_def act_mod_def act_ret_def act_check_def
  act_of_def meta_def cache_put_def META_CACHE_CAP_def MAX_SAFE_INTEGER_def u16le_value u32le_value

lemma sample_chars:
  "char_of (66 :: nat) = CHR ''B''" "char_of (70 :: nat) = CHR ''F''" "char_of (76 :: nat) = CHR ''L''"
  "char_of (48 :: nat) = CHR ''0''" "char_of (49 :: nat) = CHR ''1''"
  by code_simp+

definition sample_find :: "(string list \<times> nat list) fat_act" where
  "sample_find = act_then (mount sample_card) (act_bind (list_bbl_files sample_card) (\<lambda>fs.
     act_bind (file_data_sectors sample_card (hd fs)) (\<lambda>lbas. act_ret (List.map bbl_name fs, lbas))))"

lemma sample_find_value: "\<exists>s. sample_find (new_reader 66100) = (Inr ([''BFL00001.BBL''], [514]), s)"
  by (simp add: sample_find_def mount_def new_reader_def detect_partition_offset_def is_fat32_vbr_def sample_eval parse_vbr_def
    vbr_steps_def verify_clean_fat_def bit_simps
    list_bbl_files_def list_chain.simps fat_entry_def chain_link_ok_def cluster_sectors_def cluster_lba_def FAT32_ROOT_SCAN_SECTORS_def
    empty_listing_def EOC_def scan_sector_def entry_offsets_def scan_entry_def short_name_def bbl_short_def dotted_def upt_rec
    file_data_sectors_def file_chain.simps FAT32_MAX_FILE_BYTES_def ceil_div_def is_digit_def sample_chars)



subsection \<open>How many sectors are read\<close>

definition costs :: "nat \<Rightarrow> 'a fat_act \<Rightarrow> bool" where
  "costs k m \<longleftrightarrow> (\<forall>s. length (asked (snd (m s))) \<le> length (asked s) + k)"

lemma costsD: "costs k m \<Longrightarrow> m s = (r, t) \<Longrightarrow> length (asked t) \<le> length (asked s) + k"
  by (metis costs_def snd_conv)

lemma costs_bind:
  assumes "costs j m" and "\<And>x. costs k (f x)"
  shows "costs (j + k) (act_bind m f)"
  unfolding costs_def
proof
  fix s
  obtain r t where m: "m s = (r, t)" by fastforce
  have f: "length (asked (snd (f x t))) \<le> length (asked t) + k" for x using assms(2) by (simp add: costs_def)
  show "length (asked (snd (act_bind m f s))) \<le> length (asked s) + (j + k)"
  proof (cases r)
    case (Inl e)
    then show ?thesis using costsD [OF assms(1) m] by (simp add: act_bind_def m)
  next
    case (Inr x)
    then show ?thesis using costsD [OF assms(1) m] f [of x] by (simp add: act_bind_def m)
  qed
qed

lemma costs_meta: "costs 1 (meta dev lba)"
  by (auto simp: costs_def meta_def cache_put_def Let_def split: option.split sum.split)

lemma costs_free: "costs 0 (act_ret x)" "costs 0 (act_throw e)" "costs 0 (act_get f)" "costs 0 (act_unless ok e)" "costs 0 (act_of r)"
  by (auto simp: costs_def act_ret_def act_throw_def act_get_def act_unless_def act_of_def)

lemma costs_mono: "costs j m \<Longrightarrow> j \<le> k \<Longrightarrow> costs k m"
  by (meson add_left_mono costs_def le_trans)

lemma costs_fat_entry: "costs 2 (fat_entry dev c)"
proof -
  have b: "costs k (f x) \<Longrightarrow> costs k (case x of y \<Rightarrow> f y)" for k x and f :: "'a \<Rightarrow> nat fat_act" by simp
  have last: "costs 1 (act_bind (meta dev lba) (\<lambda>b. act_then (act_unless (a = b) why) (act_ret x)))" for lba a why and x :: nat
    using costs_bind [OF costs_meta, where k = 0, OF costs_bind [OF costs_free(4) costs_free(1), of "a = _" why "\<lambda>_. x", unfolded add_0]]
    by (simp add: act_then_def)
  have read: "costs 2 (act_bind (meta dev lba) (\<lambda>a. if nf = 2 then act_bind (meta dev lba') (\<lambda>b. act_then (act_unless (a = b) why) (act_ret (g a)))
      else act_ret (g a)))" for lba lba' why and nf :: nat and g :: "byte list \<Rightarrow> nat"
  proof -
    have "costs 1 (if nf = 2 then act_bind (meta dev lba') (\<lambda>b. act_then (act_unless (a = b) why) (act_ret (g a))) else act_ret (g a))" for a
      by (simp add: last [simplified] costs_mono [OF costs_free(1) le0])
    from costs_bind [OF costs_meta this] show ?thesis by (simp add: numeral_2_eq_2)
  qed
  have skip: "costs 2 (act_bind (act_get f) k)" if "\<And>x. costs 2 (k x)" for f :: "fat \<Rightarrow> 'b" and k :: "'b \<Rightarrow> nat fat_act"
    by (rule costs_bind [OF costs_free(3) that, unfolded add_0])
  have check: "costs 2 (act_then (act_unless ok e) k)" if "costs 2 k" for ok e and k :: "nat fat_act"
    unfolding act_then_def by (rule costs_bind [OF costs_free(4) that, unfolded add_0])
  show ?thesis
    unfolding fat_entry_def Let_def by (intro skip check) (auto intro!: read split: prod.split)
qed

lemma scan_sector_scanned: "scan_sector sec l = Inr l' \<Longrightarrow> scanned l' = scanned l"
  unfolding scan_sector_def
  by (erule res_fold_inv [where P = "\<lambda>m. scanned m = scanned l"]) (auto simp: scan_entry_def Let_def split: if_split_asm)

lemma scan_sectors_cost:
  "scan_sectors dev lbas l st = (r, u) \<Longrightarrow> scanned l \<le> 4096 \<Longrightarrow>
   (case r of
      Inl e \<Rightarrow> length (asked u) + scanned l \<le> length (asked st) + 4096
    | Inr l' \<Rightarrow> length (asked u) + scanned l \<le> length (asked st) + scanned l' \<and> scanned l \<le> scanned l' \<and> scanned l' \<le> 4096
        \<and> (if lbas = [] \<or> ended l then True else scanned l < scanned l'))"
proof (induction dev lbas l arbitrary: st rule: scan_sectors.induct)
  case (1 dev l)
  then show ?case by auto
next
  case (2 dev lba lbas l)
  show ?case
  proof (cases "ended l \<or> Suc (scanned l) > 4096")
    case True
    then show ?thesis using 2(2,3) by (auto simp: FAT32_ROOT_SCAN_SECTORS_def split: if_split_asm)
  next
    case False
    obtain q t where m: "meta dev lba st = (q, t)" by fastforce
    have c: "length (asked t) \<le> Suc (length (asked st))" using costsD [OF costs_meta m] by simp
    show ?thesis
    proof (cases q)
      case (Inl e)
      then show ?thesis using 2(2) m c False by (auto simp: FAT32_ROOT_SCAN_SECTORS_def act_bind_def)
    next
      case q: (Inr sec)
      show ?thesis
      proof (cases "scan_sector sec (l\<lparr>scanned := Suc (scanned l)\<rparr>)")
        case (Inl e)
        then have "r = Inl e" "u = t" using 2(2) m q False by (simp_all add: FAT32_ROOT_SCAN_SECTORS_def act_bind_def act_of_def)
        then show ?thesis using c False by simp
      next
        case s: (Inr l1)
        then have l1: "scanned l1 = Suc (scanned l)" using scan_sector_scanned by fastforce
        have rest: "scan_sectors dev lbas l1 t = (r, u)"
          using 2(2) m q s False by (auto simp: FAT32_ROOT_SCAN_SECTORS_def act_bind_def act_of_def)
        have guards: "\<not> ended l" "\<not> Suc (scanned l) > FAT32_ROOT_SCAN_SECTORS" using False by (auto simp: FAT32_ROOT_SCAN_SECTORS_def)
        have "scanned l1 \<le> 4096" using l1 False by simp
        from 2(1) [OF guards rest this] show ?thesis using c l1 by (auto split: sum.splits)
      qed
    qed
  qed
qed

lemma list_chain_cost:
  "list_chain dev cur visited l st = (r, t) \<Longrightarrow> 0 < sec_per_clus st \<Longrightarrow> length visited \<le> scanned l \<Longrightarrow> scanned l \<le> 4096 \<Longrightarrow> \<not> ended l \<Longrightarrow>
   length (asked t) + scanned l + 2 * length visited \<le> length (asked st) + 12290"
proof (induction dev cur visited l st rule: list_chain.induct)
  case (1 dev cur visited l st)
  obtain q u where fe: "fat_entry dev cur st = (q, u)" by fastforce
  have cu: "length (asked u) \<le> length (asked st) + 2" by (rule costsD [OF costs_fat_entry fe])
  have gu: "same_geo st u" by (rule keepsD [OF keeps_fat_entry [OF keeps_meta_geo] same_geo_refl fe])
  obtain v w where sc: "scan_sectors dev (cluster_sectors u cur) l u = (v, w)" by fastforce
  note scan = scan_sectors_cost [OF sc 1(5)]
  have gw: "same_geo u w" by (rule scan_sectors_geo [OF sc])
  consider (stop) "t = st \<or> t = u" | (scanned) "t = w" "\<And>l'. v = Inr l' \<Longrightarrow> ended l' \<or> t = w"
    | (onward) nxt l' where "cur \<notin> set visited" "q = Inr nxt" "chain_link_ok u nxt" "v = Inr l'" "\<not> (ended l' \<or> EOC \<le> nxt)"
        "list_chain dev nxt (visited @ [cur]) l' w = (r, t)"
    using 1(2) fe sc by (subst (asm) list_chain.simps) (auto split: if_split_asm sum.split_asm)
  then show ?case
  proof cases
    case stop
    then show ?thesis using cu 1(4,5) by auto
  next
    case scanned
    then show ?thesis using cu 1(4,5) scan by (auto split: sum.splits if_split_asm)
  next
    case onward
    have ne: "cluster_sectors u cur \<noteq> []" using 1(3) same_geoD(7) [OF gu] by (simp add: cluster_sectors_def)
    have pos: "0 < sec_per_clus w" using 1(3) same_geoD(7) [OF gu] same_geoD(7) [OF gw] by simp
    have s: "length (asked w) + scanned l \<le> length (asked u) + scanned l'" "scanned l < scanned l'" "scanned l' \<le> 4096"
      using scan onward(4) ne 1(6) by simp_all
    have "length (asked t) + scanned l' + 2 * length (visited @ [cur]) \<le> length (asked w) + 12290"
      using 1(1) [OF onward(1) fe [symmetric] onward(2) _ sc [symmetric] onward(4,5,6) pos] onward(3,5) s 1(4) by simp
    then show ?thesis using s cu by simp
  qed
qed

lemma file_chain_cost:
  "file_chain dev expected cur chain st = (r, t) \<Longrightarrow> length chain \<le> expected \<Longrightarrow>
   length (asked t) + 2 * length chain \<le> length (asked st) + 2 * expected"
proof (induction dev expected cur chain st rule: file_chain.induct)
  case (1 dev expected cur chain st)
  obtain q u where fe: "fat_entry dev cur st = (q, u)" by fastforce
  have cu: "length (asked u) \<le> length (asked st) + 2" by (rule costsD [OF costs_fat_entry fe])
  show ?case
    using 1(1) [OF _ _ _ _ fe [symmetric]] 1(2,3) fe cu
    by (subst (asm) (2) file_chain.simps) (fastforce split: if_split_asm sum.split_asm)
qed

text \<open>What a method that throws leaves true.\<close>

definition keeps_fail :: "('s \<Rightarrow> bool) \<Rightarrow> ('s, 'e, 'a) act \<Rightarrow> bool" where
  "keeps_fail I m \<longleftrightarrow> (\<forall>s e t. I s \<longrightarrow> m s = (Inl e, t) \<longrightarrow> I t)"

lemma keeps_fail_bind: "keeps I m \<Longrightarrow> (\<And>x. keeps_fail I (k x)) \<Longrightarrow> keeps_fail I (act_bind m k)"
  unfolding keeps_fail_def
proof (intro allI impI)
  fix s e t assume a: "keeps I m" "\<And>x. \<forall>s e t. I s \<longrightarrow> k x s = (Inl e, t) \<longrightarrow> I t" "I s" "act_bind m k s = (Inl e, t)"
  obtain r u where m: "m s = (r, u)" by fastforce
  have "I u" by (rule keepsD [OF a(1,3) m])
  then show "I t" using a(2,4) m by (cases r) (auto simp: act_bind_def)
qed

lemma keeps_fail_then: "keeps I m \<Longrightarrow> keeps_fail I k \<Longrightarrow> keeps_fail I (act_then m k)"
  unfolding act_then_def by (rule keeps_fail_bind)

lemma keeps_fail_mod: "keeps_fail I (act_mod f)"
  by (simp add: keeps_fail_def)

lemma keeps_meta_mounted: "keeps (\<lambda>s. \<not> mounted s) (meta dev lba)"
  by (auto simp: keeps_def meta_def cache_put_def Let_def split: option.split sum.split)

lemma failed_mount:
  assumes "mount dev st = (Inl e, t)" and "\<not> mounted st"
  shows "\<not> mounted t"
proof -
  have detect: "keeps (\<lambda>s. \<not> mounted s) (detect_partition_offset dev sec0)" for sec0
    unfolding detect_partition_offset_def by (intro act_keeps keeps_mod keeps_meta_mounted) auto
  have vbr: "keeps (\<lambda>s. \<not> mounted s) (parse_vbr vbr)" for vbr
    by (rule keeps_vbr) simp
  have "keeps_fail (\<lambda>s. \<not> mounted s) (mount dev)"
    unfolding mount_def
    apply (rule keeps_fail_bind keeps_fail_then, rule keeps_meta_mounted)
    apply (rule keeps_fail_bind, rule detect)
    apply (rule keeps_fail_then, rule keeps_mod, simp)
    apply (rule keeps_fail_bind, rule keeps_if, rule keeps_ret, rule keeps_meta_mounted)
    apply (rule keeps_fail_then, rule vbr)
    apply (rule keeps_fail_then, rule keeps_verify, rule keeps_meta_mounted)
    by (rule keeps_fail_mod)
  then show ?thesis unfolding keeps_fail_def using assms by blast
qed

text \<open>C31: Listing ends after at most 12290 sector reads and naming a file's sectors after at most two reads for each cluster
  its size allows, even on a card whose FAT holds cycles or endless chains, or which answers differently every time.\<close>
theorem fat32_listing_ends:
  "length (asked (snd (list_bbl_files dev (snd (mount dev (new_reader n))))))
     \<le> length (asked (snd (mount dev (new_reader n)))) + 12290
   \<and> length (asked (snd (file_data_sectors dev e st))) \<le> length (asked st) + 2 * ceil_div (bbl_size e) (sec_per_clus st * 512)"
proof
  obtain m s where mt: "mount dev (new_reader n) = (m, s)" by fastforce
  show "length (asked (snd (list_bbl_files dev (snd (mount dev (new_reader n))))))
     \<le> length (asked (snd (mount dev (new_reader n)))) + 12290"
  proof (cases "mounted s")
    case False
    then show ?thesis by (simp add: mt list_bbl_files_def act_bind_def act_then_def act_get_def act_unless_def)
  next
    case True
    obtain r t where lc: "list_chain dev (root_clus s) [] empty_listing s = (r, t)" by fastforce
    have "0 < sec_per_clus s"
    proof (cases m)
      case (Inl why)
      have "\<not> mounted (new_reader n)" by (simp add: new_reader_def)
      from failed_mount [OF mt [unfolded Inl] this] True show ?thesis by simp
    next
      case (Inr u)
      with mount_ok [of dev "new_reader n" u s] mt show ?thesis by (simp add: volume_ok_def)
    qed
    then have "length (asked t) \<le> length (asked s) + 12290"
      using list_chain_cost [OF lc] by (simp add: empty_listing_def)
    then show ?thesis using True
      by (cases r) (auto simp: mt lc list_bbl_files_def act_bind_def act_then_def act_get_def act_unless_def act_mod_def act_ret_def)
  qed
next
  obtain r t where fc: "file_chain dev (ceil_div (bbl_size e) (sec_per_clus st * 512)) (first_cluster e) [] st = (r, t)" by fastforce
  show "length (asked (snd (file_data_sectors dev e st))) \<le> length (asked st) + 2 * ceil_div (bbl_size e) (sec_per_clus st * 512)"
    using file_chain_cost [OF fc]
    by (cases r) (auto simp: fc file_data_sectors_def act_bind_def act_then_def act_get_def act_unless_def act_of_def act_ret_def split: sum.split prod.split)
qed

end
