(* ===== verification/Fat32_Device.thy ===== *)
theory Fat32_Device
  imports Fat32_Root
begin

section \<open>The reader depends only on the sectors it read\<close>

text \<open>
  A method of the FAT32 reader behaves the same on two cards that answer alike along the reads it makes. With this a card
  that is known only through a transcript of reads stands for the real one.
\<close>

definition same_answers :: "card \<Rightarrow> card \<Rightarrow> nat list \<Rightarrow> bool" where
  "same_answers d d' log \<longleftrightarrow> (\<forall>i < length log. d (take i log) (log ! i) = d' (take i log) (log ! i))"

lemma same_answers_prefix: "same_answers d d' log \<Longrightarrow> prefix before log \<Longrightarrow> same_answers d d' before"
  unfolding same_answers_def
proof (intro allI impI)
  fix i assume a: "\<forall>i<length log. d (take i log) (log ! i) = d' (take i log) (log ! i)" "prefix before log" "i < length before"
  then obtain z where "log = before @ z" by (auto simp: prefix_def)
  then show "d (take i before) (before ! i) = d' (take i before) (before ! i)"
    using a(1) [rule_format, of i] a(3) by (simp add: nth_append)
qed

lemma same_answers_last: "same_answers d d' (log @ [lba]) \<Longrightarrow> d log lba = d' log lba"
  by (auto simp: same_answers_def dest: spec [of _ "length log"])

named_theorems device_intros "methods that look at the card through their reads only"

definition device_only :: "(card \<Rightarrow> 'a fat_act) \<Rightarrow> bool" where
  "device_only m \<longleftrightarrow> (\<forall>d d' s. prefix (asked s) (asked (snd (m d s)))
     \<and> (same_answers d d' (asked (snd (m d s))) \<longrightarrow> m d' s = m d s))"

lemma device_onlyD:
  assumes "device_only m" and "m d s = (r, t)"
  shows "prefix (asked s) (asked t)" and "same_answers d d' (asked t) \<Longrightarrow> m d' s = (r, t)"
  using assms unfolding device_only_def by (metis snd_conv)+

lemma device_const: "(\<And>s. asked (snd (m s)) = asked s) \<Longrightarrow> device_only (\<lambda>d. m)"
  by (simp add: device_only_def)

lemma device_basic [device_intros]:
  "device_only (\<lambda>d. act_ret x)" "device_only (\<lambda>d. act_throw e)" "device_only (\<lambda>d. act_get f)" "device_only (\<lambda>d. act_unless ok e)"
  "device_only (\<lambda>d. act_of q)"
  by (intro device_const; simp add: act_ret_def act_throw_def act_get_def act_unless_def act_of_def)+

lemma device_mod: "(\<And>s. asked (f s) = asked s) \<Longrightarrow> device_only (\<lambda>d. act_mod f)"
  by (rule device_const) (simp add: act_mod_def)

lemma device_bind [device_intros]:
  assumes "device_only m" and "\<And>x. device_only (\<lambda>d. k d x)"
  shows "device_only (\<lambda>d. act_bind (m d) (k d))"
  unfolding device_only_def
proof (intro allI conjI impI)
  fix d d' s
  obtain r t where m: "m d s = (r, t)" by fastforce
  note a = device_onlyD [OF assms(1) m]
  show "prefix (asked s) (asked (snd (act_bind (m d) (k d) s)))"
  proof (cases r)
    case (Inl e)
    then show ?thesis using m a(1) by (simp add: act_bind_def)
  next
    case (Inr x)
    obtain r2 t2 where k: "k d x t = (r2, t2)" by fastforce
    show ?thesis using Inr m k a(1) device_onlyD(1) [OF assms(2) k] by (auto simp: act_bind_def intro: prefix_order.trans)
  qed
  assume same: "same_answers d d' (asked (snd (act_bind (m d) (k d) s)))"
  show "act_bind (m d') (k d') s = act_bind (m d) (k d) s"
  proof (cases r)
    case (Inl e)
    then show ?thesis using m a(2) [of d'] same by (simp add: act_bind_def)
  next
    case (Inr x)
    obtain r2 t2 where k: "k d x t = (r2, t2)" by fastforce
    have s2: "same_answers d d' (asked t2)" using same Inr m k by (simp add: act_bind_def)
    have "same_answers d d' (asked t)" by (rule same_answers_prefix [OF s2 device_onlyD(1) [OF assms(2) k]])
    then show ?thesis using Inr m k a(2) device_onlyD(2) [OF assms(2) k s2] by (simp add: act_bind_def)
  qed
qed

lemma device_then [device_intros]: "device_only m \<Longrightarrow> device_only k \<Longrightarrow> device_only (\<lambda>d. act_then (m d) (k d))"
  unfolding act_then_def by (rule device_bind)

lemma device_if [device_intros]: "device_only m \<Longrightarrow> device_only k \<Longrightarrow> device_only (\<lambda>d. if b then m d else k d)"
  by (cases b) simp_all

lemma device_case_prod [device_intros]: "(\<And>a b. device_only (\<lambda>d. f d a b)) \<Longrightarrow> device_only (\<lambda>d. case x of (a, b) \<Rightarrow> f d a b)"
  by (cases x) simp

lemma device_case_single [device_intros]:
  "(\<And>a b. device_only (\<lambda>d. f d a b)) \<Longrightarrow> device_only z0 \<Longrightarrow> device_only (\<lambda>d. case es of [(a, b)] \<Rightarrow> f d a b | _ \<Rightarrow> z0 d)"
  by (cases es; cases "tl es") auto

lemma device_meta [device_intros]: "device_only (\<lambda>d. meta d lba)"
  unfolding device_only_def
proof (intro allI conjI impI)
  fix d d' :: card and s
  show "prefix (asked s) (asked (snd (meta d lba s)))"
    by (auto simp: meta_def cache_put_def Let_def split: option.split sum.split)
  assume same: "same_answers d d' (asked (snd (meta d lba s)))"
  show "meta d' lba s = meta d lba s"
  proof (cases "lba > MAX_SAFE_INTEGER \<or> lba \<ge> card_sectors s \<or> map_of (cache s) lba \<noteq> None")
    case True
    then show ?thesis by (auto simp: meta_def)
  next
    case False
    then have "asked (snd (meta d lba s)) = asked s @ [lba]"
      by (auto simp: meta_def cache_put_def Let_def split: sum.split)
    then have "d (asked s) lba = d' (asked s) lba" using same same_answers_last by metis
    then show ?thesis by (auto simp: meta_def Let_def split: option.split)
  qed
qed

lemma device_check [device_intros]: "device_only (\<lambda>d. act_check ok why)"
  unfolding act_check_def by (intro device_intros)

lemma device_fat_entry [device_intros]: "device_only (\<lambda>d. fat_entry d c)"
  unfolding fat_entry_def Let_def by (intro device_intros)

lemma device_verify [device_intros]: "device_only verify_clean_fat"
  unfolding verify_clean_fat_def by (intro device_intros)

lemma device_parse_vbr [device_intros]: "device_only (\<lambda>d. parse_vbr vbr)"
proof (rule device_const)
  fix s :: fat
  have "keeps (\<lambda>t. asked t = asked s) (parse_vbr vbr)" by (rule keeps_vbr) simp
  then show "asked (snd (parse_vbr vbr s)) = asked s" by (simp add: keeps_def)
qed

lemma device_detect [device_intros]: "device_only (\<lambda>d. detect_partition_offset d sec0)"
  unfolding detect_partition_offset_def by (intro device_intros device_mod) simp

lemma device_mount: "device_only mount"
  unfolding mount_def by (intro device_intros device_mod) simp_all

lemma device_scan_sectors [device_intros]: "device_only (\<lambda>d. scan_sectors d lbas l)"
proof (induction lbas arbitrary: l)
  case Nil
  show ?case by (simp add: device_intros)
next
  case (Cons lba lbas)
  show ?case unfolding scan_sectors.simps by (intro device_intros Cons)
qed

lemma list_chain_device:
  "list_chain d cur visited l s = (r, t) \<Longrightarrow> prefix (asked s) (asked t) \<and> (same_answers d d' (asked t) \<longrightarrow> list_chain d' cur visited l s = (r, t))"
proof (induction d cur visited l s arbitrary: r t rule: list_chain.induct)
  case (1 d cur visited l s)
  show ?case
  proof (cases "cur \<in> set visited")
    case True
    then show ?thesis using 1(2) by (simp add: list_chain.simps)
  next
    case new: False
    obtain q u where fe: "fat_entry d cur s = (q, u)" by fastforce
    note fe1 = device_onlyD [OF device_fat_entry fe]
    show ?thesis
    proof (cases "\<exists>nxt. q = Inr nxt \<and> chain_link_ok u nxt")
      case False
      then have "r = (case q of Inl e \<Rightarrow> Inl e | Inr nxt \<Rightarrow> Inl ''Invalid root chain link'')" "t = u"
        using 1(2) new fe by (auto simp: list_chain.simps split: sum.splits)
      then show ?thesis using fe1 new False by (auto simp: list_chain.simps [of d'] split: sum.splits)
    next
      case True
      then obtain nxt where q: "q = Inr nxt" "chain_link_ok u nxt" by blast
      obtain v w where sc: "scan_sectors d (cluster_sectors u cur) l u = (v, w)" by fastforce
      note sc1 = device_onlyD [OF device_scan_sectors sc]
      have uw: "prefix (asked s) (asked w)" using fe1(1) sc1(1) by (rule prefix_order.trans)
      have replay: "same_answers d d' (asked w) \<Longrightarrow> fat_entry d' cur s = (Inr nxt, u) \<and> scan_sectors d' (cluster_sectors u cur) l u = (v, w)"
        using fe1(2) sc1 same_answers_prefix q(1) by blast
      show ?thesis
      proof (cases "\<exists>l'. v = Inr l' \<and> \<not> (ended l' \<or> nxt \<ge> EOC)")
        case False
        then have t: "t = w" "r = (case v of Inl e \<Rightarrow> Inl e | Inr l' \<Rightarrow> Inr (visited @ [cur], l'))"
          using 1(2) new fe q sc by (auto simp: list_chain.simps split: sum.splits)
        show ?thesis using t replay uw False new q(2) by (auto simp: list_chain.simps [of d'] split: sum.splits)
      next
        case True
        then obtain l' where l': "v = Inr l'" "\<not> (ended l' \<or> nxt \<ge> EOC)" by blast
        have rest: "list_chain d nxt (visited @ [cur]) l' w = (r, t)" using 1(2) new fe q sc l' by (simp add: list_chain.simps)
        have ih: "prefix (asked w) (asked t) \<and> (same_answers d d' (asked t) \<longrightarrow> list_chain d' nxt (visited @ [cur]) l' w = (r, t))"
          using 1(1) [OF new fe [symmetric] q(1) _ sc [symmetric] l' rest] q(2) by simp
        have "list_chain d' cur visited l s = (r, t)" if "same_answers d d' (asked t)"
          using replay [OF same_answers_prefix [OF that conjunct1 [OF ih]]] ih that new q(2) l' by (subst list_chain.simps) simp
        then show ?thesis using ih uw prefix_order.trans by blast
      qed
    qed
  qed
qed

lemma file_chain_device:
  "file_chain d expected cur chain s = (r, t) \<Longrightarrow>
   prefix (asked s) (asked t) \<and> (same_answers d d' (asked t) \<longrightarrow> file_chain d' expected cur chain s = (r, t))"
proof (induction d expected cur chain s arbitrary: r t rule: file_chain.induct)
  case (1 d expected cur chain s)
  let ?stop = "cur < 2 \<or> cur \<ge> count_of_clusters s + 2 \<or> cur \<in> set chain \<or> cur \<in> set (root_clusters s) \<or> length (chain @ [cur]) > expected"
  show ?case
  proof (cases ?stop)
    case True
    then show ?thesis using 1(2) by (auto simp: file_chain.simps split: if_split_asm)
  next
    case go: False
    obtain q u where fe: "fat_entry d cur s = (q, u)" by fastforce
    note fe1 = device_onlyD [OF device_fat_entry fe]
    show ?thesis
    proof (cases "\<exists>nxt. q = Inr nxt \<and> \<not> nxt \<ge> EOC")
      case False
      then have "t = u" and r: "r = (case q of Inl e \<Rightarrow> Inl e | Inr nxt \<Rightarrow>
          if length (chain @ [cur]) < expected then Inl ''File cluster chain ended prematurely'' else Inr (chain @ [cur]))"
        using 1(2) go fe by (auto simp: file_chain.simps split: sum.splits if_split_asm)
      then show ?thesis using fe1 go False by (auto simp: file_chain.simps [of d'] split: sum.splits)
    next
      case True
      then obtain nxt where q: "q = Inr nxt" "\<not> nxt \<ge> EOC" by blast
      have rest: "file_chain d expected nxt (chain @ [cur]) u = (r, t)" using 1(2) go fe q by (simp add: file_chain.simps)
      have ih: "prefix (asked u) (asked t) \<and> (same_answers d d' (asked t) \<longrightarrow> file_chain d' expected nxt (chain @ [cur]) u = (r, t))"
        using 1(1) [OF _ _ _ _ fe [symmetric] q rest] go by simp
      have "file_chain d' expected cur chain s = (r, t)" if "same_answers d d' (asked t)"
        using fe1(2) [OF same_answers_prefix [OF that conjunct1 [OF ih]]] ih that go q by (subst file_chain.simps) simp
      then show ?thesis using ih fe1(1) prefix_order.trans by blast
    qed
  qed
qed

lemma device_chains [device_intros]: "device_only (\<lambda>d. list_chain d cur visited l)" "device_only (\<lambda>d. file_chain d expected cur chain)"
  unfolding device_only_def using list_chain_device file_chain_device by (metis prod.collapse)+

lemma device_list: "device_only list_bbl_files"
  unfolding list_bbl_files_def by (intro device_intros device_mod) simp

lemma device_data_sectors: "device_only (\<lambda>d. file_data_sectors d entry)"
  unfolding file_data_sectors_def by (intro device_intros)

end
