(* ===== verification/Sd_Read.thy ===== *)
theory Sd_Read
  imports Fc_Replies
begin

section \<open>Reading card sectors over the CLI: sd-read.ts\<close>

text \<open>
  One \<open>sd read\<close> moves a 512-byte sector as text with its CRC. This theory holds the checksum with its table, the
  strict parser of the reply, the parser of \<open>sd status\<close>, and the reader object that allows one read at a time. The
  writer of a reply is the one of the firmware, as \<open>sd-read-mock.ts\<close> prints it. Reasons given to the user are
  constructors.
\<close>

definition SD_SECTOR_BYTES :: nat where "SD_SECTOR_BYTES = 512"
definition SD_READ_TIMEOUT_MS :: nat where "SD_READ_TIMEOUT_MS = 8000"
definition SD_READ_REPLY_CAP :: nat where "SD_READ_REPLY_CAP = 16384"
definition SD_PROBE_TIMEOUT_MS :: nat where "SD_PROBE_TIMEOUT_MS = 15000"
definition SD_MAX_SECTOR :: nat where "SD_MAX_SECTOR = 4294967295"

subsection \<open>The checksum\<close>

definition crc_bit :: "32 word \<Rightarrow> 32 word" where
  "crc_bit c = (if bit c 0 then 0xEDB88320 XOR drop_bit 1 c else drop_bit 1 c)"

definition crc_table_entry :: "nat \<Rightarrow> 32 word" where
  "crc_table_entry n = (crc_bit ^^ 8) (of_nat n)"

definition CRC_TABLE :: "32 word list" where
  "CRC_TABLE = List.map crc_table_entry [0..<256]"

definition crc_step :: "32 word \<Rightarrow> byte \<Rightarrow> 32 word" where
  "crc_step crc b = CRC_TABLE ! unat ((crc XOR ucast b) AND 0xFF) XOR drop_bit 8 crc"

definition crc32_ieee :: "byte list \<Rightarrow> 32 word" where
  "crc32_ieee data = foldl crc_step 0xFFFFFFFF data XOR 0xFFFFFFFF"

definition format_crc32 :: "32 word \<Rightarrow> string" where
  "format_crc32 crc = hex_upper_pad 8 (unat crc)"

subsection \<open>One read\<close>

definition format_sd_read_command :: "int \<Rightarrow> string option" where
  "format_sd_read_command sector =
     (if sector < 0 \<or> sector > int SD_MAX_SECTOR then None else Some (''sd read '' @ show_nat (nat sector)))"

datatype sd_reason =
    ReplyTooLong
  | UnexpectedLine string
  | DuplicateKey string
  | NoEndLine
  | UnsupportedApi
  | BadSectorField
  | OtherSector string
  | BadHex
  | BadCrcField
  | ForeignKey string

datatype sd_read_result =
    SdData nat "byte list" string
  | CrcMismatch nat string string
  | SdError nat string
  | SdRefused nat string
  | SdTimeout nat nat
  | SdMalformed nat sd_reason

text \<open>\<open>/^(?:unknown\b|sd unavailable:|sd refused:|command refused:)/\<close>.\<close>

definition refusal_line :: "string \<Rightarrow> bool" where
  "refusal_line l \<longleftrightarrow> prefix ''unknown'' l \<and> (drop 7 l = [] \<or> \<not> is_word (hd (drop 7 l)))
     \<or> prefix ''sd unavailable:'' l \<or> prefix ''sd refused:'' l \<or> prefix ''command refused:'' l"

definition split_lines :: "string \<Rightarrow> string list" where
  "split_lines text = filter (\<lambda>l. l \<noteq> []) (List.map js_trim (split_any_nl text))"

text \<open>\<open>/^(sd_data_[a-z0-9_]+): (.*)$/\<close>.\<close>

definition sd_data_line :: "string \<Rightarrow> (string \<times> string) option" where
  "sd_data_line l = (case field_line setting_char '': '' l of
     Some (k, v) \<Rightarrow> if prefix ''sd_data_'' k \<and> 8 < length k then Some (k, v) else None
   | None \<Rightarrow> None)"

definition add_sd_field :: "string \<Rightarrow> (string \<times> string) list \<Rightarrow> sd_reason + (string \<times> string) list" where
  "add_sd_field line fs = (case sd_data_line line of
     None \<Rightarrow> Inl (UnexpectedLine (take 80 line))
   | Some (k, v) \<Rightarrow> if map_of fs k \<noteq> None then Inl (DuplicateKey k) else Inr (fs @ [(k, v)]))"

definition is_upper_hex :: "char \<Rightarrow> bool" where
  "is_upper_hex c \<longleftrightarrow> is_digit c \<or> (65::nat) \<le> of_char c \<and> (of_char c :: nat) \<le> 70"

definition upper_hex :: "nat \<Rightarrow> string \<Rightarrow> bool" where
  "upper_hex n s \<longleftrightarrow> length s = n \<and> list_all is_upper_hex s"

definition SD_DATA_KEYS :: "string list" where
  "SD_DATA_KEYS = [''sd_data_api'', ''sd_data_sector'', ''sd_data_hex'', ''sd_data_crc32'', ''sd_data_end'']"

definition hex_bytes :: "string \<Rightarrow> byte list" where
  "hex_bytes hex = List.map (\<lambda>i. of_nat (hex_num (take 2 (drop (i * 2) hex)))) [0..<SD_SECTOR_BYTES]"

definition check_sd_fields :: "string list \<Rightarrow> nat \<Rightarrow> (string \<times> string) list \<Rightarrow> sd_reason + string \<times> string" where
  "check_sd_fields lines sector fs =
     (let field = map_of fs in
      if lines = [] \<or> last lines \<noteq> ''sd_data_end: 1'' then Inl NoEndLine
      else if field ''sd_data_api'' \<noteq> Some ''1'' then Inl UnsupportedApi
      else case field ''sd_data_sector'' of
        None \<Rightarrow> Inl BadSectorField
      | Some got \<Rightarrow>
          if \<not> (canonical_uint got \<and> length got \<le> 10) then Inl BadSectorField
          else if got \<noteq> show_nat sector then Inl (OtherSector got)
          else (case (field ''sd_data_hex'', field ''sd_data_crc32'') of
            (Some hex, crc) \<Rightarrow>
              if \<not> upper_hex 1024 hex then Inl BadHex
              else (case crc of
                None \<Rightarrow> Inl BadCrcField
              | Some c \<Rightarrow>
                  if \<not> upper_hex 8 c then Inl BadCrcField
                  else (case find (\<lambda>k. k \<notin> set SD_DATA_KEYS) (List.map fst fs) of
                    Some k \<Rightarrow> Inl (ForeignKey k)
                  | None \<Rightarrow> Inr (hex, c)))
          | (None, _) \<Rightarrow> Inl BadHex))"

definition parse_sd_read_reply :: "string \<Rightarrow> nat \<Rightarrow> sd_read_result" where
  "parse_sd_read_reply text sector =
     (if length text > SD_READ_REPLY_CAP then SdMalformed sector ReplyTooLong
      else let lines = split_lines text in
      case find (prefix ''sd_data_error:'') lines of
        Some l \<Rightarrow> SdError sector l
      | None \<Rightarrow> (case find refusal_line lines of
          Some l \<Rightarrow> SdRefused sector l
        | None \<Rightarrow> (case res_bind (res_fold add_sd_field lines []) (check_sd_fields lines sector) of
            Inl why \<Rightarrow> SdMalformed sector why
          | Inr (hex, crc) \<Rightarrow>
              (let bytes = hex_bytes hex; actual = format_crc32 (crc32_ieee bytes) in
               if actual \<noteq> crc then CrcMismatch sector crc actual else SdData sector bytes crc))))"

subsection \<open>The state of the card\<close>

record sd_status =
  sd_state :: string
  sd_detail :: "string option"
  sd_sectors :: "string option"
  sd_io_error :: "string option"
  sd_filesystem :: "string option"

datatype sd_status_result = SdStatus sd_status | StatusRefused string | StatusDuplicate string | StatusIncomplete

text \<open>\<open>/^(sd_[a-z0-9_]+):\s?(.*)$/\<close>.\<close>

definition sd_status_line :: "string \<Rightarrow> (string \<times> string) option" where
  "sd_status_line l = (case field_line setting_char '':'' l of
     Some (k, v) \<Rightarrow>
       if prefix ''sd_'' k \<and> 3 < length k then Some (k, if v \<noteq> [] \<and> js_space (hd v) then tl v else v) else None
   | None \<Rightarrow> None)"

definition add_status_field :: "string \<Rightarrow> (string \<times> string) list \<Rightarrow> string + (string \<times> string) list" where
  "add_status_field line fs = (case sd_status_line line of
     None \<Rightarrow> Inr fs
   | Some (k, v) \<Rightarrow> if map_of fs k \<noteq> None then Inl k else Inr (fs @ [(k, v)]))"

definition parse_sd_status_reply :: "string \<Rightarrow> sd_status_result" where
  "parse_sd_status_reply raw =
     (let lines = split_lines raw in
      case find (\<lambda>l. refusal_line l \<or> l = ''sd_state: unavailable-mock'') lines of
        Some l \<Rightarrow> StatusRefused l
      | None \<Rightarrow> (case res_fold add_status_field lines [] of
          Inl k \<Rightarrow> StatusDuplicate k
        | Inr fs \<Rightarrow>
            (case map_of fs ''sd_state'' of
               Some state \<Rightarrow>
                 if map_of fs ''sd_api'' \<noteq> Some ''1'' \<or> map_of fs ''sd_end'' \<noteq> Some ''1'' \<or> state = [] then StatusIncomplete
                 else SdStatus \<lparr>sd_state = state, sd_detail = map_of fs ''sd_detail'', sd_sectors = map_of fs ''sd_sectors'',
                   sd_io_error = map_of fs ''sd_io_error'', sd_filesystem = map_of fs ''sd_filesystem_hint''\<rparr>
             | None \<Rightarrow> StatusIncomplete)))"

definition SD_PROBE_ACTIVE_STATES :: "string list" where
  "SD_PROBE_ACTIVE_STATES = [''initializing'', ''reading-mbr'', ''reading-boot-sector'']"

definition sd_ready_capacity :: "sd_status \<Rightarrow> string + nat" where
  "sd_ready_capacity s =
     (if sd_state s \<noteq> ''done'' then Inl (''sd_state: '' @ sd_state s)
      else case sd_sectors s of
        None \<Rightarrow> Inl ''sd_sectors missing from the done status''
      | Some n \<Rightarrow>
          if \<not> (all_digits n \<and> hd n \<noteq> CHR ''0'' \<and> length n \<le> 20 \<and> dec_num n \<le> MAX_SAFE_INTEGER) then Inl (''sd_sectors: '' @ n)
          else if sd_io_error s \<noteq> Some ''0'' then Inl (''sd_io_error: '' @ (case sd_io_error s of Some e \<Rightarrow> e | None \<Rightarrow> ''missing''))
          else Inr (min (dec_num n) (SD_MAX_SECTOR + 1)))"

subsection \<open>The reader: one read in flight\<close>

text \<open>
  \<open>SdSectorReader.read\<close> runs the send inside the command gate. The gate may refuse or drop the request with a
  code of its own; the send may fail with a message of the client; or the reply arrives.
\<close>

datatype read_event = GateFails string "string option" | SendFails string | Replied string

datatype read_failure = InvalidSector | AlreadyReading | ReadGateBusy string | ReadThrown string

record sd_reader =
  reading :: bool

fun exceeds_limit :: "string \<Rightarrow> bool" where
  "exceeds_limit [] \<longleftrightarrow> False"
| "exceeds_limit (c # cs) \<longleftrightarrow>
     (prefix ''exceeds '' (c # cs) \<and> (case split_digits (drop 8 (c # cs)) of (d, r) \<Rightarrow> d \<noteq> [] \<and> prefix ''-character limit'' r))
     \<or> exceeds_limit cs"

definition start_read :: "int \<Rightarrow> sd_reader \<Rightarrow> (read_failure + string) \<times> sd_reader" where
  "start_read sector r = (case format_sd_read_command sector of
     None \<Rightarrow> (Inl InvalidSector, r)
   | Some cmd \<Rightarrow> if reading r then (Inl AlreadyReading, r) else (Inr cmd, r\<lparr>reading := True\<rparr>))"

definition read_result :: "nat \<Rightarrow> nat \<Rightarrow> read_event \<Rightarrow> read_failure + sd_read_result" where
  "read_result timeout_ms sector ev = (case ev of
     Replied text \<Rightarrow> Inr (parse_sd_read_reply text sector)
   | SendFails msg \<Rightarrow>
       if js_includes ''terminator missing'' msg \<or> js_includes ''timed out'' msg then Inr (SdTimeout sector timeout_ms)
       else if exceeds_limit msg then Inr (SdMalformed sector ReplyTooLong)
       else if js_includes ''request not queued'' msg then Inl (ReadGateBusy ''GATE_QUEUE_FULL'')
       else Inl (ReadThrown msg)
   | GateFails msg code \<Rightarrow>
       (case code of
          Some c \<Rightarrow> if c = ''GATE_QUEUE_FULL'' \<or> c = ''GATE_BUSY_START'' then Inl (ReadGateBusy c) else Inl (ReadThrown msg)
        | None \<Rightarrow> if js_includes ''request not queued'' msg then Inl (ReadGateBusy ''GATE_QUEUE_FULL'') else Inl (ReadThrown msg)))"

definition end_read :: "nat \<Rightarrow> nat \<Rightarrow> read_event \<Rightarrow> sd_reader \<Rightarrow> (read_failure + sd_read_result) \<times> sd_reader" where
  "end_read timeout_ms sector ev r = (read_result timeout_ms sector ev, r\<lparr>reading := False\<rparr>)"

subsection \<open>The writer of a reply\<close>

definition sector_hex :: "byte list \<Rightarrow> string" where
  "sector_hex bytes = concat (List.map (\<lambda>b. hex_upper_pad 2 (unat b)) bytes)"

definition sd_reply_text :: "nat \<Rightarrow> byte list \<Rightarrow> 32 word \<Rightarrow> string" where
  "sd_reply_text sector bytes crc = crlf_text
     [colon_line ''sd_data_api'' ''1'', colon_line ''sd_data_sector'' (show_nat sector), colon_line ''sd_data_hex'' (sector_hex bytes),
      colon_line ''sd_data_crc32'' (format_crc32 crc), colon_line ''sd_data_end'' ''1'']"

subsection \<open>The checksum without its table\<close>

lemma crc_bit_linear: "crc_bit (x XOR y) = crc_bit x XOR crc_bit y"
  by (auto simp: crc_bit_def bit_xor_iff drop_bit_xor xor.assoc xor.left_commute)

lemma crc_bits_linear: "(crc_bit ^^ k) (x XOR y) = (crc_bit ^^ k) x XOR (crc_bit ^^ k) y"
  by (induction k) (auto simp: crc_bit_linear)

lemma crc_bit_inj: "crc_bit x = crc_bit y \<Longrightarrow> x = y"
proof -
  assume e: "crc_bit x = crc_bit y"
  have top: "bit (crc_bit z) 31 = bit z 0" for z :: "32 word"
    by (auto simp: crc_bit_def bit_xor_iff bit_drop_bit_eq dest: bit_imp_le_length)
  have b0: "bit x 0 = bit y 0" using e top by metis
  have cancel: "(w XOR u = w XOR v) \<longleftrightarrow> u = v" for u v w :: "32 word"
  proof
    assume "w XOR u = w XOR v"
    then have "(w XOR w) XOR u = (w XOR w) XOR v" by (simp only: xor.assoc)
    then show "u = v" by simp
  qed simp
  have "drop_bit 1 x = drop_bit 1 y"
    using e b0 unfolding crc_bit_def by (cases "bit y 0") (simp_all only: cancel if_True if_False simp_thms)
  then have "bit x (Suc n) = bit y (Suc n)" for n by (metis bit_drop_bit_eq comp_apply plus_1_eq_Suc)
  then show ?thesis using b0 by (intro bit_eqI) (metis not0_implies_Suc)
qed

lemma crc_bits_inj: "(crc_bit ^^ k) x = (crc_bit ^^ k) y \<Longrightarrow> x = y"
  by (induction k) (auto dest: crc_bit_inj)

lemma crc_bits_shift: "take_bit k c = 0 \<Longrightarrow> (crc_bit ^^ k) c = drop_bit k c"
proof (induction k)
  case (Suc k)
  have "take_bit k c = take_bit k (take_bit (Suc k) c)" by simp
  then have low: "take_bit k c = 0" using Suc.prems by simp
  have "\<not> bit (take_bit (Suc k) c) k" using Suc.prems by simp
  then have "\<not> bit c k" by (simp add: bit_take_bit_iff)
  then show ?case using Suc.IH [OF low] by (simp add: crc_bit_def bit_drop_bit_eq)
qed simp

lemma crc_step_bits: "crc_step crc b = (crc_bit ^^ 8) (crc XOR ucast b)"
proof -
  define x where "x = crc XOR ucast b"
  have m: "x AND 0xFF = take_bit 8 x" by (simp add: take_bit_eq_mask mask_eq_exp_minus_1)
  have small: "unat (take_bit 8 x) < 256" by (simp add: unsigned_take_bit_eq take_bit_nat_def)
  have tab: "CRC_TABLE ! unat (x AND 0xFF) = (crc_bit ^^ 8) (take_bit 8 x)"
    using small by (simp add: m CRC_TABLE_def crc_table_entry_def)
  have split: "x = take_bit 8 x XOR push_bit 8 (drop_bit 8 x)"
    by (intro bit_word_eqI) (auto simp: bit_simps)
  have high: "(crc_bit ^^ 8) (push_bit 8 (drop_bit 8 x)) = drop_bit 8 (push_bit 8 (drop_bit 8 x))" by (rule crc_bits_shift) (simp add: take_bit_push_bit)
  have "drop_bit 8 (push_bit 8 (drop_bit 8 x)) = drop_bit 8 crc"
    unfolding x_def by (intro bit_word_eqI) (auto simp: bit_simps dest: bit_imp_le_length)
  then show ?thesis using tab high split unfolding crc_step_def x_def [symmetric] by (metis crc_bits_linear)
qed

definition crc32_bitwise :: "byte list \<Rightarrow> 32 word" where
  "crc32_bitwise data = foldl (\<lambda>c b. (crc_bit ^^ 8) (c XOR ucast b)) (- 1) data XOR (- 1)"

lemma crc32_is_bitwise: "crc32_ieee data = crc32_bitwise data"
proof -
  have "crc_step = (\<lambda>c b. (crc_bit ^^ 8) (c XOR ucast b))" by (intro ext) (rule crc_step_bits)
  moreover have "(0xFFFFFFFF :: 32 word) = - 1" by simp
  ultimately show ?thesis by (simp only: crc32_ieee_def crc32_bitwise_def)
qed

lemma xor_cancel: "(w XOR u = w XOR v) \<longleftrightarrow> u = v" for u v w :: "'a::len word"
  by (metis xor.assoc xor.left_neutral xor_self_eq)

lemma crc_step_inj: "crc_step c b = crc_step d b \<longleftrightarrow> c = d"
proof
  assume "crc_step c b = crc_step d b"
  then have "c XOR ucast b = d XOR ucast b" unfolding crc_step_bits by (rule crc_bits_inj)
  then show "c = d" by (metis xor.commute xor_cancel)
qed simp

lemma crc_step_byte: "crc_step c a = crc_step c b \<Longrightarrow> a = b"
proof -
  assume "crc_step c a = crc_step c b"
  then have "c XOR ucast a = c XOR ucast b" unfolding crc_step_bits by (rule crc_bits_inj)
  then have "(ucast a :: 32 word) = ucast b" by (simp only: xor_cancel)
  moreover have "unat (ucast w :: 32 word) = unat w" for w :: byte
    using byte_less [of w] by (simp add: unsigned_ucast_eq take_bit_nat_eq_self)
  ultimately show "a = b" by (metis word_unat_eq_iff)
qed

lemma foldl_crc_inj: "foldl crc_step c bs = foldl crc_step d bs \<longleftrightarrow> c = d"
  by (induction bs arbitrary: c d) (auto simp: crc_step_inj)

lemma crc_one_byte:
  assumes "i < length bs" and "b \<noteq> bs ! i"
  shows "crc32_ieee (bs[i := b]) \<noteq> crc32_ieee bs"
proof
  assume e: "crc32_ieee (bs[i := b]) = crc32_ieee bs"
  have "foldl crc_step 0xFFFFFFFF (bs[i := b]) = foldl crc_step 0xFFFFFFFF bs"
    using e unfolding crc32_ieee_def by (metis xor.commute xor_cancel)
  then have "foldl crc_step 0xFFFFFFFF (take i bs @ b # drop (Suc i) bs) = foldl crc_step 0xFFFFFFFF (take i bs @ bs ! i # drop (Suc i) bs)"
    using assms(1) by (simp only: upd_conv_take_nth_drop id_take_nth_drop [symmetric])
  then have "crc_step (foldl crc_step 0xFFFFFFFF (take i bs)) b = crc_step (foldl crc_step 0xFFFFFFFF (take i bs)) (bs ! i)"
    by (simp add: foldl_crc_inj)
  then show False using assms(2) crc_step_byte by blast
qed

lemma format_crc32_inj: "format_crc32 c = format_crc32 d \<longleftrightarrow> c = d"
proof
  assume "format_crc32 c = format_crc32 d"
  moreover have "unat x < 16 ^ 8" for x :: "32 word" using unsigned_less [of x, where ?'a = nat] by simp
  ultimately have "unat c = unat d" unfolding format_crc32_def by (metis hex_upper_pad_facts(2) zero_less_numeral)
  then show "c = d" by (simp add: word_unat_eq_iff)
qed simp

subsection \<open>The parser reads the writer\<close>

lemma upper_digit: "d < 16 \<Longrightarrow> is_upper_hex (to_upper (hex_digit d))"
  by (auto simp: is_upper_hex_def is_digit_def hex_digit_def to_upper_def is_lower_def)

lemma upper_hex_str: "list_all is_upper_hex (js_upper_ascii (hex_str n))"
proof (induction n rule: hex_str.induct)
  case (1 n)
  then show ?case
    by (subst hex_str.simps) (auto simp: js_upper_ascii_def upper_digit)
qed

lemma upper_hex_pad: "list_all is_upper_hex (hex_upper_pad w n)"
proof -
  have "is_upper_hex (CHR ''0'')" by (simp add: is_upper_hex_def is_digit_def)
  then show ?thesis using upper_hex_str [of n]
    by (auto simp: hex_upper_pad_def pad_start_def js_upper_ascii_def to_upper_0 list_all_iff)
qed

lemma upper_hex_plain: "is_upper_hex c \<Longrightarrow> \<not> js_space c"
  by (auto simp: is_upper_hex_def is_digit_def js_space_def)

lemma length_sector_hex: "length (sector_hex bs) = 2 * length bs"
  by (induction bs) (simp_all add: sector_hex_def byte_pad)

lemma sector_hex_at: "i < length bs \<Longrightarrow> take 2 (drop (i * 2) (sector_hex bs)) = hex_upper_pad 2 (unat (bs ! i))"
proof (induction bs arbitrary: i)
  case (Cons b bs)
  have c: "sector_hex (b # bs) = hex_upper_pad 2 (unat b) @ sector_hex bs" by (simp add: sector_hex_def)
  show ?case using Cons by (cases i) (simp_all add: c byte_pad)
qed simp

lemma hex_bytes_sector: "length bs = 512 \<Longrightarrow> hex_bytes (sector_hex bs) = bs"
  by (rule nth_equalityI) (simp_all add: hex_bytes_def SD_SECTOR_BYTES_def sector_hex_at byte_pad)

lemma sector_hex_upper: "list_all is_upper_hex (sector_hex bs)"
  by (induction bs) (auto simp: sector_hex_def upper_hex_pad)

lemma split_any_crlf: "LF \<notin> set l \<Longrightarrow> CR \<notin> set l \<Longrightarrow> split_any_nl (l @ CR # LF # s) = l # split_any_nl s"
  by (induction l) (auto simp: LF_def CR_def)

lemma split_lines_crlf: "list_all plain_line ls \<Longrightarrow> split_lines (crlf_text ls) = ls"
proof (induction ls)
  case Nil
  then show ?case by (simp add: split_lines_def crlf_text_def js_trim_def js_trim_end_def js_trim_start_def)
next
  case (Cons l ls)
  have "crlf_text (l # ls) = l @ CR # LF # crlf_text ls" by (simp add: crlf_text_def)
  moreover have "js_trim l = l" using Cons.prems by (intro js_trim_id) (auto simp: plain_line_def)
  ultimately show ?case using Cons by (simp add: split_lines_def split_any_crlf plain_line_def)
qed

lemma field_line_colon:
  assumes "key_text k" and "no_space v"
  shows "field_line setting_char '': '' (colon_line k v) = Some (k, v)"
proof -
  have "takeWhile setting_char (k @ '': '' @ v) = k" "dropWhile setting_char (k @ '': '' @ v) = '': '' @ v"
    using assms(1) by (simp_all add: key_text_def list_all_iff takeWhile_append dropWhile_append setting_char_def is_lower_def is_digit_def)
  moreover have "LF \<notin> set v" "CR \<notin> set v" using no_space_ends [OF assms(2)] line_break_space by blast+
  ultimately show ?thesis using assms(1) by (simp add: field_line_def colon_line_def key_text_def)
qed

lemma sd_keys: "list_all (\<lambda>k. key_text k \<and> prefix ''sd_data_'' k \<and> 8 < length k) SD_DATA_KEYS"
  by code_simp

lemma add_sd_colon:
  assumes "k \<in> set SD_DATA_KEYS" and "no_space v" and "map_of fs k = None"
  shows "add_sd_field (colon_line k v) fs = Inr (fs @ [(k, v)])"
  using sd_keys assms field_line_colon [of k v] by (simp add: add_sd_field_def sd_data_line_def list_all_iff)

definition reply_fields :: "nat \<Rightarrow> byte list \<Rightarrow> 32 word \<Rightarrow> (string \<times> string) list" where
  "reply_fields sector bytes crc = [(''sd_data_api'', ''1''), (''sd_data_sector'', show_nat sector), (''sd_data_hex'', sector_hex bytes),
     (''sd_data_crc32'', format_crc32 crc), (''sd_data_end'', ''1'')]"

lemma sd_reply_text_lines: "sd_reply_text sector bytes crc = crlf_text (List.map (\<lambda>(k, v). colon_line k v) (reply_fields sector bytes crc))"
  by (simp add: sd_reply_text_def reply_fields_def)

lemma reply_values:
  assumes "length bytes = 512"
  shows "list_all (\<lambda>(k, v). k \<in> set SD_DATA_KEYS \<and> no_space v) (reply_fields sector bytes crc)"
proof -
  have "no_space (sector_hex bytes)"
    using sector_hex_upper [of bytes] length_sector_hex [of bytes] assms upper_hex_plain
    by (fastforce simp: no_space_def list_all_iff)
  moreover have "no_space (format_crc32 crc)"
  proof -
    have "unat crc < 16 ^ 8" using unsigned_less [of crc, where ?'a = nat] by simp
    then have "length (hex_upper_pad 8 (unat crc)) = 8" by (simp add: hex_upper_pad_facts)
    then show ?thesis
      using upper_hex_pad [of 8 "unat crc"] upper_hex_plain by (fastforce simp: no_space_def list_all_iff format_crc32_def)
  qed
  moreover have "no_space (show_nat sector)"
    using show_nat_all_digits [of sector] digit_not_space by (auto simp: all_digits_def no_space_def list_all_iff)
  moreover have "no_space ''1''" by code_simp
  ultimately show ?thesis by (simp add: reply_fields_def SD_DATA_KEYS_def)
qed

lemma reply_split:
  assumes "length bytes = 512"
  shows "split_lines (sd_reply_text sector bytes crc) = List.map (\<lambda>(k, v). colon_line k v) (reply_fields sector bytes crc)"
proof -
  have "list_all plain_line (List.map (\<lambda>(k, v). colon_line k v) (reply_fields sector bytes crc))"
    using reply_values [OF assms, of sector crc] sd_keys by (auto simp: list_all_iff intro!: plain_colon)
  then show ?thesis unfolding sd_reply_text_lines by (rule split_lines_crlf)
qed

lemma fold_reply_fields:
  "list_all (\<lambda>(k, v). k \<in> set SD_DATA_KEYS \<and> no_space v) kvs \<Longrightarrow> distinct (List.map fst (fs @ kvs)) \<Longrightarrow>
   res_fold add_sd_field (List.map (\<lambda>(k, v). colon_line k v) kvs) fs = Inr (fs @ kvs)"
proof (induction kvs arbitrary: fs)
  case (Cons kv kvs)
  obtain k v where kv: "kv = (k, v)" by fastforce
  have "map_of fs k = None" using Cons.prems(2) kv by (auto simp: map_of_eq_None_iff)
  then have "add_sd_field (colon_line k v) fs = Inr (fs @ [(k, v)])" using Cons.prems(1) kv by (intro add_sd_colon) auto
  moreover have "res_fold add_sd_field (List.map (\<lambda>(k, v). colon_line k v) kvs) (fs @ [kv]) = Inr ((fs @ [kv]) @ kvs)"
    using Cons.prems by (intro Cons.IH) auto
  ultimately show ?case using kv by simp
qed simp

lemma reply_length:
  assumes "length bytes = 512" and "sector \<le> SD_MAX_SECTOR"
  shows "length (sd_reply_text sector bytes crc) \<le> SD_READ_REPLY_CAP"
proof -
  have "length (show_nat sector) \<le> 10" using assms(2) by (intro length_show_nat) (auto simp: SD_MAX_SECTOR_def)
  moreover have "length (format_crc32 crc) = 8"
    using unsigned_less [of crc, where ?'a = nat] by (simp add: format_crc32_def hex_upper_pad_facts)
  ultimately show ?thesis
    using assms(1) by (simp add: sd_reply_text_def crlf_text_def colon_line_def length_sector_hex SD_READ_REPLY_CAP_def)
qed

lemma reply_fields_checked:
  assumes "length bytes = 512" and "sector \<le> SD_MAX_SECTOR"
  shows "check_sd_fields (List.map (\<lambda>(k, v). colon_line k v) (reply_fields sector bytes crc)) sector (reply_fields sector bytes crc)
    = Inr (sector_hex bytes, format_crc32 crc)"
proof -
  have n: "length (show_nat sector) \<le> 10" using assms(2) by (intro length_show_nat) (auto simp: SD_MAX_SECTOR_def)
  have c: "upper_hex 8 (format_crc32 crc)"
    using unsigned_less [of crc, where ?'a = nat] by (simp add: format_crc32_def hex_upper_pad_facts upper_hex_def upper_hex_pad)
  have h: "upper_hex 1024 (sector_hex bytes)" using assms(1) by (simp add: upper_hex_def length_sector_hex sector_hex_upper)
  show ?thesis using n c h
    by (simp add: check_sd_fields_def reply_fields_def canonical_show_nat colon_line_def SD_DATA_KEYS_def Let_def)
qed

lemma parse_sd_reply_text:
  assumes "length bytes = 512" and "sector \<le> SD_MAX_SECTOR"
  shows "parse_sd_read_reply (sd_reply_text sector bytes crc) sector =
    (if crc32_ieee bytes \<noteq> crc then CrcMismatch sector (format_crc32 crc) (format_crc32 (crc32_ieee bytes)) else SdData sector bytes (format_crc32 crc))"
proof -
  let ?ls = "List.map (\<lambda>(k, v). colon_line k v) (reply_fields sector bytes crc)"
  have "find (prefix ''sd_data_error:'') ?ls = None" "find refusal_line ?ls = None"
    by (simp_all add: reply_fields_def colon_line_def refusal_line_def)
  moreover have "res_fold add_sd_field ?ls [] = Inr ([] @ reply_fields sector bytes crc)"
    using reply_values [OF assms(1)] by (rule fold_reply_fields) (simp add: reply_fields_def)
  ultimately show ?thesis
    using reply_length [OF assms, of crc] reply_fields_checked [OF assms, of crc] hex_bytes_sector [OF assms(1)]
    by (simp add: parse_sd_read_reply_def reply_split [OF assms(1)] Let_def format_crc32_inj)
qed

subsection \<open>The properties\<close>

text \<open>C32: A sector the firmware prints with its checksum is read back as the same 512 bytes; if one byte of it arrives
  changed, the reader reports a checksum mismatch and never returns the bytes.\<close>
theorem sd_read_roundtrip:
  assumes "length bytes = 512" and "sector \<le> SD_MAX_SECTOR" and "i < 512" and "b \<noteq> bytes ! i"
  shows "parse_sd_read_reply (sd_reply_text sector bytes (crc32_ieee bytes)) sector = SdData sector bytes (format_crc32 (crc32_ieee bytes))
    \<and> parse_sd_read_reply (sd_reply_text sector (bytes[i := b]) (crc32_ieee bytes)) sector
        = CrcMismatch sector (format_crc32 (crc32_ieee bytes)) (format_crc32 (crc32_ieee (bytes[i := b])))"
proof -
  have "crc32_ieee (bytes[i := b]) \<noteq> crc32_ieee bytes" using assms by (intro crc_one_byte) auto
  then show ?thesis using assms by (simp add: parse_sd_reply_text)
qed

lemma sd_read_roundtrip_witness:
  "parse_sd_read_reply (sd_reply_text 8192 (replicate 512 7) (crc32_ieee (replicate 512 7))) 8192
     = SdData 8192 (replicate 512 7) (format_crc32 (crc32_ieee (replicate 512 7)))
   \<and> fst (case parse_sd_read_reply (sd_reply_text 8192 ((replicate 512 7)[3 := 9]) (crc32_ieee (replicate 512 7))) 8192 of
        CrcMismatch s sent got \<Rightarrow> (s, got) | _ \<Rightarrow> (0, [])) = 8192"
  using sd_read_roundtrip [of "replicate 512 7" 8192 3 9] by (simp add: SD_MAX_SECTOR_def)

text \<open>Whatever text answers a read, bytes are returned only for the sector asked for, 512 of them, from a bounded reply
  without an error or refusal line that ends with its end line, and with the checksum the reply carried.\<close>
theorem sd_data_trusted:
  "case parse_sd_read_reply text sector of
     SdData s bytes crc \<Rightarrow> s = sector \<and> length bytes = 512 \<and> crc = format_crc32 (crc32_bitwise bytes)
       \<and> length text \<le> 16384 \<and> last (split_lines text) = ''sd_data_end: 1''
       \<and> list_all (\<lambda>l. \<not> prefix ''sd_data_error:'' l \<and> \<not> refusal_line l) (split_lines text)
   | CrcMismatch s sent actual \<Rightarrow> s = sector \<and> sent \<noteq> actual
   | SdError s l \<Rightarrow> s = sector \<and> l \<in> set (split_lines text)
   | SdRefused s l \<Rightarrow> s = sector \<and> l \<in> set (split_lines text)
   | SdTimeout s ms \<Rightarrow> False
   | SdMalformed s why \<Rightarrow> s = sector"
proof -
  have e: "find (prefix ''sd_data_error:'') ls = None \<Longrightarrow> find refusal_line ls = None \<Longrightarrow>
    list_all (\<lambda>l. \<not> prefix ''sd_data_error:'' l \<and> \<not> refusal_line l) ls" for ls
    by (auto simp: find_None_set list_all_iff)
  have l: "last ls = ''sd_data_end: 1''" if "check_sd_fields ls sector fs = Inr r" for ls fs r
    using that by (auto simp: check_sd_fields_def Let_def split: if_split_asm)
  show ?thesis
    by (auto simp: parse_sd_read_reply_def Let_def SD_READ_REPLY_CAP_def crc32_is_bitwise hex_bytes_def SD_SECTOR_BYTES_def res_bind_Inr_iff
      dest: e l find_Some_set split: option.split sum.split)
qed

end
