(* ===== verification/Onboard_Recorder.thy ===== *)
theory Onboard_Recorder
  imports Fc_Replies
begin

section \<open>The recorders: blackbox/onboard.ts, sd-card.ts, recorder.ts, fcCounters.ts\<close>

text \<open>
  The three controllers of the Blackbox page. Each parses a reply strictly, keeps the last good reading and drops
  answers that belong to an earlier view of the page. Asynchronous methods are steps: a request leaves a flight, an
  answer settles it, and clicks, ticks of the page timer and a lost connection may come between. Time is the caller's
  clock in whole milliseconds. Texts shown to the user are constructors or keep only what varies in them.
\<close>

subsection \<open>Reply patterns\<close>

text \<open>\<open>/(^|\n)(unknown\b|pre)/i\<close>: a line (cut at line feeds) starts so.\<close>

definition some_line_starts :: "string \<Rightarrow> string \<Rightarrow> bool" where
  "some_line_starts pre raw \<longleftrightarrow> list_ex (prefix pre) (split_char LF raw)"

definition says_unavailable :: "string \<Rightarrow> string \<Rightarrow> bool" where
  "says_unavailable pre raw \<longleftrightarrow> some_line_starts pre (js_lower_ascii raw)
     \<or> list_ex (\<lambda>l. prefix ''unknown'' l \<and> (drop 7 l = [] \<or> \<not> is_word (hd (drop 7 l)))) (split_char LF (js_lower_ascii raw))"

text \<open>\<open>/^(pre[a-z_]+):\s*(.*?)\s*$/\<close>.\<close>

definition keyed_line :: "string \<Rightarrow> string \<Rightarrow> (string \<times> string) option" where
  "keyed_line pre l =
     (let k = takeWhile key_char l; r = dropWhile key_char l; v = js_trim (tl r) in
      if prefix pre k \<and> length pre < length k \<and> r \<noteq> [] \<and> hd r = CHR '':'' \<and> LF \<notin> set v \<and> CR \<notin> set v then Some (k, v) else None)"

definition add_keyed :: "(string \<Rightarrow> 'e) \<Rightarrow> (string \<Rightarrow> (string \<times> string) option) \<Rightarrow> string \<Rightarrow> (string \<times> string) list
    \<Rightarrow> 'e + (string \<times> string) list" where
  "add_keyed err match_line line fs = (case match_line line of
     None \<Rightarrow> Inr fs
   | Some (k, v) \<Rightarrow> if map_of fs k \<noteq> None then Inl (err k) else Inr (fs @ [(k, v)]))"

text \<open>\<open>/^\d+$/\<close> and a safe integer.\<close>

definition safe_uint :: "string \<Rightarrow> nat option" where
  "safe_uint v = (if all_digits v \<and> dec_num v \<le> MAX_SAFE_INTEGER then Some (dec_num v) else None)"

subsection \<open>The reply of \<open>blackbox status\<close>\<close>

definition ONBOARD_COMMANDS :: "string list" where
  "ONBOARD_COMMANDS = [''blackbox start'', ''blackbox stop'', ''blackbox status'']"

definition ONBOARD_STATES :: "string list" where
  "ONBOARD_STATES = [''initializing'', ''idle'', ''preparing'', ''writing-header'', ''recording'', ''draining'', ''closing'', ''done'', ''error'']"

definition ONBOARD_RATES_HZ :: "nat list" where "ONBOARD_RATES_HZ = [125, 250, 500, 1000]"
definition ONBOARD_QUEUE_CAPACITY :: nat where "ONBOARD_QUEUE_CAPACITY = 64"
definition ONBOARD_UNKNOWN :: string where "ONBOARD_UNKNOWN = ''unknown''"

definition ONBOARD_ACTIVE_STATES :: "string list" where
  "ONBOARD_ACTIVE_STATES = [''initializing'', ''preparing'', ''writing-header'', ''recording'', ''draining'', ''closing'']"

record onboard_snapshot =
  on_api :: nat
  on_state :: string
  on_reason :: string
  on_file :: string
  on_bytes :: nat
  on_frames :: nat
  on_rate_hz :: "nat option"
  on_requested_hz :: "nat option"
  on_rate_reason :: "string option"
  on_drop_pct :: "string option"
  on_dropped :: nat
  on_missed :: nat
  on_invalid :: nat
  on_queue :: nat
  on_active :: bool
  on_unavailable :: bool
  on_raw :: string

datatype onboard_error =
    OnTooLong
  | OnRefused string
  | OnNoEnd
  | OnDuplicate string
  | OnIncomplete
  | OnMissing string
  | OnBadNumber string
  | OnBadRate string
  | OnInconsistent
  | OnBadReason
  | OnBadDropPct
  | OnRatesInconsistent

definition onboard_required :: "string list" where
  "onboard_required = [''blackbox_api'', ''blackbox_state'', ''blackbox_reason'', ''blackbox_file'', ''blackbox_bytes'', ''blackbox_frames'',
     ''blackbox_dropped'', ''blackbox_missed'', ''blackbox_invalid'', ''blackbox_queue'', ''blackbox_active'', ''blackbox_end'']"

definition onboard_uint :: "(string \<rightharpoonup> string) \<Rightarrow> string \<Rightarrow> onboard_error + nat" where
  "onboard_uint field key = (case Option.bind (field key) safe_uint of Some n \<Rightarrow> Inr n | None \<Rightarrow> Inl (OnBadNumber key))"

definition onboard_rate :: "(string \<rightharpoonup> string) \<Rightarrow> string \<Rightarrow> onboard_error + nat option" where
  "onboard_rate field key =
     (if field key = None then Inr None
      else res_bind (onboard_uint field key) (\<lambda>hz. if hz \<in> set ONBOARD_RATES_HZ then Inr (Some hz) else Inl (OnBadRate key)))"

text \<open>\<open>/^(BFL\d{5}\.BBL)?$/\<close>, \<open>/^[a-z0-9-]{1,40}$/\<close> and \<open>/^(?:100|[1-9]?\d)\.\d$/\<close> up to 100.\<close>

definition onboard_file_ok :: "string \<Rightarrow> bool" where
  "onboard_file_ok s \<longleftrightarrow> s = [] \<or> length s = 12 \<and> prefix ''BFL'' s \<and> list_all is_digit (take 5 (drop 3 s)) \<and> drop 8 s = ''.BBL''"

definition rate_reason_ok :: "string \<Rightarrow> bool" where
  "rate_reason_ok s \<longleftrightarrow> s \<noteq> [] \<and> length s \<le> 40 \<and> list_all (\<lambda>c. is_lower c \<or> is_digit c \<or> c = CHR ''-'') s"

definition drop_pct_ok :: "string \<Rightarrow> bool" where
  "drop_pct_ok s \<longleftrightarrow> (case split_char (CHR ''.'') s of
     [a, d] \<Rightarrow> length d = 1 \<and> all_digits d \<and> (if a = ''100'' then d = ''0'' else all_digits a \<and> canonical_uint a \<and> length a \<le> 2)
   | _ \<Rightarrow> False)"

record onboard_rates =
  rates_requested :: "nat option"
  rates_reason :: "string option"
  rates_drop_pct :: "string option"

text \<open>What only firmware of api 2 reports; an older one leaves it unknown.\<close>

definition onboard_api2 :: "(string \<rightharpoonup> string) \<Rightarrow> nat option \<Rightarrow> onboard_error + onboard_rates" where
  "onboard_api2 field rate =
     res_bind (onboard_rate field ''blackbox_rate_requested_hz'') (\<lambda>requested.
     let reason = field ''blackbox_rate_reason''; pct = field ''blackbox_drop_pct'' in
     if (case reason of Some r \<Rightarrow> \<not> rate_reason_ok r | None \<Rightarrow> False) then Inl OnBadReason
     else if (case pct of Some p \<Rightarrow> \<not> drop_pct_ok p | None \<Rightarrow> False) then Inl OnBadDropPct
     else (case (rate, requested) of
        (Some hz, Some want) \<Rightarrow>
          if hz > want \<or> reason = Some ''default'' \<and> hz \<noteq> want \<or> reason = Some ''auto-lowered-card-slow'' \<and> hz \<ge> want
          then Inl OnRatesInconsistent
          else Inr \<lparr>rates_requested = requested, rates_reason = reason, rates_drop_pct = pct\<rparr>
      | _ \<Rightarrow> Inr \<lparr>rates_requested = requested, rates_reason = reason, rates_drop_pct = pct\<rparr>))"

definition onboard_values :: "string \<Rightarrow> (string \<rightharpoonup> string) \<Rightarrow> nat \<Rightarrow> onboard_error + onboard_snapshot" where
  "onboard_values raw field api =
     (let str = (\<lambda>k. case field k of Some v \<Rightarrow> v | None \<Rightarrow> []); active = (field ''blackbox_active'' = Some ''1'') in
      res_bind (onboard_rate field ''blackbox_rate_hz'') (\<lambda>rate.
      if (str ''blackbox_state'' \<in> set ONBOARD_ACTIVE_STATES) \<noteq> active \<or> api = 1 \<and> rate \<noteq> None \<and> rate \<noteq> Some 500
      then Inl OnInconsistent
      else res_bind (onboard_uint field ''blackbox_queue'') (\<lambda>queue.
      if queue > ONBOARD_QUEUE_CAPACITY \<or> \<not> onboard_file_ok (str ''blackbox_file'') then Inl OnInconsistent
      else res_bind (onboard_uint field ''blackbox_frames'') (\<lambda>frames.
      res_bind (onboard_uint field ''blackbox_dropped'') (\<lambda>dropped.
      res_bind (if api \<ge> 2 then onboard_api2 field rate
                else Inr \<lparr>rates_requested = None, rates_reason = None, rates_drop_pct = None\<rparr>) (\<lambda>rates.
      res_bind (onboard_uint field ''blackbox_bytes'') (\<lambda>bytes.
      res_bind (onboard_uint field ''blackbox_missed'') (\<lambda>missed.
      res_bind (onboard_uint field ''blackbox_invalid'') (\<lambda>invalid.
      Inr \<lparr>on_api = api, on_state = str ''blackbox_state'', on_reason = str ''blackbox_reason'', on_file = str ''blackbox_file'',
           on_bytes = bytes, on_frames = frames, on_rate_hz = rate, on_requested_hz = rates_requested rates,
           on_rate_reason = rates_reason rates, on_drop_pct = rates_drop_pct rates, on_dropped = dropped, on_missed = missed,
           on_invalid = invalid, on_queue = queue, on_active = active, on_unavailable = False, on_raw = raw\<rparr>)))))))))"

definition onboard_facts :: "string \<Rightarrow> (string \<rightharpoonup> string) \<Rightarrow> onboard_error + onboard_snapshot" where
  "onboard_facts raw field =
     (if field ''blackbox_end'' \<noteq> Some ''1'' \<or> field ''blackbox_api'' \<noteq> Some ''1'' \<and> field ''blackbox_api'' \<noteq> Some ''2''
         \<or> (case field ''blackbox_state'' of Some v \<Rightarrow> v \<notin> set ONBOARD_STATES | None \<Rightarrow> True)
         \<or> field ''blackbox_active'' \<noteq> Some ''0'' \<and> field ''blackbox_active'' \<noteq> Some ''1''
      then Inl OnIncomplete
      else case find (\<lambda>k. field k = None) onboard_required of
        Some k \<Rightarrow> Inl (OnMissing k)
      | None \<Rightarrow> onboard_values raw field (if field ''blackbox_api'' = Some ''2'' then 2 else 1))"

definition onboard_unavailable :: "string \<Rightarrow> onboard_snapshot" where
  "onboard_unavailable raw = \<lparr>on_api = 1, on_state = ''unavailable'', on_reason = js_trim raw, on_file = [], on_bytes = 0, on_frames = 0,
     on_rate_hz = None, on_requested_hz = None, on_rate_reason = None, on_drop_pct = None, on_dropped = 0, on_missed = 0,
     on_invalid = 0, on_queue = 0, on_active = False, on_unavailable = True, on_raw = raw\<rparr>"

definition parse_onboard_reply :: "string \<Rightarrow> onboard_error + onboard_snapshot" where
  "parse_onboard_reply raw =
     (if length raw > 8192 then Inl OnTooLong
      else if says_unavailable ''blackbox unavailable:'' raw
           \<or> list_ex (\<lambda>s. prefix ''blackbox_state:'' s \<and> prefix ''unavailable-mock'' (js_trim_start (drop 15 s))) (suffixes raw)
      then Inr (onboard_unavailable raw)
      else case find (prefix ''blackbox refused:'') (split_nl raw) of
        Some l \<Rightarrow> Inl (OnRefused l)
      | None \<Rightarrow>
          if last (split_nl (js_trim_end raw)) \<noteq> ''blackbox_end: 1'' then Inl OnNoEnd
          else res_bind (res_fold (add_keyed OnDuplicate (\<lambda>l. keyed_line ''blackbox_'' (js_trim l))) (split_nl raw) [])
                 (\<lambda>fs. onboard_facts raw (map_of fs)))"


subsection \<open>What the page shows\<close>

definition format_onboard_hz :: "nat option \<Rightarrow> string" where
  "format_onboard_hz hz = (case hz of None \<Rightarrow> ONBOARD_UNKNOWN | Some n \<Rightarrow> show_nat n @ '' Hz'')"

definition format_onboard_drop_pct :: "string option \<Rightarrow> string" where
  "format_onboard_drop_pct pct = (case pct of None \<Rightarrow> ONBOARD_UNKNOWN | Some p \<Rightarrow> p @ ''%'')"

definition onboard_auto_lowered :: "onboard_snapshot \<Rightarrow> bool" where
  "onboard_auto_lowered s \<longleftrightarrow> on_rate_reason s = Some ''auto-lowered-card-slow''"

definition onboard_effective_hz :: "onboard_snapshot \<Rightarrow> nat option" where
  "onboard_effective_hz s = (if on_api s \<ge> 2 then on_rate_hz s else None)"

definition describe_onboard_api1_target :: "onboard_snapshot \<Rightarrow> string option" where
  "describe_onboard_api1_target s = (if on_api s = 1 then Some (format_onboard_hz (on_rate_hz s)) else None)"

definition describe_onboard_rate :: "onboard_snapshot \<Rightarrow> string" where
  "describe_onboard_rate s =
     (let rate = format_onboard_hz (onboard_effective_hz s) in
      if onboard_auto_lowered s
      then rate @ '' (requested '' @ format_onboard_hz (on_requested_hz s) @ ''; auto-lowered because the SD card could not keep up)''
      else rate)"

text \<open>\<open>toLocaleString('en-US')\<close> of an unsigned integer, and the count of dropped samples.\<close>

fun group_digits :: "string \<Rightarrow> string" where
  "group_digits (a # b # c # d # r) = a # b # c # CHR '','' # group_digits (d # r)"
| "group_digits s = s"

definition locale_nat :: "nat \<Rightarrow> string" where
  "locale_nat n = rev (group_digits (rev (show_nat n)))"

definition describe_onboard_drops :: "onboard_snapshot \<Rightarrow> string" where
  "describe_onboard_drops s = locale_nat (on_dropped s) @ '' dropped ('' @ format_onboard_drop_pct (on_drop_pct s) @ '')''"

subsection \<open>Counters as the controller sent them\<close>

definition BLACKBOX_COUNTER_KEYS :: "string list" where
  "BLACKBOX_COUNTER_KEYS = [''blackbox_frames'', ''blackbox_dropped'', ''blackbox_missed'', ''blackbox_invalid'', ''blackbox_queue'',
     ''blackbox_drop_pct'', ''blackbox_rate_hz'', ''blackbox_rate_requested_hz'', ''blackbox_rate_reason'']"

definition STATUS_COUNTER_KEYS :: "string list" where "STATUS_COUNTER_KEYS = [''arm'', ''loop_overruns'']"

text \<open>\<open>/^([a-z0-9_]+):(.*)$/\<close> on trimmed lines, and the values a key was sent with.\<close>

definition counter_line :: "string \<Rightarrow> (string \<times> string) option" where
  "counter_line l = map_option (\<lambda>(k, v). (k, js_trim v)) (field_line setting_char '':'' (js_trim l))"

definition counter_values :: "string \<Rightarrow> string \<Rightarrow> string list" where
  "counter_values raw key = List.map snd (filter (\<lambda>(k, v). k = key) (List.map_filter counter_line (split_any_nl raw)))"

definition verbatim_counters :: "string option \<Rightarrow> string list \<Rightarrow> (string \<times> string) list" where
  "verbatim_counters raw keys =
     List.map (\<lambda>key. (key, case counter_values (case raw of Some t \<Rightarrow> t | None \<Rightarrow> []) key of
       [v] \<Rightarrow> if v \<noteq> [] then v else ONBOARD_UNKNOWN | _ \<Rightarrow> ONBOARD_UNKNOWN)) keys"

subsection \<open>The onboard recorder\<close>

datatype onboard_problem = ObBadReply onboard_error | ObThrown string

text \<open>A flight is the epoch a request was made in and its line; the log of sent lines tells the user's clicks apart.\<close>

record onboard_ctl =
  oc_snapshot :: "onboard_snapshot option"
  oc_stale :: bool
  oc_last_raw :: "string option"
  oc_error :: "onboard_problem option"
  oc_pending :: bool
  oc_enabled :: bool
  oc_epoch :: nat
  oc_next_poll :: int
  oc_flights :: "(nat \<times> string) list"
  oc_sent :: "(bool \<times> string) list"

definition initial_onboard :: onboard_ctl where
  "initial_onboard = \<lparr>oc_snapshot = None, oc_stale = False, oc_last_raw = None, oc_error = None, oc_pending = False, oc_enabled = False,
     oc_epoch = 0, oc_next_poll = 0, oc_flights = [], oc_sent = []\<rparr>"

definition onboard_active :: "onboard_ctl \<Rightarrow> bool" where
  "onboard_active s \<longleftrightarrow> (case oc_snapshot s of Some snap \<Rightarrow> on_active snap | None \<Rightarrow> False)"

definition onboard_busy :: "onboard_ctl \<Rightarrow> bool" where
  "onboard_busy s \<longleftrightarrow> oc_pending s \<or> onboard_active s"

definition onboard_set_enabled :: "bool \<Rightarrow> onboard_ctl \<Rightarrow> onboard_ctl" where
  "onboard_set_enabled on s =
     (if oc_enabled s = on then s
      else s\<lparr>oc_enabled := on, oc_epoch := Suc (oc_epoch s), oc_pending := False, oc_snapshot := None, oc_stale := False,
             oc_last_raw := None, oc_error := None, oc_next_poll := 0\<rparr>)"

definition onboard_command :: "bool \<Rightarrow> string \<Rightarrow> bool \<Rightarrow> int \<Rightarrow> onboard_ctl \<Rightarrow> onboard_ctl" where
  "onboard_command click cmd online now s =
     (if \<not> oc_enabled s \<or> oc_pending s \<or> cmd \<notin> set ONBOARD_COMMANDS \<or> \<not> online then s
      else s\<lparr>oc_pending := True, oc_next_poll := now + 1000, oc_error := None,
             oc_flights := oc_flights s @ [(oc_epoch s, cmd)], oc_sent := oc_sent s @ [(click, cmd)]\<rparr>)"

definition onboard_settled :: "nat \<Rightarrow> onboard_ctl \<Rightarrow> onboard_ctl" where
  "onboard_settled tok s = (if tok = oc_epoch s then s\<lparr>oc_pending := False\<rparr> else s)"

definition onboard_reading :: "string \<Rightarrow> int \<Rightarrow> onboard_ctl \<Rightarrow> onboard_ctl" where
  "onboard_reading raw now s =
     (case parse_onboard_reply raw of
        Inl e \<Rightarrow> s\<lparr>oc_last_raw := Some raw, oc_stale := oc_snapshot s \<noteq> None, oc_error := Some (ObBadReply e)\<rparr>
      | Inr snap \<Rightarrow> s\<lparr>oc_last_raw := Some raw, oc_snapshot := Some snap, oc_stale := False, oc_next_poll := now + 1000\<rparr>)"

definition onboard_answer :: "nat \<Rightarrow> string + string \<Rightarrow> bool \<Rightarrow> int \<Rightarrow> onboard_ctl \<Rightarrow> onboard_ctl" where
  "onboard_answer tok ans online now s0 =
     (if map_of (oc_flights s0) tok = None then s0
      else let s = s0\<lparr>oc_flights := filter (\<lambda>(t, c). t \<noteq> tok) (oc_flights s0)\<rparr> in
      onboard_settled tok (case ans of
        Inr raw \<Rightarrow> if \<not> oc_enabled s \<or> tok \<noteq> oc_epoch s \<or> \<not> online then s else onboard_reading raw now s
      | Inl msg \<Rightarrow> if oc_enabled s \<and> tok = oc_epoch s then s\<lparr>oc_error := Some (ObThrown (take 1000 msg))\<rparr> else s))"

definition onboard_tick :: "bool \<Rightarrow> int \<Rightarrow> onboard_ctl \<Rightarrow> onboard_ctl" where
  "onboard_tick online now s =
     (if \<not> oc_enabled s \<or> oc_pending s then s
      else if \<not> online then onboard_set_enabled False s
      else if now \<ge> oc_next_poll s then onboard_command False ''blackbox status'' online now s else s)"

datatype onboard_event =
    OnEnable bool
  | OnClick string bool int
  | OnTick bool int
  | OnAnswer nat "string + string" bool int

fun onboard_step :: "onboard_event \<Rightarrow> onboard_ctl \<Rightarrow> onboard_ctl" where
  "onboard_step (OnEnable on) s = onboard_set_enabled on s"
| "onboard_step (OnClick cmd online now) s = onboard_command True cmd online now s"
| "onboard_step (OnTick online now) s = onboard_tick online now s"
| "onboard_step (OnAnswer tok ans online now) s = onboard_answer tok ans online now s"

subsection \<open>The SD card check\<close>

definition SD_COMMANDS :: "string list" where "SD_COMMANDS = [''sd probe'', ''sd status'', ''sd cancel'']"

definition SD_ACTIVE :: "string list" where "SD_ACTIVE = [''initializing'', ''reading-mbr'', ''reading-boot-sector'']"

definition SD_STATES :: "string list" where
  "SD_STATES = ''idle'' # SD_ACTIVE @ [''done'', ''error'', ''cancelled'']"

record sd_snapshot =
  sc_state :: string
  sc_detail :: string
  sc_capacity_bytes :: "nat option"
  sc_filesystem :: string
  sc_partition_lba :: "nat option"
  sc_cluster_bytes :: "nat option"
  sc_volume_flags :: "nat option"
  sc_io_error :: "nat option"
  sc_unavailable :: bool
  sc_raw :: string

datatype sd_card_error = ScTooLong | ScRefused string | ScDuplicate | ScIncomplete | ScBadNumber

definition sd_card_number :: "(string \<rightharpoonup> string) \<Rightarrow> string \<Rightarrow> sd_card_error + nat option" where
  "sd_card_number field key = (case field key of
     None \<Rightarrow> Inr None
   | Some v \<Rightarrow> (case safe_uint v of Some n \<Rightarrow> Inr (Some n) | None \<Rightarrow> Inl ScBadNumber))"

text \<open>\<open>fields.k || other\<close>.\<close>

definition text_or :: "string \<Rightarrow> string option \<Rightarrow> string" where
  "text_or other v = (case v of Some t \<Rightarrow> if t \<noteq> [] then t else other | None \<Rightarrow> other)"

definition sd_card_facts :: "string \<Rightarrow> (string \<rightharpoonup> string) \<Rightarrow> sd_card_error + sd_snapshot" where
  "sd_card_facts raw field =
     (let state = (case field ''sd_state'' of Some v \<Rightarrow> v | None \<Rightarrow> []) in
      if field ''sd_end'' \<noteq> Some ''1'' \<or> field ''sd_api'' \<noteq> Some ''1'' \<or> state \<notin> set SD_STATES
         \<or> field ''sd_write_enabled'' \<noteq> Some ''no'' \<or> field ''sd_filesystem_validated'' \<noteq> Some ''no''
      then Inl ScIncomplete
      else res_bind (sd_card_number field ''sd_capacity_bytes'') (\<lambda>capacity.
           res_bind (sd_card_number field ''sd_partition_lba'') (\<lambda>lba.
           res_bind (sd_card_number field ''sd_cluster_bytes'') (\<lambda>cluster.
           res_bind (sd_card_number field ''sd_volume_flags'') (\<lambda>flags.
           res_bind (sd_card_number field ''sd_io_error'') (\<lambda>io.
           Inr \<lparr>sc_state = state, sc_detail = text_or [] (field ''sd_detail''), sc_capacity_bytes = capacity,
                sc_filesystem = text_or ''unknown'' (field ''sd_filesystem_hint''), sc_partition_lba = lba, sc_cluster_bytes = cluster,
                sc_volume_flags = flags, sc_io_error = io, sc_unavailable = False, sc_raw = raw\<rparr>))))))"

definition parse_sd_reply :: "string \<Rightarrow> sd_card_error + sd_snapshot" where
  "parse_sd_reply raw =
     (if length raw > 8192 then Inl ScTooLong
      else if says_unavailable ''sd unavailable:'' raw \<or> js_includes ''sd_state: unavailable-mock'' raw
      then Inr \<lparr>sc_state = ''unavailable'', sc_detail = js_trim raw, sc_capacity_bytes = None, sc_filesystem = ''unknown'',
             sc_partition_lba = None, sc_cluster_bytes = None, sc_volume_flags = None, sc_io_error = None, sc_unavailable = True, sc_raw = raw\<rparr>
      else case find (prefix ''sd refused:'') (split_nl raw) of
        Some l \<Rightarrow> Inl (ScRefused l)
      | None \<Rightarrow> res_bind (res_fold (add_keyed (\<lambda>k. ScDuplicate) (keyed_line ''sd_'')) (split_nl raw) []) (\<lambda>fs. sd_card_facts raw (map_of fs)))"

datatype sd_card_problem = ScBadReply sd_card_error | ScThrown string | ScPollTimeout

record sd_card_ctl =
  cc_snapshot :: "sd_snapshot option"
  cc_error :: "sd_card_problem option"
  cc_pending :: bool
  cc_polling :: bool
  cc_enabled :: bool
  cc_epoch :: nat
  cc_started :: int
  cc_next_poll :: int
  cc_flight :: "(nat \<times> string) option"
  cc_sent :: "(bool \<times> string) list"

definition initial_sd_card :: sd_card_ctl where
  "initial_sd_card = \<lparr>cc_snapshot = None, cc_error = None, cc_pending = False, cc_polling = False, cc_enabled = False, cc_epoch = 0,
     cc_started = 0, cc_next_poll = 0, cc_flight = None, cc_sent = []\<rparr>"

definition sd_card_busy :: "sd_card_ctl \<Rightarrow> bool" where
  "sd_card_busy s \<longleftrightarrow> cc_pending s \<or> cc_polling s"

definition sd_card_set_enabled :: "bool \<Rightarrow> sd_card_ctl \<Rightarrow> sd_card_ctl" where
  "sd_card_set_enabled on s =
     (if cc_enabled s = on then s
      else s\<lparr>cc_enabled := on, cc_epoch := Suc (cc_epoch s), cc_polling := False, cc_snapshot := None, cc_error := None\<rparr>)"

definition sd_card_command :: "bool \<Rightarrow> string \<Rightarrow> bool \<Rightarrow> sd_card_ctl \<Rightarrow> sd_card_ctl" where
  "sd_card_command click cmd online s =
     (if \<not> cc_enabled s \<or> cc_pending s \<or> cmd \<notin> set SD_COMMANDS \<or> \<not> online then s
      else if cmd = ''sd probe'' \<and> cc_polling s then s
      else s\<lparr>cc_pending := True, cc_error := None, cc_flight := Some (cc_epoch s, cmd), cc_sent := cc_sent s @ [(click, cmd)]\<rparr>)"

definition sd_card_failed :: "nat \<Rightarrow> sd_card_problem \<Rightarrow> sd_card_ctl \<Rightarrow> sd_card_ctl" where
  "sd_card_failed tok e s = (if cc_enabled s \<and> tok = cc_epoch s then s\<lparr>cc_error := Some e, cc_polling := False\<rparr> else s)"

definition sd_card_reading :: "sd_snapshot \<Rightarrow> int \<Rightarrow> sd_card_ctl \<Rightarrow> sd_card_ctl" where
  "sd_card_reading snap now s =
     (let polling = sc_state snap \<in> set SD_ACTIVE in
      s\<lparr>cc_snapshot := Some snap, cc_polling := polling,
        cc_started := (if polling \<and> \<not> cc_polling s then now else cc_started s), cc_next_poll := now + 1000\<rparr>)"

definition sd_card_answer :: "string + string \<Rightarrow> bool \<Rightarrow> int \<Rightarrow> sd_card_ctl \<Rightarrow> sd_card_ctl" where
  "sd_card_answer ans online now s =
     (case cc_flight s of
        None \<Rightarrow> s
      | Some (tok, cmd) \<Rightarrow>
          (case ans of
             Inr raw \<Rightarrow>
               if \<not> cc_enabled s \<or> tok \<noteq> cc_epoch s \<or> \<not> online then s
               else (case parse_sd_reply raw of Inl e \<Rightarrow> sd_card_failed tok (ScBadReply e) s | Inr snap \<Rightarrow> sd_card_reading snap now s)
           | Inl msg \<Rightarrow> sd_card_failed tok (ScThrown (take 1000 msg)) s)\<lparr>cc_pending := False, cc_flight := None\<rparr>)"

definition sd_card_tick :: "bool \<Rightarrow> int \<Rightarrow> sd_card_ctl \<Rightarrow> sd_card_ctl" where
  "sd_card_tick online now s =
     (if \<not> cc_enabled s \<or> \<not> cc_polling s \<or> cc_pending s then s
      else if \<not> online then sd_card_set_enabled False s
      else if now - cc_started s \<ge> 15000 then s\<lparr>cc_polling := False, cc_error := Some ScPollTimeout\<rparr>
      else if now \<ge> cc_next_poll s then sd_card_command False ''sd status'' online s else s)"

datatype sd_card_event = ScEnable bool | ScClick string bool | ScTick bool int | ScAnswer "string + string" bool int

fun sd_card_step :: "sd_card_event \<Rightarrow> sd_card_ctl \<Rightarrow> sd_card_ctl" where
  "sd_card_step (ScEnable on) s = sd_card_set_enabled on s"
| "sd_card_step (ScClick cmd online) s = sd_card_command True cmd online s"
| "sd_card_step (ScTick online now) s = sd_card_tick online now s"
| "sd_card_step (ScAnswer ans online now) s = sd_card_answer ans online now s"


subsection \<open>The USB bench recorder and its CSV\<close>

definition QUERIES :: "string list" where
  "QUERIES = [''sensors'', ''receiver'', ''power'', ''status'', ''pid_diag status'']"

record bench_sample =
  sm_command :: string
  sm_requested :: int
  sm_received :: int
  sm_raw :: string
  sm_error :: "string option"

text \<open>A flight holds the token, the line and the time of the request.\<close>

record recorder =
  rc_samples :: "bench_sample list"
  rc_reason :: string
  rc_active :: bool
  rc_pending :: bool
  rc_epoch :: nat
  rc_start :: int
  rc_bytes :: nat
  rc_index :: nat
  rc_queries :: "string list"
  rc_flight :: "(nat \<times> string \<times> int) option"
  rc_sent :: "string list"

definition initial_recorder :: recorder where
  "initial_recorder = \<lparr>rc_samples = [], rc_reason = ''not-started'', rc_active = False, rc_pending = False, rc_epoch = 0, rc_start = 0,
     rc_bytes = 0, rc_index = 0, rc_queries = QUERIES, rc_flight = None, rc_sent = []\<rparr>"

definition recorder_start :: "string list \<Rightarrow> bool \<Rightarrow> int \<Rightarrow> recorder \<Rightarrow> recorder" where
  "recorder_start qs online now r =
     (if rc_active r \<or> rc_pending r \<or> \<not> online \<or> qs = [] \<or> \<not> set qs \<subseteq> set QUERIES then r
      else r\<lparr>rc_samples := [], rc_reason := ''recording'', rc_active := True, rc_start := now, rc_bytes := 0, rc_index := 0,
             rc_queries := qs, rc_epoch := Suc (rc_epoch r)\<rparr>)"

definition recorder_stop :: "string \<Rightarrow> recorder \<Rightarrow> recorder" where
  "recorder_stop why r = (if rc_active r then r\<lparr>rc_active := False, rc_reason := why, rc_epoch := Suc (rc_epoch r)\<rparr> else r)"

definition RECORD_MS :: int where "RECORD_MS = 600000"
definition RECORD_SAMPLES :: nat where "RECORD_SAMPLES = 5000"
definition RECORD_BYTES :: nat where "RECORD_BYTES = 8 * 1024 * 1024"

definition recorder_line :: "recorder \<Rightarrow> string" where
  "recorder_line r = (if rc_index r = 0 then ''version'' else rc_queries r ! ((rc_index r - 1) mod length (rc_queries r)))"

definition recorder_tick :: "bool \<Rightarrow> int \<Rightarrow> recorder \<Rightarrow> recorder" where
  "recorder_tick online now r =
     (if \<not> rc_active r \<or> rc_pending r then r
      else if \<not> online then recorder_stop ''disconnected'' r
      else if now - rc_start r \<ge> RECORD_MS then recorder_stop ''ten-minute-limit'' r
      else if length (rc_samples r) \<ge> RECORD_SAMPLES then recorder_stop ''sample-limit'' r
      else r\<lparr>rc_pending := True, rc_index := Suc (rc_index r), rc_flight := Some (rc_epoch r, recorder_line r, now - rc_start r),
             rc_sent := rc_sent r @ [recorder_line r]\<rparr>)"

definition recorder_reading :: "string + string \<Rightarrow> bool \<Rightarrow> int \<Rightarrow> nat \<Rightarrow> string \<Rightarrow> int \<Rightarrow> recorder \<Rightarrow> recorder" where
  "recorder_reading ans online now tok cmd requested r =
     (if \<not> rc_active r \<or> tok \<noteq> rc_epoch r then r
      else case ans of
        Inr raw \<Rightarrow>
          if \<not> online then recorder_stop ''disconnected'' r
          else if rc_bytes r + length raw * 2 > RECORD_BYTES then recorder_stop ''memory-limit'' r
          else r\<lparr>rc_bytes := rc_bytes r + length raw * 2, rc_samples := rc_samples r @
                 [\<lparr>sm_command = cmd, sm_requested = requested, sm_received = now - rc_start r, sm_raw = raw, sm_error = None\<rparr>]\<rparr>
      | Inl e \<Rightarrow> recorder_stop ''request-failed'' (r\<lparr>rc_samples := rc_samples r @
                 [\<lparr>sm_command = cmd, sm_requested = requested, sm_received = now - rc_start r, sm_raw = [], sm_error = Some (take 1000 e)\<rparr>]\<rparr>))"

definition recorder_answer :: "string + string \<Rightarrow> bool \<Rightarrow> int \<Rightarrow> recorder \<Rightarrow> recorder" where
  "recorder_answer ans online now r =
     (case rc_flight r of
        None \<Rightarrow> r
      | Some (tok, cmd, requested) \<Rightarrow> (recorder_reading ans online now tok cmd requested r)\<lparr>rc_pending := False, rc_flight := None\<rparr>)"

datatype recorder_event =
    RecStart "string list" bool int
  | RecStop string
  | RecTick bool int
  | RecAnswer "string + string" bool int

fun recorder_step :: "recorder_event \<Rightarrow> recorder \<Rightarrow> recorder" where
  "recorder_step (RecStart qs online now) r = recorder_start qs online now r"
| "recorder_step (RecStop why) r = recorder_stop why r"
| "recorder_step (RecTick online now) r = recorder_tick online now r"
| "recorder_step (RecAnswer ans online now) r = recorder_answer ans online now r"

datatype csv_value = CsvText string | CsvNumber int

definition show_int :: "int \<Rightarrow> string" where
  "show_int i = (if i < 0 then ''-'' @ show_nat (nat (- i)) else show_nat (nat i))"

text \<open>\<open>/^[\s]*[=+@-]/\<close>.\<close>

definition formula_like :: "string \<Rightarrow> bool" where
  "formula_like s \<longleftrightarrow> (case dropWhile js_space s of [] \<Rightarrow> False | c # _ \<Rightarrow> c \<in> set ''=+@-'')"

fun double_quotes :: "string \<Rightarrow> string" where
  "double_quotes [] = []"
| "double_quotes (c # cs) = (if c = CHR 0x22 then [c, c] else [c]) @ double_quotes cs"

fun cell_text :: "csv_value \<Rightarrow> string" where
  "cell_text (CsvText s) = (if formula_like s then [CHR 0x27] else []) @ s"
| "cell_text (CsvNumber i) = show_int i"

definition csv_cell :: "csv_value \<Rightarrow> string" where
  "csv_cell v = [CHR 0x22] @ double_quotes (cell_text v) @ [CHR 0x22]"

definition csv_line_row :: "bench_sample \<Rightarrow> string \<Rightarrow> csv_value list" where
  "csv_line_row s line =
     [CsvText (sm_command s), CsvNumber (sm_requested s), CsvNumber (sm_received s),
      CsvText (if CHR '':'' \<in> set line then takeWhile (\<lambda>c. c \<noteq> CHR '':'') line else ''reply''),
      CsvText (if CHR '':'' \<in> set line then js_trim (tl (dropWhile (\<lambda>c. c \<noteq> CHR '':'') line)) else line)]"

definition csv_sample_rows :: "bench_sample \<Rightarrow> csv_value list list" where
  "csv_sample_rows s =
     (case sm_error s of
        Some e \<Rightarrow> if e \<noteq> [] then [[CsvText (sm_command s), CsvNumber (sm_requested s), CsvNumber (sm_received s), CsvText ''error'', CsvText e]] else []
      | None \<Rightarrow> [])
     @ List.map (csv_line_row s) (filter (\<lambda>l. l \<noteq> []) (split_nl (sm_raw s)))"

definition csv_rows :: "recorder \<Rightarrow> csv_value list list" where
  "csv_rows r = List.map CsvText [''command'', ''requested_ms'', ''received_ms'', ''field'', ''value''] # concat (List.map csv_sample_rows (rc_samples r))"

definition csv_text :: "csv_value list list \<Rightarrow> string" where
  "csv_text rows1 = js_join [CR, LF] (List.map (\<lambda>row. js_join '','' (List.map csv_cell row)) rows1)"

definition csv :: "recorder \<Rightarrow> string" where
  "csv r = csv_text (csv_rows r)"

subsection \<open>A page that drops late answers\<close>

text \<open>
  The controllers number their views: a request belongs to the view it was made in, and its answer must not
  show in a later one. \<open>late t e\<close> says that the event \<open>e\<close> is the answer to a request of view \<open>t\<close>.
\<close>

locale page_requests =
  fixes step :: "'e \<Rightarrow> 's \<Rightarrow> 's" and epoch :: "'s \<Rightarrow> nat" and shown :: "'s \<Rightarrow> 'v" and late :: "nat \<Rightarrow> 'e \<Rightarrow> 's \<Rightarrow> bool"
  assumes epoch_grows: "epoch s \<le> epoch (step e s)"
    and late_hidden: "late t e s \<Longrightarrow> t \<noteq> epoch s \<Longrightarrow> shown (step e s) = shown s"
begin

lemma epoch_run: "epoch s \<le> epoch (fold step es s)"
proof (induction es arbitrary: s)
  case (Cons e es)
  show ?case using epoch_grows [of s e] Cons [of "step e s"] by simp
qed simp

lemma late_forever:
  assumes "t < epoch s" and "late t e (fold step es s)"
  shows "shown (step e (fold step es s)) = shown (fold step es s)"
  using late_hidden [OF assms(2)] epoch_run [of s es] assms(1) by simp

end


interpretation onboard_page: page_requests onboard_step oc_epoch
  "\<lambda>s. (oc_snapshot s, oc_stale s, oc_last_raw s, oc_error s, oc_pending s)" "\<lambda>t e s. \<exists>ans online now. e = OnAnswer t ans online now"
proof
  show "oc_epoch s \<le> oc_epoch (onboard_step e s)" for e s
    by (cases e) (auto simp: onboard_set_enabled_def onboard_command_def onboard_tick_def onboard_answer_def onboard_settled_def
      onboard_reading_def Let_def split: sum.split)
  show "(oc_snapshot (onboard_step e s), oc_stale (onboard_step e s), oc_last_raw (onboard_step e s), oc_error (onboard_step e s), oc_pending (onboard_step e s))
      = (oc_snapshot s, oc_stale s, oc_last_raw s, oc_error s, oc_pending s)"
    if "\<exists>ans online now. e = OnAnswer t ans online now" "t \<noteq> oc_epoch s" for t e s
    using that by (auto simp: onboard_answer_def onboard_settled_def Let_def split: sum.splits if_splits)
qed

interpretation sd_card_page: page_requests sd_card_step cc_epoch "\<lambda>s. (cc_snapshot s, cc_error s, cc_polling s)"
  "\<lambda>t e s. \<exists>ans online now cmd. e = ScAnswer ans online now \<and> cc_flight s = Some (t, cmd)"
proof
  show "cc_epoch s \<le> cc_epoch (sd_card_step e s)" for e s
    by (cases e) (auto simp: sd_card_set_enabled_def sd_card_command_def sd_card_tick_def sd_card_answer_def sd_card_failed_def
      sd_card_reading_def Let_def split: sum.split option.split)
  show "(cc_snapshot (sd_card_step e s), cc_error (sd_card_step e s), cc_polling (sd_card_step e s)) = (cc_snapshot s, cc_error s, cc_polling s)"
    if "\<exists>ans online now cmd. e = ScAnswer ans online now \<and> cc_flight s = Some (t, cmd)" "t \<noteq> cc_epoch s" for t e s
    using that by (auto simp: sd_card_answer_def sd_card_failed_def split: sum.split sum.split_asm)
qed

lemma recorder_stop_fields [simp]:
  "rc_samples (recorder_stop why r) = rc_samples r" "rc_bytes (recorder_stop why r) = rc_bytes r" "rc_flight (recorder_stop why r) = rc_flight r"
  "rc_sent (recorder_stop why r) = rc_sent r" "rc_pending (recorder_stop why r) = rc_pending r" "\<not> rc_active (recorder_stop why r)"
  "rc_queries (recorder_stop why r) = rc_queries r" "rc_epoch r \<le> rc_epoch (recorder_stop why r)"
  by (simp_all add: recorder_stop_def)

interpretation recorder_page: page_requests recorder_step rc_epoch "\<lambda>r. (rc_samples r, rc_bytes r, rc_reason r)"
  "\<lambda>t e r. \<exists>ans online now cmd ms. e = RecAnswer ans online now \<and> rc_flight r = Some (t, cmd, ms)"
proof
  show "rc_epoch r \<le> rc_epoch (recorder_step e r)" for e r
    by (cases e) (auto simp: recorder_start_def recorder_stop_def recorder_tick_def recorder_answer_def recorder_reading_def
      split: sum.split option.split)
  show "(rc_samples (recorder_step e r), rc_bytes (recorder_step e r), rc_reason (recorder_step e r)) = (rc_samples r, rc_bytes r, rc_reason r)"
    if "\<exists>ans online now cmd ms. e = RecAnswer ans online now \<and> rc_flight r = Some (t, cmd, ms)" "t \<noteq> rc_epoch r" for t e r
    using that by (auto simp: recorder_answer_def recorder_reading_def)
qed

subsection \<open>The onboard recorder holds the card\<close>

definition onboard_ok :: "onboard_ctl \<Rightarrow> bool" where
  "onboard_ok s \<longleftrightarrow> list_all (\<lambda>(click, cmd). click \<or> cmd = ''blackbox status'') (oc_sent s)
     \<and> distinct (List.map fst (oc_flights s)) \<and> list_all (\<lambda>(t, c). t \<le> oc_epoch s) (oc_flights s)
     \<and> (oc_pending s \<longleftrightarrow> oc_epoch s \<in> fst ` set (oc_flights s) \<and> oc_enabled s)
     \<and> (oc_snapshot s \<noteq> None \<longrightarrow> oc_enabled s) \<and> (oc_stale s \<longrightarrow> oc_snapshot s \<noteq> None)
     \<and> (oc_epoch s \<in> fst ` set (oc_flights s) \<longrightarrow> oc_enabled s)"

lemma onboard_ok_enabled: "onboard_ok s \<Longrightarrow> onboard_ok (onboard_set_enabled on s)"
  by (auto simp: onboard_ok_def onboard_set_enabled_def list_all_iff)

lemma onboard_ok_command: "onboard_ok s \<Longrightarrow> click \<or> cmd = ''blackbox status'' \<Longrightarrow> onboard_ok (onboard_command click cmd online now s)"
  by (auto simp: onboard_ok_def onboard_command_def list_all_iff)

lemma onboard_ok_tick: "onboard_ok s \<Longrightarrow> onboard_ok (onboard_tick online now s)"
  by (simp add: onboard_tick_def onboard_ok_enabled onboard_ok_command)

lemma onboard_ok_landed:
  assumes "onboard_ok s"
  shows "onboard_ok (s\<lparr>oc_flights := filter (\<lambda>(t, c). t \<noteq> tok) (oc_flights s), oc_pending := oc_pending s \<and> tok \<noteq> oc_epoch s\<rparr>)"
proof -
  let ?fs = "filter (\<lambda>(t, c). t \<noteq> tok) (oc_flights s)"
  have "distinct (List.map fst ?fs)" using assms distinct_map_filter [of fst "oc_flights s"] by (auto simp: onboard_ok_def)
  moreover have "x \<in> fst ` set ?fs \<longleftrightarrow> x \<in> fst ` set (oc_flights s) \<and> x \<noteq> tok" for x by force
  ultimately show ?thesis using assms by (auto simp: onboard_ok_def list_all_iff)
qed

lemma onboard_ok_shown: "onboard_ok s \<Longrightarrow> oc_enabled s \<Longrightarrow> (stale \<longrightarrow> snap \<noteq> None) \<Longrightarrow>
  onboard_ok (s\<lparr>oc_snapshot := snap, oc_stale := stale, oc_last_raw := raw, oc_error := err, oc_next_poll := poll\<rparr>)"
  by (simp add: onboard_ok_def)

lemma onboard_ok_answer:
  assumes "onboard_ok s"
  shows "onboard_ok (onboard_answer tok ans online now s)"
proof (cases "map_of (oc_flights s) tok")
  case (Some c)
  let ?t = "s\<lparr>oc_flights := filter (\<lambda>(t, c). t \<noteq> tok) (oc_flights s), oc_pending := oc_pending s \<and> tok \<noteq> oc_epoch s\<rparr>"
  have "\<exists>snap stale raw err poll. onboard_answer tok ans online now s
      = ?t\<lparr>oc_snapshot := snap, oc_stale := stale, oc_last_raw := raw, oc_error := err, oc_next_poll := poll\<rparr>
      \<and> (stale \<longrightarrow> snap \<noteq> None) \<and> oc_enabled ?t \<or> onboard_answer tok ans online now s = ?t"
    using Some assms
    by (cases s, cases ans) (auto simp: onboard_answer_def onboard_settled_def onboard_reading_def onboard_ok_def Let_def split: sum.splits)
  then show ?thesis using onboard_ok_landed [OF assms] onboard_ok_shown by metis
qed (simp add: onboard_answer_def assms)

lemma onboard_ok_step: "onboard_ok s \<Longrightarrow> onboard_ok (onboard_step e s)"
  by (cases e) (auto intro: onboard_ok_enabled onboard_ok_command onboard_ok_tick onboard_ok_answer)

lemma onboard_ok_run: "onboard_ok (fold onboard_step es initial_onboard)"
proof -
  have "onboard_ok s \<Longrightarrow> onboard_ok (fold onboard_step es s)" for s
    by (induction es arbitrary: s) (auto intro: onboard_ok_step)
  moreover have "onboard_ok initial_onboard" by (simp add: onboard_ok_def initial_onboard_def)
  ultimately show ?thesis .
qed

definition releases_lock :: "onboard_event \<Rightarrow> onboard_ctl \<Rightarrow> bool" where
  "releases_lock e s \<longleftrightarrow> (case e of
     OnEnable on \<Rightarrow> \<not> on
   | OnClick cmd online now \<Rightarrow> False
   | OnTick online now \<Rightarrow> \<not> online
   | OnAnswer tok ans online now \<Rightarrow> tok = oc_epoch s \<and> online \<and> (case ans of
       Inl msg \<Rightarrow> False
     | Inr raw \<Rightarrow> (case parse_onboard_reply raw of Inl why \<Rightarrow> False | Inr snap \<Rightarrow> \<not> on_active snap)))"

lemma lock_kept:
  assumes "onboard_ok s" and "onboard_active s" and "\<not> onboard_active (onboard_step e s)"
  shows "releases_lock e s"
  using assms
  by (cases e) (auto simp: releases_lock_def onboard_active_def onboard_set_enabled_def onboard_command_def onboard_tick_def onboard_answer_def
      onboard_settled_def onboard_reading_def onboard_ok_def Let_def split: sum.splits option.splits if_split_asm)

text \<open>C38: In every run of the recorder view, start and stop lines leave only on a click, at most one request of the
  current view waits for its answer (and \<open>pending\<close> says so), and the recording lock is released only when the view is left or
  disconnected, or by a current reply that parses and reports an inactive recorder: an unreadable reply or a failed
  request never releases it.\<close>
theorem onboard_lock_fails_safe:
  "let s = fold onboard_step es initial_onboard in
     list_all (\<lambda>(click, cmd). click \<or> cmd = ''blackbox status'') (oc_sent s)
   \<and> length (filter (\<lambda>(t, c). t = oc_epoch s) (oc_flights s)) = (if oc_pending s then 1 else 0)
   \<and> (if oc_snapshot s = None then \<not> oc_stale s else oc_enabled s)
   \<and> (if onboard_active s \<and> \<not> onboard_active (onboard_step e s) then releases_lock e s else True)"
proof -
  let ?s = "fold onboard_step es initial_onboard"
  have ok: "onboard_ok ?s" by (rule onboard_ok_run)
  have one: "length (filter (\<lambda>(t, c). t = k) fs) = (if k \<in> fst ` set fs then 1 else 0)" if "distinct (List.map fst fs)" for k :: nat and fs :: "(nat \<times> string) list"
    using that by (induction fs) (auto simp: image_iff)
  have "length (filter (\<lambda>(t, c). t = oc_epoch ?s) (oc_flights ?s)) = (if oc_pending ?s then 1 else 0)"
    using ok one [of "oc_flights ?s" "oc_epoch ?s"] by (auto simp: onboard_ok_def)
  moreover have "if onboard_active ?s \<and> \<not> onboard_active (onboard_step e ?s) then releases_lock e ?s else True"
    using lock_kept [OF ok] by simp
  ultimately show ?thesis using ok by (auto simp: onboard_ok_def Let_def)
qed


definition onboard_reading_ok :: "string \<Rightarrow> onboard_snapshot \<Rightarrow> bool" where
  "onboard_reading_ok raw s \<longleftrightarrow> on_raw s = raw \<and>
     (if on_unavailable s then \<not> on_active s \<and> on_rate_hz s = None \<and> on_dropped s = 0
      else last (split_nl (js_trim_end raw)) = ''blackbox_end: 1''
        \<and> on_active s = (on_state s \<in> set ONBOARD_ACTIVE_STATES) \<and> on_state s \<in> set ONBOARD_STATES
        \<and> on_queue s \<le> 64 \<and> onboard_file_ok (on_file s)
        \<and> (if on_api s = 1 then on_rate_hz s \<in> {None, Some 500} \<and> on_requested_hz s = None \<and> on_rate_reason s = None \<and> on_drop_pct s = None
           else on_api s = 2 \<and> (case (on_rate_hz s, on_requested_hz s) of
             (Some hz, Some want) \<Rightarrow> hz \<le> want \<and> (if on_rate_reason s = Some ''default'' then hz = want else True)
               \<and> (if onboard_auto_lowered s then hz < want else True)
           | _ \<Rightarrow> True)))"

lemma api2_rates: "onboard_api2 field rate = Inr rates \<Longrightarrow> rates_reason rates = field ''blackbox_rate_reason'' \<and>
   (case (rate, rates_requested rates) of
      (Some hz, Some want) \<Rightarrow> hz \<le> want \<and> (if rates_reason rates = Some ''default'' then hz = want else True)
        \<and> (if rates_reason rates = Some ''auto-lowered-card-slow'' then hz < want else True)
    | _ \<Rightarrow> True)"
  unfolding onboard_api2_def Let_def
  by (elim res_bind_InrE) (auto split: if_split_asm option.splits)

lemma onboard_values_ok:
  assumes "onboard_values raw field api = Inr s"
  shows "\<not> on_unavailable s \<and> on_raw s = raw \<and> on_active s = (on_state s \<in> set ONBOARD_ACTIVE_STATES)
    \<and> on_state s = (case field ''blackbox_state'' of Some v \<Rightarrow> v | None \<Rightarrow> []) \<and> on_queue s \<le> 64 \<and> onboard_file_ok (on_file s)
    \<and> on_api s = api
    \<and> (if api = 1 then on_rate_hz s \<in> {None, Some 500} \<and> on_requested_hz s = None \<and> on_rate_reason s = None \<and> on_drop_pct s = None else True)
    \<and> (if api = 2 then \<exists>rates. onboard_api2 field (on_rate_hz s) = Inr rates \<and> on_requested_hz s = rates_requested rates
         \<and> on_rate_reason s = rates_reason rates else True)"
proof -
  define str where "str = (\<lambda>k. case field k of Some v \<Rightarrow> v | None \<Rightarrow> [])"
  obtain rate queue where r: "onboard_rate field ''blackbox_rate_hz'' = Inr rate"
      "\<not> ((str ''blackbox_state'' \<in> set ONBOARD_ACTIVE_STATES) \<noteq> (field ''blackbox_active'' = Some ''1'') \<or> api = 1 \<and> rate \<noteq> None \<and> rate \<noteq> Some 500)"
      "\<not> (queue > ONBOARD_QUEUE_CAPACITY \<or> \<not> onboard_file_ok (str ''blackbox_file''))"
    and rest: "res_bind (onboard_uint field ''blackbox_frames'') (\<lambda>frames.
      res_bind (onboard_uint field ''blackbox_dropped'') (\<lambda>dropped.
      res_bind (if api \<ge> 2 then onboard_api2 field rate
                else Inr \<lparr>rates_requested = None, rates_reason = None, rates_drop_pct = None\<rparr>) (\<lambda>rates.
      res_bind (onboard_uint field ''blackbox_bytes'') (\<lambda>bytes.
      res_bind (onboard_uint field ''blackbox_missed'') (\<lambda>missed.
      res_bind (onboard_uint field ''blackbox_invalid'') (\<lambda>invalid.
      Inr \<lparr>on_api = api, on_state = str ''blackbox_state'', on_reason = str ''blackbox_reason'', on_file = str ''blackbox_file'',
           on_bytes = bytes, on_frames = frames, on_rate_hz = rate, on_requested_hz = rates_requested rates,
           on_rate_reason = rates_reason rates, on_drop_pct = rates_drop_pct rates, on_dropped = dropped, on_missed = missed,
           on_invalid = invalid, on_queue = queue, on_active = (field ''blackbox_active'' = Some ''1''), on_unavailable = False,
           on_raw = raw\<rparr>)))))) = Inr s"
    using assms unfolding onboard_values_def Let_def str_def [symmetric] by (elim res_bind_InrE) (auto split: if_split_asm elim!: res_bind_InrE)
  from rest obtain rates frames dropped bytes missed invalid where
    q: "(if api \<ge> 2 then onboard_api2 field rate else Inr \<lparr>rates_requested = None, rates_reason = None, rates_drop_pct = None\<rparr>) = Inr rates"
    and s: "s = \<lparr>on_api = api, on_state = str ''blackbox_state'', on_reason = str ''blackbox_reason'', on_file = str ''blackbox_file'',
           on_bytes = bytes, on_frames = frames, on_rate_hz = rate, on_requested_hz = rates_requested rates,
           on_rate_reason = rates_reason rates, on_drop_pct = rates_drop_pct rates, on_dropped = dropped, on_missed = missed,
           on_invalid = invalid, on_queue = queue, on_active = (field ''blackbox_active'' = Some ''1''), on_unavailable = False, on_raw = raw\<rparr>"
    by (elim res_bind_InrE) (rule that, assumption, drule sum.inject(2) [THEN iffD1], erule sym)
  have st: "(case field ''blackbox_state'' of Some v \<Rightarrow> v | None \<Rightarrow> []) = str ''blackbox_state''" by (simp add: str_def)
  show ?thesis using r q unfolding s st by (auto simp: ONBOARD_QUEUE_CAPACITY_def)
qed

lemma onboard_facts_ok:
  assumes "onboard_facts raw field = Inr s"
  shows "\<not> on_unavailable s \<and> on_raw s = raw \<and> on_active s = (on_state s \<in> set ONBOARD_ACTIVE_STATES) \<and> on_state s \<in> set ONBOARD_STATES
    \<and> on_queue s \<le> 64 \<and> onboard_file_ok (on_file s)
    \<and> (if on_api s = 1 then on_rate_hz s \<in> {None, Some 500} \<and> on_requested_hz s = None \<and> on_rate_reason s = None \<and> on_drop_pct s = None
       else on_api s = 2 \<and> (\<exists>rates. onboard_api2 field (on_rate_hz s) = Inr rates \<and> on_requested_hz s = rates_requested rates
         \<and> on_rate_reason s = rates_reason rates))"
proof -
  obtain api where v: "onboard_values raw field api = Inr s" and a: "api = 1 \<or> api = 2"
    and st: "case field ''blackbox_state'' of Some v \<Rightarrow> v \<in> set ONBOARD_STATES | None \<Rightarrow> False"
    using assms by (auto simp: onboard_facts_def split: if_split_asm option.split_asm)
  show ?thesis using onboard_values_ok [OF v] a st by (auto split: option.splits)
qed


subsection \<open>The bench recorder stays within its limits\<close>

definition recorder_ok :: "recorder \<Rightarrow> bool" where
  "recorder_ok r \<longleftrightarrow> length (rc_samples r) \<le> RECORD_SAMPLES \<and> rc_bytes r = sum_list (List.map (\<lambda>s. length (sm_raw s) * 2) (rc_samples r))
     \<and> rc_bytes r \<le> RECORD_BYTES \<and> list_all (\<lambda>s. sm_requested s < RECORD_MS) (rc_samples r)
     \<and> set (rc_sent r) \<subseteq> insert ''version'' (set QUERIES) \<and> rc_queries r \<noteq> [] \<and> set (rc_queries r) \<subseteq> set QUERIES
     \<and> rc_pending r = (rc_flight r \<noteq> None)
     \<and> (case rc_flight r of None \<Rightarrow> True | Some (tok, cmd, ms) \<Rightarrow> ms < RECORD_MS \<and>
          (rc_active r \<and> tok = rc_epoch r \<longrightarrow> length (rc_samples r) < RECORD_SAMPLES))"

lemma recorder_ok_stop: "recorder_ok r \<Longrightarrow> recorder_ok (recorder_stop why r)"
  by (auto simp: recorder_ok_def recorder_stop_def split: option.splits)

lemma recorder_line_query:
  assumes "rc_queries r \<noteq> []" and "set (rc_queries r) \<subseteq> set QUERIES"
  shows "recorder_line r \<in> insert ''version'' (set QUERIES)"
proof -
  have "rc_queries r ! ((rc_index r - 1) mod length (rc_queries r)) \<in> set (rc_queries r)" using assms(1) by (intro nth_mem) simp
  then show ?thesis unfolding recorder_line_def using subsetD [OF assms(2)] by (metis insertI1 insertI2)
qed

lemma recorder_ok_tick: "recorder_ok r \<Longrightarrow> recorder_ok (recorder_tick online now r)"
  using recorder_line_query [of r] recorder_ok_stop [of r] unfolding recorder_tick_def
  by (simp add: recorder_ok_def)

lemma recorder_ok_answer: "recorder_ok r \<Longrightarrow> recorder_ok (recorder_answer ans online now r)"
proof -
  assume ok: "recorder_ok r"
  have land: "recorder_ok (q\<lparr>rc_pending := False, rc_flight := None\<rparr>)" if "recorder_ok q" for q using that by (simp add: recorder_ok_def)
  have add: "recorder_ok (r\<lparr>rc_bytes := rc_bytes r + length (sm_raw s) * 2, rc_samples := rc_samples r @ [s], rc_pending := False, rc_flight := None\<rparr>)"
    if "rc_bytes r + length (sm_raw s) * 2 \<le> RECORD_BYTES" "sm_requested s < RECORD_MS" "length (rc_samples r) < RECORD_SAMPLES" for s
    using ok that by (simp add: recorder_ok_def)
  show ?thesis
  proof (cases "rc_flight r")
    case None
    then show ?thesis using ok by (simp add: recorder_answer_def)
  next
    case (Some f)
    obtain tok cmd ms where f: "f = (tok, cmd, ms)" by (cases f) auto
    show ?thesis
    proof (cases "rc_active r \<and> tok = rc_epoch r")
      case False
      then show ?thesis using Some f land [OF ok] by (simp add: recorder_answer_def recorder_reading_def)
    next
      case cur: True
      then have b: "ms < RECORD_MS" "length (rc_samples r) < RECORD_SAMPLES" using ok Some f by (auto simp: recorder_ok_def)
      show ?thesis
      proof (cases ans)
        case (Inl e)
        then show ?thesis using Some f cur ok b
          by (simp add: recorder_answer_def recorder_reading_def recorder_ok_def recorder_stop_def)
      next
        case (Inr raw)
        then show ?thesis
          using Some f cur land [OF recorder_ok_stop [OF ok]] b
            add [of "\<lparr>sm_command = cmd, sm_requested = ms, sm_received = now - rc_start r, sm_raw = raw, sm_error = None\<rparr>"]
          by (simp add: recorder_answer_def recorder_reading_def)
      qed
    qed
  qed
qed

lemma recorder_ok_start: "recorder_ok r \<Longrightarrow> recorder_ok (recorder_start qs online now r)"
  by (auto simp: recorder_ok_def recorder_start_def RECORD_SAMPLES_def RECORD_BYTES_def split: option.splits)

lemma recorder_ok_step: "recorder_ok r \<Longrightarrow> recorder_ok (recorder_step e r)"
  by (cases e) (auto intro: recorder_ok_start recorder_ok_stop recorder_ok_tick recorder_ok_answer)

text \<open>Whatever the user, the page timer and the controller do, the bench recorder sends only the version query and its read-only
  queries, one at a time, keeps at most 5000 samples and 8 MiB of replies, and requests no sample ten minutes after the start.\<close>
theorem recorder_within_limits:
  "let r = fold recorder_step es initial_recorder in
     length (rc_samples r) \<le> 5000 \<and> sum_list (List.map (\<lambda>s. length (sm_raw s) * 2) (rc_samples r)) \<le> 8 * 1024 * 1024
   \<and> list_all (\<lambda>s. sm_requested s < 600000) (rc_samples r)
   \<and> list_all (\<lambda>l. l \<in> set (''version'' # QUERIES)) (rc_sent r)
   \<and> rc_pending r = (rc_flight r \<noteq> None)"
proof -
  have "recorder_ok r \<Longrightarrow> recorder_ok (fold recorder_step es r)" for r
    by (induction es arbitrary: r) (auto intro: recorder_ok_step)
  moreover have "recorder_ok initial_recorder"
    by (simp add: recorder_ok_def initial_recorder_def RECORD_SAMPLES_def RECORD_BYTES_def QUERIES_def)
  ultimately have "recorder_ok (fold recorder_step es initial_recorder)" .
  then show ?thesis
    unfolding recorder_ok_def RECORD_SAMPLES_def RECORD_BYTES_def RECORD_MS_def Let_def list_all_iff by auto
qed


subsection \<open>The card check polls a probe it was asked for\<close>

definition sd_card_ok :: "sd_card_ctl \<Rightarrow> bool" where
  "sd_card_ok s \<longleftrightarrow> list_all (\<lambda>(click, cmd). click \<or> cmd = ''sd status'') (cc_sent s) \<and> cc_pending s = (cc_flight s \<noteq> None)
     \<and> (cc_polling s \<longrightarrow> cc_enabled s \<and> (case cc_snapshot s of Some snap \<Rightarrow> sc_state snap \<in> set SD_ACTIVE | None \<Rightarrow> False))
     \<and> (cc_snapshot s \<noteq> None \<longrightarrow> cc_enabled s) \<and> (\<forall>tok cmd. cc_flight s = Some (tok, cmd) \<longrightarrow> tok \<le> cc_epoch s)"

lemma sd_card_ok_enabled: "sd_card_ok s \<Longrightarrow> sd_card_ok (sd_card_set_enabled on s)"
  by (auto simp: sd_card_ok_def sd_card_set_enabled_def)

lemma sd_card_ok_command: "sd_card_ok s \<Longrightarrow> click \<or> cmd = ''sd status'' \<Longrightarrow> sd_card_ok (sd_card_command click cmd online s)"
  by (auto simp: sd_card_ok_def sd_card_command_def list_all_iff)

lemma sd_card_ok_answer: "sd_card_ok s \<Longrightarrow> sd_card_ok (sd_card_answer ans online now s)"
  by (cases "cc_flight s"; cases ans)
     (auto simp: sd_card_ok_def sd_card_answer_def sd_card_failed_def sd_card_reading_def Let_def split: sum.split if_splits)

lemma sd_card_ok_tick: "sd_card_ok s \<Longrightarrow> sd_card_ok (sd_card_tick online now s)"
  using sd_card_ok_enabled sd_card_ok_command unfolding sd_card_tick_def by (simp add: sd_card_ok_def)

lemma sd_card_ok_step: "sd_card_ok s \<Longrightarrow> sd_card_ok (sd_card_step e s)"
  by (cases e) (auto intro: sd_card_ok_enabled sd_card_ok_command sd_card_ok_answer sd_card_ok_tick)

lemma sd_card_probes_on_click:
  "let s = fold sd_card_step es initial_sd_card in
     list_all (\<lambda>(click, cmd). click \<or> cmd = ''sd status'') (cc_sent s) \<and> cc_pending s = (cc_flight s \<noteq> None)
   \<and> (if cc_polling s then cc_enabled s \<and> (case cc_snapshot s of Some snap \<Rightarrow> sc_state snap \<in> set SD_ACTIVE | None \<Rightarrow> False) else True)
   \<and> (if cc_polling s \<and> \<not> cc_pending s \<and> cc_started s + 15000 \<le> now then \<not> cc_polling (sd_card_step (ScTick online now) s) else True)"
proof -
  have "sd_card_ok s \<Longrightarrow> sd_card_ok (fold sd_card_step es s)" for s
    by (induction es arbitrary: s) (auto intro: sd_card_ok_step)
  moreover have "sd_card_ok initial_sd_card" by (simp add: sd_card_ok_def initial_sd_card_def)
  ultimately have "sd_card_ok (fold sd_card_step es initial_sd_card)" .
  then show ?thesis by (auto simp: sd_card_ok_def Let_def sd_card_tick_def sd_card_set_enabled_def)
qed

subsection \<open>The CSV is read back, and holds no formula\<close>

text \<open>A reader of quoted cells, as a spreadsheet reads them.\<close>

datatype csv_mode = CellStart | InCell | AfterQuote | AfterCr

fun csv_scan :: "csv_mode \<Rightarrow> string \<Rightarrow> string list \<Rightarrow> string list list \<Rightarrow> string \<Rightarrow> string list list option" where
  "csv_scan m cell row acc [] = (if m = AfterQuote then Some (acc @ [row @ [cell]]) else None)"
| "csv_scan CellStart cell row acc (c # cs) = (if c = CHR 0x22 then csv_scan InCell [] row acc cs else None)"
| "csv_scan InCell cell row acc (c # cs) =
     (if c = CHR 0x22 then csv_scan AfterQuote cell row acc cs else csv_scan InCell (cell @ [c]) row acc cs)"
| "csv_scan AfterQuote cell row acc (c # cs) =
     (if c = CHR 0x22 then csv_scan InCell (cell @ [c]) row acc cs
      else if c = CHR '','' then csv_scan CellStart [] (row @ [cell]) acc cs
      else if c = CR then csv_scan AfterCr cell row acc cs else None)"
| "csv_scan AfterCr cell row acc (c # cs) = (if c = LF then csv_scan CellStart [] [] (acc @ [row @ [cell]]) cs else None)"

definition read_csv :: "string \<Rightarrow> string list list option" where
  "read_csv s = csv_scan CellStart [] [] [] s"

lemma csv_scan_quoted: "csv_scan InCell cell row acc (double_quotes t @ r) = csv_scan InCell (cell @ t) row acc r"
  by (induction t arbitrary: cell) simp_all

lemma csv_scan_cell: "csv_scan CellStart c0 row acc (csv_cell v @ r) = csv_scan AfterQuote (cell_text v) row acc r"
  by (simp add: csv_cell_def csv_scan_quoted)

lemma csv_scan_row:
  "csv_scan CellStart c0 row acc (js_join '','' (List.map csv_cell (v # vs)) @ r)
     = csv_scan AfterQuote (cell_text (last (v # vs))) (row @ butlast (List.map cell_text (v # vs))) acc r"
proof (induction vs arbitrary: v row c0)
  case (Cons w vs)
  show ?case using Cons [of "[]" "row @ [cell_text v]" w] by (simp add: csv_scan_cell)
qed (simp add: csv_scan_cell)

lemma row_cells: "butlast (List.map cell_text (v # vs)) @ [cell_text (last (v # vs))] = List.map cell_text (v # vs)"
  by (metis append_butlast_last_id last_map list.discI list.map_disc_iff)

lemma csv_scan_rows:
  "list_all (\<lambda>row. row \<noteq> []) (row # rows1) \<Longrightarrow>
   csv_scan CellStart c0 [] acc (csv_text (row # rows1)) = Some (acc @ List.map (List.map cell_text) (row # rows1))"
proof (induction rows1 arbitrary: row c0 acc)
  case Nil
  then obtain v vs where "row = v # vs" by (cases row) auto
  then show ?case using csv_scan_row [of c0 "[]" acc v vs "[]"] row_cells [of v vs] by (simp add: csv_text_def)
next
  case (Cons next1 rows1)
  then obtain v vs where row: "row = v # vs" by (cases row) auto
  have "csv_scan CellStart c0 [] acc (csv_text (row # next1 # rows1))
      = csv_scan CellStart [] [] (acc @ [List.map cell_text row]) (csv_text (next1 # rows1))"
    using csv_scan_row [of c0 "[]" acc v vs "CR # LF # csv_text (next1 # rows1)"] row_cells [of v vs] row by (simp add: csv_text_def CR_def LF_def)
  then show ?case using Cons by simp
qed

lemma csv_rows_filled: "list_all (\<lambda>row. row \<noteq> []) (csv_rows r)"
  by (auto simp: csv_rows_def csv_sample_rows_def csv_line_row_def list_all_iff split: option.splits if_split_asm)

lemma cell_no_formula: "\<not> formula_like (cell_text (CsvText s))"
  by (auto simp: formula_like_def js_space_def split: list.split)

text \<open>The CSV of a recording is read back, cell by cell, as what was written, and no text cell of it begins like a
  spreadsheet formula, whatever the controller sent.\<close>
theorem csv_round_trip:
  "read_csv (csv r) = Some (List.map (List.map cell_text) (csv_rows r))
   \<and> list_all (list_all (\<lambda>v. case v of CsvText s \<Rightarrow> \<not> formula_like (cell_text v) \<and> suffix s (cell_text v) | CsvNumber i \<Rightarrow> cell_text v = show_int i)) (csv_rows r)"
proof -
  have "csv_rows r = hd (csv_rows r) # tl (csv_rows r)" by (simp add: csv_rows_def)
  then have "read_csv (csv r) = Some (List.map (List.map cell_text) (csv_rows r))"
    using csv_scan_rows [of "hd (csv_rows r)" "tl (csv_rows r)" "[]" "[]"] csv_rows_filled [of r] by (simp add: read_csv_def csv_def)
  moreover have "case v of CsvText s \<Rightarrow> \<not> formula_like (cell_text v) \<and> suffix s (cell_text v) | CsvNumber i \<Rightarrow> cell_text v = show_int i" for v
    using cell_no_formula by (cases v) (simp_all add: suffix_def)
  ultimately show ?thesis by (simp add: list_all_iff)
qed

text \<open>An answer to a request of an earlier view never shows, however much happens in between.\<close>

lemma onboard_late_answer:
  assumes "t < oc_epoch s"
  shows "oc_snapshot (onboard_step (OnAnswer t ans online now) (fold onboard_step es s)) = oc_snapshot (fold onboard_step es s)"
  using onboard_page.late_forever [OF assms, of "OnAnswer t ans online now" es] by simp

lemma sd_card_late_answer:
  assumes "t < cc_epoch s" and "cc_flight (fold sd_card_step es s) = Some (t, cmd)"
  shows "cc_snapshot (sd_card_step (ScAnswer ans online now) (fold sd_card_step es s)) = cc_snapshot (fold sd_card_step es s)"
  using sd_card_page.late_forever [OF assms(1), of "ScAnswer ans online now" es] assms(2) by simp

lemma recorder_late_answer:
  assumes "t < rc_epoch s" and "rc_flight (fold recorder_step es s) = Some (t, cmd, ms)"
  shows "rc_samples (recorder_step (RecAnswer ans online now) (fold recorder_step es s)) = rc_samples (fold recorder_step es s)"
  using recorder_page.late_forever [OF assms(1), of "RecAnswer ans online now" es] assms(2) by simp

end
