(* ===== verification/Command_Gate.thy ===== *)
theory Command_Gate
  imports Js_Text "HOL-Library.Multiset" "HOL-Library.Product_Lexorder"
begin

section \<open>The command gate: ui/src/protocol/commandGate.ts\<close>

text \<open>
  The one path from the pages to the controller's command line: a bounded priority queue in front of
  a wire that carries one command at a time. A request gets the next number on arrival. What callers
  can see is kept in two logs, the commands that were started (with the session they were queued in and
  the session they were started in) and the promises that were settled. Time is not modelled: a timer or
  an abort may fire whenever the source has armed it, and work may settle whenever it is on the wire.
\<close>

subsection \<open>Classes of command lines\<close>

datatype priority = Urgent | WriteClass | NormalClass

fun RANK :: "priority \<Rightarrow> nat" where
  "RANK Urgent = 0"
| "RANK WriteClass = 1"
| "RANK NormalClass = 2"

text \<open>The class order of the source is the order of the ranks.\<close>

instantiation priority :: linorder
begin

definition less_eq_priority :: "priority \<Rightarrow> priority \<Rightarrow> bool" where
  "less_eq_priority p q \<longleftrightarrow> RANK p \<le> RANK q"

definition less_priority :: "priority \<Rightarrow> priority \<Rightarrow> bool" where
  "less_priority p q \<longleftrightarrow> RANK p < RANK q"

instance
proof
  fix p q r :: priority
  show "p < q \<longleftrightarrow> p \<le> q \<and> \<not> q \<le> p" by (auto simp: less_priority_def less_eq_priority_def)
  show "p \<le> p" by (simp add: less_eq_priority_def)
  show "p \<le> q \<Longrightarrow> q \<le> r \<Longrightarrow> p \<le> r" by (simp add: less_eq_priority_def)
  show "p \<le> q \<Longrightarrow> q \<le> p \<Longrightarrow> p = q" by (cases p; cases q) (simp_all add: less_eq_priority_def)
  show "p \<le> q \<or> q \<le> p" by (auto simp: less_eq_priority_def)
qed

end

definition READ_EXACT :: "string list" where
  "READ_EXACT = [''help'', ''ports'', ''modes'', ''storage'', ''diff all'', ''dump all'', ''version'', ''sd probe'',
     ''sd status'', ''blackbox status'', ''status'', ''receiver'', ''pid_diag'', ''pid_diag status'', ''timing'',
     ''power'', ''bench_status'', ''barometer'', ''flash_info'', ''sensors'', ''calibration'', ''dshot'',
     ''loop_rate'', ''mixer'', ''rpm_filter'', ''filters'']"

text \<open>\<open>/^get [a-z0-9_]+$/\<close> and \<open>/^sd read \d+$/\<close>.\<close>

definition is_get_line :: "string \<Rightarrow> bool" where
  "is_get_line s \<longleftrightarrow> prefix ''get '' s \<and> drop 4 s \<noteq> [] \<and> list_all setting_char (drop 4 s)"

definition is_sd_read_line :: "string \<Rightarrow> bool" where
  "is_sd_read_line s \<longleftrightarrow> prefix ''sd read '' s \<and> all_digits (drop 8 s)"

definition is_read_only_cli_command :: "string \<Rightarrow> bool" where
  "is_read_only_cli_command s \<longleftrightarrow> s \<in> set READ_EXACT \<or> is_get_line s \<or> is_sd_read_line s"

definition is_motor_start_command :: "string \<Rightarrow> bool" where
  "is_motor_start_command s \<longleftrightarrow>
     s = ''arm'' \<or> s = ''motor_seq'' \<or> s = ''bench_switch''
     \<or> s \<in> {''motor_test 1'', ''motor_test 2'', ''motor_test 3'', ''motor_test 4''} \<or> prefix ''motor_pulse '' s"

text \<open>
  The options of one request: \<open>timeout\<close> is \<open>None\<close> when the caller gives none and \<open>Some None\<close> for an
  infinite one; \<open>aborted\<close> says that the caller's signal has fired already.
\<close>

record run_options =
  priority :: priority
  exclusive :: bool
  aborted :: bool
  with_signal :: bool
  timeout :: "nat option option"

definition plain_options :: run_options where
  "plain_options = \<lparr>priority = NormalClass, exclusive = False, aborted = False, with_signal = False, timeout = None\<rparr>"

definition command_gate_options :: "string \<Rightarrow> run_options" where
  "command_gate_options s =
     (if s = ''motor_test 0'' \<or> s = ''bench_stop'' \<or> s = ''disarm'' then plain_options\<lparr>priority := Urgent\<rparr>
      else if is_motor_start_command s then plain_options\<lparr>exclusive := True\<rparr>
      else if is_read_only_cli_command s then plain_options
      else plain_options\<lparr>priority := WriteClass\<rparr>)"

subsection \<open>The gate\<close>

datatype gate_error_code =
    QueueFull
  | BusyStart
  | QueueTimeout
  | GateCancelled
  | GateDisconnected
  | SessionChanged

datatype gate_outcome = Refused gate_error_code | Completed bool

text \<open>\<open>gateErrorCode\<close>, \<open>isGateBusy\<close>, \<open>isGateNotSent\<close>: what a caller learns from a rejection.\<close>

fun gate_error_of :: "gate_outcome \<Rightarrow> gate_error_code option" where
  "gate_error_of (Refused c) = Some c"
| "gate_error_of (Completed b) = None"

definition is_gate_busy :: "gate_outcome \<Rightarrow> bool" where
  "is_gate_busy r \<longleftrightarrow> gate_error_of r = Some QueueFull \<or> gate_error_of r = Some BusyStart"

definition is_gate_not_sent :: "gate_outcome \<Rightarrow> bool" where
  "is_gate_not_sent r \<longleftrightarrow> gate_error_of r \<noteq> None"

record entry =
  eid :: nat
  rank :: priority
  generation :: nat
  start_only :: bool
  timer :: "nat option"
  abortable :: bool

abbreviation urgent :: "entry \<Rightarrow> bool" where "urgent e \<equiv> rank e = Urgent"

record gate =
  queue :: "entry list"
  current :: "entry option"
  yielding :: "entry option"
  started :: "(entry \<times> nat) list"
  settled :: "(nat \<times> gate_outcome) list"

definition running :: "gate \<Rightarrow> bool" where
  "running g \<longleftrightarrow> current g \<noteq> None"

definition empty_gate :: gate where
  "empty_gate = \<lparr>queue = [], current = None, yielding = None, started = [], settled = []\<rparr>"

definition reject :: "nat \<Rightarrow> gate_error_code \<Rightarrow> gate \<Rightarrow> gate" where
  "reject i c g = g\<lparr>settled := settled g @ [(i, Refused c)]\<rparr>"

text \<open>\<open>pump\<close>: the first waiting command of the present session is started, those before it are refused.\<close>

fun pump_from :: "nat \<Rightarrow> entry list \<Rightarrow> gate \<Rightarrow> gate" where
  "pump_from session [] g = g\<lparr>queue := []\<rparr>"
| "pump_from session (e # es) g =
     (if generation e \<noteq> session then pump_from session es (reject (eid e) SessionChanged g)
      else g\<lparr>queue := es, current := Some e, started := started g @ [(e, session)]\<rparr>)"

definition pump :: "nat \<Rightarrow> gate \<Rightarrow> gate" where
  "pump session g = (if running g then g else pump_from session (queue g) g)"

text \<open>The stable insert: \<open>findIndex(e => e.rank > entry.rank)\<close>, \<open>splice\<close>.\<close>

definition stable_insert :: "entry \<Rightarrow> entry list \<Rightarrow> entry list" where
  "stable_insert x q = takeWhile (\<lambda>e. \<not> RANK (rank e) > RANK (rank x)) q @ x # dropWhile (\<lambda>e. \<not> RANK (rank e) > RANK (rank x)) q"

definition make_entry :: "nat \<Rightarrow> nat \<Rightarrow> nat \<Rightarrow> run_options \<Rightarrow> entry" where
  "make_entry queue_timeout session i o1 =
     \<lparr>eid = i, rank = priority o1, generation = session, start_only = exclusive o1,
      timer = (case timeout o1 of None \<Rightarrow> (if priority o1 = Urgent then None else Some queue_timeout) | Some t \<Rightarrow> t),
      abortable = with_signal o1\<rparr>"

definition gate_run :: "nat \<Rightarrow> nat \<Rightarrow> nat \<Rightarrow> nat \<Rightarrow> run_options \<Rightarrow> gate \<Rightarrow> gate" where
  "gate_run limit queue_timeout session i o1 g =
     (let busy = (running g \<or> queue g \<noteq> []) in
      if aborted o1 then reject i GateCancelled g
      else if exclusive o1 \<and> busy then reject i BusyStart g
      else if priority o1 \<noteq> Urgent \<and> busy \<and> length (filter (\<lambda>e. \<not> urgent e) (queue g)) \<ge> limit
      then reject i QueueFull g
      else pump session (g\<lparr>queue := stable_insert (make_entry queue_timeout session i o1) (queue g)\<rparr>))"

text \<open>\<open>remove\<close>: a waiting entry leaves the queue; one that is no longer waiting is left alone.\<close>

definition gate_remove :: "nat \<Rightarrow> gate_error_code \<Rightarrow> gate \<Rightarrow> gate" where
  "gate_remove i c g =
     (if \<exists>e \<in> set (queue g). eid e = i then reject i c (g\<lparr>queue := filter (\<lambda>e. eid e \<noteq> i) (queue g)\<rparr>) else g)"

definition gate_drain :: "gate \<Rightarrow> gate" where
  "gate_drain g = g\<lparr>queue := [], settled := settled g @ List.map (\<lambda>e. (eid e, Refused GateDisconnected)) (queue g)\<rparr>"

text \<open>
  \<open>settle\<close>: the gate frees and takes the next command before the caller sees the result.
\<close>

definition gate_settle :: "nat \<Rightarrow> bool \<Rightarrow> gate \<Rightarrow> gate" where
  "gate_settle session ok g =
     (case current g of
        None \<Rightarrow> g
      | Some e \<Rightarrow>
          (let g1 = pump session (g\<lparr>current := None\<rparr>) in
           g1\<lparr>settled := settled g1 @ [(eid e, Completed ok)]\<rparr>))"

text \<open>
  \<open>yieldToUrgent(owner)\<close>, up to the next await: waiting urgent commands of an earlier session are refused,
  the next one goes on the wire. \<open>gate_yield_settle\<close> is the rest of the loop body and the next round.
\<close>

fun yield_from :: "nat \<Rightarrow> entry list \<Rightarrow> gate \<Rightarrow> gate" where
  "yield_from session [] g = g\<lparr>queue := []\<rparr>"
| "yield_from session (e # es) g =
     (if \<not> urgent e then g\<lparr>queue := e # es\<rparr>
      else if generation e \<noteq> session then yield_from session es (reject (eid e) SessionChanged g)
      else g\<lparr>queue := es, yielding := Some e, started := started g @ [(e, session)]\<rparr>)"

definition gate_yield :: "nat \<Rightarrow> nat \<Rightarrow> gate \<Rightarrow> gate" where
  "gate_yield session owner g =
     (case current g of
        Some e \<Rightarrow> if eid e = owner then yield_from session (queue g) g else g
      | None \<Rightarrow> g)"

definition gate_yield_settle :: "nat \<Rightarrow> nat \<Rightarrow> bool \<Rightarrow> gate \<Rightarrow> gate" where
  "gate_yield_settle session owner ok g =
     (case yielding g of
        None \<Rightarrow> g
      | Some u \<Rightarrow> gate_yield session owner (g\<lparr>yielding := None, settled := settled g @ [(eid u, Completed ok)]\<rparr>))"

definition gate_queued :: "gate \<Rightarrow> nat" where
  "gate_queued g = length (queue g)"

subsection \<open>The waiting line as a stable priority queue\<close>

text \<open>
  What the gate relies on: a stable insert loses nothing, keeps the keys sorted, and puts the new element
  behind every waiting one of its own key.
\<close>

locale stable_queue =
  fixes key :: "'a \<Rightarrow> 'k::linorder" and ins :: "'a \<Rightarrow> 'a list \<Rightarrow> 'a list"
  assumes mset_ins: "mset (ins x q) = add_mset x (mset q)"
    and sorted_ins: "sorted (List.map key q) \<Longrightarrow> sorted (List.map key (ins x q))"
    and stable_ins: "sorted (List.map key q) \<Longrightarrow>
      filter (\<lambda>y. key y = k) (ins x q) = filter (\<lambda>y. key y = k) q @ (if key x = k then [x] else [])"
begin

lemma set_ins: "set (ins x q) = insert x (set q)"
  using mset_eq_setD [OF mset_ins [of x q, folded mset.simps(2)]] by simp

lemma length_ins: "length (ins x q) = Suc (length q)"
  using arg_cong [OF mset_ins [of x q], of size] by simp

lemma filter_ins: "length (filter P (ins x q)) = length (filter P q) + (if P x then 1 else 0)"
  using arg_cong [OF mset_ins [of x q], of "\<lambda>m. size (filter_mset P m)"]
  by (simp flip: mset_filter)

lemma ins_empty: "ins x [] = [x]"
  using mset_ins [of x "[]"] by simp

text \<open>Inserting a list of arrivals one by one yields the stable sort of the arrivals.\<close>

definition arrive :: "'a list \<Rightarrow> 'a list" where
  "arrive xs = fold ins xs []"

lemma arrive_snoc: "arrive (xs @ [x]) = ins x (arrive xs)"
  by (simp add: arrive_def)

lemma sorted_arrive: "sorted (List.map key (arrive xs))"
proof (induction xs rule: rev_induct)
  case Nil
  then show ?case by (simp add: arrive_def)
qed (simp add: arrive_snoc sorted_ins)

lemma mset_arrive: "mset (arrive xs) = mset xs"
proof (induction xs rule: rev_induct)
  case Nil
  then show ?case by (simp add: arrive_def)
qed (simp add: arrive_snoc mset_ins)

lemma filter_arrive: "filter (\<lambda>y. key y = k) (arrive xs) = filter (\<lambda>y. key y = k) xs"
proof (induction xs rule: rev_induct)
  case Nil
  then show ?case by (simp add: arrive_def)
qed (simp add: arrive_snoc stable_ins [OF sorted_arrive])

theorem arrive_sort: "arrive xs = sort_key key xs"
proof (rule properties_for_sort_key [symmetric])
  show "filter (\<lambda>x. key k = key x) (arrive xs) = filter (\<lambda>x. key k = key x) xs" for k
    using filter_arrive [of "key k" xs] by (simp only: eq_commute [of "key k"])
qed (simp_all add: mset_arrive sorted_arrive)

end

lemma RANK_less: "RANK p \<le> RANK q \<longleftrightarrow> p \<le> q" "RANK p < RANK q \<longleftrightarrow> p < q"
  by (simp_all add: less_eq_priority_def less_priority_def)

lemma stable_insert_split:
  "stable_insert x q = takeWhile (\<lambda>e. rank e \<le> rank x) q @ x # dropWhile (\<lambda>e. rank e \<le> rank x) q"
  by (simp add: stable_insert_def RANK_less not_less)

lemma dropWhile_above:
  "sorted (List.map rank q) \<Longrightarrow> e \<in> set (dropWhile (\<lambda>e. rank e \<le> p) q) \<Longrightarrow> p < rank e"
  by (induction q) (auto split: if_splits)

interpretation wait: stable_queue rank stable_insert
proof
  fix x :: entry and q :: "entry list" and k
  have q: "q = takeWhile (\<lambda>e. rank e \<le> rank x) q @ dropWhile (\<lambda>e. rank e \<le> rank x) q" by simp
  show "mset (stable_insert x q) = add_mset x (mset q)"
    using arg_cong [OF q, of mset] by (simp add: stable_insert_split del: takeWhile_dropWhile_id)
  assume s: "sorted (List.map rank q)"
  from s have st: "sorted (List.map rank (takeWhile (\<lambda>e. rank e \<le> rank x) q))"
    and sd: "sorted (List.map rank (dropWhile (\<lambda>e. rank e \<le> rank x) q))"
    by (metis map_append q sorted_append)+
  show "sorted (List.map rank (stable_insert x q))"
    using st sd dropWhile_above [OF s, of _ "rank x"]
    by (auto simp: stable_insert_split sorted_append dest!: set_takeWhileD intro: less_imp_le order_trans)
  have "filter (\<lambda>y. rank y = rank x) (dropWhile (\<lambda>e. rank e \<le> rank x) q) = []"
    by (auto simp: filter_empty_conv dest: dropWhile_above [OF s])
  then show "filter (\<lambda>y. rank y = k) (stable_insert x q) = filter (\<lambda>y. rank y = k) q @ (if rank x = k then [x] else [])"
    by (subst (2) q) (auto simp del: takeWhile_dropWhile_id simp add: stable_insert_split)
qed

subsection \<open>The step relation\<close>

text \<open>
  What may happen to the gate, in any order: a request, a timer or an abort of a waiting request, a
  disconnect, a new USB session, the end of the command on the wire, the yield of a compound command
  between two of its lines and the end of an urgent command it let through. A state carries the number
  of the present session and the number of requests made so far.
\<close>

inductive gate_step :: "nat \<Rightarrow> nat \<Rightarrow> gate \<times> nat \<times> nat \<Rightarrow> gate \<times> nat \<times> nat \<Rightarrow> bool" for limit qto where
  run: "gate_step limit qto (g, s, n) (gate_run limit qto s n o1 g, s, Suc n)"
| expire: "e \<in> set (queue g) \<Longrightarrow> timer e \<noteq> None \<Longrightarrow> gate_step limit qto (g, s, n) (gate_remove (eid e) QueueTimeout g, s, n)"
| abort: "e \<in> set (queue g) \<Longrightarrow> abortable e \<Longrightarrow> gate_step limit qto (g, s, n) (gate_remove (eid e) GateCancelled g, s, n)"
| drain: "gate_step limit qto (g, s, n) (gate_drain g, s, n)"
| session: "s < s' \<Longrightarrow> gate_step limit qto (g, s, n) (g, s', n)"
| settle: "yielding g = None \<Longrightarrow> gate_step limit qto (g, s, n) (gate_settle s ok g, s, n)"
| yield: "yielding g = None \<Longrightarrow> current g = Some e \<Longrightarrow> gate_step limit qto (g, s, n) (gate_yield s (eid e) g, s, n)"
| yielded: "current g = Some e \<Longrightarrow> gate_step limit qto (g, s, n) (gate_yield_settle s (eid e) ok g, s, n)"

inductive gate_reachable :: "nat \<Rightarrow> nat \<Rightarrow> gate \<times> nat \<times> nat \<Rightarrow> bool" for limit qto where
  init: "gate_reachable limit qto (empty_gate, s, 0)"
| step: "gate_reachable limit qto x \<Longrightarrow> gate_step limit qto x y \<Longrightarrow> gate_reachable limit qto y"

inductive_cases gate_stepE: "gate_step limit qto (g, s, n) y"

definition before :: "entry \<Rightarrow> entry \<Rightarrow> bool" where
  "before a b \<longleftrightarrow> (rank a, eid a) < (rank b, eid b)"

definition on_wire :: "gate \<Rightarrow> nat list" where
  "on_wire g = List.map eid (case current g of None \<Rightarrow> [] | Some e \<Rightarrow> [e]) @ List.map eid (case yielding g of None \<Rightarrow> [] | Some e \<Rightarrow> [e])"

fun completed :: "gate_outcome \<Rightarrow> bool" where
  "completed (Completed b) = True"
| "completed (Refused c) = False"

definition fifo :: "entry \<Rightarrow> entry \<Rightarrow> bool" where
  "fifo a b \<longleftrightarrow> (rank a = rank b \<longrightarrow> eid a < eid b)"

text \<open>
  The invariant, apart from what holds of an idle gate: the line is strictly sorted by class and arrival,
  bounded, without motor starts; every request is in exactly one place; the requests that were sent are
  those on the wire and those completed; they were sent in their own session, in order within a class.
\<close>

definition gate_core :: "nat \<Rightarrow> nat \<Rightarrow> gate \<Rightarrow> bool" where
  "gate_core limit n g \<longleftrightarrow>
     sorted_wrt before (queue g)
     \<and> length (filter (\<lambda>e. \<not> urgent e) (queue g)) \<le> limit
     \<and> (\<forall>e \<in> set (queue g). \<not> start_only e)
     \<and> mset (List.map eid (queue g) @ on_wire g @ List.map fst (settled g)) = mset [0..<n]
     \<and> mset (List.map (\<lambda>x. eid (fst x)) (started g)) = mset (on_wire g @ List.map fst (filter (\<lambda>x. completed (snd x)) (settled g)))
     \<and> (\<forall>x \<in> set (started g). generation (fst x) = snd x)
     \<and> sorted_wrt fifo (List.map fst (started g) @ queue g)"

definition gate_inv :: "nat \<Rightarrow> nat \<Rightarrow> gate \<Rightarrow> bool" where
  "gate_inv limit n g \<longleftrightarrow> gate_core limit n g \<and> (current g = None \<longrightarrow> queue g = [] \<and> yielding g = None)"

lemmas gate_defs = gate_core_def on_wire_def reject_def running_def

lemma before_sorted: "sorted_wrt before q \<Longrightarrow> sorted (List.map rank q)"
  by (induction q) (auto simp: before_def less_imp_le)

lemma sorted_wrt_filter_imp: "sorted_wrt P xs \<Longrightarrow> sorted_wrt P (filter Q xs)"
  by (induction xs) auto

lemma filter_split_mset:
  "image_mset f (mset xs) = image_mset f (mset (filter P xs)) + image_mset f (mset (filter (\<lambda>x. \<not> P x) xs))"
  by (induction xs) auto

lemma length_filter_twice: "length (filter Q (filter P xs)) \<le> length (filter Q xs)"
  by (induction xs) (auto simp: le_SucI)

lemma gate_core_tail:
  assumes "gate_core limit n g" and "queue g = e # es" and "\<not> completed c"
  shows "gate_core limit n (g\<lparr>queue := es, settled := settled g @ [(eid e, c)]\<rparr>)"
  using assms by (auto simp: gate_defs sorted_wrt_append split: if_splits)

lemma gate_core_start:
  assumes "gate_core limit n g" and "queue g = e # es" and "generation e = s"
  shows "current g = None \<Longrightarrow> gate_core limit n (g\<lparr>queue := es, current := Some e, started := started g @ [(e, s)]\<rparr>)"
    and "yielding g = None \<Longrightarrow> gate_core limit n (g\<lparr>queue := es, yielding := Some e, started := started g @ [(e, s)]\<rparr>)"
  using assms by (auto simp: gate_defs sorted_wrt_append split: if_splits)

lemma gate_core_remove:
  assumes "gate_core limit n g" and "\<not> completed c"
  shows "gate_core limit n (g\<lparr>queue := filter (\<lambda>e. \<not> P e) (queue g),
           settled := settled g @ List.map (\<lambda>e. (eid e, c)) (filter P (queue g))\<rparr>)"
proof -
  have "mset (List.map eid (queue g)) = mset (List.map eid (filter P (queue g))) + mset (List.map eid (filter (\<lambda>e. \<not> P e) (queue g)))"
    by (simp only: mset_map filter_split_mset)
  moreover have "length (filter (\<lambda>e. \<not> urgent e) (filter (\<lambda>e. \<not> P e) (queue g))) \<le> length (filter (\<lambda>e. \<not> urgent e) (queue g))"
    by (rule length_filter_twice)
  moreover have "filter (\<lambda>x. completed (snd x)) (List.map (\<lambda>e. (eid e, c)) (filter P (queue g))) = []"
    using assms(2) by (auto simp: filter_empty_conv)
  ultimately show ?thesis
    using assms(1) by (auto simp: gate_defs sorted_wrt_append sorted_wrt_filter_imp comp_def ac_simps)
qed

lemma gate_core_eid: "gate_core limit n g \<Longrightarrow> e \<in> set (queue g) \<union> fst ` set (started g) \<Longrightarrow> eid e < n"
proof -
  assume core: "gate_core limit n g" and e: "e \<in> set (queue g) \<union> fst ` set (started g)"
  have "mset (List.map eid (queue g) @ on_wire g @ List.map fst (settled g)) = mset [0..<n]"
    using core unfolding gate_core_def by blast
  from mset_eq_setD [OF this] have "set (List.map eid (queue g) @ on_wire g @ List.map fst (settled g)) = {0..<n}"
    by (simp only: set_upt)
  moreover have "eid ` fst ` set (started g) \<subseteq> set (on_wire g @ List.map fst (settled g))"
  proof -
    have "mset (List.map (\<lambda>x. eid (fst x)) (started g)) = mset (on_wire g @ List.map fst (filter (\<lambda>x. completed (snd x)) (settled g)))"
      using core unfolding gate_core_def by blast
    from mset_eq_setD [OF this] show ?thesis by (auto simp: image_iff)
  qed
  ultimately have "eid ` (set (queue g) \<union> fst ` set (started g)) \<subseteq> {0..<n}" by (simp add: image_Un) blast
  then show ?thesis using e by (simp add: image_subset_iff)
qed

lemma gate_core_refuse: "gate_core limit n g \<Longrightarrow> gate_core limit (Suc n) (reject n c g)"
  by (simp add: gate_defs)

lemma gate_core_idle:
  "gate_core limit n g \<Longrightarrow> current g = None \<Longrightarrow> queue g = [] \<Longrightarrow> eid e = n \<Longrightarrow> generation e = s \<Longrightarrow>
   gate_core limit (Suc n) (g\<lparr>queue := [], current := Some e, started := started g @ [(e, s)]\<rparr>)"
  using gate_core_eid [of limit n g]
  by (force simp: gate_defs fifo_def sorted_wrt_append)

lemma gate_core_insert:
  assumes core: "gate_core limit n g" and e: "eid e = n" "\<not> start_only e"
    and room: "urgent e \<or> length (filter (\<lambda>e. \<not> urgent e) (queue g)) < limit"
  shows "gate_core limit (Suc n) (g\<lparr>queue := stable_insert e (queue g)\<rparr>)"
proof -
  let ?q = "stable_insert e (queue g)"
  have sq: "sorted_wrt before (queue g)" and fq: "sorted_wrt fifo (queue g)"
    using core by (simp_all add: gate_core_def sorted_wrt_append)
  have new: "x \<in> set (queue g) \<Longrightarrow> eid x < eid e" "y \<in> set (started g) \<Longrightarrow> eid (fst y) < eid e" for x y
    using gate_core_eid [OF core] e by auto
  have qs: "takeWhile (\<lambda>x. rank x \<le> rank e) (queue g) @ dropWhile (\<lambda>x. rank x \<le> rank e) (queue g) = queue g" by simp
  have sb: "sorted_wrt before ?q"
    using sq new(1) dropWhile_above [OF before_sorted [OF sq], of _ "rank e"] unfolding stable_insert_split
    by (subst (asm) qs [symmetric])
       (auto simp del: takeWhile_dropWhile_id simp add: sorted_wrt_append before_def dest: set_takeWhileD set_dropWhileD)
  have "sorted_wrt fifo ?q" using sb by (rule sorted_wrt_mono_rel [rotated]) (auto simp: before_def fifo_def)
  moreover have "fifo (fst x) e" if "x \<in> set (started g)" for x using new(2) [OF that] by (simp add: fifo_def)
  moreover have "mset (List.map eid ?q) = add_mset n (mset (List.map eid (queue g)))"
    by (simp add: wait.mset_ins e)
  ultimately show ?thesis
    using core sb room e by (auto simp: gate_core_def on_wire_def wait.set_ins wait.filter_ins sorted_wrt_append)
qed

lemma pump_from_queue: "pump_from s q (g\<lparr>queue := x\<rparr>) = pump_from s q g"
proof (induction q arbitrary: g)
  case (Cons e es)
  have "reject (eid e) SessionChanged (g\<lparr>queue := x\<rparr>) = (reject (eid e) SessionChanged g)\<lparr>queue := x\<rparr>"
    by (simp add: reject_def)
  then show ?case using Cons [of "reject (eid e) SessionChanged g"] by simp
qed simp

lemma yield_from_queue: "yield_from s q (g\<lparr>queue := x\<rparr>) = yield_from s q g"
proof (induction q arbitrary: g)
  case (Cons e es)
  have "reject (eid e) SessionChanged (g\<lparr>queue := x\<rparr>) = (reject (eid e) SessionChanged g)\<lparr>queue := x\<rparr>"
    by (simp add: reject_def)
  then show ?case using Cons [of "reject (eid e) SessionChanged g"] by simp
qed simp

lemma reject_tail:
  "pump_from s es (reject (eid e) c g) = pump_from s es (g\<lparr>queue := es, settled := settled g @ [(eid e, Refused c)]\<rparr>)"
  "yield_from s es (reject (eid e) c g) = yield_from s es (g\<lparr>queue := es, settled := settled g @ [(eid e, Refused c)]\<rparr>)"
proof -
  have "g\<lparr>queue := es, settled := settled g @ [(eid e, Refused c)]\<rparr> = (reject (eid e) c g)\<lparr>queue := es\<rparr>"
    by (simp add: reject_def)
  then show "pump_from s es (reject (eid e) c g) = pump_from s es (g\<lparr>queue := es, settled := settled g @ [(eid e, Refused c)]\<rparr>)"
    and "yield_from s es (reject (eid e) c g) = yield_from s es (g\<lparr>queue := es, settled := settled g @ [(eid e, Refused c)]\<rparr>)"
    by (simp_all only: pump_from_queue yield_from_queue)
qed

lemma pump_from_inv:
  assumes "gate_core limit n g" and "current g = None" and "yielding g = None" and "queue g = q"
  shows "gate_inv limit n (pump_from s q g)"
  using assms
proof (induction q arbitrary: g)
  case Nil
  then show ?case by (simp add: gate_inv_def gate_defs)
next
  case (Cons e es)
  let ?g = "g\<lparr>queue := es, settled := settled g @ [(eid e, Refused SessionChanged)]\<rparr>"
  show ?case
  proof (cases "generation e = s")
    case True
    then show ?thesis using Cons.prems gate_core_start(1) [of limit n g e es s] by (simp add: gate_inv_def)
  next
    case False
    have "gate_inv limit n (pump_from s es ?g)"
      using Cons.prems gate_core_tail [of limit n g e es "Refused SessionChanged"] by (intro Cons.IH) simp_all
    then show ?thesis using False Cons.prems(4) by (simp add: reject_tail)
  qed
qed

lemma yield_from_inv:
  assumes "gate_core limit n g" and "yielding g = None" and "current g \<noteq> None" and "queue g = q"
  shows "gate_inv limit n (yield_from s q g)"
  using assms
proof (induction q arbitrary: g)
  case Nil
  then show ?case by (simp add: gate_inv_def gate_defs)
next
  case (Cons e es)
  let ?g = "g\<lparr>queue := es, settled := settled g @ [(eid e, Refused SessionChanged)]\<rparr>"
  have same: "g\<lparr>queue := e # es\<rparr> = g" using Cons.prems(4) by simp
  have kept: "gate_inv limit n (g\<lparr>queue := e # es\<rparr>)" unfolding same using Cons.prems by (simp add: gate_inv_def)
  have "gate_inv limit n (yield_from s es ?g)"
    using Cons.prems gate_core_tail [of limit n g e es "Refused SessionChanged"] by (intro Cons.IH) simp_all
  moreover have "gate_inv limit n (g\<lparr>queue := es, yielding := Some e, started := started g @ [(e, s)]\<rparr>)" if "generation e = s"
    using that Cons.prems gate_core_start(2) [of limit n g e es s] by (simp add: gate_inv_def)
  ultimately show ?case using kept Cons.prems(4) by (simp add: reject_tail)
qed

lemma pump_inv:
  "gate_core limit n g \<Longrightarrow> current g = None \<Longrightarrow> yielding g = None \<Longrightarrow> gate_inv limit n (pump s g)"
  by (simp add: pump_def running_def pump_from_inv)

lemma gate_run_inv:
  assumes inv: "gate_inv limit n g"
  shows "gate_inv limit (Suc n) (gate_run limit qto s n o1 g)"
proof -
  have core: "gate_core limit n g" using inv by (simp add: gate_inv_def)
  have refuse: "gate_inv limit (Suc n) (reject n c g)" for c
    using gate_core_refuse [OF core] inv by (simp add: gate_inv_def reject_def)
  let ?e = "make_entry qto s n o1"
  have e: "eid ?e = n" "generation ?e = s" "start_only ?e = exclusive o1" "rank ?e = priority o1"
    by (simp_all add: make_entry_def)
  show ?thesis
  proof (cases "running g")
    case True
    then have busy: "current g \<noteq> None" by (simp add: running_def)
    have "gate_inv limit (Suc n) (g\<lparr>queue := stable_insert ?e (queue g)\<rparr>)"
      if "\<not> exclusive o1" and "urgent ?e \<or> length (filter (\<lambda>e. \<not> urgent e) (queue g)) < limit"
      using gate_core_insert [OF core, of ?e] that busy by (auto simp: gate_inv_def e)
    then show ?thesis using True refuse
      by (auto simp: gate_run_def pump_def running_def e not_le)
  next
    case False
    then have idle: "current g = None" "queue g = []" using inv by (auto simp: running_def gate_inv_def)
    have "gate_inv limit (Suc n) (g\<lparr>queue := [], current := Some ?e, started := started g @ [(?e, s)]\<rparr>)"
      using gate_core_idle [OF core idle] by (simp add: gate_inv_def e)
    then show ?thesis using idle refuse
      by (auto simp: gate_run_def pump_def running_def e wait.ins_empty)
  qed
qed

lemma gate_remove_inv:
  assumes inv: "gate_inv limit n g"
  shows "gate_inv limit n (gate_remove i c g)"
proof (cases "\<exists>e \<in> set (queue g). eid e = i")
  case True
  have core: "gate_core limit n g" using inv by (simp add: gate_inv_def)
  have "distinct (List.map eid (queue g) @ on_wire g @ List.map fst (settled g))"
    using core mset_eq_imp_distinct_iff [of "List.map eid (queue g) @ on_wire g @ List.map fst (settled g)" "[0..<n]"]
    unfolding gate_core_def by simp
  then have d: "distinct (List.map eid (queue g))" by simp
  obtain e where e: "e \<in> set (queue g)" "eid e = i" using True by blast
  have one: "filter (\<lambda>e. eid e = i) q = [e]" if "distinct (List.map eid q)" and "e \<in> set q" for q
    using that by (induction q) (use e(2) in \<open>auto simp: filter_empty_conv rev_image_eqI\<close>)
  show ?thesis
    using gate_core_remove [OF core, of "Refused c" "\<lambda>e. eid e = i"] True inv one [OF d e(1)] e(2)
    by (auto simp: gate_remove_def reject_def gate_inv_def)
qed (simp add: gate_remove_def inv)

lemma gate_drain_inv: "gate_inv limit n g \<Longrightarrow> gate_inv limit n (gate_drain g)"
  using gate_core_remove [of limit n g "Refused GateDisconnected" "\<lambda>e. True"]
  by (simp add: gate_drain_def gate_inv_def)

text \<open>
  While a command ends, its number is in no place until the log is written: the gate is seen as one in
  which the command has been logged before the next one is taken.
\<close>

definition stale :: "nat \<Rightarrow> entry list \<Rightarrow> (nat \<times> gate_outcome) list" where
  "stale s q = List.map (\<lambda>e. (eid e, Refused SessionChanged)) (takeWhile (\<lambda>e. generation e \<noteq> s) q)"

lemma pump_from_closed:
  "pump_from s q g = (case dropWhile (\<lambda>e. generation e \<noteq> s) q of
      [] \<Rightarrow> g\<lparr>queue := [], settled := settled g @ stale s q\<rparr>
    | e # es \<Rightarrow> g\<lparr>queue := es, current := Some e, started := started g @ [(e, s)], settled := settled g @ stale s q\<rparr>)"
  by (induction q arbitrary: g) (auto simp: stale_def reject_def simp del: dropWhile_eq_Nil_conv split: list.splits)

lemma gate_inv_log:
  "gate_inv limit n g \<Longrightarrow> mset l = mset (settled g) \<Longrightarrow> gate_inv limit n (g\<lparr>settled := l\<rparr>)"
  by (simp add: gate_inv_def gate_core_def on_wire_def mset_filter)

lemma gate_settle_inv:
  assumes inv: "gate_inv limit n g" and y: "yielding g = None"
  shows "gate_inv limit n (gate_settle s ok g)"
proof (cases "current g")
  case None
  then show ?thesis using inv by (simp add: gate_settle_def)
next
  case (Some e)
  let ?g = "g\<lparr>current := None, settled := settled g @ [(eid e, Completed ok)]\<rparr>"
  let ?l = "settled g @ stale s (queue g) @ [(eid e, Completed ok)]"
  have "gate_core limit n ?g" using inv Some y by (auto simp: gate_inv_def gate_defs)
  then have "gate_inv limit n (pump s ?g)" using y by (intro pump_inv) simp_all
  then have "gate_inv limit n ((pump s ?g)\<lparr>settled := ?l\<rparr>)"
    by (rule gate_inv_log) (auto simp: pump_def running_def pump_from_closed simp del: dropWhile_eq_Nil_conv split: list.splits)
  moreover have "(pump s ?g)\<lparr>settled := ?l\<rparr> = gate_settle s ok g"
    using Some by (auto simp: gate_settle_def pump_def running_def pump_from_closed simp del: dropWhile_eq_Nil_conv split: list.splits)
  ultimately show ?thesis by simp
qed

lemma gate_yield_inv:
  "gate_inv limit n g \<Longrightarrow> yielding g = None \<Longrightarrow> gate_inv limit n (gate_yield s i g)"
  using yield_from_inv [of limit n g "queue g" s]
  by (cases "current g") (simp_all add: gate_yield_def gate_inv_def)

lemma gate_yield_settle_inv:
  assumes inv: "gate_inv limit n g"
  shows "gate_inv limit n (gate_yield_settle s i ok g)"
proof (cases "yielding g")
  case (Some u)
  then have "gate_inv limit n (g\<lparr>yielding := None, settled := settled g @ [(eid u, Completed ok)]\<rparr>)"
    using inv by (auto simp: gate_inv_def gate_defs split: option.splits)
  then show ?thesis using Some by (simp add: gate_yield_settle_def gate_yield_inv)
qed (simp add: gate_yield_settle_def inv)

lemmas gate_op_inv = gate_run_inv gate_remove_inv gate_drain_inv gate_settle_inv gate_yield_inv gate_yield_settle_inv

lemma gate_step_inv:
  "gate_step limit qto x y \<Longrightarrow> (case x of (g, s, n) \<Rightarrow> gate_inv limit n g) \<Longrightarrow> (case y of (g, s, n) \<Rightarrow> gate_inv limit n g)"
  by (cases rule: gate_step.cases) (auto simp: gate_op_inv)

lemma gate_reachable_inv: "gate_reachable limit qto x \<Longrightarrow> (case x of (g, s, n) \<Rightarrow> gate_inv limit n g)"
proof (induction rule: gate_reachable.induct)
  case (init s)
  then show ?case by (simp add: gate_inv_def gate_defs empty_gate_def)
qed (rule gate_step_inv)

lemma gate_reachableD: "gate_reachable limit qto (g, s, n) \<Longrightarrow> gate_inv limit n g"
  using gate_reachable_inv by fastforce

subsection \<open>What the gate promises\<close>

lemma distinct_append_sub:
  "distinct zs \<Longrightarrow> set zs \<subseteq> set ys \<Longrightarrow> set xs \<inter> set ys = {} \<Longrightarrow> distinct xs \<Longrightarrow> distinct (xs @ zs)"
  by auto

lemma gate_inv_places:
  assumes "gate_inv limit n g"
  shows "distinct (List.map fst (settled g))" and "distinct (List.map (\<lambda>x. eid (fst x)) (started g))"
    and "set (List.map eid (queue g) @ on_wire g @ List.map fst (settled g)) = {0..<n}"
    and "(i, Refused c) \<in> set (settled g) \<Longrightarrow> i \<notin> (\<lambda>x. eid (fst x)) ` set (started g)"
    and "(i, Completed ok) \<in> set (settled g) \<Longrightarrow> i \<in> (\<lambda>x. eid (fst x)) ` set (started g)"
proof -
  let ?done = "List.map fst (filter (\<lambda>x. completed (snd x)) (settled g))"
  have m: "mset (List.map eid (queue g) @ on_wire g @ List.map fst (settled g)) = mset [0..<n]"
    and w: "mset (List.map (\<lambda>x. eid (fst x)) (started g)) = mset (on_wire g @ ?done)"
    using assms unfolding gate_inv_def gate_core_def by blast+
  have all: "distinct (List.map eid (queue g) @ on_wire g @ List.map fst (settled g))"
    using mset_eq_imp_distinct_iff [OF m] by simp
  then show d: "distinct (List.map fst (settled g))" by simp
  have "set ?done \<subseteq> set (List.map fst (settled g))" by auto
  moreover have "set (on_wire g) \<inter> set (List.map fst (settled g)) = {}" "distinct (on_wire g)"
    using all by (simp_all only: distinct_append set_append)
  ultimately have "distinct (on_wire g @ ?done)"
    by (rule distinct_append_sub [OF distinct_map_filter [OF d]])
  then show "distinct (List.map (\<lambda>x. eid (fst x)) (started g))"
    unfolding mset_eq_imp_distinct_iff [OF w] .
  show "set (List.map eid (queue g) @ on_wire g @ List.map fst (settled g)) = {0..<n}"
    using mset_eq_setD [OF m] by (simp only: set_upt)
  have sent: "(\<lambda>x. eid (fst x)) ` set (started g) = set (on_wire g) \<union> set ?done"
    using mset_eq_setD [OF w] by simp
  show "(i, Completed ok) \<in> set (settled g) \<Longrightarrow> i \<in> (\<lambda>x. eid (fst x)) ` set (started g)"
    unfolding sent by force
  assume r: "(i, Refused c) \<in> set (settled g)"
  then have "i \<notin> set (on_wire g)" using all by force
  moreover have "i \<notin> set ?done"
  proof
    assume "i \<in> set ?done"
    then obtain x where "(i, x) \<in> set (settled g)" "completed x" by auto
    moreover from this have "x = Refused c" using r by (intro eq_key_imp_eq_value [OF d])
    ultimately show False by simp
  qed
  ultimately show "i \<notin> (\<lambda>x. eid (fst x)) ` set (started g)" unfolding sent by simp
qed

definition gate_load :: "gate \<Rightarrow> nat" where
  "gate_load g = length (queue g) + (if running g then 1 else 0)"

lemma gate_settle_load:
  assumes inv: "gate_inv limit n g" and y: "yielding g = None"
  shows "gate_load (gate_settle s ok g) \<le> gate_load g - 1" and "yielding (gate_settle s ok g) = None"
proof -
  have "length (dropWhile P q) \<le> length q" for P and q :: "entry list" by (rule length_dropWhile_le)
  note this [of "\<lambda>e. generation e \<noteq> s" "queue g"]
  then show "gate_load (gate_settle s ok g) \<le> gate_load g - 1" "yielding (gate_settle s ok g) = None"
    using inv y by (auto simp: gate_load_def gate_settle_def gate_inv_def running_def pump_def pump_from_closed
      simp del: dropWhile_eq_Nil_conv split: option.splits list.splits)
qed

lemma gate_settle_all:
  assumes "gate_inv limit n g" and "yielding g = None" and "gate_load g \<le> length oks"
  shows "gate_inv limit n (fold (gate_settle s) oks g) \<and> gate_load (fold (gate_settle s) oks g) = 0
    \<and> yielding (fold (gate_settle s) oks g) = None"
  using assms
proof (induction oks arbitrary: g)
  case (Cons ok oks)
  then show ?case
    using gate_settle_inv [of limit n g s ok] gate_settle_load [of limit n g s ok] by simp
qed simp

text \<open>C9: In every state the gate can reach, the waiting commands are strictly ordered by class and then by
  arrival, at most \<open>limit\<close> of them are not urgent, none of them is a motor start, nothing waits while the
  wire is free, and the commands sent so far were sent, within each class, in the order in which they were
  requested; those still waiting were requested after those of their class that were sent.\<close>
theorem gate_waiting_line:
  assumes "gate_reachable limit qto (g, s, n)"
  shows "sorted_wrt before (queue g)
    \<and> length (filter (\<lambda>e. \<not> urgent e) (queue g)) \<le> limit
    \<and> list_all (\<lambda>e. \<not> start_only e) (queue g)
    \<and> (gate_queued g = 0 \<or> running g)
    \<and> sorted_wrt fifo (List.map fst (started g) @ queue g)"
  using gate_reachableD [OF assms]
  by (auto simp: gate_inv_def gate_core_def running_def gate_queued_def list_all_iff)

text \<open>C10: Every request that was ever made is waiting, on the wire, or settled; none is settled twice and none is
  sent twice. A request settled with a gate refusal never reached the controller, one settled with a
  result did, and every command that was sent was queued in the very session it was sent in.\<close>
theorem gate_refused_never_sent:
  assumes "gate_reachable limit qto (g, s, n)"
  shows "set (List.map eid (queue g) @ on_wire g @ List.map fst (settled g)) = {0..<n}
    \<and> distinct (List.map fst (settled g))
    \<and> distinct (List.map (\<lambda>x. eid (fst x)) (started g))
    \<and> list_all (\<lambda>x. (fst x \<in> (\<lambda>y. eid (fst y)) ` set (started g)) = (\<not> is_gate_not_sent (snd x))) (settled g)
    \<and> list_all (\<lambda>x. generation (fst x) = snd x) (started g)"
proof -
  note inv = gate_reachableD [OF assms]
  note places = gate_inv_places [OF inv]
  have "(fst x \<in> (\<lambda>y. eid (fst y)) ` set (started g)) = (\<not> is_gate_not_sent (snd x))" if "x \<in> set (settled g)" for x
  proof (cases x)
    case (Pair i r)
    then show ?thesis using that places(4) [of i] places(5) [of i] by (cases r) (auto simp: is_gate_not_sent_def)
  qed
  then show ?thesis using places(1-3) inv by (auto simp: list_all_iff gate_inv_def gate_core_def)
qed

text \<open>C11: Whatever waits is settled after at most one more command than there are waiting ones: from a reachable
  state in which no compound command is letting an urgent one through, as soon as that many commands on the
  wire have ended the gate is idle and every request has been settled exactly once.\<close>
theorem gate_every_request_settles:
  assumes "gate_reachable limit qto (g, s, n)" and "yielding g = None" and "length oks = Suc (gate_queued g)"
  shows "\<not> running (fold (gate_settle s) oks g) \<and> gate_queued (fold (gate_settle s) oks g) = 0
    \<and> set (List.map fst (settled (fold (gate_settle s) oks g))) = {0..<n}
    \<and> distinct (List.map fst (settled (fold (gate_settle s) oks g)))"
proof -
  have "gate_load g \<le> length oks" using assms(3) by (simp add: gate_load_def gate_queued_def)
  note all = gate_settle_all [OF gate_reachableD [OF assms(1)] assms(2) this, of s]
  define h where "h = fold (gate_settle s) oks g"
  have h: "gate_inv limit n h" "gate_load h = 0" "yielding h = None" using all by (simp_all add: h_def)
  then have idle: "current h = None" "queue h = []"
    by (simp_all add: gate_load_def running_def split: if_splits)
  then have "set (List.map fst (settled h)) = {0..<n}"
    using gate_inv_places(3) [OF h(1)] h(3) by (simp add: on_wire_def)
  then show ?thesis
    using idle gate_inv_places(1) [OF h(1)] by (simp add: gate_queued_def running_def flip: h_def)
qed

text \<open>Two commands and a stop: a save on the wire, a poll and the stop waiting.\<close>

definition stop_gate :: gate where
  "stop_gate = gate_run 16 5000 1 2 (command_gate_options ''disarm'')
     (gate_run 16 5000 1 1 (command_gate_options ''status'') (gate_run 16 5000 1 0 (command_gate_options ''save'') empty_gate))"

lemma stop_gate_reachable: "gate_reachable 16 5000 (stop_gate, 1, 3)"
proof -
  have run: "gate_reachable 16 5000 (gate_run 16 5000 1 n o1 g, 1, Suc n)" if "gate_reachable 16 5000 (g, 1, n)" for g n o1
    using that gate_step.run by (rule gate_reachable.step)
  from run [OF run [OF run [OF gate_reachable.init]]] show ?thesis
    unfolding stop_gate_def by (simp only: One_nat_def numeral_2_eq_2 numeral_3_eq_3)
qed

lemma stop_gate_options:
  "command_gate_options ''disarm'' = plain_options\<lparr>priority := Urgent\<rparr>"
  "command_gate_options ''status'' = plain_options"
  "command_gate_options ''save'' = plain_options\<lparr>priority := WriteClass\<rparr>"
  by code_simp+

lemma stop_gate_value:
  "stop_gate = \<lparr>queue = [make_entry 5000 1 2 (plain_options\<lparr>priority := Urgent\<rparr>), make_entry 5000 1 1 plain_options],
     current = Some (make_entry 5000 1 0 (plain_options\<lparr>priority := WriteClass\<rparr>)), yielding = None,
     started = [(make_entry 5000 1 0 (plain_options\<lparr>priority := WriteClass\<rparr>), 1)], settled = []\<rparr>"
proof -
  let ?save = "make_entry 5000 1 0 (plain_options\<lparr>priority := WriteClass\<rparr>)"
  let ?g = "\<lparr>queue = [], current = Some ?save, yielding = None, started = [(?save, 1)], settled = []\<rparr>"
  have 1: "gate_run 16 5000 1 0 (command_gate_options ''save'') empty_gate = ?g"
    by (simp add: stop_gate_options gate_run_def plain_options_def make_entry_def stable_insert_def pump_def running_def empty_gate_def)
  have 2: "gate_run 16 5000 1 1 (command_gate_options ''status'') ?g = ?g\<lparr>queue := [make_entry 5000 1 1 plain_options]\<rparr>"
    by (simp add: stop_gate_options gate_run_def plain_options_def make_entry_def stable_insert_def pump_def running_def)
  show ?thesis
    unfolding stop_gate_def 1 2
    by (simp add: stop_gate_options gate_run_def plain_options_def make_entry_def stable_insert_def pump_def running_def)
qed

lemma stop_gate_state:
  "List.map eid (queue stop_gate) = [2, 1]" "yielding stop_gate = None" "map_option eid (current stop_gate) = Some 0"
  "gate_queued stop_gate = 2"
  by (simp_all add: stop_gate_value make_entry_def gate_queued_def)

theorem gate_waiting_line_witness:
  "gate_reachable 16 5000 (stop_gate, 1, 3) \<and> sorted_wrt before (queue stop_gate)"
  using gate_waiting_line [OF stop_gate_reachable] stop_gate_reachable by simp

theorem gate_refused_never_sent_witness:
  "set (List.map eid (queue stop_gate) @ on_wire stop_gate @ List.map fst (settled stop_gate)) = {0..<3}"
  using gate_refused_never_sent [OF stop_gate_reachable] by (elim conjE)

theorem gate_every_request_settles_witness:
  "\<not> running (fold (gate_settle 1) [True, False, True] stop_gate)
   \<and> set (List.map fst (settled (fold (gate_settle 1) [True, False, True] stop_gate))) = {0..<3}"
  using gate_every_request_settles [OF stop_gate_reachable stop_gate_state(2), of "[True, False, True]"] stop_gate_state(4)
  by simp

lemma pump_busy: "running g \<Longrightarrow> pump s g = g"
  by (simp add: pump_def)



end
