(* ===== verification/Host_Link.thy ===== *)
theory Host_Link
  imports Command_Gate State_Result
begin

section \<open>What a page sees of a host command\<close>

text \<open>
  A command of the host ends with the reply text or throws. A rejection of the command gate carries its
  code, and the command never reached the controller; any other error (the client, the transport, a parser) is known by
  its message only. The predicates are those of commandGate.ts on an error, \<open>error_text\<close> is its message.
\<close>

datatype link_error = GateRejected gate_error_code string | OtherError string

fun error_code :: "link_error \<Rightarrow> gate_error_code option" where
  "error_code (GateRejected c m) = Some c"
| "error_code (OtherError m) = None"

fun error_text :: "link_error \<Rightarrow> string" where
  "error_text (GateRejected c m) = m"
| "error_text (OtherError m) = m"

definition busy_error :: "link_error \<Rightarrow> bool" where
  "busy_error e \<longleftrightarrow> (case error_code e of Some c \<Rightarrow> is_gate_busy (Refused c) | None \<Rightarrow> False)"

definition not_sent_error :: "link_error \<Rightarrow> bool" where
  "not_sent_error e \<longleftrightarrow> error_code e \<noteq> None"

lemma busy_not_sent: "busy_error e \<Longrightarrow> not_sent_error e"
  by (auto simp: busy_error_def not_sent_error_def split: option.splits)

lemma busy_error_codes: "busy_error e \<longleftrightarrow> error_code e = Some QueueFull \<or> error_code e = Some BusyStart"
  by (auto simp: busy_error_def is_gate_busy_def split: option.splits)

end
