(* ===== verification/Sd_Download.thy ===== *)
theory Sd_Download
  imports Fat32_Device Sd_Read Onboard_Recorder Host_Link
begin

section \<open>Saving a log from the card: blackbox/sdDownload.ts\<close>

text \<open>
  The download puts three parts together: the reader of the FAT32 root directory, the reader of one
  sector over the CLI, and the recorder and arm state of the controller. What happens outside is a list of moments: at every
  \<open>await\<close> the operation takes the next one, which says how the pending command ended, whether the user cancelled
  meanwhile, whether the link is still connected, and the time. An operation whose moments run out is still
  waiting. The log \<open>wire\<close> lists every command handed to the link and every answer. Messages are constructors.
\<close>

subsection \<open>Who may download\<close>

datatype dl_block = SettingsBlock | SdCheckBlock | BenchBlock

definition storage_block :: "bool \<Rightarrow> bool \<Rightarrow> bool \<Rightarrow> dl_block option" where
  "storage_block settings_pending sd_check bench =
     (if settings_pending then Some SettingsBlock else if sd_check then Some SdCheckBlock else if bench then Some BenchBlock else None)"

datatype dl_blocked = BlockNotConnected | BlockPostFlash | BlockUnsupported | BlockRecording | BlockArmed | BlockStorage dl_block

definition download_blocked_reason :: "bool \<Rightarrow> bool \<Rightarrow> bool \<Rightarrow> bool \<Rightarrow> dl_block option \<Rightarrow> bool \<Rightarrow> dl_blocked option" where
  "download_blocked_reason conn post_flash rec armed blocked supported1 =
     (if \<not> conn then Some BlockNotConnected
      else if post_flash then Some BlockPostFlash
      else if \<not> supported1 then Some BlockUnsupported
      else if rec then Some BlockRecording
      else if armed then Some BlockArmed
      else map_option BlockStorage blocked)"

subsection \<open>The locks of the controller\<close>

datatype arm_verdict_kind = ArmDisarmed | ArmArmed string | ArmUnknown

definition arm_verdict :: "string \<Rightarrow> arm_verdict_kind" where
  "arm_verdict raw =
     (let ls = filter (prefix ''arm:'') (List.map js_trim (split_any_nl raw)); value = (\<lambda>l. js_trim_start (drop 4 l)) in
      case find (\<lambda>l. value l = ''armed'') ls of
        Some l \<Rightarrow> ArmArmed l
      | None \<Rightarrow> if ls \<noteq> [] \<and> list_all (\<lambda>l. value l = ''disarmed'') ls then ArmDisarmed else ArmUnknown)"

datatype recorder_verdict_kind = RecorderIdle | RecorderBusy string | RecorderUnknown

definition recorder_verdict :: "string \<Rightarrow> recorder_verdict_kind" where
  "recorder_verdict raw =
     (let ls = List.map js_trim (split_any_nl raw);
          state_line = find (prefix ''blackbox_state:'') ls; active_line = find (prefix ''blackbox_active:'') ls;
          recording = RecorderBusy (case (state_line, active_line) of (Some l, _) \<Rightarrow> l | (None, Some l) \<Rightarrow> l | (None, None) \<Rightarrow> ''blackbox_active: 1'');
          state = (case state_line of Some l \<Rightarrow> js_trim_start (drop 15 l) | None \<Rightarrow> []);
          active = (case active_line of Some l \<Rightarrow> js_trim_start (drop 16 l) | None \<Rightarrow> []);
          unreadable = (if active = ''1'' \<or> state \<in> set ONBOARD_ACTIVE_STATES then recording else RecorderUnknown)
      in case parse_onboard_reply raw of
           Inl e \<Rightarrow> unreadable
         | Inr snap \<Rightarrow> if on_unavailable snap then unreadable else if on_active snap then recording else RecorderIdle)"

subsection \<open>The controller and its world\<close>

datatype dl_phase = DlIdle | DlProbing | DlScanning | DlDownloading | DlCancelling

datatype dl_reason = ByUser | LeftTab | LinkGone | GateBlocked

datatype dl_what = Listing | Download

datatype dl_detail = RawDetail string | NoCompleteReply string | NoReadReply nat nat

datatype dl_text =
    StoppedText dl_what dl_reason
  | TimedOut dl_what dl_detail
  | TimedOutLink dl_what dl_detail bool
  | BusyText | BusyMidReadText
  | CommandFailed string | CommandRefused string | UnexpectedReply string sd_status_result
  | ProbeNotStarted "string option" | ProbeTooSlow int | ProbeEnded "string option"
  | CardNotReady string | NotFat32Card string
  | LocksNotChecked string | RecorderOwnsCard | ControllerArmed
  | CardUnsafe string
  | NoSectorReads | ReadFailed nat | CrcTwice nat string string | ReadStopped nat | ReadRefused nat | ReadInvalid nat sd_reason
  | FileGone string | FileChanged string nat nat | WrongLength nat nat | WrongBlob nat nat
  | DownloadFailed | SettingsBusy
  | ListedText nat | SavedText string nat nat

record dl_abort =
  ab_text :: dl_text
  ab_line :: "string option"
  ab_info :: bool
  ab_detail :: "dl_detail option"

definition abort :: "dl_text \<Rightarrow> dl_abort" where
  "abort t = \<lparr>ab_text = t, ab_line = None, ab_info = False, ab_detail = None\<rparr>"

text \<open>What a step throws: an abort, its two subclasses, any other error; or it is still waiting.\<close>

datatype dl_exn = DlWaiting | DlAbort dl_abort | DlGateBusy string | DlTimeout dl_what dl_detail | DlError link_error

datatype dl_note = NoNote | NotConnectedNote | CancelReplied string | CancelSent | CancelNoReply | CancelBusy | CancelFailed dl_exn

datatype dl_tone = InfoTone | OkTone | ErrorTone

record dl_message =
  ms_tone :: dl_tone
  ms_text :: dl_text
  ms_note :: dl_note
  ms_line :: "string option"
  ms_detail :: "dl_detail option"

record dl_progress =
  pr_file :: string
  pr_bytes_total :: nat
  pr_bytes_done :: nat
  pr_sectors_total :: nat
  pr_sectors_done :: nat

record moment =
  mo_answer :: "link_error + string"
  mo_cancel :: "dl_reason option"
  mo_online :: bool
  mo_now :: int

datatype dl_event = Handed string | Came string "link_error + string"

record dl =
  dl_phase :: dl_phase
  dl_files :: "bbl_entry list option"
  dl_progress :: "dl_progress option"
  dl_message :: "dl_message option"
  recorder_note :: bool
  arm_note :: bool
  dl_warnings :: "string list"
  sector_reads :: nat
  sectors_answered :: nat
  sd_on_wire :: bool
  cancel_reason :: "dl_reason option"
  probe_timeout_ms :: int
  gate_retry_ms :: int
  can_read :: bool
  online :: bool
  clock :: int
  moments :: "moment list"
  wire :: "dl_event list"
  saved :: "(string \<times> byte list) list"

type_synonym 'a dl_act = "(dl, dl_exn, 'a) act"

definition new_download :: "bool \<Rightarrow> moment list \<Rightarrow> dl" where
  "new_download reads ms = \<lparr>dl_phase = DlIdle, dl_files = None, dl_progress = None, dl_message = None, recorder_note = False,
     arm_note = False, dl_warnings = [], sector_reads = 0, sectors_answered = 0, sd_on_wire = False, cancel_reason = None,
     probe_timeout_ms = int SD_PROBE_TIMEOUT_MS, gate_retry_ms = 2500, can_read = reads, online = True, clock = 0,
     moments = ms, wire = [], saved = []\<rparr>"

text \<open>\<open>cancel(reason)\<close>: the first request during an operation counts.\<close>

definition dl_cancel :: "dl_reason \<Rightarrow> dl \<Rightarrow> dl" where
  "dl_cancel r s = (if dl_phase s = DlIdle \<or> cancel_reason s \<noteq> None then s else s\<lparr>cancel_reason := Some r, dl_phase := DlCancelling\<rparr>)"

definition take_moment :: "moment \<Rightarrow> dl \<Rightarrow> dl" where
  "take_moment m s = (let t = s\<lparr>online := mo_online m, clock := mo_now m\<rparr> in
     case mo_cancel m of Some r \<Rightarrow> dl_cancel r t | None \<Rightarrow> t)"

text \<open>An \<open>await\<close>; \<open>sleep\<close>; and a command handed to the link, whose answer is read by \<open>read_as\<close>.\<close>

definition await :: "moment dl_act" where
  "await s = (case moments s of [] \<Rightarrow> (Inl DlWaiting, s) | m # ms \<Rightarrow> (Inr m, take_moment m (s\<lparr>moments := ms\<rparr>)))"

definition sleep :: "unit dl_act" where
  "sleep = act_bind await (\<lambda>_. act_ret ())"

definition log_wire :: "dl_event \<Rightarrow> unit dl_act" where
  "log_wire e = act_mod (\<lambda>s. s\<lparr>wire := wire s @ [e]\<rparr>)"

definition request :: "string \<Rightarrow> (link_error + string \<Rightarrow> link_error + 'a) \<Rightarrow> 'a dl_act" where
  "request cmd read_as =
     act_then (log_wire (Handed cmd)) (act_bind await (\<lambda>m.
     act_then (log_wire (Came cmd (mo_answer m))) (case read_as (mo_answer m) of Inl e \<Rightarrow> act_throw (DlError e) | Inr x \<Rightarrow> act_ret x)))"

text \<open>\<open>checkCancel\<close> and \<open>check\<close>.\<close>

definition stopped :: "dl_what \<Rightarrow> dl_reason \<Rightarrow> dl_exn" where
  "stopped what r = DlAbort ((abort (StoppedText what r))\<lparr>ab_info := True\<rparr>)"

definition check_cancel :: "dl_what \<Rightarrow> unit dl_act" where
  "check_cancel what s = (case cancel_reason s of Some r \<Rightarrow> (Inl (stopped what r), s) | None \<Rightarrow> (Inr (), s))"

definition check :: "dl_what \<Rightarrow> unit dl_act" where
  "check what = act_then (check_cancel what) (act_bind (act_get online) (\<lambda>on. act_unless on (stopped what LinkGone)))"

subsection \<open>Commands through the gate\<close>

definition err_text :: "link_error \<Rightarrow> string" where
  "err_text e = take 300 (error_text e)"

definition is_timeout_error :: "link_error \<Rightarrow> bool" where
  "is_timeout_error e \<longleftrightarrow> \<not> not_sent_error e \<and> (js_includes ''terminator missing'' (error_text e) \<or> js_includes ''timed out'' (error_text e))"

definition mark_sd :: "bool \<Rightarrow> dl \<Rightarrow> dl" where
  "mark_sd sd s = (if sd then s\<lparr>sd_on_wire := True\<rparr> else s)"

text \<open>The \<open>catch\<close> of \<open>withGate\<close> once it does not try again.\<close>

definition gate_failure :: "dl_what \<Rightarrow> bool \<Rightarrow> link_error \<Rightarrow> dl \<Rightarrow> dl_exn" where
  "gate_failure what cancellable e s =
     (if busy_error e \<and> cancellable \<and> cancel_reason s \<noteq> None then stopped what (the (cancel_reason s))
      else if is_timeout_error e then DlTimeout what (NoCompleteReply (err_text e))
      else if \<not> online s then stopped what LinkGone
      else if busy_error e \<or> error_code e = Some QueueTimeout then DlGateBusy (err_text e)
      else DlError e)"

lemma await_moments: "await s = (r, t) \<Longrightarrow> length (moments t) \<le> length (moments s)"
  by (auto simp: await_def take_moment_def dl_cancel_def Let_def split: list.splits option.splits)

lemma request_moments:
  "request cmd read_as s = (r, t) \<Longrightarrow> length (moments t) \<le> length (moments s) \<and> (r \<noteq> Inl DlWaiting \<longrightarrow> length (moments t) < length (moments s))"
  by (auto simp: request_def act_then_def act_bind_def log_wire_def act_mod_def await_def take_moment_def dl_cancel_def Let_def act_throw_def
    act_ret_def split: list.splits option.splits sum.splits if_split_asm)

function with_gate :: "dl_what \<Rightarrow> string \<Rightarrow> (link_error + string \<Rightarrow> link_error + 'a) \<Rightarrow> bool \<Rightarrow> bool \<Rightarrow> int \<Rightarrow> 'a dl_act" where
  "with_gate what cmd read_as sd cancellable deadline s =
     (case request cmd read_as s of
        (Inr x, t) \<Rightarrow> (Inr x, mark_sd sd t)
      | (Inl (DlError e), t) \<Rightarrow>
          (let u = mark_sd (sd \<and> \<not> not_sent_error e) t in
           if busy_error e \<and> clock u < deadline \<and> \<not> (cancellable \<and> cancel_reason u \<noteq> None)
           then (case sleep u of
               (Inl x, v) \<Rightarrow> (Inl x, v)
             | (Inr _, v) \<Rightarrow> with_gate what cmd read_as sd cancellable deadline v)
           else (Inl (gate_failure what cancellable e u), u))
      | (Inl x, t) \<Rightarrow> (Inl x, t))"
  by pat_completeness auto
termination
proof (relation "measure (\<lambda>(what, cmd, read_as, sd, cancellable, deadline, s). length (moments s))")
  fix what :: dl_what and cmd and read_as :: "link_error + string \<Rightarrow> link_error + 'a" and sd cancellable deadline s r t q e u q' v b
  assume a: "(r, t) = request cmd read_as s" "r = Inl q" "q = DlError e" "u = mark_sd (sd \<and> \<not> not_sent_error e) t" "(q', v) = sleep u"
  have "length (moments t) < length (moments s)" using request_moments [of cmd read_as s r t] a(1-3) by simp
  moreover have "moments u = moments t" using a(4) by (simp add: mark_sd_def)
  moreover have "length (moments v) \<le> length (moments u)"
    using a(5) [symmetric] await_moments unfolding sleep_def act_bind_def by (auto split: prod.splits sum.splits)
  ultimately show "((what, cmd, read_as, sd, cancellable, deadline, v), what, cmd, read_as, sd, cancellable, deadline, s)
      \<in> measure (\<lambda>(what, cmd, read_as, sd, cancellable, deadline, s). length (moments s))" by simp
qed simp

declare with_gate.simps [simp del]

definition gated_request :: "dl_what \<Rightarrow> string \<Rightarrow> (link_error + string \<Rightarrow> link_error + 'a) \<Rightarrow> bool \<Rightarrow> bool \<Rightarrow> 'a dl_act" where
  "gated_request what cmd read_as sd cancellable s = with_gate what cmd read_as sd cancellable (clock s + gate_retry_ms s) s"

text \<open>A \<open>try\<close> block whose \<open>catch\<close> turns an exception into another.\<close>

definition rethrow :: "(dl_exn \<Rightarrow> dl \<Rightarrow> dl_exn) \<Rightarrow> 'a dl_act \<Rightarrow> 'a dl_act" where
  "rethrow f m s = (case m s of (Inl e, t) \<Rightarrow> (Inl (f e t), t) | (Inr x, t) \<Rightarrow> (Inr x, t))"

definition dl_throw :: "dl_text \<Rightarrow> string option \<Rightarrow> 'a dl_act" where
  "dl_throw t l = act_throw (DlAbort ((abort t)\<lparr>ab_line := l\<rparr>))"

text \<open>What is thrown when a raw error is not an abort already.\<close>

fun or_abort :: "dl_text \<Rightarrow> dl_exn \<Rightarrow> dl \<Rightarrow> dl_exn" where
  "or_abort t (DlError e) s = DlAbort ((abort t)\<lparr>ab_detail := Some (RawDetail (err_text e))\<rparr>)"
| "or_abort t x s = x"

definition send_sd :: "string \<Rightarrow> dl_what \<Rightarrow> sd_status dl_act" where
  "send_sd cmd what =
     act_bind (rethrow (or_abort (CommandFailed cmd)) (gated_request what cmd (\<lambda>a. a) True True)) (\<lambda>raw.
     act_then (check what)
      (case parse_sd_status_reply raw of
         StatusRefused l \<Rightarrow> dl_throw (CommandRefused cmd) (Some l)
       | SdStatus st \<Rightarrow> act_ret st
       | other \<Rightarrow> dl_throw (UnexpectedReply cmd other) None))"

definition dl_set_phase :: "dl_phase \<Rightarrow> unit dl_act" where
  "dl_set_phase p = act_mod (\<lambda>s. s\<lparr>dl_phase := p\<rparr>)"

text \<open>One round of the poll: \<open>None\<close> while the probe runs, the size of the card once it is done.\<close>

definition poll_verdict :: "sd_status \<Rightarrow> nat option dl_act" where
  "poll_verdict st =
     (if sd_state st \<in> set SD_PROBE_ACTIVE_STATES then act_ret None
      else if sd_state st \<noteq> ''done'' then dl_throw (ProbeEnded (sd_detail st)) (Some (''sd_state: '' @ sd_state st))
      else case sd_ready_capacity st of
        Inl why \<Rightarrow> dl_throw (CardNotReady why) None
      | Inr n \<Rightarrow>
          (case sd_filesystem st of
             None \<Rightarrow> act_ret (Some n)
           | Some hint \<Rightarrow> if hint = ''FAT32'' then act_ret (Some n) else dl_throw (NotFat32Card hint) (Some (''sd_filesystem_hint: '' @ hint))))"

definition poll_ask :: "dl_what \<Rightarrow> nat option dl_act" where
  "poll_ask what = act_then (check what) (act_bind (send_sd ''sd status'' what) poll_verdict)"

definition poll_round :: "dl_what \<Rightarrow> nat option dl_act" where
  "poll_round what = act_then sleep (poll_ask what)"

subsection \<open>Every step only takes moments\<close>

text \<open>\<open>k\<close> bounds the moments left; the loops end because each round takes one.\<close>

abbreviation shrinks :: "'a dl_act \<Rightarrow> bool" where
  "shrinks m \<equiv> (\<forall>k. keeps (\<lambda>s. length (moments s) \<le> k) m)"

lemma shrinks_mod: "(\<And>s. moments (f s) = moments s) \<Longrightarrow> keeps (\<lambda>s. length (moments s) \<le> k) (act_mod f)"
  by (rule keeps_mod) simp

lemma shrinksD: "shrinks m \<Longrightarrow> m s = (r, t) \<Longrightarrow> length (moments t) \<le> length (moments s)"
  using keepsD [of "\<lambda>u. length (moments u) \<le> length (moments s)" m s r t] by simp

lemma keeps_rethrow [act_keeps]: "keeps I m \<Longrightarrow> keeps I (rethrow f m)"
  by (fastforce simp: keeps_def rethrow_def split: prod.split sum.split)

lemma keeps_dl_throw [act_keeps]: "keeps I (dl_throw t l)"
  by (simp add: dl_throw_def keeps_throw)

lemma keeps_check_cancel [act_keeps]: "keeps I (check_cancel what)"
  by (auto simp: keeps_def check_cancel_def split: option.split)

lemma keeps_check_dl [act_keeps]: "keeps I (check what)"
  unfolding check_def by (intro act_keeps)

text \<open>What an invariant needs to survive a command: the moments, the log and the mark of an SD command.\<close>

definition request_safe :: "string set \<Rightarrow> (dl \<Rightarrow> bool) \<Rightarrow> bool" where
  "request_safe C I \<longleftrightarrow>
     (\<forall>s m ms. moments s = m # ms \<longrightarrow> I s \<longrightarrow> I (take_moment m (s\<lparr>moments := ms\<rparr>)))
   \<and> (\<forall>s cmd. I s \<longrightarrow> cmd \<in> C \<longrightarrow> I (s\<lparr>wire := wire s @ [Handed cmd]\<rparr>))
   \<and> (\<forall>s cmd a. I s \<longrightarrow> cmd \<in> C \<longrightarrow> I (s\<lparr>wire := wire s @ [Came cmd a]\<rparr>))
   \<and> (\<forall>s. I s \<longrightarrow> I (s\<lparr>sd_on_wire := True\<rparr>))"

lemma keeps_await: "request_safe C I \<Longrightarrow> keeps I await"
  by (auto simp: request_safe_def keeps_def await_def split: list.split)

lemma keeps_sleep: "request_safe C I \<Longrightarrow> keeps I sleep"
  unfolding sleep_def by (intro act_keeps keeps_await)

lemma keeps_request: "request_safe C I \<Longrightarrow> cmd \<in> C \<Longrightarrow> keeps I (request cmd read_as)"
  unfolding request_def log_wire_def
  by (intro act_keeps keeps_mod keeps_await) (auto simp: request_safe_def split: sum.split intro: act_keeps)

lemma with_gate_inv: "request_safe C I \<Longrightarrow> cmd \<in> C \<Longrightarrow> I s \<Longrightarrow> I (snd (with_gate what cmd read_as sd cancellable deadline s))"
proof (induction what cmd read_as sd cancellable deadline s rule: with_gate.induct)
  case (1 what cmd read_as sd cancellable deadline s)
  obtain r t where q: "request cmd read_as s = (r, t)" by fastforce
  have t: "I t" by (rule keepsD [OF keeps_request [OF 1(2,3)] 1(4) q])
  have mark: "I u \<Longrightarrow> I (mark_sd b u)" for u b using 1(2) by (simp add: mark_sd_def request_safe_def)
  show ?case
  proof (cases r)
    case (Inr x)
    then show ?thesis using q mark [OF t] by (simp add: with_gate.simps)
  next
    case (Inl e)
    show ?thesis
    proof (cases e)
      case (DlError le)
      let ?u = "mark_sd (sd \<and> \<not> not_sent_error le) t"
      obtain q2 v where sl: "sleep ?u = (q2, v)" by fastforce
      have v: "I v" by (rule keepsD [OF keeps_sleep [OF 1(2)] mark [OF t] sl])
      show ?thesis
      proof (cases "busy_error le \<and> clock ?u < deadline \<and> \<not> (cancellable \<and> cancel_reason ?u \<noteq> None)")
        case True
        show ?thesis
        proof (cases q2)
          case (Inl x)
          then show ?thesis using q \<open>r = Inl e\<close> DlError sl v True by (simp add: with_gate.simps Let_def)
        next
          case (Inr x)
          have "I (snd (with_gate what cmd read_as sd cancellable deadline v))"
            using 1(1) [OF q [symmetric] Inl DlError refl True sl [symmetric] Inr 1(2,3) v] .
          then show ?thesis using q \<open>r = Inl e\<close> DlError sl Inr True by (simp add: with_gate.simps [of what cmd read_as sd cancellable deadline s] Let_def)
        qed
      next
        case False
        then show ?thesis using q Inl DlError mark [OF t] by (subst with_gate.simps) (auto simp: Let_def)
      qed
    qed (use q Inl t in \<open>simp_all add: with_gate.simps\<close>)
  qed
qed

lemma keeps_gated: "request_safe C I \<Longrightarrow> cmd \<in> C \<Longrightarrow> keeps I (gated_request what cmd read_as sd cancellable)"
  by (simp add: keeps_def gated_request_def with_gate_inv)

lemma keeps_send_sd: "request_safe C I \<Longrightarrow> cmd \<in> C \<Longrightarrow> keeps I (send_sd cmd what)"
  unfolding send_sd_def by (intro act_keeps keeps_gated) (auto split: sd_status_result.split intro: act_keeps)

lemma keeps_poll_verdict [act_keeps]: "keeps I (poll_verdict st)"
  by (auto simp: poll_verdict_def split: sum.split option.split intro: act_keeps)

lemma keeps_poll_ask: "request_safe C I \<Longrightarrow> ''sd status'' \<in> C \<Longrightarrow> keeps I (poll_ask what)"
  unfolding poll_ask_def by (intro act_keeps keeps_send_sd)

lemma keeps_poll_round: "request_safe C I \<Longrightarrow> ''sd status'' \<in> C \<Longrightarrow> keeps I (poll_round what)"
  unfolding poll_round_def by (intro act_keeps keeps_sleep keeps_poll_ask)

lemma shrink_safe: "request_safe UNIV (\<lambda>s. length (moments s) \<le> k)"
  by (auto simp: request_safe_def take_moment_def dl_cancel_def Let_def split: option.split)

lemma poll_round_moments:
  assumes "poll_round what s = (Inr x, t)"
  shows "length (moments t) < length (moments s)"
proof -
  obtain u v where a: "await s = (Inr v, u)" and r: "poll_ask what u = (Inr x, t)"
    using assms unfolding poll_round_def sleep_def by (auto elim!: act_thenE act_bindE)
  have "length (moments u) < length (moments s)"
    using a by (auto simp: await_def take_moment_def dl_cancel_def Let_def split: list.splits option.splits)
  moreover have "length (moments t) \<le> length (moments u)"
    using shrinksD [of "poll_ask what" u "Inr x" t] keeps_poll_ask [OF shrink_safe] r by simp
  ultimately show ?thesis by simp
qed

function poll_card :: "dl_what \<Rightarrow> int \<Rightarrow> nat dl_act" where
  "poll_card what since s =
     (if clock s - since \<ge> probe_timeout_ms s then dl_throw (ProbeTooSlow (probe_timeout_ms s)) None s
      else case poll_round what s of
        (Inl e, t) \<Rightarrow> (Inl e, t)
      | (Inr None, t) \<Rightarrow> poll_card what since t
      | (Inr (Some n), t) \<Rightarrow> (Inr n, t))"
  by pat_completeness auto
termination
  by (relation "measure (\<lambda>(what, since, s). length (moments s))") (auto dest!: sym [of "(_, _)"] poll_round_moments)

declare poll_card.simps [simp del]

subsection \<open>Before a sector is read\<close>

definition lock_reply :: "string \<Rightarrow> dl_what \<Rightarrow> string dl_act" where
  "lock_reply cmd what = rethrow (or_abort (LocksNotChecked cmd)) (gated_request what cmd (\<lambda>a. a) False True)"

definition check_locks :: "dl_what \<Rightarrow> unit dl_act" where
  "check_locks what =
     act_bind (lock_reply ''blackbox status'' what) (\<lambda>bb.
     act_then (check what)
      (case recorder_verdict bb of
         RecorderBusy l \<Rightarrow> dl_throw RecorderOwnsCard (Some l)
       | rec \<Rightarrow>
           act_bind (lock_reply ''status'' what) (\<lambda>st.
           act_then (check what)
            (case arm_verdict st of
               ArmArmed l \<Rightarrow> dl_throw ControllerArmed (Some l)
             | arm \<Rightarrow> act_mod (\<lambda>s. s\<lparr>recorder_note := (rec = RecorderUnknown), arm_note := (arm = ArmUnknown)\<rparr>)))))"

subsection \<open>One sector\<close>

text \<open>
  \<open>SdSectorReader.read\<close> on the answer of the link: a gate rejection keeps its code, a time-out of the client and an
  oversized reply are results, the reply is parsed.
\<close>

definition read_event_of :: "link_error + string \<Rightarrow> read_event" where
  "read_event_of a = (case a of
     Inr text \<Rightarrow> Replied text
   | Inl (GateRejected c m) \<Rightarrow> GateFails m (Some (if c = QueueFull then ''GATE_QUEUE_FULL'' else if c = BusyStart then ''GATE_BUSY_START'' else ''GATE_OTHER''))
   | Inl (OtherError m) \<Rightarrow> SendFails m)"

definition sd_read_outcome :: "nat \<Rightarrow> link_error + string \<Rightarrow> link_error + sd_read_result" where
  "sd_read_outcome lba a = (case read_result SD_READ_TIMEOUT_MS lba (read_event_of a) of
     Inr r \<Rightarrow> Inr r
   | Inl f \<Rightarrow> (case a of
       Inl (OtherError m) \<Rightarrow> Inl (if f = ReadGateBusy ''GATE_QUEUE_FULL'' then GateRejected QueueFull m else OtherError m)
     | Inl e \<Rightarrow> Inl e
     | Inr text \<Rightarrow> Inl (OtherError [])))"

definition sd_read_line :: "nat \<Rightarrow> string" where
  "sd_read_line lba = ''sd read '' @ show_nat lba"

fun read_failure_of :: "nat \<Rightarrow> dl_exn \<Rightarrow> dl \<Rightarrow> dl_exn" where
  "read_failure_of lba (DlGateBusy d) s =
     (if sectors_answered s > 0 then DlAbort ((abort BusyMidReadText)\<lparr>ab_detail := Some (RawDetail d)\<rparr>) else DlGateBusy d)"
| "read_failure_of lba e s = or_abort (ReadFailed lba) e s"

definition read_once :: "nat \<Rightarrow> dl_what \<Rightarrow> sd_read_result dl_act" where
  "read_once lba what =
     act_bind (act_get can_read) (\<lambda>ok.
     act_then (act_unless ok (DlAbort (abort NoSectorReads)))
      (rethrow (read_failure_of lba)
        (act_then (act_mod (\<lambda>s. s\<lparr>sector_reads := Suc (sector_reads s)\<rparr>))
         (act_bind (gated_request what (sd_read_line lba) (sd_read_outcome lba) True True) (\<lambda>r.
          act_then (act_mod (\<lambda>s. s\<lparr>sectors_answered := Suc (sectors_answered s)\<rparr>)) (act_ret r))))))"

text \<open>One round of the loop; \<open>again\<close> is what a checksum mismatch leads to.\<close>

definition read_attempt :: "nat \<Rightarrow> dl_what \<Rightarrow> (string \<Rightarrow> string \<Rightarrow> byte list dl_act) \<Rightarrow> byte list dl_act" where
  "read_attempt lba what again =
     act_then (check what)
      (act_bind (read_once lba what) (\<lambda>r.
       act_then (check_cancel what)
        (case r of
           SdData n bytes crc \<Rightarrow> act_ret bytes
         | CrcMismatch n sent actual \<Rightarrow> again sent actual
         | SdError n l \<Rightarrow> dl_throw (ReadStopped lba) (Some l)
         | SdRefused n l \<Rightarrow> dl_throw (ReadRefused lba) (Some l)
         | SdTimeout n ms \<Rightarrow> act_throw (DlTimeout what (NoReadReply lba ms))
         | SdMalformed n why \<Rightarrow> dl_throw (ReadInvalid lba why) None)))"

definition read_verified :: "nat \<Rightarrow> dl_what \<Rightarrow> byte list dl_act" where
  "read_verified lba what = read_attempt lba what (\<lambda>s1 a1. read_attempt lba what (\<lambda>sent actual. dl_throw (CrcTwice lba sent actual) None))"

subsection \<open>The volume\<close>

text \<open>
  The FAT32 reader asks for sectors through \<open>readVerified\<close>: after the sectors read before, the answer to the next read is
  what \<open>readVerified\<close> returns in the state those reads have left. A volume is the reader and the state it was created in.
\<close>

record volume =
  vol_what :: dl_what
  vol_base :: dl
  vol_fat :: fat

fun reads_from :: "dl_what \<Rightarrow> dl \<Rightarrow> nat list \<Rightarrow> dl" where
  "reads_from what s [] = s"
| "reads_from what s (lba # lbas) = reads_from what (snd (read_verified lba what s)) lbas"

definition card_of :: "dl_what \<Rightarrow> dl \<Rightarrow> card" where
  "card_of what base done_reads lba = (case fst (read_verified lba what (reads_from what base done_reads)) of
     Inr bytes \<Rightarrow> Inr bytes | Inl e \<Rightarrow> Inl ''read failed'')"

text \<open>The exception of the last read, which is the one that ended a method of the reader.\<close>

definition failed_read :: "dl_what \<Rightarrow> dl \<Rightarrow> nat list \<Rightarrow> dl_exn option" where
  "failed_read what base lbas =
     (if lbas = [] then None
      else case fst (read_verified (last lbas) what (reads_from what base (butlast lbas))) of Inl e \<Rightarrow> Some e | Inr bytes \<Rightarrow> None)"

definition fat_do :: "(card \<Rightarrow> 'a fat_act) \<Rightarrow> volume \<Rightarrow> ('a \<times> volume) dl_act" where
  "fat_do m v s =
     (case m (card_of (vol_what v) (vol_base v)) (vol_fat v) of
        (r, f) \<Rightarrow>
          (let t = reads_from (vol_what v) (vol_base v) (asked f) in
           case r of
             Inr x \<Rightarrow> (Inr (x, v\<lparr>vol_fat := f\<rparr>), t)
           | Inl why \<Rightarrow>
               (case failed_read (vol_what v) (vol_base v) (asked f) of
                  Some e \<Rightarrow> (Inl e, t)
                | None \<Rightarrow> (Inl (DlAbort (abort (CardUnsafe (take 300 why)))), t))))"

definition mount_volume :: "dl_what \<Rightarrow> nat \<Rightarrow> volume dl_act" where
  "mount_volume what sectors s =
     act_bind (fat_do mount \<lparr>vol_what = what, vol_base = s, vol_fat = new_reader sectors\<rparr>) (\<lambda>(u, v). act_ret v) s"

definition open_volume :: "dl_what \<Rightarrow> volume dl_act" where
  "open_volume what =
     act_then (dl_set_phase DlProbing)
      (act_bind (act_get clock) (\<lambda>since.
       act_bind (send_sd ''sd probe'' what) (\<lambda>probe.
       if sd_state probe \<notin> set SD_PROBE_ACTIVE_STATES \<and> sd_state probe \<noteq> ''done''
       then dl_throw (ProbeNotStarted (sd_detail probe)) (Some (''sd_state: '' @ sd_state probe))
       else act_bind (poll_card what since) (\<lambda>sectors.
            act_then (check_locks what)
             (act_then (dl_set_phase DlScanning) (mount_volume what sectors))))))"

subsection \<open>Listing and saving\<close>

definition end_session :: "dl_note dl_act" where
  "end_session s =
     (if \<not> sd_on_wire s then (Inr NoNote, s)
      else if \<not> online s then (Inr NotConnectedNote, s)
      else case gated_request Download ''sd cancel'' (\<lambda>a. a) False False s of
        (Inr raw, t) \<Rightarrow> (Inr (case parse_sd_status_reply raw of StatusRefused l \<Rightarrow> CancelReplied l | other \<Rightarrow> CancelSent), t)
      | (Inl DlWaiting, t) \<Rightarrow> (Inl DlWaiting, t)
      | (Inl (DlTimeout w d), t) \<Rightarrow> (Inr CancelNoReply, t)
      | (Inl (DlGateBusy d), t) \<Rightarrow> (Inr CancelBusy, t)
      | (Inl e, t) \<Rightarrow> (Inr (CancelFailed e), t))"

definition begin_download :: "bool \<Rightarrow> dl \<Rightarrow> bool \<times> dl" where
  "begin_download settings_pending s =
     (if dl_phase s \<noteq> DlIdle \<or> \<not> online s \<or> \<not> can_read s then (False, s)
      else let t = s\<lparr>cancel_reason := None, dl_message := None, dl_progress := None, sector_reads := 0, sectors_answered := 0,
                     sd_on_wire := False, recorder_note := False, arm_note := False\<rparr> in
           if settings_pending
           then (False, t\<lparr>dl_message := Some \<lparr>ms_tone = ErrorTone, ms_text = SettingsBusy, ms_note = NoNote, ms_line = None, ms_detail = None\<rparr>\<rparr>)
           else (True, t))"

function link_reset_wait :: "int \<Rightarrow> unit dl_act" where
  "link_reset_wait until s =
     (if online s \<and> clock s < until then (case sleep s of (Inl e, t) \<Rightarrow> (Inl e, t) | (Inr u, t) \<Rightarrow> link_reset_wait until t) else (Inr (), s))"
  by pat_completeness auto
termination
proof (relation "measure (\<lambda>(until, s). length (moments s))")
  fix until :: int and s r t u
  assume "(r, t) = sleep s" "r = Inr u"
  then have "sleep s = (Inr u, t)" by simp
  then show "((until, t), until, s) \<in> measure (\<lambda>(until, s). length (moments s))"
    by (auto simp: sleep_def await_def take_moment_def dl_cancel_def Let_def elim!: act_bindE split: list.splits option.splits)
qed simp

declare link_reset_wait.simps [simp del]

fun failure_abort :: "dl_exn \<Rightarrow> dl_abort" where
  "failure_abort (DlAbort a) = a"
| "failure_abort (DlGateBusy d) = (abort BusyText)\<lparr>ab_detail := Some (RawDetail d)\<rparr>"
| "failure_abort (DlTimeout w d) = (abort (TimedOut w d))\<lparr>ab_detail := Some d\<rparr>"
| "failure_abort (DlError e) = (abort DownloadFailed)\<lparr>ab_detail := Some (RawDetail (err_text e))\<rparr>"
| "failure_abort DlWaiting = abort DownloadFailed"

text \<open>\<open>timeoutText\<close>: the link is given a second to be reset before the message is worded.\<close>

definition failure_text :: "dl_exn \<Rightarrow> dl_text dl_act" where
  "failure_text e = (case e of
     DlTimeout w d \<Rightarrow>
       act_bind (act_get clock) (\<lambda>now.
       act_then (link_reset_wait (now + 1000)) (act_bind (act_get online) (\<lambda>on. act_ret (TimedOutLink w d (\<not> on)))))
   | e \<Rightarrow> act_ret (ab_text (failure_abort e)))"

definition fail :: "dl_exn \<Rightarrow> unit dl_act" where
  "fail e =
     act_then (act_mod (\<lambda>s. s\<lparr>dl_progress := None\<rparr>))
      (act_bind (failure_text e) (\<lambda>text.
       act_bind end_session (\<lambda>note.
       let a = failure_abort e in
       act_mod (\<lambda>s. s\<lparr>dl_message := Some \<lparr>ms_tone = (if ab_info a then InfoTone else ErrorTone), ms_text = text, ms_note = note,
         ms_line = ab_line a, ms_detail = ab_detail a\<rparr>\<rparr>))))"

definition finish :: "dl \<Rightarrow> dl" where
  "finish s = s\<lparr>dl_phase := DlIdle, cancel_reason := None\<rparr>"

text \<open>The \<open>try\<close>, \<open>catch\<close> and \<open>finally\<close> of both operations. An operation that is still waiting has not thrown.\<close>

definition guarded :: "unit dl_act \<Rightarrow> bool dl_act" where
  "guarded body s =
     (case body s of
        (Inr u, t) \<Rightarrow> (Inr True, finish t)
      | (Inl DlWaiting, t) \<Rightarrow> (Inl DlWaiting, t)
      | (Inl e, t) \<Rightarrow> (case fail e t of (Inl x, v) \<Rightarrow> (Inl x, v) | (Inr u, v) \<Rightarrow> (Inr False, finish v)))"

definition ok_message :: "dl_text \<Rightarrow> dl_note \<Rightarrow> dl_message option" where
  "ok_message t note = Some \<lparr>ms_tone = OkTone, ms_text = t, ms_note = note, ms_line = None, ms_detail = None\<rparr>"

definition list_body :: "unit dl_act" where
  "list_body =
     act_bind (open_volume Listing) (\<lambda>v.
     act_bind (fat_do list_bbl_files v) (\<lambda>(found, w).
     act_then (check Listing)
      (act_bind end_session (\<lambda>note.
       act_mod (\<lambda>s. s\<lparr>dl_files := Some found, dl_warnings := bbl_subdirectories (vol_fat w),
         dl_message := ok_message (ListedText (length found)) note\<rparr>)))))"

definition list_logs :: "bool \<Rightarrow> bool dl_act" where
  "list_logs settings_pending s =
     (case begin_download settings_pending s of
        (False, t) \<Rightarrow> (Inr False, t)
      | (True, t) \<Rightarrow> guarded list_body (t\<lparr>dl_files := None, dl_warnings := []\<rparr>))"

fun read_sectors :: "nat \<Rightarrow> nat \<Rightarrow> nat list \<Rightarrow> byte list \<Rightarrow> byte list dl_act" where
  "read_sectors amount i [] buf = act_ret buf"
| "read_sectors amount i (lba # lbas) buf =
     act_bind (read_verified lba Download) (\<lambda>bytes.
     act_then (act_mod (\<lambda>s. s\<lparr>dl_progress := map_option (\<lambda>p. p\<lparr>pr_bytes_done := min (Suc i * 512) amount, pr_sectors_done := Suc i\<rparr>) (dl_progress s)\<rparr>))
      (read_sectors amount (Suc i) lbas (array_set buf (i * 512) bytes)))"

definition save_file :: "string \<Rightarrow> bbl_entry \<Rightarrow> nat list \<Rightarrow> byte list \<Rightarrow> unit dl_act" where
  "save_file name entry lbas contents =
     act_then (act_unless (length contents = bbl_size entry) (DlAbort (abort (WrongLength (length contents) (bbl_size entry)))))
      (act_then (check Download)
       (act_bind end_session (\<lambda>note.
        act_then (check_cancel Download)
        (act_then (act_unless (length contents = bbl_size entry) (DlAbort (abort (WrongBlob (length contents) (bbl_size entry)))))
         (act_mod (\<lambda>s. s\<lparr>saved := saved s @ [(name, contents)], dl_message := ok_message (SavedText name (bbl_size entry) (length lbas)) note\<rparr>))))))"

definition download_entry :: "string \<Rightarrow> bbl_entry option \<Rightarrow> bbl_entry list \<Rightarrow> bbl_entry dl_act" where
  "download_entry name earlier found =
     (case find (\<lambda>f. bbl_name f = name) found of
        None \<Rightarrow> dl_throw (FileGone name) None
      | Some e \<Rightarrow>
          (case earlier of
             Some l \<Rightarrow> if bbl_size l \<noteq> bbl_size e then dl_throw (FileChanged name (bbl_size l) (bbl_size e)) None else act_ret e
           | None \<Rightarrow> act_ret e))"

definition start_progress :: "string \<Rightarrow> bbl_entry \<Rightarrow> nat list \<Rightarrow> unit dl_act" where
  "start_progress name entry lbas = act_mod (\<lambda>s. s\<lparr>dl_phase := DlDownloading, dl_progress := Some
     \<lparr>pr_file = name, pr_bytes_total = bbl_size entry, pr_bytes_done = 0, pr_sectors_total = length lbas, pr_sectors_done = 0\<rparr>\<rparr>)"

text \<open>The sectors of the file, read and put together; then the checks, \<open>sd cancel\<close> and the save.\<close>

definition download_contents :: "string \<Rightarrow> bbl_entry option \<Rightarrow> (bbl_entry \<times> nat list \<times> byte list) dl_act" where
  "download_contents name earlier =
     act_bind (open_volume Download) (\<lambda>v.
     act_bind (fat_do list_bbl_files v) (\<lambda>(found, w).
     act_bind (download_entry name earlier found) (\<lambda>entry.
     act_bind (fat_do (\<lambda>dev. file_data_sectors dev entry) w) (\<lambda>(lbas, x).
     act_then (start_progress name entry lbas)
      (act_bind (read_sectors (bbl_size entry) 0 lbas (replicate (length lbas * 512) 0)) (\<lambda>buf. act_ret (entry, lbas, buf)))))))"

definition download_body :: "string \<Rightarrow> bbl_entry option \<Rightarrow> unit dl_act" where
  "download_body name earlier =
     act_bind (download_contents name earlier) (\<lambda>(entry, lbas, buf). save_file name entry lbas (take (bbl_size entry) buf))"

definition download :: "string \<Rightarrow> bool \<Rightarrow> bool dl_act" where
  "download name settings_pending s =
     (case begin_download settings_pending s of
        (False, t) \<Rightarrow> (Inr False, t)
      | (True, t) \<Rightarrow> guarded (download_body name (Option.bind (dl_files t) (find (\<lambda>f. bbl_name f = name)))) t)"

subsection \<open>What goes on the wire\<close>

fun event_line :: "dl_event \<Rightarrow> string" where
  "event_line (Handed cmd) = cmd"
| "event_line (Came cmd a) = cmd"

text \<open>\<open>adds C s0 s\<close>: since \<open>s0\<close> only lines of \<open>C\<close> were handed out, and nothing was saved.\<close>

definition adds :: "string set \<Rightarrow> dl \<Rightarrow> dl \<Rightarrow> bool" where
  "adds C s0 s \<longleftrightarrow> saved s = saved s0 \<and> (\<exists>w. wire s = wire s0 @ w \<and> list_all (\<lambda>e. event_line e \<in> C) w)"

lemma adds_refl: "adds C s s"
  by (simp add: adds_def)

lemma adds_trans: "adds C a b \<Longrightarrow> adds C b c \<Longrightarrow> adds C a c"
  by (auto simp: adds_def)

lemma adds_mono: "adds C a b \<Longrightarrow> C \<subseteq> D \<Longrightarrow> adds D a b"
  by (auto simp: adds_def list_all_iff)

lemma adds_same: "wire t = wire s \<Longrightarrow> saved t = saved s \<Longrightarrow> adds C s t"
  by (simp add: adds_def)

lemma adds_safe: "request_safe C (adds C s0)"
  by (auto simp: request_safe_def adds_def take_moment_def dl_cancel_def Let_def split: option.split)

definition lines_in :: "string set \<Rightarrow> 'a dl_act \<Rightarrow> bool" where
  "lines_in C m \<longleftrightarrow> (\<forall>s. adds C s (snd (m s)))"

lemma lines_inD: "lines_in C m \<Longrightarrow> m s = (r, t) \<Longrightarrow> adds C s t"
  by (metis lines_in_def snd_conv)

lemma lines_of_keeps: "(\<And>s0. keeps (adds C s0) m) \<Longrightarrow> lines_in C m"
  by (auto simp: lines_in_def keeps_def adds_refl)

named_theorems line_intros "which lines a step hands out"

lemma lines_basic [line_intros]:
  "lines_in C (act_ret x)" "lines_in C (act_throw e)" "lines_in C (act_get f)" "lines_in C (act_unless ok e)" "lines_in C (dl_throw t l)"
  "lines_in C (check_cancel what)" "lines_in C (check what)"
  by (intro lines_of_keeps act_keeps)+

lemma lines_mod: "(\<And>s. wire (f s) = wire s \<and> saved (f s) = saved s) \<Longrightarrow> lines_in C (act_mod f)"
  by (simp add: lines_in_def act_mod_def adds_same)

lemma lines_bind [line_intros]: "lines_in C m \<Longrightarrow> (\<And>x. lines_in C (k x)) \<Longrightarrow> lines_in C (act_bind m k)"
  unfolding lines_in_def
proof
  fix s assume a: "\<forall>s. adds C s (snd (m s))" "\<And>x. \<forall>s. adds C s (snd (k x s))"
  obtain r t where m: "m s = (r, t)" by fastforce
  have "adds C s t" using a(1) m by (metis snd_conv)
  then show "adds C s (snd (act_bind m k s))" using a(2) m by (cases r) (auto simp: act_bind_def intro: adds_trans)
qed

lemma lines_then [line_intros]: "lines_in C m \<Longrightarrow> lines_in C k \<Longrightarrow> lines_in C (act_then m k)"
  unfolding act_then_def by (rule lines_bind)

lemma lines_if [line_intros]: "lines_in C m \<Longrightarrow> lines_in C k \<Longrightarrow> lines_in C (if b then m else k)"
  by simp

lemma lines_rethrow [line_intros]: "lines_in C m \<Longrightarrow> lines_in C (rethrow f m)"
  by (auto simp: lines_in_def rethrow_def split: prod.split sum.split) (metis snd_conv)+

lemma lines_gated: "cmd \<in> C \<Longrightarrow> lines_in C (gated_request what cmd read_as sd cancellable)"
  by (intro lines_of_keeps keeps_gated [OF adds_safe])

lemma lines_sleep [line_intros]: "lines_in C sleep"
  by (intro lines_of_keeps keeps_sleep [OF adds_safe])

lemma lines_send_sd: "cmd \<in> C \<Longrightarrow> lines_in C (send_sd cmd what)"
  by (intro lines_of_keeps keeps_send_sd [OF adds_safe])

lemma lines_poll_card: "''sd status'' \<in> C \<Longrightarrow> lines_in C (poll_card what since)"
  unfolding lines_in_def
proof
  fix s assume c: "''sd status'' \<in> C"
  show "adds C s (snd (poll_card what since s))"
  proof (induction what since s rule: poll_card.induct)
    case (1 what since s)
    obtain r t where p: "poll_round what s = (r, t)" by fastforce
    have t: "adds C s t" by (rule keepsD [OF keeps_poll_round [OF adds_safe c] adds_refl p])
    show ?case
    proof (cases "clock s - since \<ge> probe_timeout_ms s")
      case True
      then show ?thesis by (subst poll_card.simps) (simp add: dl_throw_def act_throw_def adds_refl)
    next
      case go: False
      show ?thesis
      proof (cases "r = Inr None")
        case True
        then have "adds C t (snd (poll_card what since t))" using 1 go p by fastforce
        moreover have "poll_card what since s = poll_card what since t" using p go True by (subst poll_card.simps) simp
        ultimately show ?thesis using adds_trans [OF t] by simp
      next
        case False
        then show ?thesis using p go t by (subst poll_card.simps) (auto split: sum.split option.split)
      qed
    qed
  qed
qed

lemma lines_lock_reply: "cmd \<in> C \<Longrightarrow> lines_in C (lock_reply cmd what)"
  unfolding lock_reply_def by (intro line_intros lines_gated)

lemma lines_check_locks: "''blackbox status'' \<in> C \<Longrightarrow> ''status'' \<in> C \<Longrightarrow> lines_in C (check_locks what)"
  unfolding check_locks_def
  by (intro line_intros lines_lock_reply) (auto split: recorder_verdict_kind.split arm_verdict_kind.split intro!: line_intros lines_lock_reply lines_mod)

lemma lines_read_once: "sd_read_line lba \<in> C \<Longrightarrow> lines_in C (read_once lba what)"
  unfolding read_once_def by (intro line_intros lines_gated lines_mod) simp_all

lemma lines_read_attempt: "sd_read_line lba \<in> C \<Longrightarrow> (\<And>a b. lines_in C (again a b)) \<Longrightarrow> lines_in C (read_attempt lba what again)"
  unfolding read_attempt_def by (intro line_intros lines_read_once) (auto split: sd_read_result.split intro: line_intros)

lemma lines_read_verified: "sd_read_line lba \<in> C \<Longrightarrow> lines_in C (read_verified lba what)"
  unfolding read_verified_def by (intro lines_read_attempt line_intros)

lemma lines_reads_from: "range sd_read_line \<subseteq> C \<Longrightarrow> adds C s (reads_from what s lbas)"
proof (induction lbas arbitrary: s)
  case (Cons lba lbas)
  have "adds C s (snd (read_verified lba what s))" using lines_read_verified [of lba C what] Cons(2) by (auto simp: lines_in_def)
  then show ?case using Cons adds_trans by simp
qed (simp add: adds_refl)

lemma end_session_lines: "''sd cancel'' \<in> C \<Longrightarrow> lines_in C end_session"
  unfolding lines_in_def
proof
  fix s assume c: "''sd cancel'' \<in> C"
  obtain r t where g: "gated_request Download ''sd cancel'' (\<lambda>a. a) False False s = (r, t)" by fastforce
  have "adds C s t" by (rule lines_inD [OF lines_gated [OF c] g])
  then show "adds C s (snd (end_session s))"
    using g by (auto simp: end_session_def adds_refl split: sum.split dl_exn.split)
qed

subsection \<open>The answer a successful command ends with\<close>

lemma with_gate_reply:
  "with_gate what cmd read_as sd cancellable deadline s = (Inr x, t) \<Longrightarrow>
   \<exists>a. Came cmd a \<in> set (drop (length (wire s)) (wire t)) \<and> read_as a = Inr x"
proof (induction what cmd read_as sd cancellable deadline s rule: with_gate.induct)
  case (1 what cmd read_as sd cancellable deadline s)
  obtain r u where q: "request cmd read_as s = (r, u)" by fastforce
  have ext: "adds {cmd} s u" by (rule keepsD [OF keeps_request [OF adds_safe] adds_refl q]) simp
  show ?case
  proof (cases r)
    case (Inr y)
    then have "y = x" "t = mark_sd sd u" using 1(2) q by (simp_all add: with_gate.simps)
    moreover obtain a where "read_as a = Inr y" "last (wire u) = Came cmd a" "length (wire u) > length (wire s)"
      using q Inr
      by (auto simp: request_def log_wire_def act_throw_def await_def take_moment_def dl_cancel_def Let_def elim!: act_thenE act_bindE
        split: list.splits sum.splits option.splits if_split_asm)
    moreover from this have "last (wire u) \<in> set (drop (length (wire s)) (wire u))"
      by (metis drop_eq_Nil last_drop last_in_set linorder_not_less)
    ultimately show ?thesis by (auto simp: mark_sd_def)
  next
    case (Inl e)
    obtain le where e: "e = DlError le" using 1(2) q Inl by (cases e) (auto simp: with_gate.simps)
    let ?u = "mark_sd (sd \<and> \<not> not_sent_error le) u"
    have go: "busy_error le \<and> clock ?u < deadline \<and> \<not> (cancellable \<and> cancel_reason ?u \<noteq> None)"
      using 1(2) q Inl e by (auto simp: with_gate.simps [of what cmd read_as sd cancellable deadline s] Let_def split: if_split_asm)
    obtain q2 v where sl: "sleep ?u = (q2, v)" by fastforce
    obtain y where y: "q2 = Inr y" using 1(2) q Inl e go sl
      by (cases q2) (auto simp: with_gate.simps [of what cmd read_as sd cancellable deadline s] Let_def)
    have rest: "with_gate what cmd read_as sd cancellable deadline v = (Inr x, t)"
      using 1(2) q Inl e go sl y by (simp add: with_gate.simps [of what cmd read_as sd cancellable deadline s] Let_def)
    obtain a where a: "Came cmd a \<in> set (drop (length (wire v)) (wire t))" "read_as a = Inr x"
      using 1(1) [OF q [symmetric] Inl e refl go sl [symmetric] y rest] by blast
    have "adds {cmd} ?u v" by (rule keepsD [OF keeps_sleep [OF adds_safe] adds_refl sl])
    then have "adds {cmd} s v" using ext by (auto simp: adds_def mark_sd_def)
    then have "set (drop (length (wire v)) (wire t)) \<subseteq> set (drop (length (wire s)) (wire t))"
      by (intro set_drop_subset_set_drop) (auto simp: adds_def)
    then show ?thesis using a by blast
  qed
qed

lemma gated_reply:
  "gated_request what cmd read_as sd cancellable s = (Inr x, t) \<Longrightarrow> \<exists>a. Came cmd a \<in> set (drop (length (wire s)) (wire t)) \<and> read_as a = Inr x"
  unfolding gated_request_def by (rule with_gate_reply)

subsection \<open>The volume moves with the state\<close>

abbreviation read_lines :: "string set" where "read_lines \<equiv> range sd_read_line"

definition volume_at :: "volume \<Rightarrow> dl \<Rightarrow> bool" where
  "volume_at v s \<longleftrightarrow> s = reads_from (vol_what v) (vol_base v) (asked (vol_fat v))"

lemma reads_from_append: "reads_from what s (xs @ ys) = reads_from what (reads_from what s xs) ys"
  by (induction xs arbitrary: s) simp_all

lemma fat_do_state:
  assumes "device_only m" and "volume_at v s" and "fat_do m v s = (r, t)"
  shows "adds read_lines s t"
    and "r = Inr (x, w) \<Longrightarrow> volume_at w t \<and> vol_what w = vol_what v \<and> vol_base w = vol_base v
      \<and> m (card_of (vol_what v) (vol_base v)) (vol_fat v) = (Inr x, vol_fat w)"
proof -
  obtain q f where m: "m (card_of (vol_what v) (vol_base v)) (vol_fat v) = (q, f)" by fastforce
  have t: "t = reads_from (vol_what v) (vol_base v) (asked f)"
    using assms(3) m by (auto simp: fat_do_def Let_def split: sum.splits option.splits)
  obtain more_reads where "asked f = asked (vol_fat v) @ more_reads" using device_onlyD(1) [OF assms(1) m] by (auto simp: prefix_def)
  then have "t = reads_from (vol_what v) s more_reads" using t assms(2) by (simp add: volume_at_def reads_from_append)
  then show "adds read_lines s t" using lines_reads_from by simp
  show "volume_at w t \<and> vol_what w = vol_what v \<and> vol_base w = vol_base v
      \<and> m (card_of (vol_what v) (vol_base v)) (vol_fat v) = (Inr x, vol_fat w)" if "r = Inr (x, w)"
    using assms(3) m t that by (auto simp: fat_do_def Let_def volume_at_def split: sum.splits option.splits)
qed

lemma mount_volume_state:
  assumes "mount_volume what n s = (r, t)"
  shows "adds read_lines s t"
    and "r = Inr v \<Longrightarrow> volume_at v t \<and> vol_what v = what \<and> vol_base v = s \<and> mount (card_of what s) (new_reader n) = (Inr (), vol_fat v)"
proof -
  let ?v = "\<lparr>vol_what = what, vol_base = s, vol_fat = new_reader n\<rparr>"
  have at: "volume_at ?v s" by (simp add: volume_at_def new_reader_def)
  obtain q u where f: "fat_do mount ?v s = (q, u)" by fastforce
  note fat = fat_do_state [OF device_mount at f]
  have r: "t = u" "case q of Inl e \<Rightarrow> r = Inl e | Inr (x, w) \<Rightarrow> r = Inr w"
    using assms f by (auto simp: mount_volume_def act_bind_def split: sum.splits)
  show "adds read_lines s t" using fat(1) r by simp
  show "volume_at v t \<and> vol_what v = what \<and> vol_base v = s \<and> mount (card_of what s) (new_reader n) = (Inr (), vol_fat v)" if "r = Inr v"
    using fat(2) r that by (cases q) auto
qed

subsection \<open>The locks are read before the first sector\<close>

definition recorder_free :: "dl_event \<Rightarrow> bool" where
  "recorder_free e \<longleftrightarrow> (case e of
     Came cmd (Inr text) \<Rightarrow> cmd = ''blackbox status'' \<and> (case recorder_verdict text of RecorderBusy l \<Rightarrow> False | _ \<Rightarrow> True)
   | _ \<Rightarrow> False)"

definition seen_disarmed :: "dl_event \<Rightarrow> bool" where
  "seen_disarmed e \<longleftrightarrow> (case e of
     Came cmd (Inr text) \<Rightarrow> cmd = ''status'' \<and> (case arm_verdict text of ArmArmed l \<Rightarrow> False | _ \<Rightarrow> True)
   | _ \<Rightarrow> False)"

text \<open>Along a log: a sector is asked for only after both answers.\<close>

fun lock_scan :: "bool \<Rightarrow> bool \<Rightarrow> dl_event list \<Rightarrow> bool" where
  "lock_scan free disarmed [] \<longleftrightarrow> True"
| "lock_scan free disarmed (e # es) \<longleftrightarrow>
     (if prefix ''sd read '' (event_line e) then free \<and> disarmed else True) \<and> lock_scan (free \<or> recorder_free e) (disarmed \<or> seen_disarmed e) es"

lemma lock_scan_free: "lock_scan True True w"
  by (induction w) simp_all

lemma lock_scan_quiet: "list_all (\<lambda>e. \<not> prefix ''sd read '' (event_line e)) w \<Longrightarrow>
  lock_scan a b (w @ v) = lock_scan (a \<or> list_ex recorder_free w) (b \<or> list_ex seen_disarmed w) v"
  by (induction w arbitrary: a b) (simp_all add: disj_assoc)

definition probe_lines :: "string set" where
  "probe_lines = {''sd probe'', ''sd status'', ''blackbox status'', ''status'', ''sd cancel''}"

definition locks_seen :: "dl \<Rightarrow> dl \<Rightarrow> bool" where
  "locks_seen s u \<longleftrightarrow> list_ex recorder_free (drop (length (wire s)) (wire u)) \<and> list_ex seen_disarmed (drop (length (wire s)) (wire u))"

text \<open>The two shapes of a run: no sector was asked for yet, or the locks were seen first.\<close>

definition opened :: "dl \<Rightarrow> dl \<Rightarrow> bool" where
  "opened s t \<longleftrightarrow> adds probe_lines s t \<or>
     (\<exists>u. adds probe_lines s u \<and> locks_seen s u \<and> adds (insert ''sd cancel'' read_lines) u t)"

lemma quiet_probe: "list_all (\<lambda>e. event_line e \<in> probe_lines) w \<Longrightarrow> list_all (\<lambda>e. \<not> prefix ''sd read '' (event_line e)) w"
  by (auto simp: list_all_iff probe_lines_def)

lemma opened_scan:
  assumes "opened s t"
  shows "lock_scan False False (drop (length (wire s)) (wire t)) \<and> saved t = saved s"
proof -
  consider (none) "adds probe_lines s t" | (seen) u where "adds probe_lines s u" "locks_seen s u" "adds (insert ''sd cancel'' read_lines) u t"
    using assms unfolding opened_def by blast
  then show ?thesis
  proof cases
    case none
    then obtain w where "wire t = wire s @ w" "list_all (\<lambda>e. event_line e \<in> probe_lines) w" by (auto simp: adds_def)
    then show ?thesis using lock_scan_quiet [OF quiet_probe, of w False False "[]"] none by (simp add: adds_def)
  next
    case seen
    obtain w where w: "wire u = wire s @ w" "list_all (\<lambda>e. event_line e \<in> probe_lines) w" using seen(1) by (auto simp: adds_def)
    obtain v where v: "wire t = wire u @ v" using seen(3) by (auto simp: adds_def)
    show ?thesis using lock_scan_quiet [OF quiet_probe [OF w(2)], of False False v] seen w(1) v by (simp add: locks_seen_def lock_scan_free adds_def)
  qed
qed

lemma opened_more: "opened s t \<Longrightarrow> adds {''sd cancel''} t v \<Longrightarrow> opened s v"
proof -
  assume op: "opened s t" and extra: "adds {''sd cancel''} t v"
  have "adds probe_lines t v" "adds (insert ''sd cancel'' read_lines) t v"
    using extra by (auto intro: adds_mono simp: probe_lines_def)
  then show ?thesis using op adds_trans unfolding opened_def by meson
qed

lemma locks_seen_more: "locks_seen s u \<Longrightarrow> adds C u v \<Longrightarrow> adds D s u \<Longrightarrow> locks_seen s v"
  by (auto simp: locks_seen_def adds_def)

lemma lock_reply_came:
  "lock_reply cmd what s = (Inr text, t) \<Longrightarrow> Came cmd (Inr text) \<in> set (drop (length (wire s)) (wire t))"
  using gated_reply [of what cmd "\<lambda>a. a" False True s "text" t] by (auto simp: lock_reply_def rethrow_def split: prod.splits sum.splits)

lemma adds_drop: "adds C s u \<Longrightarrow> adds D u t \<Longrightarrow> set (drop (length (wire u)) (wire t)) \<subseteq> set (drop (length (wire s)) (wire t)) \<and>
  set (drop (length (wire s)) (wire u)) \<subseteq> set (drop (length (wire s)) (wire t))"
  by (auto simp: adds_def)

lemma check_locks_seen:
  assumes "check_locks what s = (Inr u, t)"
  shows "locks_seen s t"
proof -
  have adds2: "adds UNIV a b" if "lines_in UNIV m" "m a = (q, b)" for m :: "'b dl_act" and a b q using that by (rule lines_inD)
  obtain bb s1 where b: "lock_reply ''blackbox status'' what s = (Inr bb, s1)" "\<And>l. recorder_verdict bb \<noteq> RecorderBusy l"
    and rest: "\<exists>s2 st s3 s4. check what s1 = (Inr (), s2) \<and> lock_reply ''status'' what s2 = (Inr st, s3) \<and> check what s3 = (Inr (), s4)
      \<and> (\<forall>l. arm_verdict st \<noteq> ArmArmed l) \<and> wire t = wire s4 \<and> saved t = saved s4"
    using assms unfolding check_locks_def
    by (auto simp: dl_throw_def elim!: act_bindE act_thenE split: recorder_verdict_kind.splits arm_verdict_kind.splits)
  obtain s2 st s3 s4 where r: "check what s1 = (Inr (), s2)" "lock_reply ''status'' what s2 = (Inr st, s3)" "check what s3 = (Inr (), s4)"
    "\<And>l. arm_verdict st \<noteq> ArmArmed l" "wire t = wire s4" "saved t = saved s4" using rest by blast
  have a1: "adds UNIV s s1" by (rule lines_inD [OF lines_lock_reply b(1)]) simp
  have a2: "adds UNIV s1 s2" by (rule lines_inD [OF lines_basic(7) r(1)])
  have a3: "adds UNIV s2 s3" by (rule lines_inD [OF lines_lock_reply r(2)]) simp
  have a4: "adds UNIV s3 t" using lines_inD [OF lines_basic(7) r(3), of UNIV] r(5,6) by (simp add: adds_def)
  have "Came ''blackbox status'' (Inr bb) \<in> set (drop (length (wire s)) (wire t))"
    using lock_reply_came [OF b(1)] adds_drop [OF a1 adds_trans [OF adds_trans [OF a2 a3] a4]] by blast
  moreover have "Came ''status'' (Inr st) \<in> set (drop (length (wire s)) (wire t))"
    using lock_reply_came [OF r(2)] adds_drop [OF a3 a4] adds_drop [OF adds_trans [OF a1 a2] adds_trans [OF a3 a4]] by blast
  moreover have "recorder_free (Came ''blackbox status'' (Inr bb))" "seen_disarmed (Came ''status'' (Inr st))"
    using b(2) r(4) by (auto simp: recorder_free_def seen_disarmed_def split: recorder_verdict_kind.split arm_verdict_kind.split)
  ultimately show ?thesis unfolding locks_seen_def list_ex_iff by blast
qed

lemma open_volume_opened:
  assumes "open_volume what s = (r, t)"
  shows "opened s t"
    and "r = Inr v \<Longrightarrow> volume_at v t \<and> vol_what v = what \<and> (\<exists>n. mount (card_of what (vol_base v)) (new_reader n) = (Inr (), vol_fat v))
      \<and> (\<exists>u. adds probe_lines s u \<and> locks_seen s u \<and> adds read_lines u t)"
proof -
  let ?before = "act_then (dl_set_phase DlProbing)
      (act_bind (act_get clock) (\<lambda>since.
       act_bind (send_sd ''sd probe'' what) (\<lambda>probe.
       if sd_state probe \<notin> set SD_PROBE_ACTIVE_STATES \<and> sd_state probe \<noteq> ''done''
       then dl_throw (ProbeNotStarted (sd_detail probe)) (Some (''sd_state: '' @ sd_state probe))
       else poll_card what since)))"
  have split: "open_volume what = act_bind ?before (\<lambda>sectors. act_then (check_locks what) (act_then (dl_set_phase DlScanning) (mount_volume what sectors)))"
    by (rule ext) (auto simp: open_volume_def act_then_def act_bind_def dl_throw_def act_throw_def split: prod.split sum.split)
  have pre: "lines_in probe_lines ?before"
    unfolding dl_set_phase_def by (intro line_intros lines_mod lines_send_sd lines_poll_card; simp add: probe_lines_def)
  obtain q s1 where b: "?before s = (q, s1)" by fastforce
  have a1: "adds probe_lines s s1" by (rule lines_inD [OF pre b])
  have goal: "opened s t \<and> (\<forall>v. r = Inr v \<longrightarrow> volume_at v t \<and> vol_what v = what \<and> (\<exists>n. mount (card_of what (vol_base v)) (new_reader n) = (Inr (), vol_fat v))
      \<and> (\<exists>u. adds probe_lines s u \<and> locks_seen s u \<and> adds read_lines u t))"
  proof (cases q)
    case (Inl e)
    then have "t = s1" "r = Inl e" using assms b unfolding split by (simp_all add: act_bind_def)
    then show ?thesis using a1 by (simp add: opened_def)
  next
    case (Inr n)
    obtain q2 s2 where c: "check_locks what s1 = (q2, s2)" by fastforce
    have a2: "adds probe_lines s1 s2" by (rule lines_inD [OF lines_check_locks c]) (simp_all add: probe_lines_def)
    have tail: "(case q2 of Inl e \<Rightarrow> (Inl e, s2) | Inr u \<Rightarrow> mount_volume what n (s2\<lparr>dl_phase := DlScanning\<rparr>)) = (r, t)"
      using assms b Inr c unfolding split by (simp add: act_bind_def act_then_def dl_set_phase_def act_mod_def split: sum.splits)
    show ?thesis
    proof (cases q2)
      case (Inl e)
      then show ?thesis using tail adds_trans [OF a1 a2] by (auto simp: opened_def)
    next
      case q2: (Inr u)
      let ?u = "s2\<lparr>dl_phase := DlScanning\<rparr>"
      have m: "mount_volume what n ?u = (r, t)" using tail q2 by simp
      have seen: "locks_seen s1 s2" using c q2 by (intro check_locks_seen) simp
      have "locks_seen s s2" using seen a1 a2 by (auto simp: locks_seen_def adds_def)
      then have u: "adds probe_lines s ?u" "locks_seen s ?u" using adds_trans [OF a1 a2] by (simp_all add: adds_def locks_seen_def)
      note mv = mount_volume_state [OF m]
      have "adds (insert ''sd cancel'' read_lines) ?u t" by (rule adds_mono [OF mv(1)]) auto
      then have "opened s t" using u unfolding opened_def by blast
      moreover have "volume_at v t \<and> vol_what v = what \<and> (\<exists>n. mount (card_of what (vol_base v)) (new_reader n) = (Inr (), vol_fat v))" if "r = Inr v" for v
        using mv(2) [OF that] by auto
      ultimately show ?thesis using u mv(1) by blast
    qed
  qed
  show "opened s t" using goal by simp
  show "volume_at v t \<and> vol_what v = what \<and> (\<exists>n. mount (card_of what (vol_base v)) (new_reader n) = (Inr (), vol_fat v))
      \<and> (\<exists>u. adds probe_lines s u \<and> locks_seen s u \<and> adds read_lines u t)" if "r = Inr v"
    using goal that by blast
qed

subsection \<open>How an operation ends\<close>

lemma link_reset_wait_lines: "adds C s (snd (link_reset_wait until s))"
proof (induction until s rule: link_reset_wait.induct)
  case (1 until s)
  obtain r t where sl: "sleep s = (r, t)" by fastforce
  have t: "adds C s t" by (rule lines_inD [OF lines_sleep sl])
  show ?case
  proof (cases "online s \<and> clock s < until \<and> (\<exists>u. r = Inr u)")
    case True
    then have "adds C t (snd (link_reset_wait until t))" using 1 sl by fastforce
    then show ?thesis using sl True adds_trans [OF t] by (subst link_reset_wait.simps) auto
  next
    case False
    then show ?thesis using sl t by (subst link_reset_wait.simps) (auto simp: adds_refl split: sum.split)
  qed
qed

lemma lines_fail: "lines_in {''sd cancel''} (fail e)"
proof -
  have "lines_in {''sd cancel''} (failure_text e)"
    unfolding failure_text_def
    by (cases e) (auto simp: lines_in_def [of _ "link_reset_wait _"] link_reset_wait_lines intro!: line_intros)
  then show ?thesis
    unfolding fail_def Let_def by (intro line_intros lines_mod end_session_lines) simp_all
qed

lemma guarded_outcome:
  assumes "guarded body s = (r, t)"
  obtains (ok) u where "body s = (Inr (), u)" "r = Inr True" "t = finish u"
  | (failed) e u where "body s = (Inl e, u)" "r \<noteq> Inr True" "adds {''sd cancel''} u t"
proof -
  obtain q u where b: "body s = (q, u)" by fastforce
  show thesis
  proof (cases q)
    case (Inr x)
    then show ?thesis using assms b ok by (simp add: guarded_def)
  next
    case (Inl e)
    obtain q2 v where f: "fail e u = (q2, v)" by fastforce
    have v: "adds {''sd cancel''} u v" by (rule lines_inD [OF lines_fail f])
    have "r \<noteq> Inr True \<and> adds {''sd cancel''} u t"
      using assms b Inl f v by (cases e; cases q2) (auto simp: guarded_def adds_refl finish_def adds_def)
    then show ?thesis using failed b Inl by blast
  qed
qed

lemma begin_adds: "begin_download p s = (b, t) \<Longrightarrow> wire t = wire s \<and> saved t = saved s \<and> dl_files t = dl_files s"
  by (auto simp: begin_download_def Let_def split: if_split_asm)

lemma opened_from: "opened s t \<Longrightarrow> wire s = wire s0 \<Longrightarrow> saved s = saved s0 \<Longrightarrow> opened s0 t"
  by (simp add: opened_def adds_def locks_seen_def)

lemma opened_finish [simp]: "opened s (finish t) = opened s t"
  by (simp add: opened_def adds_def finish_def)

text \<open>What follows a mounted volume asks for sectors and cancels the session only.\<close>

lemma opened_reads: "adds probe_lines s u \<Longrightarrow> locks_seen s u \<Longrightarrow> adds read_lines u t \<Longrightarrow> adds (insert ''sd cancel'' read_lines) t v \<Longrightarrow> opened s v"
proof -
  assume a: "adds probe_lines s u" "locks_seen s u" "adds read_lines u t" "adds (insert ''sd cancel'' read_lines) t v"
  have "adds (insert ''sd cancel'' read_lines) u v" using adds_trans [OF adds_mono [OF a(3) subset_insertI] a(4)] .
  then show ?thesis using a(1,2) unfolding opened_def by blast
qed

lemma opened_bind:
  assumes "act_bind (open_volume what) k s = (r, t)"
    and "\<And>v u. volume_at v u \<Longrightarrow> vol_what v = what \<Longrightarrow> adds (insert ''sd cancel'' read_lines) u (snd (k v u))"
  shows "opened s t"
proof -
  obtain q u where o: "open_volume what s = (q, u)" by fastforce
  show ?thesis
  proof (cases q)
    case (Inl e)
    then show ?thesis using assms(1) o open_volume_opened(1) [OF o] by (simp add: act_bind_def)
  next
    case (Inr v)
    then have "k v u = (r, t)" using assms(1) o by (simp add: act_bind_def)
    moreover obtain w where "adds probe_lines s w" "locks_seen s w" "adds read_lines w u" "volume_at v u" "vol_what v = what"
      using open_volume_opened(2) [OF o Inr] by blast
    ultimately show ?thesis using assms(2) [of v u] opened_reads by simp
  qed
qed

lemma list_body_opened:
  assumes "list_body s = (r, t)"
  shows "opened s t"
proof (rule opened_bind [OF assms [unfolded list_body_def]])
  fix v u assume at: "volume_at v u"
  obtain q u2 where f: "fat_do list_bbl_files v u = (q, u2)" by fastforce
  have a: "adds (insert ''sd cancel'' read_lines) u u2" by (rule adds_mono [OF fat_do_state(1) [OF device_list at f]]) auto
  have rest: "lines_in (insert ''sd cancel'' read_lines) (act_then (check Listing) (act_bind end_session (\<lambda>note.
       act_mod (\<lambda>s. s\<lparr>dl_files := Some found, dl_warnings := bbl_subdirectories (vol_fat w), dl_message := ok_message (ListedText (length found)) note\<rparr>))))" for found w
    by (intro line_intros lines_mod end_session_lines) simp_all
  show "adds (insert ''sd cancel'' read_lines) u
     (snd (act_bind (fat_do list_bbl_files v) (\<lambda>(found, w). act_then (check Listing) (act_bind end_session (\<lambda>note.
       act_mod (\<lambda>s. s\<lparr>dl_files := Some found, dl_warnings := bbl_subdirectories (vol_fat w), dl_message := ok_message (ListedText (length found)) note\<rparr>)))) u))"
    using f a rest by (cases q) (auto simp: act_bind_def [of "fat_do list_bbl_files v"] lines_in_def intro: adds_trans split: prod.split)
qed

lemma lines_read_sectors: "lines_in read_lines (read_sectors amount i lbas buf)"
  by (induction lbas arbitrary: i buf) (auto intro!: line_intros lines_mod lines_read_verified)

lemma download_entry_lines: "lines_in C (download_entry name earlier found)"
  unfolding download_entry_def by (auto split: option.split intro: line_intros)

lemma save_file_outcome:
  assumes "save_file name entry lbas contents s = (r, t)"
  shows "\<exists>w. wire t = wire s @ w \<and> list_all (\<lambda>e. event_line e = ''sd cancel'') w"
    and "case r of Inr u \<Rightarrow> length contents = bbl_size entry \<and> saved t = saved s @ [(name, contents)] | Inl e \<Rightarrow> saved t = saved s"
proof -
  let ?before = "act_then (act_unless (length contents = bbl_size entry) (DlAbort (abort (WrongLength (length contents) (bbl_size entry)))))
      (act_then (check Download) (act_bind end_session (\<lambda>note. act_then (check_cancel Download)
        (act_then (act_unless (length contents = bbl_size entry) (DlAbort (abort (WrongBlob (length contents) (bbl_size entry))))) (act_ret note)))))"
  have split: "save_file name entry lbas contents = act_bind ?before (\<lambda>note.
      act_mod (\<lambda>s. s\<lparr>saved := saved s @ [(name, contents)], dl_message := ok_message (SavedText name (bbl_size entry) (length lbas)) note\<rparr>))"
    by (rule ext) (auto simp: save_file_def act_then_def act_bind_def act_ret_def split: prod.split sum.split)
  have pre: "lines_in {''sd cancel''} ?before" by (intro line_intros end_session_lines) simp
  obtain q u where b: "?before s = (q, u)" by fastforce
  have u: "adds {''sd cancel''} s u" by (rule lines_inD [OF pre b])
  have len: "q = Inr n \<Longrightarrow> length contents = bbl_size entry" for n using b by (auto elim!: act_thenE)
  show "\<exists>w. wire t = wire s @ w \<and> list_all (\<lambda>e. event_line e = ''sd cancel'') w"
    using assms u b unfolding split by (cases q) (auto simp: act_bind_def act_mod_def adds_def)
  show "case r of Inr u \<Rightarrow> length contents = bbl_size entry \<and> saved t = saved s @ [(name, contents)] | Inl e \<Rightarrow> saved t = saved s"
    using assms u b len unfolding split by (cases q) (auto simp: act_bind_def act_mod_def adds_def)
qed

subsection \<open>Verified sectors\<close>

definition verified_sector :: "dl_event list \<Rightarrow> nat \<Rightarrow> byte list \<Rightarrow> bool" where
  "verified_sector w lba bytes \<longleftrightarrow> length bytes = 512 \<and>
     (\<exists>text crc. Came (sd_read_line lba) (Inr text) \<in> set w \<and> parse_sd_read_reply text lba = SdData lba bytes crc)"

lemma sd_data_length: "parse_sd_read_reply text lba = SdData n bytes crc \<Longrightarrow> n = lba \<and> length bytes = 512"
  by (auto simp: parse_sd_read_reply_def Let_def hex_bytes_def SD_SECTOR_BYTES_def split: if_split_asm option.split_asm sum.split_asm)

lemma verified_more: "verified_sector w lba b \<Longrightarrow> set w \<subseteq> set w' \<Longrightarrow> verified_sector w' lba b"
  by (auto simp: verified_sector_def)

lemma outcome_data: "sd_read_outcome lba a = Inr (SdData n bytes crc) \<Longrightarrow> \<exists>text. a = Inr text \<and> parse_sd_read_reply text lba = SdData n bytes crc"
  by (auto simp: sd_read_outcome_def read_event_of_def read_result_def split: sum.splits link_error.splits if_split_asm)

lemma read_once_data:
  assumes "read_once lba what s = (Inr (SdData n bytes crc), t)"
  shows "verified_sector (drop (length (wire s)) (wire t)) lba bytes"
proof -
  obtain u v where g: "gated_request what (sd_read_line lba) (sd_read_outcome lba) True True (s\<lparr>sector_reads := Suc (sector_reads s)\<rparr>)
      = (Inr (SdData n bytes crc), u)" and t: "t = u\<lparr>sectors_answered := v\<rparr>"
    using assms by (auto simp: read_once_def rethrow_def elim!: act_bindE act_thenE split: prod.splits sum.splits)
  obtain a where "Came (sd_read_line lba) a \<in> set (drop (length (wire s)) (wire t))" "sd_read_outcome lba a = Inr (SdData n bytes crc)"
    using gated_reply [OF g] t by auto
  then show ?thesis using outcome_data [of lba a n bytes crc] sd_data_length by (fastforce simp: verified_sector_def)
qed

lemma read_attempt_data:
  assumes "read_attempt lba what again s = (Inr bytes, t)"
    and "\<And>a b u v. again a b u = (Inr bytes, v) \<Longrightarrow> verified_sector (drop (length (wire u)) (wire v)) lba bytes"
    and "\<And>a b. lines_in UNIV (again a b)"
  shows "verified_sector (drop (length (wire s)) (wire t)) lba bytes"
proof -
  obtain s1 r s2 s3 where c: "check what s = (Inr (), s1)" "read_once lba what s1 = (Inr r, s2)" "check_cancel what s2 = (Inr (), s3)"
    and res: "(case r of
           SdData n bytes crc \<Rightarrow> act_ret bytes
         | CrcMismatch n sent actual \<Rightarrow> again sent actual
         | SdError n l \<Rightarrow> dl_throw (ReadStopped lba) (Some l)
         | SdRefused n l \<Rightarrow> dl_throw (ReadRefused lba) (Some l)
         | SdTimeout n ms \<Rightarrow> act_throw (DlTimeout what (NoReadReply lba ms))
         | SdMalformed n why \<Rightarrow> dl_throw (ReadInvalid lba why) None) s3 = (Inr bytes, t)"
    using assms(1) unfolding read_attempt_def by (elim act_bindE act_thenE) simp
  have a1: "adds UNIV s s1" by (rule lines_inD [OF lines_basic(7) c(1)])
  have a2: "adds UNIV s1 s2" by (rule lines_inD [OF lines_read_once c(2)]) simp
  have a3: "adds UNIV s2 s3" by (rule lines_inD [OF lines_basic(6) c(3)])
  show ?thesis
  proof (cases r)
    case (SdData n b crc)
    then have "t = s3" "b = bytes" using res by simp_all
    then have "verified_sector (drop (length (wire s1)) (wire s2)) lba bytes" using read_once_data c(2) SdData by simp
    moreover have "set (drop (length (wire s1)) (wire s2)) \<subseteq> set (drop (length (wire s)) (wire t))"
      using adds_drop [OF a1 a2] adds_drop [OF adds_trans [OF a1 a2] a3] \<open>t = s3\<close> by blast
    ultimately show ?thesis by (rule verified_more)
  next
    case (CrcMismatch n sent actual)
    then have ag: "again sent actual s3 = (Inr bytes, t)" using res by simp
    have "adds UNIV s3 t" by (rule lines_inD [OF assms(3) ag])
    then show ?thesis using verified_more [OF assms(2) [OF ag]] adds_drop [OF adds_trans [OF adds_trans [OF a1 a2] a3]] by blast
  qed (use res in \<open>simp_all add: dl_throw_def\<close>)
qed

lemma read_verified_data:
  "read_verified lba what s = (Inr bytes, t) \<Longrightarrow> verified_sector (drop (length (wire s)) (wire t)) lba bytes"
  unfolding read_verified_def
  by (erule read_attempt_data; (intro lines_read_attempt line_intros)?)
     (auto elim!: read_attempt_data intro: line_intros simp: dl_throw_def)

lemma take_array_set: "length b = 512 \<Longrightarrow> Suc i * 512 \<le> length buf \<Longrightarrow>
  take (Suc i * 512) (array_set buf (i * 512) b) = take (i * 512) buf @ b"
  by (simp add: array_set_def min_def)

lemma read_sectors_data:
  "read_sectors amount i lbas buf s = (Inr out, t) \<Longrightarrow> (i + length lbas) * 512 = length buf \<Longrightarrow>
   \<exists>chunks. list_all2 (verified_sector (drop (length (wire s)) (wire t))) lbas chunks \<and> out = take (i * 512) buf @ concat chunks"
proof (induction lbas arbitrary: i buf s)
  case Nil
  then show ?case by simp
next
  case (Cons lba lbas)
  obtain b s1 where r: "read_verified lba Download s = (Inr b, s1)"
    and rest1: "read_sectors amount (Suc i) lbas (array_set buf (i * 512) b)
      (s1\<lparr>dl_progress := map_option (\<lambda>p. p\<lparr>pr_bytes_done := min (Suc i * 512) amount, pr_sectors_done := Suc i\<rparr>) (dl_progress s1)\<rparr>) = (Inr out, t)"
    using Cons.prems(1) by (auto elim!: act_bindE act_thenE)
  define s2 where "s2 = s1\<lparr>dl_progress := map_option (\<lambda>p. p\<lparr>pr_bytes_done := min (Suc i * 512) amount, pr_sectors_done := Suc i\<rparr>) (dl_progress s1)\<rparr>"
  have w: "wire s2 = wire s1" "saved s2 = saved s1" and rest: "read_sectors amount (Suc i) lbas (array_set buf (i * 512) b) s2 = (Inr out, t)"
    using rest1 by (simp_all add: s2_def)
  note v = read_verified_data [OF r]
  have b: "length b = 512" using v by (simp add: verified_sector_def)
  have fits: "Suc i * 512 \<le> length buf" using Cons.prems(2) by simp
  have len: "length (array_set buf (i * 512) b) = length buf" using b fits by simp
  obtain chunks where c: "list_all2 (verified_sector (drop (length (wire s2)) (wire t))) lbas chunks"
    "out = take (Suc i * 512) (array_set buf (i * 512) b) @ concat chunks"
    using Cons.IH [OF rest] Cons.prems(2) len by auto
  have "out = take (i * 512) buf @ concat (b # chunks)"
    using c(2) take_array_set [OF b fits] by simp
  moreover have a1: "adds UNIV s s2" using lines_inD [OF lines_read_verified r, of UNIV] w by (simp add: adds_def)
  have a2: "adds UNIV s2 t" by (rule adds_mono [OF lines_inD [OF lines_read_sectors rest] subset_UNIV])
  have sub: "set (drop (length (wire s2)) (wire t)) \<subseteq> set (drop (length (wire s)) (wire t))"
    "set (drop (length (wire s)) (wire s2)) \<subseteq> set (drop (length (wire s)) (wire t))" using adds_drop [OF a1 a2] by auto
  have "verified_sector (drop (length (wire s)) (wire t)) lba b" using verified_more [OF v] sub(2) w(1) by simp
  moreover have "list_all2 (verified_sector (drop (length (wire s)) (wire t))) lbas chunks"
    by (rule list_all2_mono [OF c(1)]) (rule verified_more [OF _ sub(1)])
  ultimately show ?case using list_all2_Cons by blast
qed

subsection \<open>The downloads\<close>

text \<open>
  The contents of a file as a log of the wire shows them: some mounted volume lists an entry of the name, the FAT gives its
  sectors, each of them came in a verified reply, and the entry gives the length.
\<close>

definition file_on_card :: "dl_event list \<Rightarrow> string \<Rightarrow> byte list \<Rightarrow> bool" where
  "file_on_card w name contents \<longleftrightarrow> (\<exists>base n f1 found f2 entry lbas f3 chunks.
       mount (card_of Download base) (new_reader n) = (Inr (), f1) \<and> list_bbl_files (card_of Download base) f1 = (Inr found, f2)
     \<and> find (\<lambda>f. bbl_name f = name) found = Some entry \<and> file_data_sectors (card_of Download base) entry f2 = (Inr lbas, f3)
     \<and> list_all2 (verified_sector w) lbas chunks \<and> contents = take (bbl_size entry) (concat chunks) \<and> length contents = bbl_size entry)"

lemma opened_adds: "opened s t \<Longrightarrow> adds UNIV s t"
  unfolding opened_def using adds_trans adds_mono subset_UNIV by meson

lemma download_contents_opened:
  assumes "download_contents name earlier s = (r, t)"
  shows "opened s t"
proof (rule opened_bind [OF assms [unfolded download_contents_def]])
  fix v u assume at: "volume_at v u"
  let ?C = "insert ''sd cancel'' read_lines"
  let ?k2 = "\<lambda>entry (lbas, x :: volume). act_then (start_progress name entry lbas)
      (act_bind (read_sectors (bbl_size entry) 0 lbas (replicate (length lbas * 512) 0)) (\<lambda>buf. act_ret (entry, lbas, buf)))"
  let ?k1 = "\<lambda>(found, w). act_bind (download_entry name earlier found) (\<lambda>entry.
     act_bind (fat_do (\<lambda>dev. file_data_sectors dev entry) w) (?k2 entry))"
  have more: "lines_in ?C (read_sectors a i lbas buf)" for a i lbas buf
    using lines_read_sectors adds_mono [OF _ subset_insertI] by (auto simp: lines_in_def)
  have k2: "lines_in ?C (?k2 entry p)" for entry p
    by (cases p) (auto simp: start_progress_def intro!: line_intros lines_mod more)
  obtain q u2 where f: "fat_do list_bbl_files v u = (q, u2)" by fastforce
  note f1 = fat_do_state [OF device_list at f]
  have a: "adds ?C u u2" by (rule adds_mono [OF f1(1)]) auto
  have k1: "adds ?C u2 (snd (?k1 (found, w) u2))" if w: "volume_at w u2" for found w
  proof -
    obtain q3 u3 where e: "download_entry name earlier found u2 = (q3, u3)" by fastforce
    have u3: "u3 = u2" using e by (auto simp: download_entry_def dl_throw_def split: option.splits if_split_asm)
    show ?thesis
    proof (cases q3)
      case (Inl x)
      then show ?thesis using e u3 by (simp add: act_bind_def adds_refl)
    next
      case (Inr entry)
      obtain q4 u4 where d: "fat_do (\<lambda>dev. file_data_sectors dev entry) w u2 = (q4, u4)" by fastforce
      have "adds ?C u2 u4" by (rule adds_mono [OF fat_do_state(1) [OF device_data_sectors w d]]) auto
      moreover have "adds ?C u4 (snd (?k2 entry p u4))" for p using k2 by (simp add: lines_in_def)
      ultimately show ?thesis using e u3 Inr d by (cases q4) (auto simp: act_bind_def intro: adds_trans)
    qed
  qed
  show "adds ?C u (snd (act_bind (fat_do list_bbl_files v) ?k1 u))"
  proof (cases q)
    case (Inl x)
    then show ?thesis using f a by (simp add: act_bind_def)
  next
    case (Inr p)
    obtain found w where p: "p = (found, w)" by (cases p) auto
    then have "volume_at w u2" using f1(2) Inr by blast
    then have "adds ?C u2 (snd (?k1 (found, w) u2))" by (rule k1)
    moreover have "act_bind (fat_do list_bbl_files v) ?k1 u = ?k1 (found, w) u2"
      by (subst act_bind_def) (simp only: f Inr p prod.case sum.case)
    ultimately show ?thesis using adds_trans [OF a] by (simp only:)
  qed
qed

lemma download_contents_data:
  assumes "download_contents name earlier s = (Inr (entry, lbas, buf), t)"
  shows "\<exists>base n f1 found f2 f3 chunks.
       mount (card_of Download base) (new_reader n) = (Inr (), f1) \<and> list_bbl_files (card_of Download base) f1 = (Inr found, f2)
     \<and> find (\<lambda>f. bbl_name f = name) found = Some entry \<and> file_data_sectors (card_of Download base) entry f2 = (Inr lbas, f3)
     \<and> list_all2 (verified_sector (drop (length (wire s)) (wire t))) lbas chunks \<and> buf = concat chunks"
proof -
  obtain v s1 found w s2 s3 x s4 s5 where o: "open_volume Download s = (Inr v, s1)" and f: "fat_do list_bbl_files v s1 = (Inr (found, w), s2)"
    and e: "download_entry name earlier found s2 = (Inr entry, s3)"
    and d: "fat_do (\<lambda>dev. file_data_sectors dev entry) w s3 = (Inr (lbas, x), s4)"
    and p: "start_progress name entry lbas s4 = (Inr (), s5)"
    and r: "read_sectors (bbl_size entry) 0 lbas (replicate (length lbas * 512) 0) s5 = (Inr buf, t)"
    using assms unfolding download_contents_def by (auto elim!: act_bindE act_thenE)
  note v = open_volume_opened(2) [OF o refl]
  then obtain n where n: "mount (card_of Download (vol_base v)) (new_reader n) = (Inr (), vol_fat v)" "volume_at v s1" "vol_what v = Download" by auto
  note w = fat_do_state [OF device_list n(2) f]
  have w2: "volume_at w s2" "vol_what w = Download" "vol_base w = vol_base v"
    "list_bbl_files (card_of Download (vol_base v)) (vol_fat v) = (Inr found, vol_fat w)" using w(2) [OF refl] n(3) by auto
  have s3: "s3 = s2" "find (\<lambda>f. bbl_name f = name) found = Some entry"
    using e by (auto simp: download_entry_def dl_throw_def split: option.splits if_split_asm)
  note d1 = fat_do_state [OF device_data_sectors w2(1) d [unfolded s3(1)]]
  have d2: "file_data_sectors (card_of Download (vol_base v)) entry (vol_fat w) = (Inr lbas, vol_fat x)" using d1(2) [OF refl] w2 by auto
  have a1: "adds UNIV s s1" using open_volume_opened(1) [OF o] by (rule opened_adds)
  have a2: "adds UNIV s1 s4" using adds_trans [OF w(1) d1(1)] by (rule adds_mono) simp
  have a3: "adds UNIV s4 s5" using p by (auto simp: start_progress_def adds_same)
  have a4: "adds UNIV s5 t" by (rule adds_mono [OF lines_inD [OF lines_read_sectors r] subset_UNIV])
  obtain chunks where c: "list_all2 (verified_sector (drop (length (wire s5)) (wire t))) lbas chunks" "buf = concat chunks"
    using read_sectors_data [OF r] by auto
  have "set (drop (length (wire s5)) (wire t)) \<subseteq> set (drop (length (wire s)) (wire t))"
    using adds_drop [OF adds_trans [OF adds_trans [OF a1 a2] a3] a4] by blast
  then have "list_all2 (verified_sector (drop (length (wire s)) (wire t))) lbas chunks"
    using c(1) verified_more by (auto elim: list_all2_mono)
  then show ?thesis using n(1) w2(4) s3(2) d2 c(2) by blast
qed

lemma download_body_outcome:
  assumes "download_body name earlier s = (r, t)"
  shows "lock_scan False False (drop (length (wire s)) (wire t))"
    and "case r of Inl e \<Rightarrow> saved t = saved s | Inr u \<Rightarrow> \<exists>contents. saved t = saved s @ [(name, contents)] \<and> file_on_card (drop (length (wire s)) (wire t)) name contents"
proof -
  obtain q u where c: "download_contents name earlier s = (q, u)" by fastforce
  have o: "opened s u" by (rule download_contents_opened [OF c])
  note o1 = opened_scan [OF o]
  show "lock_scan False False (drop (length (wire s)) (wire t))"
  proof (cases q)
    case (Inl e)
    then show ?thesis using assms c o1 by (simp add: download_body_def act_bind_def)
  next
    case (Inr p)
    obtain entry lbas buf where p: "p = (entry, lbas, buf)" by (cases p) auto
    have sv: "save_file name entry lbas (take (bbl_size entry) buf) u = (r, t)" using assms c Inr p by (simp add: download_body_def act_bind_def)
    obtain w where w: "wire t = wire u @ w" "list_all (\<lambda>e. event_line e = ''sd cancel'') w" using save_file_outcome(1) [OF sv] by blast
    let ?v = "t\<lparr>saved := saved u\<rparr>"
    have "adds {''sd cancel''} u ?v" using w by (simp add: adds_def)
    then have "opened s ?v" by (rule opened_more [OF o])
    then show ?thesis using opened_scan by fastforce
  qed
  show "case r of Inl e \<Rightarrow> saved t = saved s | Inr u \<Rightarrow> \<exists>contents. saved t = saved s @ [(name, contents)] \<and> file_on_card (drop (length (wire s)) (wire t)) name contents"
  proof (cases q)
    case (Inl e)
    then show ?thesis using assms c o1 by (auto simp: download_body_def act_bind_def)
  next
    case (Inr p)
    obtain entry lbas buf where p: "p = (entry, lbas, buf)" by (cases p) auto
    have sv: "save_file name entry lbas (take (bbl_size entry) buf) u = (r, t)" using assms c Inr p by (simp add: download_body_def act_bind_def)
    obtain w where w: "wire t = wire u @ w" using save_file_outcome(1) [OF sv] by blast
    have c': "download_contents name earlier s = (Inr (entry, lbas, buf), u)" using c Inr p by simp
    obtain base n f1 found f2 f3 chunks where d: "mount (card_of Download base) (new_reader n) = (Inr (), f1)"
      "list_bbl_files (card_of Download base) f1 = (Inr found, f2)" "find (\<lambda>f. bbl_name f = name) found = Some entry"
      "file_data_sectors (card_of Download base) entry f2 = (Inr lbas, f3)"
      "list_all2 (verified_sector (drop (length (wire s)) (wire u))) lbas chunks" "buf = concat chunks"
      using download_contents_data [OF c'] by blast
    have "set (drop (length (wire s)) (wire u)) \<subseteq> set (drop (length (wire s)) (wire t))" using w by auto
    then have "list_all2 (verified_sector (drop (length (wire s)) (wire t))) lbas chunks"
      using d(5) verified_more by (auto elim: list_all2_mono)
    then have "length (take (bbl_size entry) buf) = bbl_size entry \<Longrightarrow>
        file_on_card (drop (length (wire s)) (wire t)) name (take (bbl_size entry) buf)"
      using d unfolding file_on_card_def by blast
    then show ?thesis using save_file_outcome(2) [OF sv] o1 by (cases r) auto
  qed
qed



end
