(* ===== verification/Download_Live.thy ===== *)
theory Download_Live
  imports Sd_Download
begin

section \<open>When the download succeeds\<close>

text \<open>
  The safety properties of the download hold on every link; here is the other direction. When the card holds a
  good volume and every command is answered as the firmware answers it, the whole operation, from the probe to the \<open>sd cancel\<close> at
  the end, runs to its end and saves the file. Each step of the operation gets a lemma of the form "on a calm link it
  returns, and the link stays calm"; they are then put together in the order of the code.
\<close>

subsection \<open>A good card and a quiet link: the file is saved\<close>

text \<open>Moments in which the pending command is answered, nobody cancels, the link stays up and no time passes.\<close>

definition quiet :: "string \<Rightarrow> moment" where
  "quiet text = \<lparr>mo_answer = Inr text, mo_cancel = None, mo_online = True, mo_now = 0\<rparr>"

definition calm :: "dl \<Rightarrow> moment list \<Rightarrow> bool" where
  "calm s ms \<longleftrightarrow> moments s = ms \<and> online s \<and> cancel_reason s = None \<and> clock s = 0 \<and> can_read s \<and> saved s = [] \<and> probe_timeout_ms s = 15000"

lemma calm_await: "calm s (quiet x # ms) \<Longrightarrow> \<exists>t. await s = (Inr (quiet x), t) \<and> calm t ms"
  by (auto simp: calm_def await_def take_moment_def quiet_def Let_def)

lemma calm_sleep: "calm s (quiet x # ms) \<Longrightarrow> \<exists>t. sleep s = (Inr (), t) \<and> calm t ms"
  using calm_await [of s x ms] by (auto simp: sleep_def act_bind_def)

lemma calm_check: "calm s ms \<Longrightarrow> check what s = (Inr (), s)" "calm s ms \<Longrightarrow> check_cancel what s = (Inr (), s)"
  by (simp_all add: calm_def check_def check_cancel_def act_then_def act_bind_def act_get_def)

lemma calm_gated:
  assumes "calm s (quiet x # ms)" and "read_as (Inr x) = Inr y"
  shows "\<exists>t. gated_request what cmd read_as sd cancellable s = (Inr y, t) \<and> calm t ms"
proof -
  let ?s = "s\<lparr>wire := wire s @ [Handed cmd]\<rparr>"
  have "calm ?s (quiet x # ms)" using assms(1) by (simp add: calm_def)
  then obtain t where t: "await ?s = (Inr (quiet x), t)" "calm t ms" using calm_await by blast
  have "request cmd read_as s = (Inr y, t\<lparr>wire := wire t @ [Came cmd (Inr x)]\<rparr>)"
    using t assms(2) by (simp add: request_def log_wire_def act_then_def act_bind_def act_mod_def act_ret_def quiet_def)
  then show ?thesis using t(2) by (auto simp: gated_request_def with_gate.simps [of what cmd read_as sd] calm_def mark_sd_def)
qed

lemma calm_send:
  assumes "calm s (quiet x # ms)" and "parse_sd_status_reply x = SdStatus st"
  shows "\<exists>t. send_sd cmd what s = (Inr st, t) \<and> calm t ms"
proof -
  obtain t where t: "gated_request what cmd (\<lambda>a. a) True True s = (Inr x, t)" "calm t ms" 
    using calm_gated [OF assms(1), of "\<lambda>a. a" x what cmd True True] by auto
  then show ?thesis using assms(2) calm_check(1) [OF t(2)] by (simp add: send_sd_def rethrow_def act_bind_def act_then_def act_ret_def)
qed

lemma calm_poll:
  assumes "calm s (quiet x # quiet y # ms)" and "parse_sd_status_reply y = SdStatus st" and "sd_state st = ''done''"
    and "sd_ready_capacity st = Inr n" and "sd_filesystem st \<in> {None, Some ''FAT32''}"
  shows "\<exists>t. poll_card what 0 s = (Inr n, t) \<and> calm t ms"
proof -
  obtain t where t: "sleep s = (Inr (), t)" "calm t (quiet y # ms)" using calm_sleep [OF assms(1)] by blast
  obtain u where u: "send_sd ''sd status'' what t = (Inr st, u)" "calm u ms" using calm_send [OF t(2) assms(2)] by blast
  have "poll_verdict st u = (Inr (Some n), u)"
    using assms(3-5) by (auto simp: poll_verdict_def SD_PROBE_ACTIVE_STATES_def act_ret_def split: option.split)
  then have "poll_round what s = (Inr (Some n), u)"
    using t(1) u(1) calm_check(1) [OF t(2)] by (simp add: poll_round_def poll_ask_def act_then_def act_bind_def)
  moreover have "\<not> clock s - 0 \<ge> probe_timeout_ms s" using assms(1) by (simp add: calm_def)
  ultimately show ?thesis using u(2) by (subst poll_card.simps) auto
qed

definition says_recording :: "string \<Rightarrow> bool" where
  "says_recording bb \<longleftrightarrow> (case recorder_verdict bb of RecorderBusy l \<Rightarrow> True | _ \<Rightarrow> False)"

definition says_armed :: "string \<Rightarrow> bool" where
  "says_armed st \<longleftrightarrow> (case arm_verdict st of ArmArmed l \<Rightarrow> True | _ \<Rightarrow> False)"

lemma calm_locks:
  assumes "calm s (quiet bb # quiet st # ms)" and "\<not> says_recording bb" and "\<not> says_armed st"
  shows "\<exists>t. check_locks what s = (Inr (), t) \<and> calm t ms"
proof -
  have lock: "\<exists>t. lock_reply cmd what s = (Inr x, t) \<and> calm t ms" if "calm s (quiet x # ms)" for cmd s x ms
    using calm_gated [OF that, of "\<lambda>a. a" x what cmd False True] by (auto simp: lock_reply_def rethrow_def)
  obtain t where t: "lock_reply ''blackbox status'' what s = (Inr bb, t)" "calm t (quiet st # ms)" using lock [OF assms(1)] by blast
  obtain u where u: "lock_reply ''status'' what t = (Inr st, u)" "calm u ms" using lock [OF t(2)] by blast
  show ?thesis
    using t(1) u assms(2,3) calm_check(1) [OF t(2)] calm_check(1) [OF u(2)]
    by (cases "recorder_verdict bb"; cases "arm_verdict st")
      (simp_all add: check_locks_def act_bind_def act_then_def act_mod_def calm_def says_recording_def says_armed_def)
qed

definition good_reply :: "(nat \<Rightarrow> byte list) \<Rightarrow> (nat \<Rightarrow> string) \<Rightarrow> nat \<Rightarrow> bool" where
  "good_reply sec reply lba \<longleftrightarrow> (\<exists>crc. parse_sd_read_reply (reply lba) lba = SdData lba (sec lba) crc)"

lemma calm_read:
  assumes "calm s (quiet (reply lba) # ms)" and "good_reply sec reply lba"
  shows "\<exists>t. read_verified lba what s = (Inr (sec lba), t) \<and> calm t ms"
proof -
  obtain crc where crc: "parse_sd_read_reply (reply lba) lba = SdData lba (sec lba) crc" using assms(2) by (auto simp: good_reply_def)
  have out: "sd_read_outcome lba (Inr (reply lba)) = Inr (SdData lba (sec lba) crc)"
    by (simp add: sd_read_outcome_def read_event_of_def read_result_def crc)
  let ?s = "s\<lparr>sector_reads := Suc (sector_reads s)\<rparr>"
  have "calm ?s (quiet (reply lba) # ms)" using assms(1) by (simp add: calm_def)
  then obtain t where t: "gated_request what (sd_read_line lba) (sd_read_outcome lba) True True ?s = (Inr (SdData lba (sec lba) crc), t)" "calm t ms"
    using calm_gated [of ?s "reply lba" ms "sd_read_outcome lba" "SdData lba (sec lba) crc" what "sd_read_line lba" True True] out by auto
  let ?t = "t\<lparr>sectors_answered := Suc (sectors_answered t)\<rparr>"
  have ct: "calm ?t ms" using t(2) by (simp add: calm_def)
  have "read_once lba what s = (Inr (SdData lba (sec lba) crc), ?t)"
    using t(1) assms(1) by (simp add: read_once_def rethrow_def act_bind_def act_then_def act_mod_def act_get_def act_ret_def calm_def act_unless_def)
  then show ?thesis
    using ct calm_check(1) [OF assms(1)] calm_check(2) [OF ct]
    by (simp add: read_verified_def read_attempt_def act_bind_def act_then_def act_ret_def)
qed

lemma calm_reads: "calm s (List.map (\<lambda>lba. quiet (reply lba)) lbas @ ms) \<Longrightarrow> list_all (good_reply sec reply) lbas \<Longrightarrow>
  calm (reads_from what s lbas) ms"
proof (induction lbas arbitrary: s)
  case (Cons lba lbas)
  then obtain t where "read_verified lba what s = (Inr (sec lba), t)" "calm t (List.map (\<lambda>lba. quiet (reply lba)) lbas @ ms)"
    using calm_read [of s reply lba _ sec what] by auto
  then show ?case using Cons by simp
qed simp

text \<open>Along the reads of such a link the card is the ideal one.\<close>

definition ideal_card :: "(nat \<Rightarrow> byte list) \<Rightarrow> card" where
  "ideal_card sec earlier lba = Inr (sec lba)"

lemma calm_card:
  assumes "calm s (List.map (\<lambda>lba. quiet (reply lba)) (done_reads @ rest_reads) @ ms)" and "list_all (good_reply sec reply) (done_reads @ rest_reads)"
  shows "same_answers (ideal_card sec) (card_of what s) done_reads"
  unfolding same_answers_def
proof (intro allI impI)
  fix i assume i: "i < length done_reads"
  then have split: "done_reads @ rest_reads = take i done_reads @ done_reads ! i # (drop (Suc i) done_reads @ rest_reads)" by (simp add: Cons_nth_drop_Suc)
  let ?ms = "List.map (\<lambda>lba. quiet (reply lba)) (drop (Suc i) done_reads @ rest_reads) @ ms"
  have "calm (reads_from what s (take i done_reads)) (quiet (reply (done_reads ! i)) # ?ms)"
    using assms unfolding split by (intro calm_reads [where sec = sec and reply = reply]) simp_all
  moreover have "good_reply sec reply (done_reads ! i)" using assms(2) i by (simp add: list_all_iff)
  ultimately obtain t where "read_verified (done_reads ! i) what (reads_from what s (take i done_reads)) = (Inr (sec (done_reads ! i)), t)"
    using calm_read by blast
  then show "ideal_card sec (take i done_reads) (done_reads ! i) = card_of what s (take i done_reads) (done_reads ! i)"
    by (simp add: ideal_card_def card_of_def)
qed

lemma calm_fat_do:
  assumes "calm (vol_base v) (List.map (\<lambda>lba. quiet (reply lba)) (asked f @ later) @ ms)"
    and "list_all (good_reply sec reply) (asked f @ later)" and "device_only m" and "m (ideal_card sec) (vol_fat v) = (Inr x, f)"
  shows "\<exists>t. fat_do m v s = (Inr (x, v\<lparr>vol_fat := f\<rparr>), t) \<and> calm t (List.map (\<lambda>lba. quiet (reply lba)) later @ ms)"
proof -
  have "same_answers (ideal_card sec) (card_of (vol_what v) (vol_base v)) (asked f)" by (rule calm_card [OF assms(1,2)])
  then have m: "m (card_of (vol_what v) (vol_base v)) (vol_fat v) = (Inr x, f)" by (rule device_onlyD(2) [OF assms(3,4)])
  have "calm (reads_from (vol_what v) (vol_base v) (asked f)) (List.map (\<lambda>lba. quiet (reply lba)) later @ ms)"
    using assms(1,2) by (intro calm_reads [where sec = sec and reply = reply]) simp_all
  then show ?thesis using m by (auto simp: fat_do_def Let_def)
qed

lemma good_reply_length: "good_reply sec reply lba \<Longrightarrow> length (sec lba) = 512"
  using sd_data_length by (auto simp: good_reply_def)

lemma calm_read_sectors:
  assumes "calm s (List.map (\<lambda>lba. quiet (reply lba)) lbas @ ms)" and "list_all (good_reply sec reply) lbas" and "(i + length lbas) * 512 = length buf"
  shows "\<exists>t. read_sectors amount i lbas buf s = (Inr (take (i * 512) buf @ concat (List.map sec lbas)), t) \<and> calm t ms"
  using assms
proof (induction lbas arbitrary: i buf s)
  case (Cons lba lbas)
  obtain t where t: "read_verified lba Download s = (Inr (sec lba), t)" "calm t (List.map (\<lambda>lba. quiet (reply lba)) lbas @ ms)"
    using calm_read [of s reply lba _ sec Download] Cons.prems by auto
  let ?t = "t\<lparr>dl_progress := map_option (\<lambda>p. p\<lparr>pr_bytes_done := min (Suc i * 512) amount, pr_sectors_done := Suc i\<rparr>) (dl_progress t)\<rparr>"
  let ?buf = "array_set buf (i * 512) (sec lba)"
  have len: "length (sec lba) = 512" "Suc i * 512 \<le> length buf" using Cons.prems(2,3) good_reply_length by auto
  have c: "calm ?t (List.map (\<lambda>lba. quiet (reply lba)) lbas @ ms)" using t(2) by (simp add: calm_def)
  have g: "list_all (good_reply sec reply) lbas" using Cons.prems(2) by simp
  have l: "(Suc i + length lbas) * 512 = length ?buf" using Cons.prems(3) len by simp
  obtain u where "read_sectors amount (Suc i) lbas ?buf ?t = (Inr (take (Suc i * 512) ?buf @ concat (List.map sec lbas)), u)" "calm u ms"
    using Cons.IH [OF c g l] by blast
  then show ?case using t(1) take_array_set [OF len] by (auto simp: act_bind_def act_then_def act_mod_def)
qed (simp add: act_ret_def)

lemma calm_end_session:
  assumes "calm s (quiet x # ms)"
  shows "\<exists>note t. end_session s = (Inr note, t) \<and> calm t (if sd_on_wire s then ms else quiet x # ms)"
proof (cases "sd_on_wire s")
  case True
  obtain t where "gated_request Download ''sd cancel'' (\<lambda>a. a) False False s = (Inr x, t)" "calm t ms" 
    using calm_gated [OF assms, of "\<lambda>a. a" x Download "''sd cancel''" False False] by auto
  then show ?thesis using True assms by (auto simp: end_session_def calm_def)
qed (use assms in \<open>simp add: end_session_def\<close>)

text \<open>What the controller answers to the steps before the first read.\<close>

definition ready_link :: "string \<Rightarrow> string \<Rightarrow> string \<Rightarrow> string \<Rightarrow> nat \<Rightarrow> bool" where
  "ready_link probe status bb arm n \<longleftrightarrow>
     (case parse_sd_status_reply probe of SdStatus p \<Rightarrow> sd_state p \<in> set SD_PROBE_ACTIVE_STATES | _ \<Rightarrow> False)
   \<and> (case parse_sd_status_reply status of SdStatus st \<Rightarrow> sd_state st = ''done'' \<and> sd_ready_capacity st = Inr n \<and> sd_filesystem st \<in> {None, Some ''FAT32''}
        | _ \<Rightarrow> False)
   \<and> \<not> says_recording bb \<and> \<not> says_armed arm"

definition good_moments :: "string \<Rightarrow> string \<Rightarrow> string \<Rightarrow> string \<Rightarrow> (nat \<Rightarrow> string) \<Rightarrow> nat list \<Rightarrow> moment list" where
  "good_moments probe status bb arm reply reads =
     List.map quiet [probe, [], status, bb, arm] @ List.map (\<lambda>lba. quiet (reply lba)) reads @ [quiet []]"

lemma calm_open:
  assumes "calm s (List.map quiet [probe, [], status, bb, arm] @ List.map (\<lambda>lba. quiet (reply lba)) (asked f1 @ later) @ ms)"
    and "ready_link probe status bb arm n" and "list_all (good_reply sec reply) (asked f1 @ later)"
    and "mount (ideal_card sec) (new_reader n) = (Inr (), f1)"
  shows "\<exists>base v t. open_volume Download s = (Inr \<lparr>vol_what = Download, vol_base = base, vol_fat = f1\<rparr>, t)
    \<and> calm base (List.map (\<lambda>lba. quiet (reply lba)) (asked f1 @ later) @ ms) \<and> calm t (List.map (\<lambda>lba. quiet (reply lba)) later @ ms)"
proof -
  let ?reads = "List.map (\<lambda>lba. quiet (reply lba)) (asked f1 @ later) @ ms"
  obtain p st where p: "parse_sd_status_reply probe = SdStatus p" "sd_state p \<in> set SD_PROBE_ACTIVE_STATES"
    and st: "parse_sd_status_reply status = SdStatus st" "sd_state st = ''done''" "sd_ready_capacity st = Inr n" "sd_filesystem st \<in> {None, Some ''FAT32''}"
    and v: "\<not> says_recording bb" "\<not> says_armed arm"
    using assms(2) by (auto simp: ready_link_def split: sd_status_result.splits)
  let ?s = "s\<lparr>dl_phase := DlProbing\<rparr>"
  have c0: "calm ?s (quiet probe # quiet [] # quiet status # quiet bb # quiet arm # ?reads)" using assms(1) by (simp add: calm_def)
  obtain s1 where s1: "send_sd ''sd probe'' Download ?s = (Inr p, s1)" "calm s1 (quiet [] # quiet status # quiet bb # quiet arm # ?reads)"
    using calm_send [OF c0 p(1)] by blast
  obtain s2 where s2: "poll_card Download 0 s1 = (Inr n, s2)" "calm s2 (quiet bb # quiet arm # ?reads)" using calm_poll [OF s1(2) st] by blast
  obtain s3 where s3: "check_locks Download s2 = (Inr (), s3)" "calm s3 ?reads" using calm_locks [OF s2(2) v] by blast
  let ?b = "s3\<lparr>dl_phase := DlScanning\<rparr>"
  let ?v = "\<lparr>vol_what = Download, vol_base = ?b, vol_fat = new_reader n\<rparr>"
  have cb: "calm ?b ?reads" using s3(2) by (simp add: calm_def)
  obtain t where t: "fat_do mount ?v ?b = (Inr ((), ?v\<lparr>vol_fat := f1\<rparr>), t)" "calm t (List.map (\<lambda>lba. quiet (reply lba)) later @ ms)"
    using calm_fat_do [of ?v reply f1 later ms sec mount "()" ?b] cb assms(3,4) device_mount by auto
  have "clock s = 0" using assms(1) by (simp add: calm_def)
  then have "open_volume Download s = (Inr \<lparr>vol_what = Download, vol_base = ?b, vol_fat = f1\<rparr>, t)"
    using s1(1) s2(1) s3(1) t(1) p(2)
    by (simp add: open_volume_def dl_set_phase_def act_then_def act_bind_def act_mod_def act_get_def mount_volume_def act_ret_def)
  then show ?thesis using cb t(2) by blast
qed

lemma calm_save:
  assumes "calm s [quiet x]" and "length contents = bbl_size entry"
  shows "\<exists>t. save_file name entry lbas contents s = (Inr (), t) \<and> saved t = [(name, contents)]"
proof -
  obtain why t ms where t: "end_session s = (Inr why, t)" "calm t ms" using calm_end_session [OF assms(1)] by blast
  moreover have "saved t = []" using t(2) by (simp add: calm_def)
  ultimately show ?thesis using assms(2) calm_check(1) [OF assms(1)] calm_check(2) [OF t(2)]
    by (simp add: save_file_def act_then_def act_bind_def act_mod_def act_unless_def act_ret_def)
qed

lemma saved_length:
  assumes "file_data_sectors dev entry f = (Inr lbas, g)" and "list_all (good_reply sec reply) lbas"
  shows "length (take (bbl_size entry) (concat (List.map sec lbas))) = bbl_size entry"
proof -
  have n: "length lbas = ceil_div (bbl_size entry) 512"
    using assms(1) by (auto simp: file_data_sectors_def act_of_def elim!: act_bindE act_thenE)
  have "length (concat (List.map sec lbas)) = 512 * length lbas"
    using assms(2) good_reply_length by (induction lbas) auto
  moreover have "bbl_size entry \<le> 512 * ceil_div (bbl_size entry) 512" unfolding ceil_div_def by linarith
  ultimately show ?thesis using n by simp
qed

subsection \<open>A card and a link on which the hypotheses hold\<close>

definition sample_lines :: "string list \<Rightarrow> string" where
  "sample_lines ls = concat (List.map (\<lambda>l. l @ [CHR 0x0D, CHR 0x0A]) ls)"

definition sample_probe :: string where
  "sample_probe = sample_lines [''sd_api: 1'', ''sd_state: reading-mbr'', ''sd_end: 1'']"

definition sample_card_status :: string where
  "sample_card_status = sample_lines [''sd_api: 1'', ''sd_state: done'', ''sd_sectors: 66100'', ''sd_io_error: 0'', ''sd_end: 1'']"

definition sample_recorder :: string where
  "sample_recorder = ''blackbox_end: 1''"

definition sample_disarmed :: string where
  "sample_disarmed = sample_lines [''arm: disarmed'']"

lemma sample_probe_reply: "case parse_sd_status_reply sample_probe of SdStatus p \<Rightarrow> sd_state p = ''reading-mbr'' | _ \<Rightarrow> False"
  by code_simp
lemma sample_status_reply: "parse_sd_status_reply sample_card_status = SdStatus \<lparr>sd_state = ''done'', sd_detail = None, sd_sectors = Some ''66100'', sd_io_error = Some ''0'', sd_filesystem = None\<rparr>"
  by code_simp
lemma sample_recorder_verdict: "recorder_verdict sample_recorder = RecorderUnknown"
  by code_simp
lemma sample_not_armed: "\<not> says_armed sample_disarmed"
  by code_simp

lemma sample_capacity: "sd_ready_capacity \<lparr>sd_state = ''done'', sd_detail = None, sd_sectors = Some ''66100'', sd_io_error = Some ''0'', sd_filesystem = None\<rparr> = Inr 66100"
proof -
  have d: "all_digits ''66100''" by code_simp
  have n: "dec_num ''66100'' = 66100" by (simp add: dec_num_def)
  show ?thesis by (simp add: sd_ready_capacity_def d n MAX_SAFE_INTEGER_def SD_MAX_SECTOR_def)
qed

definition sample_sector :: "nat \<Rightarrow> byte list" where
  "sample_sector lba = (case sample_card [] lba of Inr bytes \<Rightarrow> bytes | Inl e \<Rightarrow> [])"

lemma sample_ideal: "ideal_card sample_sector = sample_card"
  by (rule ext, rule ext) (simp add: ideal_card_def sample_sector_def sample_card_def)

definition sample_reply :: "nat \<Rightarrow> string" where
  "sample_reply lba = sd_reply_text lba (sample_sector lba) (crc32_ieee (sample_sector lba))"

lemma sample_good: "lba \<le> SD_MAX_SECTOR \<Longrightarrow> good_reply sample_sector sample_reply lba"
  by (simp add: good_reply_def sample_reply_def parse_sd_reply_text sample_sector_def sample_card_def)

lemma sample_ready: "ready_link sample_probe sample_card_status sample_recorder sample_disarmed 66100"
  using sample_probe_reply by (auto simp: ready_link_def says_recording_def sample_status_reply sample_recorder_verdict sample_not_armed sample_capacity SD_PROBE_ACTIVE_STATES_def split: sd_status_result.splits)


end
