(* ===== verification/Loop_Replies.thy ===== *)
theory Loop_Replies
  imports Fc_Replies
begin

section \<open>Loop rate, motor direction, gyro health and board identity replies\<close>

text \<open>
  The remaining reply parsers of protocol/src that read single keys: loop-rate.ts, loop-rate-setting.ts,
  motor-direction.ts, gyro-health.ts and board-id.ts, with the display models the pages show. They use
  the report scanner of \<open>Fc_Replies\<close> on their own line syntax.
\<close>

subsection \<open>Status keys: loop-rate.ts, gyro-health.ts\<close>

text \<open>\<open>/^(p[a-z_]+):(.*)$/\<close> on a trimmed line, restricted to the keys wanted; the value is trimmed.\<close>

definition status_line :: "string \<Rightarrow> string list \<Rightarrow> string \<Rightarrow> (string \<times> string) option" where
  "status_line p keys l = (case field_line key_char '':'' (js_trim l) of
     Some (k, v) \<Rightarrow> if prefix p k \<and> length p < length k \<and> k \<in> set keys then Some (k, js_trim v) else None
   | None \<Rightarrow> None)"

definition LOOP_STATUS_KEYS :: "string list" where
  "LOOP_STATUS_KEYS = [''loop_target_hz'', ''loop_actual_hz'', ''loop_overruns'']"

definition UINT32_MAX :: nat where "UINT32_MAX = 4294967295"
definition UINT64_MAX :: nat where "UINT64_MAX = 18446744073709551615"

definition canonical20 :: "string \<Rightarrow> bool" where
  "canonical20 s \<longleftrightarrow> canonical_uint s \<and> length s \<le> 20"

definition canonical_upto :: "nat \<Rightarrow> string option \<Rightarrow> string option" where
  "canonical_upto mx raw = (case raw of None \<Rightarrow> None
     | Some s \<Rightarrow> if \<not> canonical20 s then None else if dec_num s \<le> mx then Some s else None)"

definition parse_uint64 :: "string option \<Rightarrow> string option" where
  "parse_uint64 raw = canonical_upto UINT64_MAX raw"

definition parse_uint32 :: "string option \<Rightarrow> string option" where
  "parse_uint32 raw = canonical_upto UINT32_MAX raw"

datatype field_state = StValue | StMissing | StUnavailable | StDuplicate | StMalformed

record loop_status =
  target_hz :: "string option"
  actual_hz :: "string option"
  overruns :: "string option"
  target_state :: field_state
  actual_state :: field_state
  overruns_state :: field_state
  older_firmware :: bool

definition loop_read :: "report_scan \<Rightarrow> string \<Rightarrow> (string \<Rightarrow> string option) \<Rightarrow> bool \<Rightarrow> string option \<times> field_state" where
  "loop_read st key parse allow = (case seen st key of
     None \<Rightarrow> (None, StMissing)
   | Some v \<Rightarrow>
       if key \<in> set (repeated st) then (None, StDuplicate)
       else if allow \<and> v = ''unavailable'' then (None, StUnavailable)
       else (case parse v of None \<Rightarrow> (None, StMalformed) | Some d \<Rightarrow> (Some d, StValue)))"

definition target_digits :: "string \<Rightarrow> string option" where
  "target_digits v = (let d = parse_uint32 (Some v) in if d = Some ''0'' then None else d)"

definition parse_loop_status :: "string \<Rightarrow> loop_status" where
  "parse_loop_status raw =
     (let st = scan_report (status_line ''loop_'' LOOP_STATUS_KEYS) (split_nl raw);
          (t, ts) = loop_read st ''loop_target_hz'' target_digits False;
          (a, as) = loop_read st ''loop_actual_hz'' (\<lambda>v. parse_uint32 (Some v)) True;
          (v, vs) = loop_read st ''loop_overruns'' (\<lambda>v. parse_uint64 (Some v)) False
      in \<lparr>target_hz = t, actual_hz = a, overruns = v, target_state = ts, actual_state = as, overruns_state = vs,
          older_firmware = list_all (\<lambda>s. s = StMissing) [ts, as, vs]\<rparr>)"

definition or_unknown :: "string option \<Rightarrow> string" where
  "or_unknown v = (case v of None \<Rightarrow> ''unknown'' | Some t \<Rightarrow> t)"

definition loop_rate_view :: "loop_status option \<Rightarrow> (string \<times> string) list \<times> string option" where
  "loop_rate_view s =
     ([(''Loop target (Hz)'', or_unknown (Option.bind s target_hz)),
       (''Loop actual (Hz, last ~1 s)'', or_unknown (Option.bind s actual_hz)),
       (''Loop overruns (since boot)'', or_unknown (Option.bind s overruns))],
      case s of
        None \<Rightarrow> Some ''No status reading yet.''
      | Some t \<Rightarrow>
          if older_firmware t then Some ''This firmware does not report loop rate (older FC).''
          else if actual_state t = StUnavailable then Some ''Firmware is still measuring: the first ~1 s window has not closed.''
          else if list_ex (\<lambda>x. x \<noteq> StValue) [target_state t, actual_state t, overruns_state t]
          then Some ''Some loop-rate keys were missing or malformed and are shown as unknown.''
          else None)"

definition GYRO_HEALTH_KEYS :: "string list" where
  "GYRO_HEALTH_KEYS = [''gyro_health'', ''gyro_sat_count'']"

record gyro_view =
  gyro_health :: string
  gyro_sat_count :: string
  gyro_older_firmware :: bool

definition gyro_health_view :: "string option \<Rightarrow> gyro_view" where
  "gyro_health_view raw = (case raw of
     None \<Rightarrow> \<lparr>gyro_health = ''unknown'', gyro_sat_count = ''unknown'', gyro_older_firmware = False\<rparr>
   | Some text \<Rightarrow>
       (let st = scan_report (status_line ''gyro_'' GYRO_HEALTH_KEYS) (split_nl text) in
        \<lparr>gyro_health = (case once st ''gyro_health'' of Some v \<Rightarrow> if v = [] then ''unknown'' else v | None \<Rightarrow> ''unknown''),
         gyro_sat_count = (case once st ''gyro_sat_count'' of Some v \<Rightarrow> if canonical_uint v then v else ''unknown'' | None \<Rightarrow> ''unknown''),
         gyro_older_firmware = list_all (\<lambda>k. seen st k = None) GYRO_HEALTH_KEYS\<rparr>))"

datatype gyro_scenario = GyMissing | GyOk | GyStuck | GyWhoami | GyConfigLost | GyUnknownToken | GySatBig

fun mock_gyro_health_lines :: "gyro_scenario \<Rightarrow> string list" where
  "mock_gyro_health_lines GyMissing = []"
| "mock_gyro_health_lines GyOk = [''gyro_health: ok'', ''gyro_sat_count: 0'']"
| "mock_gyro_health_lines GyStuck = [''gyro_health: stuck'', ''gyro_sat_count: 3'']"
| "mock_gyro_health_lines GyWhoami = [''gyro_health: whoami-mismatch'', ''gyro_sat_count: 0'']"
| "mock_gyro_health_lines GyConfigLost = [''gyro_health: config-lost'', ''gyro_sat_count: 12'']"
| "mock_gyro_health_lines GyUnknownToken = [''gyro_health: bias-drift'', ''gyro_sat_count: 7'']"
| "mock_gyro_health_lines GySatBig = [''gyro_health: ok'', ''gyro_sat_count: 18446744073709551615'']"

definition mock_gyro_health_forces_unhealthy :: "gyro_scenario \<Rightarrow> bool" where
  "mock_gyro_health_forces_unhealthy s \<longleftrightarrow> s \<noteq> GyMissing \<and> s \<noteq> GyOk \<and> s \<noteq> GySatBig"

subsection \<open>The loop-rate setting: loop-rate-setting.ts\<close>

datatype loop_option = Hz1000 | Hz4000 | Hz8000

fun option_text :: "loop_option \<Rightarrow> string" where
  "option_text Hz1000 = ''1000''"
| "option_text Hz4000 = ''4000''"
| "option_text Hz8000 = ''8000''"

fun option_label :: "loop_option \<Rightarrow> string" where
  "option_label Hz1000 = ''1 kHz''"
| "option_label Hz4000 = ''4 kHz''"
| "option_label Hz8000 = ''8 kHz''"

definition LOOP_RATE_OPTIONS :: "loop_option list" where
  "LOOP_RATE_OPTIONS = [Hz1000, Hz4000, Hz8000]"

definition loop_option_of :: "string \<Rightarrow> loop_option option" where
  "loop_option_of v = map_of (List.map (\<lambda>x. (option_text x, x)) LOOP_RATE_OPTIONS) v"

definition LOOP_RATE_REBOOT_NOTE :: string where
  "LOOP_RATE_REBOOT_NOTE = ''note: loop_rate_hz takes effect after save + reboot''"
definition LOOP_RATE_ARMED_LINE :: string where "LOOP_RATE_ARMED_LINE = ''set failed: armed''"
definition LOOP_RATE_INVALID_LINE :: string where "LOOP_RATE_INVALID_LINE = ''set failed: loop_rate_hz must be 1000, 4000 or 8000''"

definition loop_rate_unsupported_line :: "loop_option \<Rightarrow> string \<Rightarrow> string" where
  "loop_rate_unsupported_line v board =
     ''set failed: loop_rate_hz '' @ option_text v @ '' not supported on '' @ board @ '' (no 8 kHz gyro path)''"

definition LOOP_RATE_CLI_COMMANDS :: "string list" where
  "LOOP_RATE_CLI_COMMANDS = [''get loop_rate_hz'', ''set loop_rate_hz 1000'', ''set loop_rate_hz 4000'', ''set loop_rate_hz 8000'', ''loop_rate'']"

definition is_loop_rate_cli_command :: "string \<Rightarrow> bool" where
  "is_loop_rate_cli_command cmd \<longleftrightarrow> cmd \<in> set LOOP_RATE_CLI_COMMANDS"

definition loop_rate_set_command :: "string \<Rightarrow> string option" where
  "loop_rate_set_command v = map_option (\<lambda>x. ''set loop_rate_hz '' @ option_text x) (loop_option_of v)"

datatype loop_get = LoopValue loop_option | LoopUnsupported | LoopMalformed string

definition parse_loop_rate_get_reply :: "string \<Rightarrow> loop_get" where
  "parse_loop_rate_get_reply raw =
     (let ls = reply_lines raw in
      if ls = [''unknown key''] then LoopUnsupported
      else case ls of
        [l] \<Rightarrow> if prefix ''loop_rate_hz='' l then
                 (case loop_option_of (drop 13 l) of Some v \<Rightarrow> LoopValue v | None \<Rightarrow> LoopMalformed (js_trim raw))
               else LoopMalformed (js_trim raw)
      | _ \<Rightarrow> LoopMalformed (js_trim raw))"

datatype loop_failure = LfInvalid | LfUnsupportedBoard | LfArmed | LfUnknownKey | LfUnexpected
datatype loop_set = LoopSetOk loop_option bool | LoopSetFailed loop_failure string

text \<open>\<open>/^set failed: loop_rate_hz \d+ not supported on /\<close>.\<close>

definition unsupported_board_line :: "string \<Rightarrow> bool" where
  "unsupported_board_line l \<longleftrightarrow> prefix ''set failed: loop_rate_hz '' l \<and>
     (case split_digits (drop 25 l) of (d, r) \<Rightarrow> d \<noteq> [] \<and> prefix '' not supported on '' r)"

definition parse_loop_rate_set_reply :: "string \<Rightarrow> loop_option \<Rightarrow> loop_set" where
  "parse_loop_rate_set_reply raw requested =
     (let ls = reply_lines raw; first = (case ls of [] \<Rightarrow> [] | l # _ \<Rightarrow> l);
          message = (if js_join '' '' ls = [] then ''no reply'' else js_join '' '' ls) in
      if first = ''ok loop_rate_hz='' @ option_text requested
         \<and> list_all (\<lambda>l. l = LOOP_RATE_REBOOT_NOTE) (tl ls) \<and> length ls \<le> 2
      then LoopSetOk requested (LOOP_RATE_REBOOT_NOTE \<in> set ls)
      else if first = ''unknown key'' then LoopSetFailed LfUnknownKey ''This firmware has no loop_rate_hz setting (older FC).''
      else if first = LOOP_RATE_ARMED_LINE then LoopSetFailed LfArmed first
      else if first = LOOP_RATE_INVALID_LINE then LoopSetFailed LfInvalid first
      else if unsupported_board_line first then LoopSetFailed LfUnsupportedBoard first
      else LoopSetFailed LfUnexpected message)"

record loop_report =
  setting_hz :: "loop_option option"
  boot_setting_hz :: "loop_option option"
  pending_reboot :: "bool option"
  loop_profile :: "string option"
  loop_active :: "string option"
  loop_reason :: "string option"
  guard_level :: "string option"

text \<open>\<open>/^(loop_rate_[a-z_]+): (\S+)$/\<close>, \<open>/^[1-9]\d*\/[1-9]\d*$/\<close> and \<open>/^[a-z0-9-]+$/\<close>.\<close>

definition loop_rate_line :: "string \<Rightarrow> (string \<times> string) option" where
  "loop_rate_line l = (case sep_line key_char '': '' l of
     Some (k, v) \<Rightarrow> if prefix ''loop_rate_'' k \<and> length k > 10 then Some (k, v) else None
   | None \<Rightarrow> None)"

definition positive_digits :: "string \<Rightarrow> bool" where
  "positive_digits s \<longleftrightarrow> all_digits s \<and> hd s \<noteq> CHR ''0''"

definition rate_pair :: "string \<Rightarrow> bool" where
  "rate_pair s \<longleftrightarrow> (case split_digits s of (a, r) \<Rightarrow> positive_digits a \<and> r \<noteq> [] \<and> hd r = CHR ''/'' \<and> positive_digits (tl r))"

definition token_char :: "char \<Rightarrow> bool" where
  "token_char c \<longleftrightarrow> is_lower c \<or> is_digit c \<or> c = CHR ''-''"

definition reason_token :: "string \<Rightarrow> bool" where
  "reason_token s \<longleftrightarrow> s \<noteq> [] \<and> list_all token_char s"

definition parse_loop_rate_report :: "string \<Rightarrow> loop_report option" where
  "parse_loop_rate_report raw =
     (let ls = reply_lines raw in
      if ''loop_rate_api: 1'' \<notin> set ls \<or> ls = [] \<or> last ls \<noteq> ''loop_rate_end: 1'' then None
      else
        (let st = scan_report loop_rate_line ls;
             get = (\<lambda>k P. option_filter P (once st k));
             opt = (\<lambda>k. Option.bind (get k all_digits) loop_option_of)
         in Some \<lparr>setting_hz = opt ''loop_rate_setting_hz'', boot_setting_hz = opt ''loop_rate_boot_setting_hz'',
              pending_reboot = map_option (\<lambda>v. v = ''1'') (get ''loop_rate_pending_reboot'' (\<lambda>v. v = ''0'' \<or> v = ''1'')),
              loop_profile = get ''loop_rate_profile'' rate_pair, loop_active = get ''loop_rate_active'' rate_pair,
              loop_reason = get ''loop_rate_reason'' reason_token, guard_level = get ''loop_rate_guard_level'' canonical_uint\<rparr>))"

record loop_setting_view =
  lv_selected :: "loop_option option"
  lv_display :: string
  lv_supported :: "bool option"
  lv_pending :: bool
  lv_boot :: string
  lv_notices :: "string list"

fun loop_get_value :: "loop_get option \<Rightarrow> loop_option option" where
  "loop_get_value (Some (LoopValue v)) = Some v"
| "loop_get_value x = None"

fun loop_get_supported :: "loop_get option \<Rightarrow> bool option" where
  "loop_get_supported (Some LoopUnsupported) = Some False"
| "loop_get_supported (Some (LoopValue v)) = Some True"
| "loop_get_supported x = None"

fun loop_get_notices :: "loop_get option \<Rightarrow> string list" where
  "loop_get_notices (Some LoopUnsupported) = [''This firmware does not report a loop-rate setting (older FC): unknown.'']"
| "loop_get_notices (Some (LoopMalformed raw)) = [''Loop-rate setting reply was not understood: unknown.'']"
| "loop_get_notices x = []"

definition label_or_unknown :: "loop_option option \<Rightarrow> string" where
  "label_or_unknown x = (case x of Some v \<Rightarrow> option_label v | None \<Rightarrow> ''unknown'')"

definition pending_notice :: "loop_option \<Rightarrow> loop_option option \<Rightarrow> string" where
  "pending_notice sel boot = ''Pending: '' @ option_label sel @ '' is selected; the controller runs its boot setting''
     @ (case boot of Some b \<Rightarrow> '' ('' @ option_label b @ '')'' | None \<Rightarrow> []) @ '' until you Save and reboot.''"

definition fallback_notices :: "loop_option option \<Rightarrow> string option \<Rightarrow> string option \<Rightarrow> string list" where
  "fallback_notices boot target reason =
     (case (boot, target) of
        (Some b, Some t) \<Rightarrow>
          if t \<noteq> option_text b then
            [''Firmware is running '' @ t @ '' Hz instead of its boot setting '' @ option_text b @ '' Hz (''
               @ (case reason of Some r \<Rightarrow> r | None \<Rightarrow> ''reason unknown'') @ '').'']
          else (case reason of Some r \<Rightarrow> if r \<noteq> ''setting'' then [''Firmware reports a loop-rate fallback: '' @ r @ ''.''] else [] | None \<Rightarrow> [])
      | _ \<Rightarrow> (case reason of Some r \<Rightarrow> if r \<noteq> ''setting'' then [''Firmware reports a loop-rate fallback: '' @ r @ ''.''] else [] | None \<Rightarrow> []))"

definition loop_rate_setting_view :: "loop_get option \<Rightarrow> loop_report option \<Rightarrow> string option \<Rightarrow> loop_setting_view" where
  "loop_rate_setting_view get report target =
     (let selected = loop_get_value get; supported = loop_get_supported get;
          boot = Option.bind report boot_setting_hz; reason = Option.bind report loop_reason;
          pending = (selected \<noteq> None \<and> (Option.bind report pending_reboot = Some True \<or> boot \<noteq> None \<and> boot \<noteq> selected))
      in \<lparr>lv_selected = selected, lv_display = label_or_unknown selected, lv_supported = supported, lv_pending = pending,
          lv_boot = label_or_unknown boot,
          lv_notices = loop_get_notices get
            @ (if supported = Some True \<and> report = None
               then [''Loop-rate report was not understood: pending reboot and firmware fallback are unknown.''] else [])
            @ (if pending then [pending_notice (the selected) boot]
               else if supported = Some True then [''A loop-rate change takes effect after Save + reboot.''] else [])
            @ fallback_notices boot target reason\<rparr>)"

definition LOOP_RATE_REASON_TEXT :: "(string \<times> string) list" where
  "LOOP_RATE_REASON_TEXT = [
     (''setting'', ''No fallback: the controller runs its boot setting.''),
     (''overrun-guard'', ''The firmware's overrun guard stepped the loop down after sustained overruns. It does not step back up until reboot.''),
     (''board-has-no-8k-gyro-path'', ''This board has no 8 kHz gyro path, so the firmware runs its 1 kHz profile.''),
     (''no-high-res-timebase'', ''The firmware has no high-resolution timebase, so it runs its 1 kHz profile.''),
     (''gyro-odr-below-8k'', ''The gyro does not report an 8 kHz output rate, so the firmware runs its 1 kHz profile.''),
     (''gyro-spi-clock-slow'', ''The gyro SPI read clock is below 10 MHz, so the firmware runs its 1 kHz profile.''),
     (''dshot-bidir-polled-listen'', ''Bidirectional DShot is on and this firmware's polled eRPM listen forces a 1 kHz loop.''),
     (''dshot-bidir-reply-window'', ''Bidirectional DShot is on: the eRPM reply does not fit an 8 kHz loop period, so the firmware lowers the loop below 8 kHz; the applied rate is the Loop target above.''),
     (''dshot-bidir-capture-failed'', ''Bidirectional DShot eRPM capture kept failing, so the firmware fell back to its 1 kHz profile. Check the per-motor telemetry on the Motors page; turning bidir off and on again, or rebooting, retries.'')]"

record reason_view =
  rs_token :: string
  rs_explanation :: "string option"
  rs_fallback :: bool

definition loop_rate_reason_view :: "loop_report option \<Rightarrow> reason_view" where
  "loop_rate_reason_view report = (case Option.bind report loop_reason of
     None \<Rightarrow> \<lparr>rs_token = ''unknown'', rs_explanation = None, rs_fallback = False\<rparr>
   | Some t \<Rightarrow> \<lparr>rs_token = t, rs_explanation = map_of LOOP_RATE_REASON_TEXT t, rs_fallback = (t \<noteq> ''setting'')\<rparr>)"

subsection \<open>Motor direction: motor-direction.ts\<close>

datatype direction = PropsOut | PropsIn

fun direction_text :: "direction \<Rightarrow> string" where
  "direction_text PropsOut = ''props-out''"
| "direction_text PropsIn = ''props-in''"

definition direction_of :: "string \<Rightarrow> direction option" where
  "direction_of v = (if v = ''props-out'' then Some PropsOut else if v = ''props-in'' then Some PropsIn else None)"

definition MOTOR_DIRECTION_CLI_COMMANDS :: "string list" where
  "MOTOR_DIRECTION_CLI_COMMANDS = [''get motor_direction'', ''set motor_direction props-out'', ''set motor_direction props-in'', ''mixer'']"

definition is_motor_direction_cli_command :: "string \<Rightarrow> bool" where
  "is_motor_direction_cli_command cmd \<longleftrightarrow> cmd \<in> set MOTOR_DIRECTION_CLI_COMMANDS"

definition motor_direction_set_command :: "string \<Rightarrow> string option" where
  "motor_direction_set_command v = map_option (\<lambda>d. ''set motor_direction '' @ direction_text d) (direction_of v)"

text \<open>\<open>/^[a-z0-9][a-z0-9-]*$/\<close>.\<close>

definition direction_token :: "string \<Rightarrow> bool" where
  "direction_token s \<longleftrightarrow> s \<noteq> [] \<and> list_all token_char s \<and> hd s \<noteq> CHR ''-''"

definition parse_motor_direction_get_reply :: "string \<Rightarrow> get_result" where
  "parse_motor_direction_get_reply raw =
     (let ls = reply_lines raw in
      if ls = [''unknown key''] then GetUnsupported
      else case ls of
        [l] \<Rightarrow> if prefix ''motor_direction='' l \<and> direction_token (drop 16 l) then GotValue (drop 16 l)
               else GetMalformed (js_trim raw)
      | _ \<Rightarrow> GetMalformed (js_trim raw))"

datatype direction_set = DirectionOk direction | DirectionRefused bool "string option"

definition parse_motor_direction_set_reply :: "string \<Rightarrow> direction \<Rightarrow> direction_set" where
  "parse_motor_direction_set_reply raw requested =
     (let ls = reply_lines raw in
      if ls = [''ok motor_direction='' @ direction_text requested] then DirectionOk requested
      else DirectionRefused (ls \<noteq> [] \<and> hd ls = ''unknown key'') (if ls \<noteq> [] then Some (js_join '' '' ls) else None))"

record mixer_report =
  mixer_name :: "string option"
  mixer_direction :: "string option"
  mixer_yaw :: "string option list"

definition parse_mixer_report :: "string \<Rightarrow> mixer_report option" where
  "parse_mixer_report raw =
     (let ls = reply_lines raw in
      if ls = [] \<or> hd ls \<noteq> ''mixer_api: 1'' \<or> last ls \<noteq> ''mixer_end: 1'' then None
      else
        (let st = scan_report token_line (butlast (tl ls)); get = (\<lambda>k P. option_filter P (once st k)) in
         Some \<lparr>mixer_name = get ''mixer'' direction_token, mixer_direction = get ''motor_direction'' direction_token,
           mixer_yaw = List.map (\<lambda>k. get k (\<lambda>v. v = ''+1'' \<or> v = ''-1''))
             [''mixer_yaw_m1'', ''mixer_yaw_m2'', ''mixer_yaw_m3'', ''mixer_yaw_m4'']\<rparr>))"

record direction_view =
  dv_supported :: "bool option"
  dv_held :: string
  dv_selected :: "direction option"
  dv_mixer :: string
  dv_yaw :: "string list"

fun got_supported :: "get_result option \<Rightarrow> bool option" where
  "got_supported (Some (GotValue v)) = Some True"
| "got_supported (Some GetUnsupported) = Some False"
| "got_supported x = None"

definition motor_direction_view :: "get_result option \<Rightarrow> mixer_report option \<Rightarrow> direction_view" where
  "motor_direction_view get report =
     (let held = or_unknown (got_value get) in
      \<lparr>dv_supported = got_supported get, dv_held = held, dv_selected = direction_of held,
       dv_mixer = or_unknown (Option.bind report mixer_direction),
       dv_yaw = (case report of Some r \<Rightarrow> List.map or_unknown (mixer_yaw r) | None \<Rightarrow> replicate 4 ''unknown'')\<rparr>)"

subsection \<open>Board identity: board-id.ts\<close>

datatype board_id_key = BoardId | BoardTarget | BoardMcu

fun board_key_text :: "board_id_key \<Rightarrow> string" where
  "board_key_text BoardId = ''board_id''"
| "board_key_text BoardTarget = ''board_target''"
| "board_key_text BoardMcu = ''board_mcu''"

definition BOARD_ID_KEYS :: "board_id_key list" where "BOARD_ID_KEYS = [BoardId, BoardTarget, BoardMcu]"
definition BOARD_ID_MAX :: nat where "BOARD_ID_MAX = 48"

text \<open>\<open>/^[a-z0-9_-]+$/\<close>.\<close>

definition board_token :: "string \<Rightarrow> bool" where
  "board_token s \<longleftrightarrow> s \<noteq> [] \<and> list_all (\<lambda>c. setting_char c \<or> c = CHR ''-'') s"

datatype board_field = BoardValue string | BoardMissing | BoardMalformed string

definition drop_one_space :: "string \<Rightarrow> string" where
  "drop_one_space s = (if s \<noteq> [] \<and> hd s = CHR '' '' then tl s else s)"

definition board_hits :: "string list \<Rightarrow> board_id_key \<Rightarrow> string list" where
  "board_hits ls key = List.map (\<lambda>l. drop_one_space (drop (length (board_key_text key) + 1) l))
     (filter (prefix (board_key_text key @ '':'')) ls)"

definition board_field_of :: "string list \<Rightarrow> board_field" where
  "board_field_of hits = (case hits of
     [] \<Rightarrow> BoardMissing
   | [h] \<Rightarrow> if length h \<le> BOARD_ID_MAX \<and> board_token h then BoardValue h else BoardMalformed h
   | _ \<Rightarrow> BoardMalformed (js_join '' | '' hits))"

fun is_board_value :: "board_field \<Rightarrow> bool" where
  "is_board_value (BoardValue t) = True"
| "is_board_value BoardMissing = False"
| "is_board_value (BoardMalformed r) = False"

fun distrust :: "board_field \<Rightarrow> board_field" where
  "distrust (BoardValue t) = BoardMalformed t"
| "distrust BoardMissing = BoardMissing"
| "distrust (BoardMalformed r) = BoardMalformed r"

definition parse_board_identity :: "string \<Rightarrow> board_id_key \<Rightarrow> board_field" where
  "parse_board_identity reply =
     (let ls = butlast (split_crlf reply); out = (\<lambda>k. board_field_of (board_hits ls k)) in
      if list_all (\<lambda>k. is_board_value (out k)) BOARD_ID_KEYS then out else (\<lambda>k. distrust (out k)))"

definition board_identity_complete :: "(board_id_key \<Rightarrow> board_field) \<Rightarrow> bool" where
  "board_identity_complete ident \<longleftrightarrow> list_all (\<lambda>k. is_board_value (ident k)) BOARD_ID_KEYS"

fun board_id_field_text :: "board_field option \<Rightarrow> string" where
  "board_id_field_text None = ''unknown''"
| "board_id_field_text (Some BoardMissing) = ''unknown''"
| "board_id_field_text (Some (BoardValue t)) = t"
| "board_id_field_text (Some (BoardMalformed r)) = ''unknown ('' @ r @ '')''"

subsection \<open>The properties\<close>

lemma split_crlf_nonempty [simp]: "split_crlf s \<noteq> []"
  by (induction s rule: split_crlf.induct) auto

lemma butlast_add_head: "ls \<noteq> [] \<Longrightarrow> butlast (add_head c ls) = (if tl ls = [] then [] else add_head c (butlast ls))"
  by (cases ls) auto

text \<open>The complete lines of a reply stay its complete lines when more arrives.\<close>

lemma complete_lines_prefix: "prefix (butlast (split_crlf p)) (butlast (split_crlf (p @ r)))"
proof (induction p rule: split_crlf.induct)
  case (3 c d cs)
  show ?case
  proof (cases "c = CR \<and> d = LF")
    case True
    then show ?thesis using 3 by simp
  next
    case False
    have "split_crlf ((c # d # cs) @ r) = add_head c (split_crlf ((d # cs) @ r))" using False by auto
    then have w: "butlast (split_crlf ((c # d # cs) @ r)) =
        (if tl (split_crlf ((d # cs) @ r)) = [] then [] else add_head c (butlast (split_crlf ((d # cs) @ r))))"
      by (simp only: butlast_add_head [OF split_crlf_nonempty])
    have p: "butlast (split_crlf (c # d # cs)) =
        (if tl (split_crlf (d # cs)) = [] then [] else add_head c (butlast (split_crlf (d # cs))))"
      using False by (auto simp: butlast_add_head)
    obtain x xs where x: "split_crlf (d # cs) = x # xs" by (cases "split_crlf (d # cs)") auto
    obtain y ys where y: "split_crlf ((d # cs) @ r) = y # ys" by (cases "split_crlf ((d # cs) @ r)") auto
    show ?thesis
      using 3(2) False unfolding w p x y by (cases xs; cases ys) auto
  qed
qed simp_all

lemma board_hits_prefix: "prefix ls ms \<Longrightarrow> prefix (board_hits ls k) (board_hits ms k)"
  by (auto simp: board_hits_def prefix_def)

lemma board_value_single:
  "is_board_value (board_field_of hits) \<Longrightarrow> \<exists>h. hits = [h] \<and> board_field_of hits = BoardValue h \<and> board_token h \<and> length h \<le> BOARD_ID_MAX"
  by (auto simp: board_field_of_def split: list.splits if_splits)

lemma distrust_value: "\<not> is_board_value (distrust f)"
  by (cases f) auto

lemma board_key_in: "k \<in> set BOARD_ID_KEYS"
  by (cases k) (simp_all add: BOARD_ID_KEYS_def)

lemma board_trusted:
  assumes "is_board_value (parse_board_identity reply k)"
  shows "parse_board_identity reply = (\<lambda>k. board_field_of (board_hits (butlast (split_crlf reply)) k))"
    and "\<And>k. is_board_value (board_field_of (board_hits (butlast (split_crlf reply)) k))"
  using assms board_key_in by (auto simp: parse_board_identity_def Let_def list_all_iff distrust_value split: if_splits)

text \<open>The identity of a board is trusted as a whole or not at all, and a reply that was cut short never gives
  another identity: when any key is a trusted value of a part of the reply and of the whole reply, the
  two identities agree on every key, each trusted value is a token of at most 48 characters, and it stands on a
  complete line of the part.\<close>
theorem board_identity_cut:
  assumes "is_board_value (parse_board_identity part k)" and "is_board_value (parse_board_identity (part @ rest) k')"
  shows "parse_board_identity part = parse_board_identity (part @ rest)
    \<and> board_identity_complete (parse_board_identity part)
    \<and> (\<exists>t. parse_board_identity part j = BoardValue t \<and> board_token t \<and> length t \<le> 48
         \<and> list_ex (\<lambda>l. l = board_key_text j @ '':'' @ t \<or> l = board_key_text j @ '': '' @ t) (butlast (split_crlf part)))"
proof -
  note p = board_trusted [OF assms(1)] and w = board_trusted [OF assms(2)]
  have same: "board_hits (butlast (split_crlf part)) i = board_hits (butlast (split_crlf (part @ rest))) i" for i
  proof -
    obtain a where a: "board_hits (butlast (split_crlf part)) i = [a]" using board_value_single [OF p(2)] by blast
    obtain b where b: "board_hits (butlast (split_crlf (part @ rest))) i = [b]" using board_value_single [OF w(2)] by blast
    from board_hits_prefix [OF complete_lines_prefix, of part i rest] show ?thesis unfolding a b by simp
  qed
  obtain t where t: "board_hits (butlast (split_crlf part)) j = [t]" "board_token t" "length t \<le> 48"
    "board_field_of (board_hits (butlast (split_crlf part)) j) = BoardValue t"
    using board_value_single [OF p(2), of j] by (auto simp: BOARD_ID_MAX_def)
  then have "t \<in> set (board_hits (butlast (split_crlf part)) j)" by simp
  then obtain l where l: "l \<in> set (butlast (split_crlf part))" "prefix (board_key_text j @ '':'') l"
    "t = drop_one_space (drop (length (board_key_text j) + 1) l)"
    by (auto simp: board_hits_def)
  then obtain r where r: "l = board_key_text j @ '':'' @ r" by (auto simp: prefix_def)
  then have "l = board_key_text j @ '':'' @ t \<or> l = board_key_text j @ '': '' @ t"
    using l(3) by (cases r) (auto simp: drop_one_space_def split: if_splits)
  then have "list_ex (\<lambda>l. l = board_key_text j @ '':'' @ t \<or> l = board_key_text j @ '': '' @ t) (butlast (split_crlf part))"
    using l(1) by (auto simp: list_ex_iff)
  moreover have "parse_board_identity part = parse_board_identity (part @ rest)" unfolding p(1) w(1) same ..
  moreover have "board_identity_complete (parse_board_identity part)"
    unfolding board_identity_complete_def p(1) list_all_iff using p(2) by blast
  moreover have "parse_board_identity part j = BoardValue t" unfolding p(1) by (rule t(4))
  ultimately show ?thesis using t by blast
qed

definition kakute_reply :: string where
  "kakute_reply = crlf_text [''BobFlight 0.2.0'', ''board_id: kakute_f7_hdv'', ''board_target: stm32f745'', ''board_mcu: stm32f745'']"

theorem board_identity_cut_witness:
  "parse_board_identity kakute_reply = parse_board_identity (kakute_reply @ ''rea'')"
proof -
  have "is_board_value (parse_board_identity kakute_reply BoardId)"
    and "is_board_value (parse_board_identity (kakute_reply @ ''rea'') BoardId)" by code_simp+
  from board_identity_cut [OF this] show ?thesis by (rule conjunct1)
qed

lemma canonical_upto_Some: "canonical_upto mx x = Some v \<Longrightarrow> x = Some v \<and> canonical20 v \<and> dec_num v \<le> mx"
  by (auto simp: canonical_upto_def split: option.splits if_splits)

lemma loop_read_Some:
  "loop_read st k parse allow = (Some d, x) \<Longrightarrow> \<exists>v. once st k = Some v \<and> parse v = Some d \<and> x = StValue"
  by (auto simp: loop_read_def once_def split: option.splits if_splits)

definition loop_sent :: "string \<Rightarrow> string \<Rightarrow> string list" where
  "loop_sent raw k = occurrences (status_line ''loop_'' LOOP_STATUS_KEYS) (split_nl raw) k"

lemma once_sent:
  "once (scan_report (status_line ''loop_'' LOOP_STATUS_KEYS) (split_nl raw)) k = Some v \<Longrightarrow> loop_sent raw k = [v]"
  by (auto simp: once_scan loop_sent_def split: list.splits)

lemma loop_read_sent:
  "fst (loop_read (scan_report (status_line ''loop_'' LOOP_STATUS_KEYS) (split_nl raw)) k parse allow) = Some d \<Longrightarrow>
   \<exists>v. loop_sent raw k = [v] \<and> parse v = Some d"
  by (cases "loop_read (scan_report (status_line ''loop_'' LOOP_STATUS_KEYS) (split_nl raw)) k parse allow")
     (auto dest!: loop_read_Some once_sent)

text \<open>A loop figure that is shown is a figure the controller sent: its key stands on exactly one line of the status
  reply, its digits are canonical and unchanged, and it fits the firmware's counter: 32 bits for the target (which is
  not 0) and the measured rate, 64 bits for the overruns.\<close>
theorem loop_status_shown:
  "(case overruns (parse_loop_status raw) of Some v \<Rightarrow> loop_sent raw ''loop_overruns'' = [v] \<and> canonical20 v \<and> dec_num v < 2 ^ 64 | None \<Rightarrow> True)
   \<and> (case actual_hz (parse_loop_status raw) of Some v \<Rightarrow> loop_sent raw ''loop_actual_hz'' = [v] \<and> canonical20 v \<and> dec_num v < 2 ^ 32 | None \<Rightarrow> True)
   \<and> (case target_hz (parse_loop_status raw) of Some v \<Rightarrow> loop_sent raw ''loop_target_hz'' = [v] \<and> canonical20 v \<and> v \<noteq> ''0'' \<and> dec_num v < 2 ^ 32 | None \<Rightarrow> True)"
proof -
  let ?st = "scan_report (status_line ''loop_'' LOOP_STATUS_KEYS) (split_nl raw)"
  have o: "overruns (parse_loop_status raw) = fst (loop_read ?st ''loop_overruns'' (\<lambda>v. parse_uint64 (Some v)) False)"
    and a: "actual_hz (parse_loop_status raw) = fst (loop_read ?st ''loop_actual_hz'' (\<lambda>v. parse_uint32 (Some v)) True)"
    and t: "target_hz (parse_loop_status raw) = fst (loop_read ?st ''loop_target_hz'' target_digits False)"
    by (simp_all add: parse_loop_status_def Let_def split: prod.splits)
  have 1: "loop_sent raw ''loop_overruns'' = [v] \<and> canonical20 v \<and> dec_num v < 2 ^ 64" if "overruns (parse_loop_status raw) = Some v" for v
    using that unfolding o by (auto dest!: loop_read_sent canonical_upto_Some simp: parse_uint64_def UINT64_MAX_def)
  have 2: "loop_sent raw ''loop_actual_hz'' = [v] \<and> canonical20 v \<and> dec_num v < 2 ^ 32" if "actual_hz (parse_loop_status raw) = Some v" for v
    using that unfolding a by (auto dest!: loop_read_sent canonical_upto_Some simp: parse_uint32_def UINT32_MAX_def)
  have 3: "loop_sent raw ''loop_target_hz'' = [v] \<and> canonical20 v \<and> v \<noteq> ''0'' \<and> dec_num v < 2 ^ 32" if "target_hz (parse_loop_status raw) = Some v" for v
    using that unfolding t
    by (auto dest!: loop_read_sent canonical_upto_Some simp: target_digits_def Let_def parse_uint32_def UINT32_MAX_def split: if_splits)
  show ?thesis using 1 2 3 by (auto split: option.splits)
qed

subsection \<open>The simulated version replies: boardIdMockVersion\<close>

datatype board_scenario = OldFirmware | IdMatch | UnknownId | BoardMismatch | McuMismatch | IdMalformed

definition mock_version_reply :: "string \<Rightarrow> string \<Rightarrow> string \<Rightarrow> string" where
  "mock_version_reply a t m = crlf_text [''BobFlight 0.2.0-prototype-flightdev1-bl1-calstore2-piddiag2-sdprobe2-bbl2-sdread1'',
     ''board_id: '' @ a, ''board_target: '' @ t, ''board_mcu: '' @ m]"

fun board_id_mock_version :: "board_scenario \<Rightarrow> string" where
  "board_id_mock_version OldFirmware = crlf_text [''BobFlight 0.2.0-prototype-flightdev1-bl1-calstore2-piddiag2-sdprobe2-bbl2-sdread1'']"
| "board_id_mock_version IdMatch = mock_version_reply ''kakute_f7_hdv'' ''stm32f745'' ''stm32f745''"
| "board_id_mock_version UnknownId = mock_version_reply ''acme_f7_prototype'' ''stm32f745'' ''stm32f745''"
| "board_id_mock_version BoardMismatch = mock_version_reply ''matek_f722_px'' ''stm32f722'' ''stm32f722''"
| "board_id_mock_version McuMismatch = mock_version_reply ''kakute_f7_hdv'' ''stm32f722'' ''stm32f722''"
| "board_id_mock_version IdMalformed = mock_version_reply ''Kakute F7 HDV!'' ''stm32f745'' ''STM32F745''"

end
