(* ===== verification/Page_Calls.thy ===== *)
theory Page_Calls
  imports Host_Link Loop_Replies
begin

section \<open>How a page calls the controller\<close>

text \<open>
  The actions of the settings pages (ui/src/filters, ui/src/motors/motorDirection.ts, ui/src/setup) share one shape: lines go out one after
  the other, a refusal of the busy gate is tried again a bounded number of times, and an abort signal ends the retries.
  What happens outside is a list of moments: every \<open>await\<close> takes the next, which holds how the call ended and whether the
  signal is aborted from then on. A call for which no moment is left is still waiting. The log holds every call and answer.
\<close>

record call_moment =
  cm_answer :: "link_error + string"
  cm_aborted :: bool

datatype call_event = Asked string | Answered string "link_error + string"

record calls =
  cl_moments :: "call_moment list"
  cl_aborted :: bool
  cl_log :: "call_event list"

datatype call_exn = CallWaiting | CallCancelled | CallError link_error

type_synonym 'a call_act = "(calls, call_exn, 'a) act"

definition new_calls :: "call_moment list \<Rightarrow> calls" where
  "new_calls ms = \<lparr>cl_moments = ms, cl_aborted = False, cl_log = []\<rparr>"

definition next_moment :: "call_moment call_act" where
  "next_moment s = (case cl_moments s of
     [] \<Rightarrow> (Inl CallWaiting, s)
   | m # ms \<Rightarrow> (Inr m, s\<lparr>cl_moments := ms, cl_aborted := (cl_aborted s \<or> cm_aborted m)\<rparr>))"

definition log_call :: "call_event \<Rightarrow> unit call_act" where
  "log_call e = act_mod (\<lambda>s. s\<lparr>cl_log := cl_log s @ [e]\<rparr>)"

text \<open>\<open>await host.sendCommand(line)\<close>, and \<open>getSetting\<close> and \<open>setSetting\<close>, whose answer is the value they return.\<close>

definition host_call :: "string \<Rightarrow> string call_act" where
  "host_call line =
     act_then (log_call (Asked line))
      (act_bind next_moment (\<lambda>m.
       act_then (log_call (Answered line (cm_answer m)))
        (case cm_answer m of Inl e \<Rightarrow> act_throw (CallError e) | Inr x \<Rightarrow> act_ret x)))"

definition pause :: "unit call_act" where
  "pause = act_bind next_moment (\<lambda>m. act_ret ())"

text \<open>\<open>gated\<close> of rpmFilter.ts and motorDirection.ts: the number is the tries left.\<close>

definition GATE_ATTEMPTS :: nat where "GATE_ATTEMPTS = 30"

fun gated :: "nat \<Rightarrow> string \<Rightarrow> string call_act" where
  "gated 0 line s = (Inl CallCancelled, s)"
| "gated (Suc n) line s =
     (if cl_aborted s then (Inl CallCancelled, s)
      else case host_call line s of
        (Inl (CallError e), t) \<Rightarrow>
          (if \<not> busy_error e \<or> n = 0 then (Inl (CallError e), t)
           else case pause t of (Inl x, u) \<Rightarrow> (Inl x, u) | (Inr _, u) \<Rightarrow> gated n line u)
      | (r, t) \<Rightarrow> (r, t))"

text \<open>A \<open>try\<close> around a call: \<open>CallWaiting\<close> is no exception of the program, and the cancelled error is passed on.\<close>

definition attempt :: "string call_act \<Rightarrow> (link_error + string) call_act" where
  "attempt m s = (case m s of
     (Inl (CallError e), t) \<Rightarrow> (Inr (Inl e), t)
   | (Inl x, t) \<Rightarrow> (Inl x, t)
   | (Inr v, t) \<Rightarrow> (Inr (Inr v), t))"

subsection \<open>What a call adds to the log\<close>

text \<open>The answers that the log holds for a line; a busy refusal is one the controller never saw.\<close>

definition answers_for :: "string \<Rightarrow> call_event list \<Rightarrow> (link_error + string) list" where
  "answers_for line w = concat (List.map (\<lambda>e. case e of Answered l a \<Rightarrow> if l = line then [a] else [] | _ \<Rightarrow> []) w)"

definition busy_answer :: "link_error + string \<Rightarrow> bool" where
  "busy_answer a \<longleftrightarrow> (case a of Inl e \<Rightarrow> busy_error e | Inr x \<Rightarrow> False)"

fun event_of :: "call_event \<Rightarrow> string" where
  "event_of (Asked l) = l"
| "event_of (Answered l a) = l"

text \<open>
  \<open>retried n line w\<close>: the log of a gated call, at most \<open>n\<close> times the line, each but the last answered with a busy refusal.
\<close>

fun retried :: "nat \<Rightarrow> string \<Rightarrow> call_event list \<Rightarrow> bool" where
  "retried n line [] \<longleftrightarrow> True"
| "retried n line [Asked l] \<longleftrightarrow> 0 < n \<and> l = line"
| "retried n line [Asked l, Answered k a] \<longleftrightarrow> 0 < n \<and> l = line \<and> k = line"
| "retried n line (Asked l # Answered k a # e # w) \<longleftrightarrow> 0 < n \<and> l = line \<and> k = line \<and> busy_answer a \<and> retried (n - 1) line (e # w)"
| "retried n line (e # w) \<longleftrightarrow> False"

lemma retried_more: "0 < n \<Longrightarrow> busy_answer a \<Longrightarrow> retried (n - 1) line w \<Longrightarrow> retried n line (Asked line # Answered line a # w)"
  by (cases w) auto

lemma retried_once: "retried n line w \<Longrightarrow> length (filter (\<lambda>a. \<not> busy_answer a) (answers_for line w)) \<le> 1"
  by (induction n line w rule: retried.induct) (auto simp: answers_for_def)

lemma retried_lines: "retried n line w \<Longrightarrow> list_all (\<lambda>e. event_of e = line) w \<and> length w \<le> 2 * n"
  by (induction n line w rule: retried.induct) (auto split: nat_diff_split_asm)

lemma host_call_log:
  assumes "host_call line s = (r, t)"
  shows "(r = Inl CallWaiting \<and> cl_log t = cl_log s @ [Asked line] \<and> cl_moments t = [])
    \<or> (\<exists>a. cl_log t = cl_log s @ [Asked line, Answered line a] \<and> r = (case a of Inl e \<Rightarrow> Inl (CallError e) | Inr x \<Rightarrow> Inr x))"
  using assms by (auto simp: host_call_def log_call_def next_moment_def act_then_def act_bind_def act_mod_def split: list.splits sum.splits)

lemma pause_log: "pause s = (r, t) \<Longrightarrow> cl_log t = cl_log s"
  by (auto simp: pause_def next_moment_def act_bind_def split: list.splits)

text \<open>The result of a gated call is the last answer in its log.\<close>

lemma gated_log:
  "gated n line s = (r, t) \<Longrightarrow> \<exists>w. cl_log t = cl_log s @ w \<and> retried n line w
     \<and> (case r of
          Inr x \<Rightarrow> w \<noteq> [] \<and> last w = Answered line (Inr x)
        | Inl (CallError e) \<Rightarrow> w \<noteq> [] \<and> last w = Answered line (Inl e)
        | Inl _ \<Rightarrow> list_all busy_answer (answers_for line w))"
proof (induction n line s arbitrary: r t rule: gated.induct)
  case (1 line s)
  then show ?case by (auto simp: answers_for_def)
next
  case (2 n line s)
  show ?case
  proof (cases "cl_aborted s")
    case True
    then show ?thesis using 2(2) by (auto simp: answers_for_def)
  next
    case False
    obtain q u where c: "host_call line s = (q, u)" by fastforce
    from host_call_log [OF c] show ?thesis
    proof (elim disjE conjE exE)
      assume "q = Inl CallWaiting" "cl_log u = cl_log s @ [Asked line]"
      then show ?thesis using 2(2) c False by (auto simp: answers_for_def)
    next
      fix a assume a: "cl_log u = cl_log s @ [Asked line, Answered line a]" "q = (case a of Inl e \<Rightarrow> Inl (CallError e) | Inr x \<Rightarrow> Inr x)"
      show ?thesis
      proof (cases a)
        case (Inr x)
        then show ?thesis using 2(2) c False a by auto
      next
        case (Inl e)
        show ?thesis
        proof (cases "\<not> busy_error e \<or> n = 0")
          case True
          then show ?thesis using 2(2) c False a Inl by auto
        next
          case busy: False
          obtain p v where p: "pause u = (p, v)" by fastforce
          note lv = pause_log [OF p]
          show ?thesis
          proof (cases p)
            case (Inl x)
            then have rt: "r = Inl x" "t = v" using 2(2) c False a \<open>a = Inl e\<close> busy p by auto
            have "x = CallWaiting" using p Inl by (auto simp: pause_def next_moment_def act_bind_def split: list.splits)
            then show ?thesis using rt lv a busy \<open>a = Inl e\<close> by (auto simp: answers_for_def busy_answer_def)
          next
            case (Inr x)
            have g: "gated n line v = (r, t)" using 2(2) c False a \<open>a = Inl e\<close> busy p Inr by auto
            obtain w where w: "cl_log t = cl_log v @ w" "retried n line w"
              "case r of Inr x \<Rightarrow> w \<noteq> [] \<and> last w = Answered line (Inr x)
                | Inl (CallError e) \<Rightarrow> w \<noteq> [] \<and> last w = Answered line (Inl e)
                | Inl _ \<Rightarrow> list_all busy_answer (answers_for line w)"
              using 2(1) [OF False c [symmetric] _ refl busy p [symmetric] Inr g] a \<open>a = Inl e\<close> by auto
            let ?w = "Asked line # Answered line a # w"
            have "retried (Suc n) line ?w" using w(2) busy \<open>a = Inl e\<close> by (intro retried_more) (auto simp: busy_answer_def)
            moreover have "cl_log t = cl_log s @ ?w" using w(1) lv a(1) by simp
            ultimately show ?thesis using w(3) busy \<open>a = Inl e\<close>
              by (intro exI [of _ ?w]) (auto simp: answers_for_def busy_answer_def split: sum.splits call_exn.splits)
          qed
        qed
      qed
    qed
  qed
qed

end
