(* ===== verification/Board_Check.thy ===== *)
theory Board_Check
  imports Page_Calls Mcu_Gate
begin

section \<open>Which board, which file: boardIdentity.ts, firmwareValidation.ts, intelHex.ts, types.ts, catalog.ts\<close>

text \<open>
  What the flasher page checks before it hands a file to the flasher: the boards it knows (the generated catalog, as far
  as these files read it), the identity the controller reports, the gate over both, and the rules for the file. Message
  texts are constructors with the values they print.
\<close>

subsection \<open>The catalog\<close>

record mcu_entry =
  me_id :: string
  me_part :: string
  me_implemented :: bool

record board_entry =
  be_id :: string
  be_label :: string
  be_mcu :: string
  be_support :: string
  be_motor_output :: bool

record profile_entry =
  pe_id :: string
  pe_label :: string
  pe_mcu :: string
  pe_mcu_display :: string
  pe_support :: string
  pe_custom :: "(string \<times> nat \<times> nat) option"

record target_catalog =
  ct_mcus :: "mcu_entry list"
  ct_boards :: "board_entry list"
  ct_profiles :: "profile_entry list"

definition catalog :: target_catalog where
  "catalog = \<lparr>
     ct_mcus = [\<lparr>me_id = ''stm32f405'', me_part = ''STM32F405'', me_implemented = False\<rparr>,
       \<lparr>me_id = ''stm32f411'', me_part = ''STM32F411'', me_implemented = False\<rparr>,
       \<lparr>me_id = ''stm32f722'', me_part = ''STM32F722'', me_implemented = True\<rparr>,
       \<lparr>me_id = ''stm32f745'', me_part = ''STM32F745'', me_implemented = True\<rparr>,
       \<lparr>me_id = ''stm32h743'', me_part = ''STM32H743'', me_implemented = False\<rparr>],
     ct_boards = [\<lparr>be_id = ''dummy'', be_label = ''Host simulation'', be_mcu = ''stm32f722'', be_support = ''host-only'', be_motor_output = False\<rparr>,
       \<lparr>be_id = ''kakute_f7_hdv'', be_label = ''Kakute F7 HDV'', be_mcu = ''stm32f745'', be_support = ''development'', be_motor_output = True\<rparr>,
       \<lparr>be_id = ''matek_f722_px'', be_label = ''Matek F722-PX'', be_mcu = ''stm32f722'', be_support = ''development'', be_motor_output = True\<rparr>,
       \<lparr>be_id = ''tmotor_f7_v2'', be_label = ''T-Motor F7 V2'', be_mcu = ''stm32f722'', be_support = ''sensor-only'', be_motor_output = False\<rparr>],
     ct_profiles = [\<lparr>pe_id = ''mltempf4'', pe_label = ''Motolab Tempest F4 / MLTEMPF4 USB diagnostic'', pe_mcu = ''stm32f405'',
         pe_mcu_display = ''STM32F405xG'', pe_support = ''diagnostic only'', pe_custom = None\<rparr>,
       \<lparr>pe_id = ''custom_f405xg_usb'', pe_label = ''Custom / unknown board (basic bring-up)'', pe_mcu = ''stm32f405'',
         pe_mcu_display = ''STM32F405xG'', pe_support = ''USB-only reference profile'', pe_custom = Some (''STM32F405'', 1024, 8000000)\<rparr>]\<rparr>"

subsection \<open>types.ts\<close>

definition drop_stm32 :: "string \<Rightarrow> string" where
  "drop_stm32 s = (if prefix ''STM32'' s then drop 5 s else s)"

definition normalize_mcu :: "string option \<Rightarrow> mcu option" where
  "normalize_mcu s = (case s of None \<Rightarrow> None | Some t \<Rightarrow> if t = [] then None else as_mcu (drop_stm32 (js_upper_ascii t)))"

fun mcu_text :: "mcu \<Rightarrow> string" where
  "mcu_text F405 = ''F405''"
| "mcu_text F722 = ''F722''"
| "mcu_text F745 = ''F745''"

definition mcu_by_id :: "target_catalog \<Rightarrow> string \<Rightarrow> mcu_entry option" where
  "mcu_by_id cat i = find (\<lambda>m. me_id m = i) (ct_mcus cat)"

definition mcu_for_board :: "target_catalog \<Rightarrow> string \<Rightarrow> mcu_entry option" where
  "mcu_for_board cat board = (case find (\<lambda>b. be_id b = board) (ct_boards cat) of None \<Rightarrow> None | Some b \<Rightarrow> mcu_by_id cat (be_mcu b))"

record board_option =
  bo_id :: string
  bo_label :: string
  bo_mcu :: mcu
  bo_display :: string
  bo_support :: string
  bo_motor_output :: bool
  bo_diagnostic :: bool

definition board_choice :: "target_catalog \<Rightarrow> board_entry \<Rightarrow> board_option list" where
  "board_choice cat b =
     (case mcu_for_board cat (be_id b) of
        None \<Rightarrow> []
      | Some t \<Rightarrow> if be_support b = ''host-only'' \<or> \<not> me_implemented t then []
          else (case normalize_mcu (Some (me_part t)) of
            None \<Rightarrow> []
          | Some m \<Rightarrow> [\<lparr>bo_id = be_id b, bo_label = be_label b, bo_mcu = m, bo_display = me_part t, bo_support = be_support b,
                bo_motor_output = be_motor_output b, bo_diagnostic = False\<rparr>]))"

definition profile_choice :: "target_catalog \<Rightarrow> profile_entry \<Rightarrow> board_option list" where
  "profile_choice cat p =
     (case normalize_mcu (map_option me_part (mcu_by_id cat (pe_mcu p))) of
        None \<Rightarrow> []
      | Some m \<Rightarrow> [\<lparr>bo_id = pe_id p, bo_label = pe_label p, bo_mcu = m, bo_display = pe_mcu_display p, bo_support = pe_support p,
            bo_motor_output = False, bo_diagnostic = True\<rparr>])"

definition board_options :: "target_catalog \<Rightarrow> board_option list" where
  "board_options cat = concat (List.map (board_choice cat) (ct_boards cat)) @ concat (List.map (profile_choice cat) (ct_profiles cat))"

definition BOARD_OPTIONS :: "board_option list" where
  "BOARD_OPTIONS = board_options catalog"

definition board_named :: "board_option list \<Rightarrow> string \<Rightarrow> board_option option" where
  "board_named opts i = find (\<lambda>b. bo_id b = i) opts"

definition to_ui_hex :: "parsed_hex \<Rightarrow> string option \<Rightarrow> parsed_hex" where
  "to_ui_hex p hint = (case hint of None \<Rightarrow> p | Some h \<Rightarrow> p\<lparr>mcu_tag := Some h\<rparr>)"

subsection \<open>intelHex.ts: hints from a file name\<close>

definition first_word :: "string \<Rightarrow> string" where
  "first_word s = takeWhile (\<lambda>c. c \<noteq> CHR ''_'' \<and> c \<noteq> CHR ''-'') s"

definition board_rows :: "target_catalog \<Rightarrow> (string \<times> mcu option) list" where
  "board_rows cat = List.map (\<lambda>b. (first_word (be_id b), normalize_mcu (map_option me_part (mcu_by_id cat (be_mcu b)))))
     (filter (\<lambda>b. be_support b \<noteq> ''host-only'') (ct_boards cat))"

definition board_name_hints :: "target_catalog \<Rightarrow> (string \<times> mcu) list" where
  "board_name_hints cat =
     (let rs = board_rows cat in
      concat (List.map (\<lambda>(w, m). case m of None \<Rightarrow> []
        | Some x \<Rightarrow> if 4 \<le> length w \<and> length (filter (\<lambda>r. fst r = w) rs) = 1 then [(w, x)] else []) rs))"

text \<open>\<open>/(?:stm32)?([fh]\d{3})(?!\d)/i\<close>: the first such letter with exactly three digits, in capitals.\<close>

fun mcu_in_name :: "string \<Rightarrow> string option" where
  "mcu_in_name [] = None"
| "mcu_in_name (c # cs) =
     (if to_upper c \<in> {CHR ''F'', CHR ''H''} \<and> length (take 3 cs) = 3 \<and> list_all is_digit (take 3 cs)
         \<and> (case drop 3 cs of [] \<Rightarrow> True | d # _ \<Rightarrow> \<not> is_digit d)
      then Some (js_upper_ascii (c # take 3 cs)) else mcu_in_name cs)"

definition mcu_hint_from_filename :: "target_catalog \<Rightarrow> string \<Rightarrow> string option" where
  "mcu_hint_from_filename cat name =
     (case mcu_in_name name of
        Some h \<Rightarrow> Some h
      | None \<Rightarrow> map_option (\<lambda>(w, m). mcu_text m) (find (\<lambda>(w, m). js_includes w (js_lower_ascii name)) (board_name_hints cat)))"

definition parse_ui_hex :: "string \<Rightarrow> string option \<Rightarrow> hex_error + parsed_hex" where
  "parse_ui_hex txt hint = res_bind (parse_intel_hex txt) (\<lambda>p. Inr (to_ui_hex p hint))"

subsection \<open>boardIdentity.ts\<close>

text \<open>The keys are finite, so two identities can be compared.\<close>

instantiation board_id_key :: enum
begin

definition "enum_board_id_key = BOARD_ID_KEYS"
definition "enum_all_board_id_key P \<longleftrightarrow> P BoardId \<and> P BoardTarget \<and> P BoardMcu"
definition "enum_ex_board_id_key P \<longleftrightarrow> P BoardId \<or> P BoardTarget \<or> P BoardMcu"

instance
proof
  show UNIV: "(UNIV :: board_id_key set) = set enum_class.enum"
    using board_key_in by (auto simp: enum_board_id_key_def)
  show "distinct (enum_class.enum :: board_id_key list)"
    by (simp add: enum_board_id_key_def BOARD_ID_KEYS_def)
  show "enum_class.enum_all P \<longleftrightarrow> Ball UNIV P" for P :: "board_id_key \<Rightarrow> bool"
    unfolding UNIV by (simp add: enum_board_id_key_def enum_all_board_id_key_def BOARD_ID_KEYS_def)
  show "enum_class.enum_ex P \<longleftrightarrow> Bex UNIV P" for P :: "board_id_key \<Rightarrow> bool"
    unfolding UNIV by (simp add: enum_board_id_key_def enum_ex_board_id_key_def BOARD_ID_KEYS_def)
qed

end

datatype identity_read =
    IdentityIdle
  | IdentityRead "board_id_key \<Rightarrow> board_field"
  | IdentityBusy string
  | IdentityError string
  | IdentityStale string

definition identity_of :: "link_error + string \<Rightarrow> identity_read" where
  "identity_of a = (case a of
     Inr raw \<Rightarrow> IdentityRead (parse_board_identity raw)
   | Inl e \<Rightarrow> if busy_error e then IdentityBusy (error_text e) else IdentityError (error_text e))"

definition read_board_identity :: "identity_read call_act" where
  "read_board_identity = act_bind (attempt (gated GATE_ATTEMPTS ''version'')) (\<lambda>a. act_ret (identity_of a))"

datatype identity_note =
    NoteIdle | NoteBusy string | NoteError string | NoteStale string | NoteOlder | NoteIncomplete
  | NoteInconsistent string string | NoteUnknownBoard string | NoteCatalogMcu string string string

record identity_view =
  iv_board :: string
  iv_target :: string
  iv_mcu :: string
  iv_fc_board :: "string option"
  iv_fc_target :: "string option"
  iv_fc_mcu :: "string option"
  iv_preselect :: "string option"
  iv_can_retry :: bool
  iv_note :: "identity_note option"

definition blank_view :: identity_view where
  "blank_view = \<lparr>iv_board = ''unknown'', iv_target = ''unknown'', iv_mcu = ''unknown'', iv_fc_board = None, iv_fc_target = None,
     iv_fc_mcu = None, iv_preselect = None, iv_can_retry = False, iv_note = None\<rparr>"

definition keys_all_missing :: "(board_id_key \<Rightarrow> board_field) \<Rightarrow> bool" where
  "keys_all_missing ident \<longleftrightarrow> ident BoardId = BoardMissing \<and> ident BoardTarget = BoardMissing \<and> ident BoardMcu = BoardMissing"

definition catalog_mcu_token :: "string option \<Rightarrow> string option" where
  "catalog_mcu_token s = map_option (\<lambda>m. ''stm32'' @ js_lower_ascii (mcu_text m)) (normalize_mcu s)"

definition mcu_token :: "mcu \<Rightarrow> string option" where
  "mcu_token m = catalog_mcu_token (Some (mcu_text m))"

fun token_of :: "board_field \<Rightarrow> string" where
  "token_of (BoardValue t) = t"
| "token_of BoardMissing = []"
| "token_of (BoardMalformed r) = []"

definition board_note :: "board_option option \<Rightarrow> string \<Rightarrow> string \<Rightarrow> identity_note option" where
  "board_note entry board m = (case entry of
     None \<Rightarrow> Some (NoteUnknownBoard board)
   | Some b \<Rightarrow> if mcu_token (bo_mcu b) \<noteq> Some m then Some (NoteCatalogMcu board m (bo_display b)) else None)"

definition identity_shown :: "(board_id_key \<Rightarrow> board_field) \<Rightarrow> identity_view" where
  "identity_shown ident = blank_view\<lparr>iv_board := board_id_field_text (Some (ident BoardId)),
     iv_target := board_id_field_text (Some (ident BoardTarget)), iv_mcu := board_id_field_text (Some (ident BoardMcu))\<rparr>"

definition known_view :: "board_option list \<Rightarrow> (board_id_key \<Rightarrow> board_field) \<Rightarrow> identity_view" where
  "known_view opts ident =
     (let shown = identity_shown ident; board = token_of (ident BoardId); target = token_of (ident BoardTarget); m = token_of (ident BoardMcu) in
      if keys_all_missing ident then shown\<lparr>iv_can_retry := True, iv_note := Some NoteOlder\<rparr>
      else if \<not> board_identity_complete ident then shown\<lparr>iv_can_retry := True, iv_note := Some NoteIncomplete\<rparr>
      else if target \<noteq> m then shown\<lparr>iv_can_retry := True, iv_note := Some (NoteInconsistent target m)\<rparr>
      else (let entry = board_named opts board; txt = board_note entry board m in
        shown\<lparr>iv_fc_board := Some board, iv_fc_target := Some target, iv_fc_mcu := Some m,
          iv_preselect := (if entry \<noteq> None \<and> txt = None then Some board else None), iv_note := txt\<rparr>))"

fun identity_view_of :: "board_option list \<Rightarrow> identity_read \<Rightarrow> identity_view" where
  "identity_view_of opts IdentityIdle = blank_view\<lparr>iv_note := Some NoteIdle\<rparr>"
| "identity_view_of opts (IdentityBusy m) = blank_view\<lparr>iv_can_retry := True, iv_note := Some (NoteBusy m)\<rparr>"
| "identity_view_of opts (IdentityError m) = blank_view\<lparr>iv_can_retry := True, iv_note := Some (NoteError m)\<rparr>"
| "identity_view_of opts (IdentityStale m) = blank_view\<lparr>iv_note := Some (NoteStale m)\<rparr>"
| "identity_view_of opts (IdentityRead ident) = known_view opts ident"

datatype gate_reason =
    UnknownBoard string
  | FcMcuDiffers string string
  | FileMcuDiffers string string
  | BoardDiffers string string
  | ConfirmManually

record identity_gate =
  ig_blocked :: bool
  ig_needs_confirm :: bool
  ig_reasons :: "gate_reason list"

definition unknown_board_reasons :: "board_option list \<Rightarrow> identity_view \<Rightarrow> gate_reason list" where
  "unknown_board_reasons opts v = (case iv_fc_board v of
     Some i \<Rightarrow> if \<not> list_ex (\<lambda>b. bo_id b = i) opts then [UnknownBoard i] else []
   | None \<Rightarrow> [])"

definition differs_from :: "string option \<Rightarrow> string \<Rightarrow> string option \<Rightarrow> gate_reason list" where
  "differs_from wanted key v = (case v of Some x \<Rightarrow> if wanted \<noteq> Some x then [FcMcuDiffers key x] else [] | None \<Rightarrow> [])"

definition chip_reasons :: "board_option option \<Rightarrow> identity_view \<Rightarrow> gate_reason list" where
  "chip_reasons sel v = (case sel of
     None \<Rightarrow> []
   | Some b \<Rightarrow> differs_from (mcu_token (bo_mcu b)) ''board_mcu'' (iv_fc_mcu v) @ differs_from (mcu_token (bo_mcu b)) ''board_target'' (iv_fc_target v))"

definition file_reasons :: "string option \<Rightarrow> identity_view \<Rightarrow> gate_reason list" where
  "file_reasons file_mcu v = (case (iv_fc_mcu v, file_mcu) of
     (Some m, Some h) \<Rightarrow>
        if h \<noteq> [] \<and> catalog_mcu_token (Some h) \<noteq> None \<and> catalog_mcu_token (Some h) \<noteq> Some m then [FileMcuDiffers m h] else []
   | _ \<Rightarrow> [])"

definition board_reasons :: "board_option option \<Rightarrow> identity_view \<Rightarrow> gate_reason list" where
  "board_reasons sel v = (case (sel, iv_fc_board v) of
     (Some b, Some i) \<Rightarrow> if i \<noteq> bo_id b then [BoardDiffers i (bo_id b)] else []
   | _ \<Rightarrow> [])"

definition auto_matched :: "board_option option \<Rightarrow> identity_view \<Rightarrow> bool" where
  "auto_matched sel v = (case sel of
     None \<Rightarrow> False
   | Some b \<Rightarrow> iv_fc_board v = Some (bo_id b) \<and> iv_fc_mcu v \<noteq> None \<and> iv_fc_mcu v = mcu_token (bo_mcu b) \<and> iv_fc_target v = iv_fc_mcu v)"

definition identity_gate_of ::
  "board_option list \<Rightarrow> identity_view \<Rightarrow> board_option option \<Rightarrow> string option \<Rightarrow> bool \<Rightarrow> bool \<Rightarrow> identity_gate" where
  "identity_gate_of opts v sel file_mcu confirmed dfu =
     (let hard = unknown_board_reasons opts v @ chip_reasons sel v @ file_reasons file_mcu v @ board_reasons sel v;
          needs = (hard = [] \<and> sel \<noteq> None \<and> (dfu \<or> \<not> auto_matched sel v))
      in \<lparr>ig_blocked = (hard \<noteq> [] \<or> needs \<and> \<not> confirmed), ig_needs_confirm = needs,
          ig_reasons = hard @ (if needs \<and> \<not> confirmed then [ConfirmManually] else [])\<rparr>)"

subsection \<open>firmwareValidation.ts\<close>

datatype firmware_problem =
    SelectBoard | LoadFile | NotHex | NameNotF405 | NameOrdinary | DiagnosticFails gate_error | DiagnosticAsOrdinary
  | DiagnosticName | NameOtherBoard string string | HintOtherMcu mcu | NoVectors | OutsideWindow | VectorGap
  | WrongStack | WrongReset | WrongEntry

definition PROGRAM_END :: nat where "PROGRAM_END = 134742016"
definition BUILD_STACK :: nat where "BUILD_STACK = 536936448"

definition hex_name :: "string \<Rightarrow> bool" where
  "hex_name name \<longleftrightarrow> ends_with ''.hex'' (js_lower_ascii name)"

text \<open>The group of \<open>/^bobflight-([a-z0-9_]+)-main\.hex$/i\<close>.\<close>

definition canonical_board :: "string \<Rightarrow> string option" where
  "canonical_board name =
     (let l = js_lower_ascii name; mid = take (length name - 19) (drop 10 name) in
      if prefix ''bobflight-'' l \<and> ends_with ''-main.hex'' l \<and> 19 < length name \<and> list_all setting_char (js_lower_ascii mid)
      then Some mid else None)"

definition diagnostic_name :: "string \<Rightarrow> bool" where
  "diagnostic_name name \<longleftrightarrow> list_ex (\<lambda>w. js_includes w (js_lower_ascii name)) [''prove-reset'', ''blink'', ''diagnostic'']"

definition diagnostic_problem :: "parsed_hex \<Rightarrow> string \<Rightarrow> firmware_problem option" where
  "diagnostic_problem img name =
     (if mcu_in_name name \<notin> {None, Some ''F405''} then Some NameNotF405
      else if canonical_board name \<noteq> None then Some NameOrdinary
      else (case validate_f405_image img of Inl e \<Rightarrow> Some (DiagnosticFails e) | Inr u \<Rightarrow> None))"

definition other_mcu :: "mcu \<Rightarrow> string option \<Rightarrow> bool" where
  "other_mcu m t \<longleftrightarrow> (case t of None \<Rightarrow> False | Some x \<Rightarrow> x \<noteq> [] \<and> x \<noteq> mcu_text m)"

definition image_problem :: "parsed_hex \<Rightarrow> firmware_problem option" where
  "image_problem img =
     (let rs = regions img; v = image_bytes img in
      if base_address img \<noteq> DEFAULT_FLASH_BASE \<or> length v < 8 \<or> rs = [] then Some NoVectors
      else if list_ex (\<lambda>r. address r > MAX_SAFE_INTEGER \<or> region_end r > MAX_SAFE_INTEGER \<or> data r = []
                \<or> address r < DEFAULT_FLASH_BASE \<or> region_end r > PROGRAM_END) rs then Some OutsideWindow
      else if \<not> list_all (\<lambda>i. mapped rs (DEFAULT_FLASH_BASE + i)) [0..<8] then Some VectorGap
      else if u32le v 0 \<noteq> BUILD_STACK then Some WrongStack
      else if \<not> thumb_bit (u32le v 4) \<or> \<not> mapped rs (thumb_target (u32le v 4)) then Some WrongReset
      else if (case entry_address img of None \<Rightarrow> False | Some e \<Rightarrow> e > MAX_SAFE_INTEGER \<or> \<not> mapped rs (thumb_target e)) then Some WrongEntry
      else None)"

definition ordinary_problem :: "board_option \<Rightarrow> parsed_hex \<Rightarrow> string \<Rightarrow> firmware_problem option" where
  "ordinary_problem b img name =
     (let other = (case canonical_board name of None \<Rightarrow> None | Some w \<Rightarrow> if js_lower_ascii w \<noteq> bo_id b then Some w else None);
          tagged = map_option (\<lambda>t. drop_stm32 (js_upper_ascii t)) (mcu_tag img)
      in if has_f405_markers img then Some DiagnosticAsOrdinary
      else if diagnostic_name name then Some DiagnosticName
      else if other \<noteq> None then Some (NameOtherBoard (the other) (bo_id b))
      else if other_mcu (bo_mcu b) (mcu_in_name name) \<or> other_mcu (bo_mcu b) tagged then Some (HintOtherMcu (bo_mcu b))
      else image_problem img)"

definition validate_firmware :: "board_option list \<Rightarrow> parsed_hex option \<Rightarrow> string \<Rightarrow> string option \<Rightarrow> firmware_problem option" where
  "validate_firmware opts img board name =
     (case board_named opts board of
        None \<Rightarrow> Some SelectBoard
      | Some b \<Rightarrow>
          (case (img, name) of
             (Some p, Some n) \<Rightarrow>
               if n = [] then Some LoadFile
               else if \<not> hex_name n then Some NotHex
               else if bo_diagnostic b then diagnostic_problem p n else ordinary_problem b p n
           | _ \<Rightarrow> Some LoadFile))"
subsection \<open>The gate over identity, board and file\<close>

text \<open>The board id and the chip of an identity that is complete and consistent.\<close>

definition trusted_identity :: "identity_read \<Rightarrow> (string \<times> string) option" where
  "trusted_identity rd = (case rd of
     IdentityRead ident \<Rightarrow>
       if board_identity_complete ident \<and> token_of (ident BoardTarget) = token_of (ident BoardMcu)
       then Some (token_of (ident BoardId), token_of (ident BoardMcu)) else None
   | _ \<Rightarrow> None)"

lemma complete_not_missing: "board_identity_complete ident \<Longrightarrow> \<not> keys_all_missing ident"
  by (auto simp: board_identity_complete_def keys_all_missing_def BOARD_ID_KEYS_def)

lemma view_trusted:
  "(iv_fc_board v, iv_fc_target v, iv_fc_mcu v) =
     (case trusted_identity rd of None \<Rightarrow> (None, None, None) | Some (i, m) \<Rightarrow> (Some i, Some m, Some m))"
  if "v = identity_view_of opts rd"
proof (cases rd)
  case (IdentityRead ident)
  then show ?thesis using that complete_not_missing [of ident]
    by (auto simp: known_view_def identity_shown_def blank_view_def trusted_identity_def Let_def)
qed (use that in \<open>simp_all add: blank_view_def trusted_identity_def\<close>)

definition file_token :: "string option \<Rightarrow> string option" where
  "file_token h = (case h of None \<Rightarrow> None | Some t \<Rightarrow> if t = [] then None else catalog_mcu_token (Some t))"

text \<open>The exact verdict of the gate, for the property below and for the page.\<close>

lemma gate_verdict:
  "ig_blocked (identity_gate_of opts (identity_view_of opts rd) (Some b) file_mcu confirmed dfu) =
     (case trusted_identity rd of
        None \<Rightarrow> \<not> confirmed
      | Some (i, m) \<Rightarrow> i \<notin> set (List.map bo_id opts) \<or> i \<noteq> bo_id b \<or> mcu_token (bo_mcu b) \<noteq> Some m
          \<or> file_token file_mcu \<notin> {None, Some m} \<or> dfu \<and> \<not> confirmed)"
proof (cases "trusted_identity rd")
  case None
  then show ?thesis using view_trusted [OF refl, of opts rd]
    by (simp add: identity_gate_of_def Let_def unknown_board_reasons_def chip_reasons_def differs_from_def file_reasons_def board_reasons_def auto_matched_def)
next
  case (Some t)
  obtain i m where t: "t = (i, m)" by (cases t)
  let ?v = "identity_view_of opts rd"
  have v: "iv_fc_board ?v = Some i" "iv_fc_target ?v = Some m" "iv_fc_mcu ?v = Some m"
    using view_trusted [OF refl, of opts rd] Some t by simp_all
  have f: "file_reasons file_mcu ?v = [] \<longleftrightarrow> file_token file_mcu \<in> {None, Some m}"
    using v by (auto simp: file_reasons_def file_token_def split: option.splits)
  define known where "known \<longleftrightarrow> i \<in> set (List.map bo_id opts)"
  have u: "unknown_board_reasons opts ?v = [] \<longleftrightarrow> known"
    using v by (auto simp: unknown_board_reasons_def list_ex_iff known_def)
  have c: "chip_reasons (Some b) ?v = [] \<longleftrightarrow> mcu_token (bo_mcu b) = Some m"
    using v by (auto simp: chip_reasons_def differs_from_def)
  have w: "board_reasons (Some b) ?v = [] \<longleftrightarrow> i = bo_id b"
    using v by (auto simp: board_reasons_def)
  have a: "auto_matched (Some b) ?v \<longleftrightarrow> i = bo_id b \<and> mcu_token (bo_mcu b) = Some m"
    using v by (auto simp: auto_matched_def)
  show ?thesis unfolding Some t option.case prod.case known_def [symmetric] identity_gate_of_def Let_def identity_gate.simps
    by (cases "file_token file_mcu") (auto simp: u c w f a)
qed

text \<open>C26: For a board the user selected, the gate of the flasher page blocks exactly when it must: with a trusted identity of the
  controller, when that board is unknown, is another board than the selected one, has another chip than the selected board
  or than the firmware file names, or when the flash goes to a DFU device and the user did not confirm; without one, exactly
  when the user did not confirm. A confirmation never overrides a mismatch.\<close>
theorem identity_gate_blocks:
  "ig_blocked (identity_gate_of opts (identity_view_of opts rd) (Some b) file_mcu confirmed dfu) =
     (case trusted_identity rd of
        None \<Rightarrow> \<not> confirmed
      | Some (i, m) \<Rightarrow>
          if i \<in> set (List.map bo_id opts) \<and> i = bo_id b \<and> mcu_token (bo_mcu b) = Some m \<and> file_token file_mcu \<in> {None, Some m}
          then dfu \<and> \<not> confirmed else True)"
proof (cases "trusted_identity rd")
  case (Some t)
  then show ?thesis unfolding gate_verdict by (cases t) (simp only: option.case prod.case, argo)
qed (simp add: gate_verdict)

lemma preselect_known:
  "iv_preselect (identity_view_of opts rd) = Some i \<Longrightarrow>
   \<exists>b m. board_named opts i = Some b \<and> trusted_identity rd = Some (i, m) \<and> mcu_token (bo_mcu b) = Some m"
  by (cases rd)
    (auto simp: known_view_def identity_shown_def blank_view_def trusted_identity_def board_note_def Let_def split: if_splits option.splits)

lemma board_named_in: "board_named opts i = Some b \<Longrightarrow> b \<in> set opts \<and> bo_id b = i"
  by (auto simp: board_named_def find_Some_iff)

text \<open>What a preselected board needs from the user: nothing against the demo flasher, only the DFU confirmation otherwise.\<close>

lemma preselect_passes:
  assumes "iv_preselect (identity_view_of opts rd) = Some i" and "board_named opts i = Some b"
    and "file_token file_mcu \<in> {None, mcu_token (bo_mcu b)}"
  shows "ig_blocked (identity_gate_of opts (identity_view_of opts rd) (Some b) file_mcu confirmed dfu) = (dfu \<and> \<not> confirmed)"
  using preselect_known [OF assms(1)] board_named_in [OF assms(2)] assms(2,3)
  by (auto simp: gate_verdict)
subsection \<open>The check of the page and the check of the flasher\<close>

text \<open>The options \<open>onFlash\<close> of FlasherPage.tsx hands to the flasher for a board.\<close>

definition page_options :: "board_option \<Rightarrow> bool \<Rightarrow> flash_options" where
  "page_options b full_chip =
     \<lparr>erase_mode = (if full_chip then Some ''full-chip'' else None),
      image_profile = (if bo_diagnostic b then Some ''f405-usb-diagnostic'' else None), start_address = None,
      opt_verify = Some True, opt_leave = Some (\<not> bo_diagnostic b), expected_mcu = Some (mcu_text (bo_mcu b))\<rparr>"

lemma to_upper_idem [simp]: "to_upper (to_upper c) = to_upper c"
  by (auto simp: to_upper_def is_lower_def Let_def)

lemma upper_idem [simp]: "js_upper_ascii (js_upper_ascii s) = js_upper_ascii s"
  by (simp add: js_upper_ascii_def)

definition chip_name :: "string \<Rightarrow> bool" where
  "chip_name h \<longleftrightarrow> length h = 4 \<and> js_upper_ascii h = h \<and> hd h \<in> {CHR ''F'', CHR ''H''}"

lemma chip_name_plain: "chip_name h \<Longrightarrow> drop_stm32 (js_upper_ascii h) = h"
  by (cases h) (auto simp: chip_name_def drop_stm32_def prefix_def)

lemma mcu_in_name_chip: "mcu_in_name s = Some h \<Longrightarrow> chip_name h"
proof (induction s)
  case (Cons c cs)
  show ?case
  proof (cases "to_upper c \<in> {CHR ''F'', CHR ''H''} \<and> length (take 3 cs) = 3 \<and> list_all is_digit (take 3 cs)
         \<and> (case drop 3 cs of [] \<Rightarrow> True | d # _ \<Rightarrow> \<not> is_digit d)")
    case True
    then have h: "h = js_upper_ascii (c # take 3 cs)" using Cons.prems by simp
    have "length h = 4" "hd h = to_upper c" using True unfolding h by (simp_all add: js_upper_ascii_def)
    then show ?thesis using True by (simp add: chip_name_def h)
  next
    case False
    then have "mcu_in_name cs = Some h" using Cons.prems by (simp only: mcu_in_name.simps if_False)
    then show ?thesis by (rule Cons.IH)
  qed
qed simp

lemma mcu_text_chip: "chip_name (mcu_text m)" "as_mcu (mcu_text m) = Some m"
proof -
  have "list_all (\<lambda>m. chip_name (mcu_text m) \<and> as_mcu (mcu_text m) = Some m) [F405, F722, F745]" by code_simp
  then show "chip_name (mcu_text m)" "as_mcu (mcu_text m) = Some m" by (cases m; simp)+
qed

lemma hint_chip: "mcu_hint_from_filename cat name = Some h \<Longrightarrow> chip_name h"
  using mcu_in_name_chip mcu_text_chip(1) by (auto simp: mcu_hint_from_filename_def split: option.splits prod.splits)

lemma options_checked: "list_all (\<lambda>b. bo_diagnostic b = (bo_mcu b = F405)) BOARD_OPTIONS"
  by code_simp

text \<open>An image of the parser repeats the bytes of its regions.\<close>

lemma lookup_region:
  "sorted_wrt (\<lambda>r s. region_end r < address s) rs \<Longrightarrow> r \<in> set rs \<Longrightarrow> i < length (data r) \<Longrightarrow>
   region_lookup rs (address r + i) = Some (data r ! i)"
proof (induction rs)
  case (Cons x xs)
  show ?case
  proof (cases "r = x")
    case True
    then show ?thesis using Cons.prems(3) by (simp add: covers_def region_end_def)
  next
    case False
    then have "r \<in> set xs" using Cons.prems(2) by simp
    moreover from this have "\<not> covers x (address r + i)" using Cons.prems(1) by (auto simp: covers_def)
    ultimately show ?thesis using Cons by simp
  qed
qed simp

lemma layout_region:
  assumes "hex_layout_ok p" and "hex_content_ok p" and "r \<in> set (regions p)"
  shows "base_address p \<le> address r" "region_end r \<le> base_address p + length (image_bytes p)" "data r \<noteq> []"
    "i < length (data r) \<Longrightarrow> u8_at (image_bytes p) (address r - base_address p + i) = data r ! i"
proof -
  have sb: "sorted_wrt before (regions p)"
    using assms(1) by (auto simp: hex_layout_ok_def before_def elim!: sorted_wrt_mono_rel [rotated])
  note b = sorted_before_bounds [OF sb assms(3)]
  show 1: "base_address p \<le> address r" and 2: "region_end r \<le> base_address p + length (image_bytes p)" and "data r \<noteq> []"
    using b assms(1,3) by (auto simp: hex_layout_ok_def)
  assume i: "i < length (data r)"
  have j: "address r - base_address p + i < length (image_bytes p)" using 1 2 i by (simp add: region_end_def)
  have "region_lookup (regions p) (address r + i) = Some (data r ! i)"
    using lookup_region assms(1,3) i by (simp add: hex_layout_ok_def)
  moreover have "base_address p + (address r - base_address p + i) = address r + i" using 1 by simp
  ultimately show "u8_at (image_bytes p) (address r - base_address p + i) = data r ! i"
    using assms(2) j unfolding hex_content_ok_def u8_at_def by (metis option.simps(5))
qed
lemma full_scan_passes:
  assumes "hex_layout_ok p" and "hex_content_ok p" and "base_address p = DEFAULT_FLASH_BASE"
  shows "sorted_wrt (\<lambda>r s. region_end r < address s) rs \<Longrightarrow> set rs \<subseteq> set (regions p) \<Longrightarrow> rs \<noteq> [] \<longrightarrow> prev \<le> address (hd rs)
    \<Longrightarrow> \<forall>r \<in> set rs. region_end r \<le> MAX_SAFE_INTEGER \<and> region_end r \<le> DEFAULT_FLASH_BASE + MCU_FLASH_SIZE m
    \<Longrightarrow> \<exists>e. res_fold (full_erase_step m p) rs prev = Inr e"
proof (induction rs arbitrary: prev)
  case (Cons r rs)
  have r: "r \<in> set (regions p)" using Cons.prems(2) by simp
  note l = layout_region [OF assms(1,2) r, unfolded assms(3)]
  have "region_end r \<le> MAX_SAFE_INTEGER" using Cons.prems(4) by simp
  then have "\<not> MAX_SAFE_INTEGER < address r" using le_trans [OF address_le_end] by (simp add: not_less)
  then have "full_erase_step m p r prev = Inr (region_end r)"
    using l Cons.prems(3,4) by (auto simp: full_erase_step_def list_all_iff)
  moreover have "\<exists>e. res_fold (full_erase_step m p) rs (region_end r) = Inr e"
    using Cons.prems by (intro Cons.IH) (auto simp: less_imp_le)
  ultimately show ?case by simp
qed simp

lemma sorted_regions_kept:
  assumes "hex_layout_ok p"
  shows "sort_key address (regions p) = regions p"
proof -
  have "sorted_wrt (\<lambda>r s. address r \<le> address s) (regions p)"
  proof (rule sorted_wrt_mono_rel)
    show "sorted_wrt (\<lambda>r s. region_end r < address s) (regions p)" using assms by (simp add: hex_layout_ok_def)
  qed (auto simp: region_end_def)
  then have "sorted (List.map address (regions p))" by (simp add: sorted_wrt_map)
  then show ?thesis by (rule sort_key_id_if_sorted)
qed

lemma image_problem_None:
  assumes "image_problem p = None"
  shows "base_address p = DEFAULT_FLASH_BASE" "8 \<le> length (image_bytes p)" "regions p \<noteq> []"
    "\<forall>r \<in> set (regions p). region_end r \<le> MAX_SAFE_INTEGER \<and> DEFAULT_FLASH_BASE \<le> address r \<and> region_end r \<le> PROGRAM_END"
    "list_all (\<lambda>i. mapped (regions p) (DEFAULT_FLASH_BASE + i)) [0..<8]" "u32le (image_bytes p) 0 = BUILD_STACK"
    "thumb_bit (u32le (image_bytes p) 4)" "mapped (regions p) (thumb_target (u32le (image_bytes p) 4))"
    "\<not> (case entry_address p of None \<Rightarrow> False | Some e \<Rightarrow> e > MAX_SAFE_INTEGER \<or> \<not> mapped (regions p) (thumb_target e))"
  using assms by (auto simp: image_problem_def Let_def list_ex_iff not_less not_le split: if_split_asm)

lemma image_problem_full_erase:
  assumes "hex_layout_ok p" "hex_content_ok p" "image_problem p = None" "PROGRAM_END \<le> DEFAULT_FLASH_BASE + MCU_FLASH_SIZE m"
  shows "check_full_erase_image m p = Inr ()"
proof -
  note f = image_problem_None [OF assms(3)]
  have hdb: "address (hd (regions p)) = DEFAULT_FLASH_BASE" using assms(1) f(1) by (simp add: hex_layout_ok_def)
  have "\<exists>e. res_fold (full_erase_step m p) (regions p) DEFAULT_FLASH_BASE = Inr e"
    using assms(1,4) f(1,4) hdb by (intro full_scan_passes [OF assms(1,2)]) (auto simp: hex_layout_ok_def)
  moreover have "BUILD_STACK = F7_STACK" by (simp add: BUILD_STACK_def F7_STACK_def)
  ultimately show ?thesis using f
    by (auto simp: check_full_erase_image_def Let_def sorted_regions_kept [OF assms(1)])
qed

lemma image_end_within:
  assumes "\<forall>r \<in> set (regions p). region_end r \<le> e" "regions p \<noteq> []" "s \<le> e"
  shows "image_end s p \<le> e"
  using assms image_end_fold [of s "regions p" e] by (simp add: image_end_def)

text \<open>The two cases of a file that the page accepts.\<close>

lemma page_check_ordinary:
  assumes lay: "hex_layout_ok p" "hex_content_ok p" and tag: "case mcu_tag p of None \<Rightarrow> True | Some t \<Rightarrow> chip_name t"
    and b: "\<not> bo_diagnostic b" "bo_mcu b \<noteq> F405" and ok: "ordinary_problem b p name = None"
  shows "assert_mcu_gate p (page_options b full_chip) = Inr ()"
proof -
  let ?o = "page_options b full_chip" and ?m = "bo_mcu b"
  have i: "image_problem p = None" and nm: "\<not> has_f405_markers p"
    and t: "\<not> other_mcu ?m (map_option (\<lambda>t. drop_stm32 (js_upper_ascii t)) (mcu_tag p))"
    using ok by (auto simp: ordinary_problem_def Let_def split: if_split_asm)
  have tag': "mcu_tag p = None \<or> mcu_tag p = Some (mcu_text ?m)"
  proof (cases "mcu_tag p")
    case (Some x)
    then have "chip_name x" using tag by simp
    then have "x \<noteq> []" "drop_stm32 (js_upper_ascii x) = x" using chip_name_plain by (auto simp: chip_name_def)
    then show ?thesis using t Some by (auto simp: other_mcu_def)
  qed simp
  have pe: "PROGRAM_END \<le> DEFAULT_FLASH_BASE + MCU_FLASH_SIZE ?m"
    by (cases ?m) (simp_all add: PROGRAM_END_def DEFAULT_FLASH_BASE_def)
  have am: "as_mcu (mcu_text ?m) = Some ?m" by (rule mcu_text_chip)
  have "tag_gate p ?o = Inr ()" using tag' am by (auto simp: tag_gate_iff page_options_def)
  moreover have "\<not> diagnostic_applies p ?o" using tag' am b nm by (auto simp: diagnostic_applies_def page_options_def)
  moreover have "full_erase_gate p ?o = Inr ()"
    using image_problem_full_erase [OF lay i pe] am by (simp add: full_erase_gate_def page_options_def)
  moreover have "image_end DEFAULT_FLASH_BASE p \<le> DEFAULT_FLASH_BASE + MCU_FLASH_SIZE ?m"
    using image_problem_None [OF i] pe by (intro image_end_within) (auto simp: DEFAULT_FLASH_BASE_def)
  then have "size_gate p ?o = Inr ()" using am by (simp add: size_gate_iff wanted_mcu_def page_options_def)
  ultimately show ?thesis by (simp add: assert_mcu_gate_def)
qed

lemma page_check_diagnostic:
  assumes b: "bo_diagnostic b" "bo_mcu b = F405" and ok: "diagnostic_problem p name = None"
  shows "assert_mcu_gate p (page_options b full_chip) = Inr ()"
proof -
  let ?o = "page_options b full_chip"
  have v: "validate_f405_image p = Inr ()" using ok by (auto simp: diagnostic_problem_def split: if_split_asm sum.split_asm)
  note f = validate_f405_ok [OF v]
  have am: "as_mcu ''F405'' = Some F405" by (simp add: as_mcu_def)
  have "tag_gate p ?o = Inr ()" using f am b by (auto simp: tag_gate_iff page_options_def)
  moreover have "diagnostic_gate p ?o = Inr ()" using v am b by (simp add: diagnostic_gate_def page_options_def)
  moreover have "full_erase_gate p ?o = Inr ()" using am b by (simp add: full_erase_gate_def page_options_def)
  moreover have "image_end DEFAULT_FLASH_BASE p \<le> APPLICATION_END"
    using f by (intro image_end_within) (auto simp: image_consistent_def APPLICATION_END_def DEFAULT_FLASH_BASE_def)
  then have "image_end DEFAULT_FLASH_BASE p \<le> DEFAULT_FLASH_BASE + MCU_FLASH_SIZE F405"
    by (simp add: APPLICATION_END_def DEFAULT_FLASH_BASE_def)
  then have "size_gate p ?o = Inr ()" using am b by (simp add: size_gate_iff wanted_mcu_def page_options_def)
  ultimately show ?thesis by (simp add: assert_mcu_gate_def)
qed

lemma page_image:
  assumes "parse_ui_hex txt (mcu_hint_from_filename cat name) = Inr p"
  shows "hex_layout_ok p" "hex_content_ok p" "case mcu_tag p of None \<Rightarrow> True | Some t \<Rightarrow> chip_name t"
proof -
  obtain q where q: "parse_intel_hex txt = Inr q" "p = to_ui_hex q (mcu_hint_from_filename cat name)"
    using assms by (auto simp: parse_ui_hex_def res_bind_Inr_iff)
  have "hex_layout_ok q" "hex_content_ok q" using q(1) by (auto elim!: parse_intel_hexE intro: build_image_spec)
  then show "hex_layout_ok p" "hex_content_ok p"
    unfolding q(2) by (cases "mcu_hint_from_filename cat name"; simp add: to_ui_hex_def hex_layout_ok_def hex_content_ok_def)+
  have "mcu_tag q = None" using q(1)
    by (auto elim!: parse_intel_hexE simp: build_image_def Let_def split: option.split_asm if_split_asm)
  then show "case mcu_tag p of None \<Rightarrow> True | Some t \<Rightarrow> chip_name t"
    using hint_chip [of cat name] unfolding q(2) by (cases "mcu_hint_from_filename cat name") (simp_all add: to_ui_hex_def)
qed

lemma page_check_gate:
  assumes "parse_ui_hex txt (mcu_hint_from_filename catalog name) = Inr p" and "board_named BOARD_OPTIONS i = Some b"
    and "validate_firmware BOARD_OPTIONS (Some p) i (Some name) = None"
  shows "assert_mcu_gate p (page_options b full_chip) = Inr ()"
proof -
  have d: "bo_diagnostic b = (bo_mcu b = F405)" using board_named_in [OF assms(2)] options_checked by (auto simp: list_all_iff)
  note im = page_image [OF assms(1)]
  show ?thesis
  proof (cases "bo_diagnostic b")
    case True
    then have "diagnostic_problem p name = None" using assms(2,3) by (simp add: validate_firmware_def split: if_split_asm)
    then show ?thesis using page_check_diagnostic d True by blast
  next
    case False
    then have "ordinary_problem b p name = None" using assms(2,3) by (simp add: validate_firmware_def split: if_split_asm)
    then show ?thesis using page_check_ordinary [OF im] d False by blast
  qed
qed

text \<open>C25: A file that the flasher page lets through is one the flasher takes: when a HEX file was loaded under its name and the page
  found no problem with it for the selected board, then the flasher's own gate passes with the options the page hands over,
  with and without a full chip erase. In particular the page never starts a flash that the flasher refuses for its image.\<close>
theorem page_check_passes_gate:
  assumes "parse_ui_hex txt (mcu_hint_from_filename catalog name) = Inr p" and "board_named BOARD_OPTIONS i = Some b"
    and "validate_firmware BOARD_OPTIONS (Some p) i (Some name) = None"
  shows "assert_mcu_gate p (page_options b full_chip) = Inr () \<and> wanted_mcu p (page_options b full_chip) = Some (bo_mcu b)"
  using page_check_gate [OF assms] mcu_text_chip(2) [of "bo_mcu b"] by (simp add: wanted_mcu_def page_options_def)
definition matek_hex :: string where
  "matek_hex = '':020000040800F2'' @ [LF] @ '':0C000000000001200900000800BF00BF44'' @ [LF] @ '':00000001FF'' @ [LF]"

definition matek_file :: string where "matek_file = ''bobflight-matek_f722_px-main.hex''"

lemma matek_loads: "parse_ui_hex matek_hex (mcu_hint_from_filename catalog matek_file) = Inr f7_sample"
proof -
  have "parse_intel_hex matek_hex = Inr (f7_sample\<lparr>mcu_tag := None\<rparr>)" by code_simp
  moreover have "mcu_hint_from_filename catalog matek_file = Some ''F722''" by code_simp
  ultimately show ?thesis by (simp add: parse_ui_hex_def to_ui_hex_def f7_sample_def Let_def)
qed

lemma matek_image: "image_problem f7_sample = None"
proof -
  define b where "b = image_bytes f7_sample"
  have b: "b = [0, 0, 1, 32, 9, 0, 0, 8, 0, 191, 0, 191]" by (simp add: b_def f7_sample_def Let_def)
  have s: "f7_sample = \<lparr>base_address = 134217728, image_bytes = b,
      regions = [\<lparr>address = 134217728, data = b\<rparr>], entry_address = None, mcu_tag = Some ''F722''\<rparr>"
    by (simp add: b_def f7_sample_def Let_def)
  have u: "u32le b 0 = BUILD_STACK" "u32le b 4 = 134217737"
    unfolding b by (simp_all add: u32le_value u8_at_def BUILD_STACK_def)
  have t: "thumb_bit 134217737" "thumb_target 134217737 = 134217736"
    by (simp_all add: thumb_bit_odd thumb_target_odd)
  have m: "mapped [\<lparr>address = 134217728, data = b\<rparr>] a \<longleftrightarrow> 134217728 \<le> a \<and> a < 134217740" for a
    by (simp add: mapped_def region_end_def b)
  have e: "region_end \<lparr>address = 134217728, data = b\<rparr> = 134217740" by (simp add: region_end_def b)
  have l: "length b = 12" "b \<noteq> []" by (simp_all add: b)
  show ?thesis using u t l
    by (simp add: image_problem_def s m e Let_def DEFAULT_FLASH_BASE_def list_all_iff MAX_SAFE_INTEGER_def PROGRAM_END_def)
qed

lemma matek_board: "board_named BOARD_OPTIONS ''matek_f722_px'' = Some (BOARD_OPTIONS ! 1)"
  by code_simp

lemma matek_valid: "validate_firmware BOARD_OPTIONS (Some f7_sample) ''matek_f722_px'' (Some matek_file) = None"
proof -
  have n: "hex_name matek_file \<and> matek_file \<noteq> [] \<and> \<not> diagnostic_name matek_file \<and> canonical_board matek_file = Some ''matek_f722_px''
      \<and> mcu_in_name matek_file = Some ''F722'' \<and> bo_mcu (BOARD_OPTIONS ! 1) = F722 \<and> bo_id (BOARD_OPTIONS ! 1) = ''matek_f722_px''
      \<and> \<not> bo_diagnostic (BOARD_OPTIONS ! 1) \<and> js_lower_ascii ''matek_f722_px'' = ''matek_f722_px''
      \<and> drop_stm32 (js_upper_ascii ''F722'') = ''F722''" by code_simp
  have "mcu_tag f7_sample = Some ''F722''" by (simp add: f7_sample_def Let_def)
  then have "ordinary_problem (BOARD_OPTIONS ! 1) f7_sample matek_file = None"
    using n matek_image f7_no_markers by (simp add: ordinary_problem_def other_mcu_def Let_def)
  then show ?thesis using matek_board n by (simp add: validate_firmware_def)
qed

theorem page_check_passes_gate_witness:
  "assert_mcu_gate f7_sample (page_options (BOARD_OPTIONS ! 1) True) = Inr ()"
  using page_check_passes_gate [OF matek_loads matek_board matek_valid] by blast

end
