(* ===== verification/Flash_Lock.thy ===== *)
theory Flash_Lock
  imports Host_Link
begin

section \<open>The lock after a flash: useHost.tsx, postFlashGate.ts\<close>

text \<open>
  After a live flash the configuration pages stay locked until the controller was read again. The provider of the host is a
  step function: a status change of the host, a lock, the start of a read, the answer of its \<open>getVersion\<close> and the answer
  of its \<open>getStatus\<close>, for any number of overlapping reads (numbered in the order they start). Of a parsed status only the
  board is kept. What the host says at a moment (its connection status, whether the connection is live) is part of the event.
\<close>

datatype connection = Disconnected | Connecting | Connected | Reconnecting | ConnectionError

datatype read_kind = RefreshStatus | PollAfterConnect | ClearAfterReconnect

record host_poll =
  hp_kind :: read_kind
  hp_conn :: nat
  hp_flash :: nat
  hp_expected :: "string option"
  hp_version :: "string option"
  hp_open :: bool

record provider =
  pv_status :: connection
  pv_error :: "string option"
  pv_version :: "string option"
  pv_board :: "string option option"
  pv_gate :: bool
  pv_expected :: "string option"
  pv_locked :: bool
  pv_conn :: nat
  pv_flash :: nat
  pv_polls :: "host_poll list"

definition new_provider :: provider where
  "new_provider = \<lparr>pv_status = Disconnected, pv_error = None, pv_version = None, pv_board = None, pv_gate = False,
     pv_expected = None, pv_locked = False, pv_conn = 0, pv_flash = 0, pv_polls = []\<rparr>"

datatype provider_event =
    HostStatus connection
  | SetLock bool "string option"
  | StartRead read_kind connection
  | VersionAnswer nat "string + string"
  | StatusAnswer nat "string + string option" connection bool

definition same_text :: "string \<Rightarrow> string \<Rightarrow> bool" where
  "same_text a b \<longleftrightarrow> js_lower_ascii (js_trim a) = js_lower_ascii (js_trim b)"

text \<open>\<open>canUnlockPostFlashGate\<close>; the connection status of the parameters is the one the host gives at that moment.\<close>

definition can_unlock :: "connection \<Rightarrow> bool \<Rightarrow> string option \<Rightarrow> string option \<Rightarrow> string option option \<Rightarrow> nat \<Rightarrow> nat \<Rightarrow> nat \<Rightarrow> nat \<Rightarrow> bool" where
  "can_unlock now live expected version status poll_conn conn poll_flash flash_gen =
     (if poll_conn \<noteq> conn then False
      else if poll_flash \<noteq> flash_gen then False
      else if now \<noteq> Connected then False
      else if \<not> live then False
      else (case expected of None \<Rightarrow> False | Some e \<Rightarrow>
        if js_trim e = [] then False
        else (case version of None \<Rightarrow> False | Some v \<Rightarrow>
          if js_trim v = [] then False
          else (case status of Some (Some b) \<Rightarrow> if js_trim b = [] then False else same_text b e | _ \<Rightarrow> False))))"

definition host_status :: "connection \<Rightarrow> provider \<Rightarrow> provider" where
  "host_status c s =
     (let t = s\<lparr>pv_conn := pv_conn s + 1, pv_status := c\<rparr> in if c \<noteq> Connected then t\<lparr>pv_version := None, pv_board := None\<rparr> else t)"

definition set_lock :: "bool \<Rightarrow> string option \<Rightarrow> provider \<Rightarrow> provider" where
  "set_lock locked board s =
     (if \<not> locked then s
      else s\<lparr>pv_flash := pv_flash s + 1, pv_version := None, pv_board := None, pv_error := None, pv_gate := True,
             pv_expected := board, pv_locked := True\<rparr>)"

definition start_poll :: "read_kind \<Rightarrow> connection \<Rightarrow> provider \<Rightarrow> provider" where
  "start_poll k now s =
     (if now \<noteq> Connected \<or> k = ClearAfterReconnect \<and> \<not> pv_locked s then s
      else s\<lparr>pv_polls := pv_polls s @ [\<lparr>hp_kind = k, hp_conn = pv_conn s, hp_flash = pv_flash s, hp_expected = pv_expected s,
               hp_version = None, hp_open = True\<rparr>]\<rparr>)"

definition same_gens :: "host_poll \<Rightarrow> provider \<Rightarrow> bool" where
  "same_gens p s \<longleftrightarrow> hp_conn p = pv_conn s \<and> hp_flash p = pv_flash s"

definition set_poll :: "nat \<Rightarrow> host_poll \<Rightarrow> provider \<Rightarrow> provider" where
  "set_poll n p s = s\<lparr>pv_polls := (pv_polls s)[n := p]\<rparr>"

definition poll_failed :: "nat \<Rightarrow> host_poll \<Rightarrow> string \<Rightarrow> bool \<Rightarrow> provider \<Rightarrow> provider" where
  "poll_failed n p msg shown s =
     (let t = set_poll n (p\<lparr>hp_open := False\<rparr>) s in if shown then t\<lparr>pv_error := Some msg\<rparr> else t)"

definition version_answer :: "nat \<Rightarrow> string + string \<Rightarrow> provider \<Rightarrow> provider" where
  "version_answer n a s =
     (if n < length (pv_polls s) \<and> hp_open (pv_polls s ! n) \<and> hp_kind (pv_polls s ! n) \<noteq> RefreshStatus \<and> hp_version (pv_polls s ! n) = None
      then (case a of
        Inl msg \<Rightarrow> poll_failed n (pv_polls s ! n) msg (same_gens (pv_polls s ! n) s) s
      | Inr v \<Rightarrow> set_poll n ((pv_polls s ! n)\<lparr>hp_version := Some v\<rparr>) s)
      else s)"

definition unlock :: "provider \<Rightarrow> provider" where
  "unlock s = s\<lparr>pv_gate := False, pv_expected := None, pv_locked := False\<rparr>"

definition poll_read :: "host_poll \<Rightarrow> string option \<Rightarrow> connection \<Rightarrow> bool \<Rightarrow> provider \<Rightarrow> provider" where
  "poll_read p board now live s =
     (if \<not> (same_gens p s \<and> now = Connected) then s
      else if hp_kind p = RefreshStatus then s\<lparr>pv_board := Some board\<rparr>
      else (let t = s\<lparr>pv_version := hp_version p, pv_board := Some board\<rparr> in
        if (hp_kind p = ClearAfterReconnect \<or> pv_locked t)
          \<and> can_unlock now live (hp_expected p) (hp_version p) (Some board) (hp_conn p) (pv_conn t) (hp_flash p) (pv_flash t)
        then unlock t else t))"

definition status_answer :: "nat \<Rightarrow> string + string option \<Rightarrow> connection \<Rightarrow> bool \<Rightarrow> provider \<Rightarrow> provider" where
  "status_answer n a now live s =
     (if n < length (pv_polls s) \<and> hp_open (pv_polls s ! n) \<and> (hp_kind (pv_polls s ! n) = RefreshStatus \<or> hp_version (pv_polls s ! n) \<noteq> None)
      then (let p = pv_polls s ! n in case a of
        Inl msg \<Rightarrow> poll_failed n p msg (same_gens p s \<and> (hp_kind p = RefreshStatus \<longrightarrow> now = Connected)) s
      | Inr board \<Rightarrow> poll_read p board now live (set_poll n (p\<lparr>hp_open := False\<rparr>) s))
      else s)"

fun provider_step :: "provider_event \<Rightarrow> provider \<Rightarrow> provider" where
  "provider_step (HostStatus c) s = host_status c s"
| "provider_step (SetLock l b) s = set_lock l b s"
| "provider_step (StartRead k now) s = start_poll k now s"
| "provider_step (VersionAnswer n a) s = version_answer n a s"
| "provider_step (StatusAnswer n a now live) s = status_answer n a now live s"

definition provider_run :: "provider_event list \<Rightarrow> provider" where
  "provider_run es = fold provider_step es new_provider"
subsection \<open>What it takes to unlock\<close>

fun is_lock :: "provider_event \<Rightarrow> bool" where
  "is_lock (SetLock l b) = l"
| "is_lock _ = False"

fun is_status :: "provider_event \<Rightarrow> bool" where
  "is_status (HostStatus c) = True"
| "is_status _ = False"

text \<open>
  \<open>read_since s0 n k b w\<close>: the events \<open>w\<close> since the state \<open>s0\<close> hold the start of the read number \<open>n\<close>, of kind \<open>k\<close>, and \<open>b\<close> is what
  came after it.
\<close>

definition read_since :: "provider \<Rightarrow> nat \<Rightarrow> read_kind \<Rightarrow> provider_event list \<Rightarrow> provider_event list \<Rightarrow> bool" where
  "read_since s0 n k b w \<longleftrightarrow> (\<exists>a. w = a @ StartRead k Connected # b \<and> n = length (pv_polls (fold provider_step a s0)))"

text \<open>The controller answered that read, on one connection, with a version and with the status of the board.\<close>

definition board_read :: "provider \<Rightarrow> string \<Rightarrow> provider_event list \<Rightarrow> bool" where
  "board_read s0 board w \<longleftrightarrow>
     (\<exists>n k a v b x c. k \<noteq> RefreshStatus
        \<and> read_since s0 n k (a @ VersionAnswer n (Inr v) # b @ StatusAnswer n (Inr (Some x)) Connected True # c) w
        \<and> list_all (\<lambda>e. \<not> is_status e) (a @ b) \<and> js_trim v \<noteq> [] \<and> js_trim x \<noteq> [] \<and> same_text x board)"

definition poll_known :: "provider \<Rightarrow> string \<Rightarrow> provider_event list \<Rightarrow> nat \<Rightarrow> nat \<Rightarrow> host_poll \<Rightarrow> bool" where
  "poll_known s0 board w conn n p \<longleftrightarrow>
     (\<exists>b. read_since s0 n (hp_kind p) b w \<and> hp_expected p \<in> {None, Some board}
        \<and> (hp_conn p = conn \<longrightarrow> list_all (\<lambda>e. \<not> is_status e) b)
        \<and> (case hp_version p of None \<Rightarrow> True | Some v \<Rightarrow> (\<exists>b1 b2. b = b1 @ VersionAnswer n (Inr v) # b2)))"

definition lock_invariant :: "provider \<Rightarrow> string \<Rightarrow> provider_event list \<Rightarrow> provider \<Rightarrow> bool" where
  "lock_invariant s0 board w s \<longleftrightarrow>
     pv_flash s = pv_flash s0 \<and> pv_locked s = pv_gate s
     \<and> pv_expected s = (if pv_gate s then Some board else None)
     \<and> (\<not> pv_gate s \<longrightarrow> board_read s0 board w)
     \<and> (\<forall>n < length (pv_polls s). hp_conn (pv_polls s ! n) \<le> pv_conn s
          \<and> (hp_flash (pv_polls s ! n) = pv_flash s0 \<longrightarrow> poll_known s0 board w (pv_conn s) n (pv_polls s ! n)))"

lemma read_since_snoc: "read_since s0 n k b w \<Longrightarrow> read_since s0 n k (b @ [e]) (w @ [e])"
  by (auto simp: read_since_def)

lemma board_read_snoc: "board_read s0 board w \<Longrightarrow> board_read s0 board (w @ [e])"
proof -
  assume "board_read s0 board w"
  then obtain n k a v b x c where r: "k \<noteq> RefreshStatus"
    "read_since s0 n k (a @ VersionAnswer n (Inr v) # b @ StatusAnswer n (Inr (Some x)) Connected True # c) w"
    "list_all (\<lambda>e. \<not> is_status e) (a @ b)" "js_trim v \<noteq> []" "js_trim x \<noteq> []" "same_text x board"
    unfolding board_read_def by blast
  from read_since_snoc [OF r(2), of e] show ?thesis
    unfolding board_read_def using r by (intro exI [of _ n] exI [of _ k] exI [of _ a] exI [of _ v] exI [of _ b] exI [of _ x] exI [of _ "c @ [e]"]) simp
qed

lemma poll_known_snoc:
  assumes "poll_known s0 board w conn n p" and "hp_conn p = conn' \<Longrightarrow> hp_conn p = conn \<and> \<not> is_status e"
  shows "poll_known s0 board (w @ [e]) conn' n p"
proof -
  obtain b where b: "read_since s0 n (hp_kind p) b w" "hp_expected p \<in> {None, Some board}"
    "hp_conn p = conn \<longrightarrow> list_all (\<lambda>e. \<not> is_status e) b"
    "case hp_version p of None \<Rightarrow> True | Some v \<Rightarrow> (\<exists>b1 b2. b = b1 @ VersionAnswer n (Inr v) # b2)"
    using assms(1) unfolding poll_known_def by blast
  have "case hp_version p of None \<Rightarrow> True | Some v \<Rightarrow> (\<exists>b1 b2. b @ [e] = b1 @ VersionAnswer n (Inr v) # b2)"
    using b(4) by (cases "hp_version p") (simp, auto, blast)
  then show ?thesis unfolding poll_known_def
    using read_since_snoc [OF b(1), of e] b(2,3) assms(2) by (intro exI [of _ "b @ [e]"]) auto
qed

text \<open>An event that touches no read keeps what is known of the reads.\<close>

lemma invariant_rest:
  assumes "lock_invariant s0 board w s" and "pv_polls t = pv_polls s" "pv_flash t = pv_flash s" "pv_gate t = pv_gate s"
    "pv_locked t = pv_locked s" "pv_expected t = pv_expected s" "pv_conn t = (if is_status e then pv_conn s + 1 else pv_conn s)"
  shows "lock_invariant s0 board (w @ [e]) t"
proof -
  have "poll_known s0 board (w @ [e]) (pv_conn t) n (pv_polls s ! n)"
    if "n < length (pv_polls s)" "hp_flash (pv_polls s ! n) = pv_flash s0" for n
    using assms(1,7) that by (intro poll_known_snoc [of s0 board w "pv_conn s"]) (auto simp: lock_invariant_def split: if_splits)
  then show ?thesis using assms board_read_snoc unfolding lock_invariant_def by auto
qed

lemma invariant_new:
  assumes "lock_invariant s0 board w s" and "s = fold provider_step w s0"
  shows "lock_invariant s0 board (w @ [StartRead k now]) (start_poll k now s)"
proof (cases "now \<noteq> Connected \<or> k = ClearAfterReconnect \<and> \<not> pv_locked s")
  case True
  then have "start_poll k now s = s" by (simp add: start_poll_def)
  then show ?thesis using invariant_rest [OF assms(1), of s "StartRead k now"] by simp
next
  case False
  define p where "p = \<lparr>hp_kind = k, hp_conn = pv_conn s, hp_flash = pv_flash s, hp_expected = pv_expected s, hp_version = None, hp_open = True\<rparr>"
  have t: "start_poll k now s = s\<lparr>pv_polls := pv_polls s @ [p]\<rparr>" using False by (simp add: start_poll_def p_def)
  have new: "poll_known s0 board (w @ [StartRead k now]) (pv_conn s) (length (pv_polls s)) p"
    unfolding poll_known_def read_since_def using assms False
    by (intro exI [of _ "[]"]) (auto simp: p_def lock_invariant_def intro!: exI [of _ w])
  have old: "poll_known s0 board (w @ [StartRead k now]) (pv_conn s) n (pv_polls s ! n)"
    if "n < length (pv_polls s)" "hp_flash (pv_polls s ! n) = pv_flash s0" for n
    using assms(1) that by (intro poll_known_snoc [of s0 board w "pv_conn s"]) (auto simp: lock_invariant_def)
  have "hp_conn p \<le> pv_conn s" by (simp add: p_def)
  then show ?thesis using assms(1) new old board_read_snoc unfolding t lock_invariant_def
    by (auto simp: nth_append less_Suc_eq)
qed

text \<open>A read is changed in place.\<close>

lemma invariant_set_poll:
  assumes "lock_invariant s0 board (w @ [e]) s" and "n < length (pv_polls s)" and "hp_conn p = hp_conn (pv_polls s ! n)"
    and "hp_flash p = hp_flash (pv_polls s ! n)"
    and "hp_flash p = pv_flash s0 \<Longrightarrow> poll_known s0 board (w @ [e]) (pv_conn s) n p"
  shows "lock_invariant s0 board (w @ [e]) (set_poll n p s)"
  using assms unfolding lock_invariant_def set_poll_def by (auto simp: nth_list_update)

lemma poll_known_closed: "poll_known s0 board w conn n (p\<lparr>hp_open := x\<rparr>) = poll_known s0 board w conn n p"
  by (simp add: poll_known_def)
lemma invariant_version:
  assumes "lock_invariant s0 board w s"
  shows "lock_invariant s0 board (w @ [VersionAnswer n a]) (version_answer n a s)"
proof -
  let ?e = "VersionAnswer n a"
  have keep: "lock_invariant s0 board (w @ [?e]) s" using invariant_rest [OF assms, of s ?e] by simp
  show ?thesis
  proof (cases "n < length (pv_polls s) \<and> hp_open (pv_polls s ! n) \<and> hp_kind (pv_polls s ! n) \<noteq> RefreshStatus \<and> hp_version (pv_polls s ! n) = None")
    case False
    then show ?thesis using keep unfolding version_answer_def by (simp only: if_False)
  next
    case True
    define p where "p = pv_polls s ! n"
    have n: "n < length (pv_polls s)" "hp_version p = None" using True by (simp_all add: p_def)
    have known: "hp_flash p = pv_flash s0 \<Longrightarrow> poll_known s0 board (w @ [?e]) (pv_conn s) n p"
      using keep n(1) by (auto simp: lock_invariant_def p_def)
    show ?thesis
    proof (cases a)
      case (Inr v)
      have t: "version_answer n a s = set_poll n (p\<lparr>hp_version := Some v\<rparr>) s"
        using True Inr by (simp add: version_answer_def p_def)
      have "poll_known s0 board (w @ [?e]) (pv_conn s) n (p\<lparr>hp_version := Some v\<rparr>)" if f: "hp_flash p = pv_flash s0"
      proof -
        have "poll_known s0 board w (pv_conn s) n p" using assms n(1) f by (auto simp: lock_invariant_def p_def)
        then obtain b where b: "read_since s0 n (hp_kind p) b w" "hp_expected p \<in> {None, Some board}"
          "hp_conn p = pv_conn s \<longrightarrow> list_all (\<lambda>e. \<not> is_status e) b" unfolding poll_known_def by blast
        show ?thesis unfolding poll_known_def using read_since_snoc [OF b(1), of ?e] b(2,3) Inr
          by (intro exI [of _ "b @ [?e]"]) auto
      qed
      then show ?thesis unfolding t using n(1) by (intro invariant_set_poll [OF keep]) (simp_all add: p_def)
    next
      case (Inl msg)
      have t: "version_answer n a s = poll_failed n p msg (same_gens p s) s" using True Inl by (simp add: version_answer_def p_def)
      have i: "lock_invariant s0 board (w @ [?e]) (set_poll n (p\<lparr>hp_open := False\<rparr>) s)"
        using n(1) known by (intro invariant_set_poll [OF keep]) (simp_all add: p_def poll_known_closed)
      then show ?thesis unfolding t poll_failed_def Let_def by (simp add: lock_invariant_def)
    qed
  qed
qed

lemma unlock_invariant:
  "lock_invariant s0 board w s \<Longrightarrow> board_read s0 board w \<Longrightarrow> lock_invariant s0 board w (unlock s)"
  by (auto simp: lock_invariant_def unlock_def)

lemma poll_board_read:
  assumes "poll_known s0 board w conn n p" and "hp_conn p = conn" "hp_kind p \<noteq> RefreshStatus" "hp_version p = Some v"
    and "can_unlock now live (hp_expected p) (hp_version p) (Some (Some x)) q conn f g"
  shows "board_read s0 board (w @ [StatusAnswer n (Inr (Some x)) now live])"
proof -
  let ?e = "StatusAnswer n (Inr (Some x)) now live"
  obtain b where b: "read_since s0 n (hp_kind p) b w" "hp_expected p \<in> {None, Some board}" "list_all (\<lambda>e. \<not> is_status e) b"
    "\<exists>b1 b2. b = b1 @ VersionAnswer n (Inr v) # b2"
    using assms(1,2,4) unfolding poll_known_def by auto
  obtain b1 b2 where bs: "b = b1 @ VersionAnswer n (Inr v) # b2" using b(4) by blast
  have u: "now = Connected" "live" "js_trim v \<noteq> []" "js_trim x \<noteq> []" "same_text x board"
    using assms(4,5) b(2) by (auto simp: can_unlock_def split: option.splits if_splits)
  have "read_since s0 n (hp_kind p) (b1 @ VersionAnswer n (Inr v) # b2 @ ?e # []) (w @ [?e])"
    using read_since_snoc [OF b(1), of ?e] bs by simp
  moreover have "list_all (\<lambda>e. \<not> is_status e) (b1 @ b2)" using b(3) bs by simp
  ultimately show ?thesis unfolding board_read_def using u assms(3)
    by (intro exI [of _ n] exI [of _ "hp_kind p"] exI [of _ b1] exI [of _ v] exI [of _ b2] exI [of _ x] exI [of _ "[]"]) simp
qed

lemma invariant_status:
  assumes "lock_invariant s0 board w s"
  shows "lock_invariant s0 board (w @ [StatusAnswer n a now live]) (status_answer n a now live s)"
proof -
  let ?e = "StatusAnswer n a now live"
  have keep: "lock_invariant s0 board (w @ [?e]) s" using invariant_rest [OF assms, of s ?e] by simp
  show ?thesis
  proof (cases "n < length (pv_polls s) \<and> hp_open (pv_polls s ! n) \<and> (hp_kind (pv_polls s ! n) = RefreshStatus \<or> hp_version (pv_polls s ! n) \<noteq> None)")
    case False
    then show ?thesis using keep unfolding status_answer_def by (simp only: if_False)
  next
    case True
    define p where "p = pv_polls s ! n"
    define t where "t = set_poll n (p\<lparr>hp_open := False\<rparr>) s"
    have n: "n < length (pv_polls s)" "hp_kind p = RefreshStatus \<or> hp_version p \<noteq> None" using True by (simp_all add: p_def)
    have known: "hp_flash p = pv_flash s0 \<Longrightarrow> poll_known s0 board (w @ [?e]) (pv_conn s) n p"
      using keep n(1) by (auto simp: lock_invariant_def p_def)
    have it: "lock_invariant s0 board (w @ [?e]) t" unfolding t_def
      using n(1) known by (intro invariant_set_poll [OF keep]) (simp_all add: p_def poll_known_closed)
    have eq: "pv_conn t = pv_conn s" "pv_flash t = pv_flash s" "pv_locked t = pv_locked s" by (simp_all add: t_def set_poll_def)
    show ?thesis
    proof (cases a)
      case (Inl msg)
      then have "status_answer n a now live s = poll_failed n p msg (same_gens p s \<and> (hp_kind p = RefreshStatus \<longrightarrow> now = Connected)) s"
        using True by (simp add: status_answer_def p_def Let_def)
      then show ?thesis using it unfolding poll_failed_def t_def [symmetric] Let_def by (simp add: lock_invariant_def)
    next
      case (Inr x)
      have st: "status_answer n a now live s = poll_read p x now live t"
        using True Inr by (simp add: status_answer_def p_def t_def Let_def)
      define u where "u = t\<lparr>pv_version := hp_version p, pv_board := Some x\<rparr>"
      have iu: "lock_invariant s0 board (w @ [?e]) u" "lock_invariant s0 board (w @ [?e]) (t\<lparr>pv_board := Some x\<rparr>)"
        using it by (simp_all add: u_def lock_invariant_def)
      have "board_read s0 board (w @ [?e])"
        if g: "same_gens p t" "hp_kind p \<noteq> RefreshStatus"
          "can_unlock now live (hp_expected p) (hp_version p) (Some x) (hp_conn p) (pv_conn u) (hp_flash p) (pv_flash u)"
      proof -
        obtain v y where vy: "hp_version p = Some v" "x = Some y" using g(3) by (auto simp: can_unlock_def split: option.splits if_splits)
        have f: "hp_conn p = pv_conn s" "hp_flash p = pv_flash s0"
          using g(1) eq assms by (auto simp: same_gens_def lock_invariant_def)
        have k: "poll_known s0 board w (pv_conn s) n p" using assms n(1) f(2) by (auto simp: lock_invariant_def p_def)
        have "can_unlock now live (hp_expected p) (hp_version p) (Some (Some y)) (hp_conn p) (pv_conn s) (hp_flash p) (pv_flash u)"
          using g(3) vy(2) eq by (simp add: u_def)
        from poll_board_read [OF k f(1) g(2) vy(1) this] show ?thesis using Inr vy(2) by simp
      qed
      then show ?thesis unfolding st poll_read_def Let_def u_def [symmetric] using it iu unlock_invariant by auto
    qed
  qed
qed

lemma flash_lock_kept:
  assumes "pv_flash s0 = f" and "lock_invariant s0 board [] s0"
  shows "list_all (\<lambda>e. \<not> is_lock e) w \<Longrightarrow> lock_invariant s0 board w (fold provider_step w s0)"
proof (induction w rule: rev_induct)
  case Nil
  then show ?case using assms(2) by simp
next
  case (snoc e w)
  let ?s = "fold provider_step w s0"
  have ih: "lock_invariant s0 board w ?s" using snoc by simp
  have "lock_invariant s0 board (w @ [e]) (provider_step e ?s)"
  proof (cases e)
    case (HostStatus c)
    then show ?thesis by (auto simp: host_status_def Let_def intro!: invariant_rest [OF ih])
  next
    case (SetLock l b)
    then have "\<not> l" using snoc(2) by simp
    then show ?thesis using SetLock by (auto simp: set_lock_def intro!: invariant_rest [OF ih])
  next
    case (StartRead k now)
    then show ?thesis using invariant_new [OF ih refl] by simp
  next
    case (VersionAnswer n a)
    then show ?thesis using invariant_version [OF ih] by simp
  next
    case (StatusAnswer n a now live)
    then show ?thesis using invariant_status [OF ih] by simp
  qed
  then show ?case by simp
qed
definition polls_bounded :: "provider \<Rightarrow> bool" where
  "polls_bounded s \<longleftrightarrow> list_all (\<lambda>p. hp_conn p \<le> pv_conn s \<and> hp_flash p \<le> pv_flash s) (pv_polls s)"

lemma polls_bounded_set: "polls_bounded s \<Longrightarrow> n < length (pv_polls s) \<Longrightarrow> hp_conn p = hp_conn (pv_polls s ! n) \<Longrightarrow>
    hp_flash p = hp_flash (pv_polls s ! n) \<Longrightarrow> polls_bounded (set_poll n p s)"
  by (auto simp: polls_bounded_def set_poll_def list_all_length nth_list_update)

lemma polls_bounded_version: "polls_bounded s \<Longrightarrow> polls_bounded (version_answer n a s)"
  using polls_bounded_set [of s n] by (auto simp: version_answer_def poll_failed_def Let_def polls_bounded_def split: sum.split)

lemma polls_bounded_status: "polls_bounded s \<Longrightarrow> polls_bounded (status_answer n a now live s)"
  using polls_bounded_set [of s n "(pv_polls s ! n)\<lparr>hp_open := False\<rparr>"]
  by (auto simp: status_answer_def poll_failed_def poll_read_def unlock_def Let_def polls_bounded_def split: sum.split)

lemma polls_bounded_run: "polls_bounded (provider_run es)"
proof (induction es rule: rev_induct)
  case Nil
  then show ?case by (simp add: provider_run_def new_provider_def polls_bounded_def)
next
  case (snoc e es)
  have "polls_bounded (provider_step e (provider_run es))"
  proof (cases e)
    case (VersionAnswer n a)
    then show ?thesis using polls_bounded_version snoc by simp
  next
    case (StatusAnswer n a now live)
    then show ?thesis using polls_bounded_status snoc by simp
  qed (use snoc in \<open>auto simp: polls_bounded_def host_status_def set_lock_def start_poll_def Let_def list_all_iff\<close>)
  then show ?case by (simp add: provider_run_def)
qed

text \<open>C24: After a live flash for a board the pages stay locked until that board was read: whatever happened before and however many
  reads overlap, when the lock is gone and no further flash locked it again, then one read (not a mere status refresh) was
  started after the flash, its version answer was not blank, its status named the flashed board, it came over a live connection
  that was up at that moment, and the connection did not change from the start of the read to its end.\<close>
theorem flash_lock_held:
  assumes "\<not> pv_gate (provider_run (before_flash @ SetLock True (Some board) # w))" and "list_all (\<lambda>e. \<not> is_lock e) w"
  shows "\<exists>n k a v b x c. k \<noteq> RefreshStatus
     \<and> read_since (provider_run (before_flash @ [SetLock True (Some board)])) n k
         (a @ VersionAnswer n (Inr v) # b @ StatusAnswer n (Inr (Some x)) Connected True # c) w
     \<and> list_all (\<lambda>e. \<not> is_status e) (a @ b) \<and> js_trim v \<noteq> [] \<and> js_trim x \<noteq> [] \<and> same_text x board"
proof -
  define s where "s = provider_run before_flash"
  define s0 where "s0 = provider_run (before_flash @ [SetLock True (Some board)])"
  have s0: "s0 = set_lock True (Some board) s" by (simp add: s0_def s_def provider_run_def)
  have "hp_conn (pv_polls s ! n) \<le> pv_conn s" "hp_flash (pv_polls s ! n) \<noteq> Suc (pv_flash s)" if "n < length (pv_polls s)" for n
    using polls_bounded_run [of before_flash, folded s_def] that by (fastforce simp: polls_bounded_def list_all_length)+
  then have "lock_invariant s0 board [] s0" by (auto simp: s0 set_lock_def lock_invariant_def)
  from flash_lock_kept [OF refl this assms(2)] have "lock_invariant s0 board w (fold provider_step w s0)" .
  moreover have "fold provider_step w s0 = provider_run (before_flash @ SetLock True (Some board) # w)"
    by (simp add: s0_def provider_run_def)
  ultimately show ?thesis using assms(1) unfolding s0_def lock_invariant_def board_read_def by simp
qed

definition reconnect_events :: "provider_event list" where
  "reconnect_events = [HostStatus Disconnected, HostStatus Connected, StartRead ClearAfterReconnect Connected,
     VersionAnswer 0 (Inr ''BobFlight 0.2.0''), StatusAnswer 0 (Inr (Some ''Matek_F722_PX'')) Connected True]"

theorem flash_lock_held_witness:
  "\<exists>n k a v b x c. k \<noteq> RefreshStatus
     \<and> read_since (provider_run ([] @ [SetLock True (Some ''matek_f722_px'')])) n k
         (a @ VersionAnswer n (Inr v) # b @ StatusAnswer n (Inr (Some x)) Connected True # c) reconnect_events
     \<and> list_all (\<lambda>e. \<not> is_status e) (a @ b) \<and> js_trim v \<noteq> [] \<and> js_trim x \<noteq> [] \<and> same_text x ''matek_f722_px''"
  by (rule flash_lock_held) code_simp+
end
