(* ===== verification/Flash_Page.thy ===== *)
theory Flash_Page
  imports Board_Check Flash_Lock
begin

section \<open>The flasher page: FlasherPage.tsx, DiagnosticProfileControls.tsx\<close>

text \<open>
  The state of the page and what changes it: the user, the file reader, the device picker, the flasher, the connection.
  An event is one handler run followed by the effects of the page, which clear confirmations when what they confirm has
  changed. The parts of the page that only show something (sizes, progress numbers, texts) are left out; an event of an input
  that the page has disabled does nothing. The identity read and the parsed file are new objects whenever they arrive.
\<close>

datatype profile_problem = ConfirmCustom | NoCustomImage string | OtherCombination

datatype page_error =
    ConfirmFullErase | InvalidFile firmware_problem | InvalidProfile profile_problem | LiveDisabled | CdcConnected
  | NoDfuDevice | ConfirmBoardMatch | ConfirmDemo | PickerMissing | DeviceRejected nat nat | PickerFailed string | FlashFailed string

record flasher_page =
  fp_board :: string
  fp_custom :: "string \<times> string \<times> string"
  fp_assumptions :: bool
  fp_mock :: bool
  fp_understood :: bool
  fp_props_off :: bool
  fp_backup :: bool
  fp_match :: bool
  fp_identity :: identity_read
  fp_manual :: bool
  fp_full :: bool
  fp_full_confirmed :: bool
  fp_file :: "string option"
  fp_image :: "parsed_hex option"
  fp_parse_error :: bool
  fp_file_seq :: nat
  fp_loading :: bool
  fp_claimed :: "(nat \<times> nat) option"
  fp_label :: "string option"
  fp_busy :: bool
  fp_operation :: bool
  fp_picker :: bool
  fp_builder :: bool
  fp_console :: bool
  fp_phase :: bool
  fp_flasher :: bool
  fp_live_ready :: bool
  fp_cdc :: bool
  fp_previous :: string
  fp_error :: "page_error option"

definition new_page :: flasher_page where
  "new_page = \<lparr>fp_board = [], fp_custom = ([], [], []), fp_assumptions = False, fp_mock = False, fp_understood = False,
     fp_props_off = False, fp_backup = False, fp_match = False, fp_identity = IdentityIdle, fp_manual = False, fp_full = False,
     fp_full_confirmed = False, fp_file = None, fp_image = None, fp_parse_error = False, fp_file_seq = 0, fp_loading = False,
     fp_claimed = None, fp_label = None, fp_busy = False, fp_operation = False, fp_picker = False, fp_builder = False,
     fp_console = False, fp_phase = False, fp_flasher = False, fp_live_ready = False, fp_cdc = False, fp_previous = [], fp_error = None\<rparr>"

datatype page_event =
    ChooseBoard string
  | ChooseCustom "string \<times> string \<times> string"
  | TickAssumptions bool
  | ToggleMock bool
  | TickUnderstood bool
  | TickProps bool
  | TickBackup bool
  | TickMatch bool
  | TickManual bool
  | ToggleFull bool
  | TickFull bool
  | IdentityArrives identity_read
  | PickFile "(string \<times> bool) option" bool
  | FileRead nat "string option"
  | RequestDevice
  | DevicePicked "string + nat \<times> nat \<times> string"
  | UsbDisconnected
  | ConnectionIs bool
  | ConsoleActive bool
  | BuildBusy bool
  | FlasherMade bool
  | LiveReady bool
  | PhaseIs bool
  | ClickFlash
  | FlashEnds "string option"

definition ST_DFU :: "nat \<times> nat" where "ST_DFU = (1155, 57105)"

subsection \<open>What the page derives from its state\<close>

definition custom_profile :: "string \<Rightarrow> (string \<times> nat \<times> nat) option" where
  "custom_profile board = Option.bind (find (\<lambda>p. pe_id p = board) (ct_profiles catalog)) pe_custom"

definition custom_profile_problem :: "bool \<Rightarrow> string \<times> string \<times> string \<Rightarrow> (string \<times> nat \<times> nat) option \<Rightarrow> profile_problem option" where
  "custom_profile_problem custom given limits = (case given of (m, flash, hse) \<Rightarrow>
     if \<not> custom then None
     else if m = [] \<or> flash = [] \<or> hse = [] then Some ConfirmCustom
     else (case limits of
        None \<Rightarrow> Some (NoCustomImage m)
      | Some (lm, kib, hz) \<Rightarrow>
          if m \<noteq> lm then Some (NoCustomImage m)
          else if flash \<noteq> show_nat kib \<or> hse \<noteq> show_nat hz then Some OtherCombination else None))"

text \<open>\<open>catalogCustom\<close>: the limits of the first profile that has them.\<close>

definition catalog_custom :: "(string \<times> nat \<times> nat) option" where
  "catalog_custom = Option.bind (find (\<lambda>p. pe_custom p \<noteq> None) (ct_profiles catalog)) pe_custom"

definition page_board :: "flasher_page \<Rightarrow> board_option option" where
  "page_board s = board_named BOARD_OPTIONS (fp_board s)"

definition page_diagnostic :: "flasher_page \<Rightarrow> bool" where
  "page_diagnostic s \<longleftrightarrow> (case page_board s of None \<Rightarrow> False | Some b \<Rightarrow> bo_diagnostic b)"

definition page_flashing :: "flasher_page \<Rightarrow> bool" where
  "page_flashing s \<longleftrightarrow> fp_busy s \<or> fp_phase s"

definition custom_problem :: "flasher_page \<Rightarrow> profile_problem option" where
  "custom_problem s = custom_profile_problem (custom_profile (fp_board s) \<noteq> None) (fp_custom s) catalog_custom"

definition page_problem :: "flasher_page \<Rightarrow> page_error option" where
  "page_problem s =
     (case custom_problem s of
        Some p \<Rightarrow> Some (InvalidProfile p)
      | None \<Rightarrow> map_option InvalidFile (validate_firmware BOARD_OPTIONS (fp_image s) (fp_board s) (fp_file s)))"

definition page_gate :: "flasher_page \<Rightarrow> identity_gate" where
  "page_gate s = identity_gate_of BOARD_OPTIONS (identity_view_of BOARD_OPTIONS (fp_identity s)) (page_board s)
     (Option.bind (fp_image s) mcu_tag) (fp_manual s) (\<not> fp_mock s)"

definition st_dfu_claimed :: "flasher_page \<Rightarrow> bool" where
  "st_dfu_claimed s \<longleftrightarrow> fp_claimed s = Some ST_DFU"

subsection \<open>The effects\<close>

definition manual_key :: "flasher_page \<Rightarrow> string \<times> string option \<times> identity_read" where
  "manual_key s = (fp_board s, fp_file s, fp_identity s)"

definition match_key :: "flasher_page \<Rightarrow> string \<times> parsed_hex option \<times> string option \<times> string option \<times> bool \<times> (string \<times> string \<times> string) \<times> bool" where
  "match_key s = (fp_board s, fp_image s, fp_file s, fp_label s, fp_mock s, fp_custom s, fp_assumptions s)"

definition mode_effect :: "flasher_page \<Rightarrow> flasher_page \<Rightarrow> flasher_page" where
  "mode_effect before_it s =
     (if fp_mock s \<noteq> fp_mock before_it
      then s\<lparr>fp_error := None, fp_label := None, fp_claimed := None, fp_phase := False, fp_understood := (fp_mock s \<and> fp_understood s)\<rparr>
      else s)"

definition manual_effect :: "flasher_page \<Rightarrow> flasher_page \<Rightarrow> flasher_page" where
  "manual_effect before_it s = (if manual_key s \<noteq> manual_key before_it then s\<lparr>fp_manual := False\<rparr> else s)"

definition match_effect :: "flasher_page \<Rightarrow> flasher_page \<Rightarrow> flasher_page" where
  "match_effect before_it s = (if match_key s \<noteq> match_key before_it then s\<lparr>fp_match := False, fp_full_confirmed := False\<rparr> else s)"

definition board_effect :: "flasher_page \<Rightarrow> flasher_page \<Rightarrow> flasher_page" where
  "board_effect before_it s =
     (if (fp_board s, fp_custom s) \<noteq> (fp_board before_it, fp_custom before_it)
      then (let t = s\<lparr>fp_claimed := None, fp_label := None, fp_assumptions := False, fp_previous := fp_board s\<rparr> in
            if fp_previous s \<noteq> [] \<and> fp_previous s \<noteq> fp_board s then t\<lparr>fp_props_off := False, fp_backup := False\<rparr> else t)
      else s)"

definition settle :: "flasher_page \<Rightarrow> flasher_page \<Rightarrow> flasher_page" where
  "settle before_it s = board_effect before_it (match_effect before_it (manual_effect before_it (mode_effect before_it s)))"

subsection \<open>The handlers\<close>

definition inputs_disabled :: "flasher_page \<Rightarrow> bool" where
  "inputs_disabled s \<longleftrightarrow> page_flashing s \<or> fp_builder s \<or> fp_console s"

definition if_enabled :: "(flasher_page \<Rightarrow> flasher_page) \<Rightarrow> flasher_page \<Rightarrow> flasher_page" where
  "if_enabled f s = (if inputs_disabled s then s else f s)"

definition if_choosable :: "(flasher_page \<Rightarrow> flasher_page) \<Rightarrow> flasher_page \<Rightarrow> flasher_page" where
  "if_choosable f s = (if inputs_disabled s \<or> fp_picker s then s else f s)"

definition identity_arrives :: "identity_read \<Rightarrow> flasher_page \<Rightarrow> flasher_page" where
  "identity_arrives rd s =
     (let t = s\<lparr>fp_identity := rd, fp_manual := False\<rparr> in
      case iv_preselect (identity_view_of BOARD_OPTIONS rd) of
        None \<Rightarrow> t
      | Some i \<Rightarrow> if i \<noteq> [] \<and> fp_board t = [] then t\<lparr>fp_board := i\<rparr> else t)"

definition clear_file :: "flasher_page \<Rightarrow> flasher_page" where
  "clear_file s = s\<lparr>fp_file_seq := fp_file_seq s + 1, fp_match := False, fp_full_confirmed := False, fp_parse_error := False,
     fp_image := None, fp_file := None, fp_phase := False\<rparr>"

text \<open>\<open>onPickFile\<close> up to its first \<open>await\<close>; the flag of a file says whether it is larger than 8 MiB.\<close>

definition pick_file :: "(string \<times> bool) option \<Rightarrow> bool \<Rightarrow> flasher_page \<Rightarrow> flasher_page" where
  "pick_file f from_builder s =
     (if page_flashing s \<or> fp_console s \<or> fp_operation s \<or> fp_builder s \<and> \<not> from_builder then s
      else case f of
        None \<Rightarrow> (clear_file s)\<lparr>fp_loading := False\<rparr>
      | Some (name, too_big) \<Rightarrow>
          if too_big then (clear_file s)\<lparr>fp_loading := False, fp_parse_error := True\<rparr>
          else (clear_file s)\<lparr>fp_loading := True, fp_file := Some name\<rparr>)"

text \<open>The rest of it: the text of the file, or \<open>None\<close> when reading failed. Only the read of the last pick counts.\<close>

definition file_read :: "nat \<Rightarrow> string option \<Rightarrow> flasher_page \<Rightarrow> flasher_page" where
  "file_read n r s =
     (if n \<noteq> fp_file_seq s \<or> \<not> fp_loading s then s
      else (case (fp_file s, r) of
        (Some name, Some txt) \<Rightarrow>
          (case parse_ui_hex txt (mcu_hint_from_filename catalog name) of
             Inr p \<Rightarrow> s\<lparr>fp_image := Some p, fp_loading := False\<rparr>
           | Inl e \<Rightarrow> s\<lparr>fp_parse_error := True, fp_loading := False\<rparr>)
      | _ \<Rightarrow> s\<lparr>fp_parse_error := True, fp_loading := False\<rparr>))"

definition request_dfu :: "flasher_page \<Rightarrow> flasher_page" where
  "request_dfu s =
     (if fp_builder s \<or> page_flashing s \<or> fp_console s \<or> fp_picker s \<or> fp_operation s \<or> fp_mock s \<or> \<not> fp_live_ready s \<or> fp_cdc s then s
      else if \<not> fp_flasher s then s\<lparr>fp_error := Some PickerMissing\<rparr>
      else s\<lparr>fp_picker := True, fp_match := False, fp_full_confirmed := False, fp_error := None, fp_label := None, fp_claimed := None\<rparr>)"

definition device_picked :: "string + nat \<times> nat \<times> string \<Rightarrow> flasher_page \<Rightarrow> flasher_page" where
  "device_picked r s =
     (if \<not> fp_picker s then s
      else (case r of
        Inl msg \<Rightarrow> s\<lparr>fp_error := Some (PickerFailed msg), fp_picker := False\<rparr>
      | Inr (vid, pid, label) \<Rightarrow>
          if (vid, pid) \<noteq> ST_DFU then s\<lparr>fp_error := Some (DeviceRejected vid pid), fp_picker := False\<rparr>
          else s\<lparr>fp_claimed := Some (vid, pid), fp_label := Some label, fp_picker := False\<rparr>))"

definition usb_disconnected :: "flasher_page \<Rightarrow> flasher_page" where
  "usb_disconnected s =
     (let t = s\<lparr>fp_claimed := None, fp_label := None, fp_match := False, fp_full_confirmed := False\<rparr> in
      if fp_identity s = IdentityIdle then t
      else t\<lparr>fp_identity := IdentityStale ''DFU device was disconnected; a re-plugged device may be a different board'', fp_manual := False\<rparr>)"

definition build_busy :: "bool \<Rightarrow> flasher_page \<Rightarrow> flasher_page" where
  "build_busy b s = (let t = s\<lparr>fp_builder := b\<rparr> in if b then (clear_file t)\<lparr>fp_loading := False\<rparr> else t)"

text \<open>The guards of \<open>onFlash\<close>: \<open>None\<close> starts the flash, \<open>Some None\<close> does nothing, \<open>Some (Some e)\<close> shows an error.\<close>

definition flash_refusal :: "flasher_page \<Rightarrow> page_error option option" where
  "flash_refusal s =
     (if fp_builder s \<or> page_flashing s \<or> fp_console s \<or> fp_picker s \<or> fp_operation s \<or> fp_loading s then Some None
      else if page_board s = None \<or> \<not> fp_flasher s \<or> fp_image s = None \<or> \<not> fp_props_off s \<or> \<not> fp_backup s then Some None
      else if ig_blocked (page_gate s) then Some None
      else if fp_full s \<and> \<not> fp_full_confirmed s then Some (Some ConfirmFullErase)
      else if page_diagnostic s \<and> \<not> fp_assumptions s then Some None
      else if page_problem s \<noteq> None then Some (page_problem s)
      else if \<not> fp_mock s then
        (if \<not> fp_live_ready s then Some (Some LiveDisabled)
         else if fp_cdc s then Some (Some CdcConnected)
         else if \<not> st_dfu_claimed s then Some (Some NoDfuDevice)
         else if \<not> fp_match s then Some (Some ConfirmBoardMatch)
         else None)
      else if \<not> fp_understood s then Some (Some ConfirmDemo)
      else None)"

definition click_flash :: "flasher_page \<Rightarrow> flasher_page" where
  "click_flash s = (case flash_refusal s of
     Some None \<Rightarrow> s
   | Some (Some e) \<Rightarrow> s\<lparr>fp_error := Some e\<rparr>
   | None \<Rightarrow> s\<lparr>fp_operation := True, fp_busy := True, fp_error := None\<rparr>)"

definition flash_ends :: "string option \<Rightarrow> flasher_page \<Rightarrow> flasher_page" where
  "flash_ends failure s =
     (if \<not> fp_operation s then s
      else (let t = s\<lparr>fp_error := (case failure of None \<Rightarrow> fp_error s | Some m \<Rightarrow> Some (FlashFailed m)), fp_operation := False,
                      fp_full_confirmed := False, fp_busy := False\<rparr>
            in if \<not> fp_mock s then t\<lparr>fp_claimed := None, fp_label := None\<rparr> else t))"

fun page_handler :: "page_event \<Rightarrow> flasher_page \<Rightarrow> flasher_page" where
  "page_handler (ChooseBoard i) s = if_choosable (\<lambda>s. s\<lparr>fp_board := i\<rparr>) s"
| "page_handler (ChooseCustom c) s = (if page_diagnostic s then if_choosable (\<lambda>s. s\<lparr>fp_custom := c, fp_assumptions := False\<rparr>) s else s)"
| "page_handler (TickAssumptions b) s = (if page_diagnostic s \<and> custom_problem s = None then if_choosable (\<lambda>s. s\<lparr>fp_assumptions := b\<rparr>) s else s)"
| "page_handler (ToggleMock b) s = if_choosable (\<lambda>s. s\<lparr>fp_mock := b\<rparr>) s"
| "page_handler (TickUnderstood b) s = (if fp_mock s then if_enabled (\<lambda>s. s\<lparr>fp_understood := b\<rparr>) s else s)"
| "page_handler (TickProps b) s = if_enabled (\<lambda>s. s\<lparr>fp_props_off := b\<rparr>) s"
| "page_handler (TickBackup b) s = if_enabled (\<lambda>s. s\<lparr>fp_backup := b\<rparr>) s"
| "page_handler (TickMatch b) s = (if fp_mock s then s else if_enabled (\<lambda>s. s\<lparr>fp_match := b\<rparr>) s)"
| "page_handler (TickManual b) s = (if ig_needs_confirm (page_gate s) then if_enabled (\<lambda>s. s\<lparr>fp_manual := b\<rparr>) s else s)"
| "page_handler (ToggleFull b) s = if_enabled (\<lambda>s. s\<lparr>fp_full := b, fp_full_confirmed := False\<rparr>) s"
| "page_handler (TickFull b) s = (if fp_full s then if_enabled (\<lambda>s. s\<lparr>fp_full_confirmed := b\<rparr>) s else s)"
| "page_handler (IdentityArrives rd) s = identity_arrives rd s"
| "page_handler (PickFile f b) s = pick_file f b s"
| "page_handler (FileRead n r) s = file_read n r s"
| "page_handler RequestDevice s = request_dfu s"
| "page_handler (DevicePicked r) s = device_picked r s"
| "page_handler UsbDisconnected s = usb_disconnected s"
| "page_handler (ConnectionIs b) s = s\<lparr>fp_cdc := b\<rparr>"
| "page_handler (ConsoleActive b) s = s\<lparr>fp_console := b\<rparr>"
| "page_handler (BuildBusy b) s = build_busy b s"
| "page_handler (FlasherMade b) s = s\<lparr>fp_flasher := b\<rparr>"
| "page_handler (LiveReady b) s = s\<lparr>fp_live_ready := b\<rparr>"
| "page_handler (PhaseIs b) s = s\<lparr>fp_phase := b\<rparr>"
| "page_handler ClickFlash s = click_flash s"
| "page_handler (FlashEnds r) s = flash_ends r s"

definition page_step :: "page_event \<Rightarrow> flasher_page \<Rightarrow> flasher_page" where
  "page_step e s = settle s (page_handler e s)"

definition page_run :: "page_event list \<Rightarrow> flasher_page" where
  "page_run es = fold page_step es new_page"

text \<open>What a click hands on: the image and the options for the flasher, and the lock of the pages when the flash is live.\<close>

definition flash_started :: "flasher_page \<Rightarrow> (parsed_hex \<times> flash_options \<times> provider_event list) option" where
  "flash_started s =
     (case (flash_refusal s, page_board s, fp_image s) of
        (None, Some b, Some p) \<Rightarrow> Some (p, page_options b (fp_full s), if fp_mock s then [] else [SetLock True (Some (bo_id b))])
      | _ \<Rightarrow> None)"
subsection \<open>A confirmation holds for what it confirmed\<close>

text \<open>
  The interface of a confirmation: it is only ever set by its own event, and a step that leaves it set keeps what it was given
  for. Then a confirmation that is set was given, and everything since kept it. The confirmations of the page are instances.
\<close>

definition given :: "(page_event \<Rightarrow> bool) \<Rightarrow> (flasher_page \<Rightarrow> flasher_page \<Rightarrow> bool) \<Rightarrow> page_event list \<Rightarrow> bool" where
  "given tick kept es \<longleftrightarrow>
     (\<exists>a e b. es = a @ e # b \<and> tick e \<and> (\<forall>c. prefix c b \<longrightarrow> kept (page_run (a @ e # c)) (page_run es)))"

lemma page_run_snoc: "page_run (es @ [e]) = page_step e (page_run es)"
  by (simp add: page_run_def)

locale confirmation =
  fixes flag :: "flasher_page \<Rightarrow> bool" and tick :: "page_event \<Rightarrow> bool" and kept :: "flasher_page \<Rightarrow> flasher_page \<Rightarrow> bool"
  assumes off: "\<not> flag new_page"
    and refl: "kept s s"
    and trans: "kept s t \<Longrightarrow> kept t u \<Longrightarrow> kept s u"
    and step: "flag (page_step e s) \<Longrightarrow> tick e \<or> flag s \<and> kept s (page_step e s)"
begin

lemma was_given: "flag (page_run es) \<Longrightarrow> given tick kept es"
proof (induction es rule: rev_induct)
  case Nil
  then show ?case using off by (simp add: page_run_def)
next
  case (snoc e es)
  from step [of e "page_run es"] snoc.prems have "tick e \<or> flag (page_run es) \<and> kept (page_run es) (page_run (es @ [e]))"
    by (simp add: page_run_snoc)
  then show ?case
  proof
    assume "tick e"
    then show ?thesis unfolding given_def using refl by (intro exI [of _ es] exI [of _ e] exI [of _ "[]"]) simp
  next
    assume f: "flag (page_run es) \<and> kept (page_run es) (page_run (es @ [e]))"
    then obtain a x b where g: "es = a @ x # b" "tick x" "\<And>c. prefix c b \<Longrightarrow> kept (page_run (a @ x # c)) (page_run es)"
      using snoc.IH unfolding given_def by blast
    have "kept (page_run (a @ x # c)) (page_run (es @ [e]))" if "prefix c (b @ [e])" for c
    proof (cases "c = b @ [e]")
      case True
      then show ?thesis using g(1) refl by simp
    next
      case False
      then have "prefix c b" using that by (simp add: prefix_snoc)
      then show ?thesis using g(3) f trans by blast
    qed
    then show ?thesis unfolding given_def using g(1,2) by (intro exI [of _ a] exI [of _ x] exI [of _ "b @ [e]"]) simp
  qed
qed

end

lemmas handler_defs = if_enabled_def if_choosable_def identity_arrives_def clear_file_def pick_file_def file_read_def
  request_dfu_def device_picked_def usb_disconnected_def build_busy_def click_flash_def flash_ends_def Let_def

lemmas effect_defs = settle_def board_effect_def match_effect_def manual_effect_def mode_effect_def Let_def

definition same_match :: "flasher_page \<Rightarrow> flasher_page \<Rightarrow> bool" where
  "same_match s t \<longleftrightarrow> match_key s = match_key t"

definition same_manual :: "flasher_page \<Rightarrow> flasher_page \<Rightarrow> bool" where
  "same_manual s t \<longleftrightarrow> manual_key s = manual_key t"

text \<open>What the effects leave when a confirmation survives them.\<close>

lemma board_effect_keeps [simp]:
  "fp_match (board_effect s t) = fp_match t" "fp_manual (board_effect s t) = fp_manual t" "manual_key (board_effect s t) = manual_key t"
  "fp_full_confirmed (board_effect s t) = fp_full_confirmed t" "fp_board (board_effect s t) = fp_board t" "fp_custom (board_effect s t) = fp_custom t"
  "fp_understood (board_effect s t) = fp_understood t" "fp_image (board_effect s t) = fp_image t" "fp_file (board_effect s t) = fp_file t"
  "fp_mock (board_effect s t) = fp_mock t"
  by (simp_all add: board_effect_def manual_key_def Let_def)

lemma match_effect_keeps [simp]:
  "fp_manual (match_effect s t) = fp_manual t" "manual_key (match_effect s t) = manual_key t" "match_key (match_effect s t) = match_key t"
  "fp_board (match_effect s t) = fp_board t" "fp_custom (match_effect s t) = fp_custom t" "fp_props_off (match_effect s t) = fp_props_off t"
  "fp_backup (match_effect s t) = fp_backup t" "fp_claimed (match_effect s t) = fp_claimed t" "fp_assumptions (match_effect s t) = fp_assumptions t"
  "fp_understood (match_effect s t) = fp_understood t" "fp_image (match_effect s t) = fp_image t" "fp_file (match_effect s t) = fp_file t"
  "fp_mock (match_effect s t) = fp_mock t" "fp_previous (match_effect s t) = fp_previous t"
  by (simp_all add: match_effect_def manual_key_def match_key_def)

lemma manual_effect_keeps [simp]:
  "fp_match (manual_effect s t) = fp_match t" "match_key (manual_effect s t) = match_key t" "manual_key (manual_effect s t) = manual_key t"
  "fp_full_confirmed (manual_effect s t) = fp_full_confirmed t"
  "fp_board (manual_effect s t) = fp_board t" "fp_custom (manual_effect s t) = fp_custom t" "fp_props_off (manual_effect s t) = fp_props_off t"
  "fp_backup (manual_effect s t) = fp_backup t" "fp_claimed (manual_effect s t) = fp_claimed t" "fp_assumptions (manual_effect s t) = fp_assumptions t"
  "fp_understood (manual_effect s t) = fp_understood t" "fp_image (manual_effect s t) = fp_image t" "fp_file (manual_effect s t) = fp_file t"
  "fp_mock (manual_effect s t) = fp_mock t" "fp_previous (manual_effect s t) = fp_previous t"
  by (simp_all add: manual_effect_def manual_key_def match_key_def)

lemma mode_effect_keeps [simp]:
  "fp_match (mode_effect s t) = fp_match t" "fp_manual (mode_effect s t) = fp_manual t" "manual_key (mode_effect s t) = manual_key t"
  "fp_full_confirmed (mode_effect s t) = fp_full_confirmed t" "fp_mock (mode_effect s t) = fp_mock t"
  "fp_board (mode_effect s t) = fp_board t" "fp_custom (mode_effect s t) = fp_custom t" "fp_props_off (mode_effect s t) = fp_props_off t"
  "fp_backup (mode_effect s t) = fp_backup t" "fp_assumptions (mode_effect s t) = fp_assumptions t"
  "fp_image (mode_effect s t) = fp_image t" "fp_file (mode_effect s t) = fp_file t" "fp_previous (mode_effect s t) = fp_previous t"
  by (simp_all add: mode_effect_def manual_key_def)

lemma match_key_board: "match_key t = match_key s \<Longrightarrow> fp_board t = fp_board s \<and> fp_custom t = fp_custom s \<and> fp_mock t = fp_mock s"
  by (simp add: match_key_def)

text \<open>What the effects leave when a confirmation survives them.\<close>

lemma settle_held:
  assumes "fp_match (settle s t) \<or> fp_full_confirmed (settle s t)"
  shows "settle s t = manual_effect s (mode_effect s t)" "match_key (settle s t) = match_key s"
proof -
  define u where "u = manual_effect s (mode_effect s t)"
  have "fp_match (match_effect s u) \<or> fp_full_confirmed (match_effect s u)" using assms by (simp add: settle_def u_def)
  then have k: "match_key u = match_key s" by (auto simp: match_effect_def split: if_splits)
  then have "match_effect s u = u" by (simp add: match_effect_def)
  moreover have "board_effect s u = u" using match_key_board [OF k] by (simp add: board_effect_def)
  ultimately have e: "settle s t = u" by (simp add: settle_def u_def [symmetric])
  then show "settle s t = manual_effect s (mode_effect s t)" "match_key (settle s t) = match_key s"
    using k by (simp_all add: u_def)
qed

lemma settle_match: "fp_match (settle s t) \<Longrightarrow> fp_match t \<and> match_key (settle s t) = match_key s"
  using settle_held [of s t] by simp

lemma settle_full: "fp_full_confirmed (settle s t) \<Longrightarrow> fp_full_confirmed t \<and> match_key (settle s t) = match_key s"
  using settle_held [of s t] by simp

lemma settle_manual: "fp_manual (settle s t) \<Longrightarrow> fp_manual t \<and> manual_key (settle s t) = manual_key s"
  by (auto simp: settle_def manual_effect_def split: if_splits)

lemma settle_file [simp]: "fp_image (settle s t) = fp_image t" "fp_file (settle s t) = fp_file t" "fp_board (settle s t) = fp_board t"
  "fp_mock (settle s t) = fp_mock t"
  by (simp_all add: settle_def)

lemma settle_props:
  "fp_props_off (settle s t) \<Longrightarrow> fp_props_off t \<and> (fp_previous t = [] \<or> fp_previous (settle s t) = fp_previous t)"
  "fp_backup (settle s t) \<Longrightarrow> fp_backup t \<and> (fp_previous t = [] \<or> fp_previous (settle s t) = fp_previous t)"
  by (auto simp: settle_def board_effect_def Let_def split: if_splits)

lemma settle_previous: "fp_previous s = fp_board s \<Longrightarrow> fp_previous t = fp_previous s \<Longrightarrow> fp_previous (settle s t) = fp_board (settle s t)"
  by (auto simp: settle_def board_effect_def Let_def)

text \<open>What the handlers change.\<close>

lemma handler_previous: "fp_previous (page_handler e s) = fp_previous s"
  by (cases e) (auto simp: handler_defs split: option.splits sum.splits prod.splits)

lemma handler_match: "fp_match (page_handler e s) \<Longrightarrow> e = TickMatch True \<or> fp_match s"
  by (cases e) (auto simp: handler_defs split: option.splits sum.splits prod.splits if_splits)

lemma handler_full: "fp_full_confirmed (page_handler e s) \<Longrightarrow> e = TickFull True \<or> fp_full_confirmed s"
  by (cases e) (auto simp: handler_defs split: option.splits sum.splits prod.splits if_splits)

lemma handler_manual: "fp_manual (page_handler e s) \<Longrightarrow> e = TickManual True \<or> fp_manual s"
  by (cases e) (auto simp: handler_defs split: option.splits sum.splits prod.splits if_splits)

lemma handler_props: "fp_props_off (page_handler e s) \<Longrightarrow> e = TickProps True \<or> fp_props_off s"
  by (cases e) (auto simp: handler_defs split: option.splits sum.splits prod.splits if_splits)

lemma handler_backup: "fp_backup (page_handler e s) \<Longrightarrow> e = TickBackup True \<or> fp_backup s"
  by (cases e) (auto simp: handler_defs split: option.splits sum.splits prod.splits if_splits)
lemma handler_assumptions: "fp_assumptions (page_handler e s) \<Longrightarrow> e = TickAssumptions True \<or> fp_assumptions s"
  by (cases e) (auto simp: handler_defs split: option.splits sum.splits prod.splits if_splits)

definition dfu_granted :: "page_event \<Rightarrow> bool" where
  "dfu_granted e \<longleftrightarrow> (case e of DevicePicked (Inr (vid, pid, label)) \<Rightarrow> (vid, pid) = ST_DFU | _ \<Rightarrow> False)"

lemma handler_claimed: "fp_claimed (page_handler e s) = Some ST_DFU \<Longrightarrow> dfu_granted e \<or> fp_claimed s = Some ST_DFU"
  by (cases e) (auto simp: handler_defs dfu_granted_def split: option.splits sum.splits prod.splits if_splits)

lemma settle_claimed: "fp_claimed (settle s t) = Some d \<Longrightarrow>
    fp_claimed t = Some d \<and> (fp_board t, fp_custom t, fp_mock t) = (fp_board s, fp_custom s, fp_mock s)"
  by (auto simp: settle_def board_effect_def mode_effect_def Let_def split: if_splits)

lemma settle_assumptions: "fp_assumptions (settle s t) \<Longrightarrow>
    fp_assumptions t \<and> (fp_board t, fp_custom t) = (fp_board s, fp_custom s)"
  by (auto simp: settle_def board_effect_def Let_def split: if_splits)

lemma settle_custom [simp]: "fp_custom (settle s t) = fp_custom t"
  by (simp add: settle_def)

text \<open>The props and the backup are confirmed for the board, or before any board is chosen.\<close>

definition same_board :: "flasher_page \<Rightarrow> flasher_page \<Rightarrow> bool" where
  "same_board s t \<longleftrightarrow> fp_previous s = [] \<or> fp_previous t = fp_previous s"

definition same_profile :: "flasher_page \<Rightarrow> flasher_page \<Rightarrow> bool" where
  "same_profile s t \<longleftrightarrow> (fp_board s, fp_custom s) = (fp_board t, fp_custom t)"

definition same_claim :: "flasher_page \<Rightarrow> flasher_page \<Rightarrow> bool" where
  "same_claim s t \<longleftrightarrow> (fp_claimed s, fp_board s, fp_custom s, fp_mock s) = (fp_claimed t, fp_board t, fp_custom t, fp_mock t)"

interpretation match_given: confirmation fp_match "\<lambda>e. e = TickMatch True" same_match
  using settle_match handler_match by unfold_locales (auto simp: new_page_def same_match_def page_step_def)

interpretation full_given: confirmation fp_full_confirmed "\<lambda>e. e = TickFull True" same_match
  using settle_full handler_full by unfold_locales (auto simp: new_page_def same_match_def page_step_def)

interpretation manual_given: confirmation fp_manual "\<lambda>e. e = TickManual True" same_manual
  using settle_manual handler_manual by unfold_locales (auto simp: new_page_def same_manual_def page_step_def)

interpretation assumptions_given: confirmation fp_assumptions "\<lambda>e. e = TickAssumptions True" same_profile
proof unfold_locales
  fix e s assume "fp_assumptions (page_step e s)"
  then show "e = TickAssumptions True \<or> fp_assumptions s \<and> same_profile s (page_step e s)"
    using settle_assumptions [of s "page_handler e s"] handler_assumptions [of e s] by (auto simp: page_step_def same_profile_def)
qed (auto simp: new_page_def same_profile_def)

interpretation claim_given: confirmation st_dfu_claimed dfu_granted same_claim
proof unfold_locales
  fix e s assume "st_dfu_claimed (page_step e s)"
  then show "dfu_granted e \<or> st_dfu_claimed s \<and> same_claim s (page_step e s)"
    using settle_claimed [of s "page_handler e s" ST_DFU] handler_claimed [of e s] by (auto simp: page_step_def same_claim_def st_dfu_claimed_def)
qed (auto simp: new_page_def same_claim_def st_dfu_claimed_def)
interpretation props_given: confirmation fp_props_off "\<lambda>e. e = TickProps True" same_board
proof unfold_locales
  fix e s assume "fp_props_off (page_step e s)"
  then show "e = TickProps True \<or> fp_props_off s \<and> same_board s (page_step e s)"
    using settle_props(1) [of s "page_handler e s"] handler_props [of e s] by (auto simp: page_step_def same_board_def handler_previous)
qed (auto simp: new_page_def same_board_def)

interpretation backup_given: confirmation fp_backup "\<lambda>e. e = TickBackup True" same_board
proof unfold_locales
  fix e s assume "fp_backup (page_step e s)"
  then show "e = TickBackup True \<or> fp_backup s \<and> same_board s (page_step e s)"
    using settle_props(2) [of s "page_handler e s"] handler_backup [of e s] by (auto simp: page_step_def same_board_def handler_previous)
qed (auto simp: new_page_def same_board_def)

lemma page_previous: "fp_previous (page_run es) = fp_board (page_run es)"
proof (induction es rule: rev_induct)
  case Nil
  then show ?case by (simp add: page_run_def new_page_def)
next
  case (snoc e es)
  then show ?case using settle_previous [OF snoc handler_previous] by (simp add: page_run_snoc page_step_def)
qed

subsection \<open>The file of the page\<close>

definition file_parsed :: "flasher_page \<Rightarrow> bool" where
  "file_parsed s \<longleftrightarrow> (case fp_image s of None \<Rightarrow> True
     | Some p \<Rightarrow> (\<exists>name txt. fp_file s = Some name \<and> parse_ui_hex txt (mcu_hint_from_filename catalog name) = Inr p))"

lemma handler_file: "file_parsed s \<Longrightarrow> file_parsed (page_handler e s)"
  by (cases e) (auto simp: handler_defs file_parsed_def split: option.splits sum.splits prod.splits)

lemma page_file: "file_parsed (page_run es)"
proof (induction es rule: rev_induct)
  case Nil
  then show ?case by (simp add: page_run_def new_page_def file_parsed_def)
next
  case (snoc e es)
  show ?case using handler_file [OF snoc, of e] unfolding page_run_snoc page_step_def file_parsed_def settle_file .
qed

subsection \<open>When a flash starts\<close>

text \<open>What is known of a click that starts a flash; a full erase and a diagnostic image add a confirmation, a live flash three.\<close>

definition erase_confirmed :: "page_event list \<Rightarrow> flash_options \<Rightarrow> bool" where
  "erase_confirmed es opts \<longleftrightarrow> (if erase_mode opts = None then True else given (\<lambda>e. e = TickFull True) same_match es)"

definition profile_confirmed :: "page_event list \<Rightarrow> flash_options \<Rightarrow> bool" where
  "profile_confirmed es opts \<longleftrightarrow> (if image_profile opts = None then True else given (\<lambda>e. e = TickAssumptions True) same_profile es)"

definition live_confirmed :: "page_event list \<Rightarrow> bool" where
  "live_confirmed es \<longleftrightarrow> given (\<lambda>e. e = TickMatch True) same_match es \<and> given (\<lambda>e. e = TickManual True) same_manual es
     \<and> given dfu_granted same_claim es \<and> \<not> fp_cdc (page_run es)"

definition identity_fits :: "flasher_page \<Rightarrow> mcu \<Rightarrow> bool" where
  "identity_fits s m \<longleftrightarrow> (case trusted_identity (fp_identity s) of None \<Rightarrow> True | Some (i, t) \<Rightarrow> i = fp_board s \<and> mcu_token m = Some t)"

text \<open>A live flash does start: the events of a user who does everything the page asks for.\<close>

definition live_events :: "page_event list" where
  "live_events = [FlasherMade True, LiveReady True, ChooseBoard ''matek_f722_px'', TickProps True, TickBackup True,
     PickFile (Some (matek_file, False)) False, FileRead 1 (Some matek_hex), RequestDevice,
     DevicePicked (Inr (1155, 57105, ''STM32 BOOTLOADER'')), TickMatch True, TickManual True]"

definition live_page :: flasher_page where
  "live_page = new_page\<lparr>fp_flasher := True, fp_live_ready := True, fp_board := ''matek_f722_px'', fp_previous := ''matek_f722_px'',
     fp_props_off := True, fp_backup := True, fp_file := Some matek_file, fp_image := Some f7_sample, fp_file_seq := 1,
     fp_claimed := Some ST_DFU, fp_label := Some ''STM32 BOOTLOADER'', fp_match := True, fp_manual := True\<rparr>"

lemma live_events_run: "page_run live_events = live_page"
  by code_simp

lemma live_flash_starts:
  "flash_started (page_run live_events) = Some (f7_sample, page_options (BOARD_OPTIONS ! 1) False, [SetLock True (Some ''matek_f722_px'')])"
proof -
  have b: "page_board live_page = Some (BOARD_OPTIONS ! 1)"
    using matek_board by (simp add: page_board_def live_page_def new_page_def)
  have d: "\<not> bo_diagnostic (BOARD_OPTIONS ! 1) \<and> bo_id (BOARD_OPTIONS ! 1) = ''matek_f722_px''
      \<and> custom_profile ''matek_f722_px'' = None" by code_simp
  have p: "page_problem live_page = None"
    using matek_valid d by (simp add: page_problem_def custom_problem_def custom_profile_problem_def live_page_def new_page_def)
  have g: "\<not> ig_blocked (page_gate live_page)"
    unfolding page_gate_def b gate_verdict by (simp add: live_page_def new_page_def trusted_identity_def)
  have f: "\<not> fp_builder live_page" "\<not> page_flashing live_page" "\<not> fp_console live_page" "\<not> fp_picker live_page"
    "\<not> fp_operation live_page" "\<not> fp_loading live_page" "fp_flasher live_page" "fp_image live_page = Some f7_sample"
    "fp_props_off live_page" "fp_backup live_page" "\<not> fp_full live_page" "\<not> fp_mock live_page" "fp_live_ready live_page"
    "\<not> fp_cdc live_page" "st_dfu_claimed live_page" "fp_match live_page"
    by (simp_all add: live_page_def new_page_def page_flashing_def st_dfu_claimed_def)
  have "\<not> page_diagnostic live_page" using b d by (simp add: page_diagnostic_def)
  then have "flash_refusal live_page = None" unfolding flash_refusal_def using b p g f by simp
  then show ?thesis unfolding live_events_run flash_started_def using b d f by simp
qed
end
