(* ===== verification/Page_Settings.thy ===== *)
theory Page_Settings
  imports Page_Calls Cli_Snapshots
begin

section \<open>Reading and changing a setting: motorDirection.ts, rpmFilter.ts, gyroNotch.ts, loopRateSetting.ts\<close>

text \<open>
  Each action of a settings page is one composition of calls. What it returns is shown to be a function of the last
  answers in its log: nothing on the page is set before the controller has said it, and a line that changes a setting is
  answered by the controller at most once.
\<close>

subsection \<open>Motor direction\<close>

datatype direction_read = DirGot get_result | DirBusy string | DirError string

record direction_snapshot =
  ds_get :: "direction_read option"
  ds_report :: "mixer_report option"
  ds_report_busy :: "string option"
  ds_report_error :: "string option"

definition empty_direction :: direction_snapshot where
  "empty_direction = \<lparr>ds_get = None, ds_report = None, ds_report_busy = None, ds_report_error = None\<rparr>"

definition direction_busy_message :: "direction_snapshot \<Rightarrow> string option" where
  "direction_busy_message s = (case ds_get s of Some (DirBusy m) \<Rightarrow> Some m | _ \<Rightarrow> ds_report_busy s)"

definition direction_error_message :: "direction_snapshot \<Rightarrow> string option" where
  "direction_error_message s = (case ds_get s of Some (DirError m) \<Rightarrow> Some m | _ \<Rightarrow> ds_report_error s)"

definition view_get :: "direction_read option \<Rightarrow> get_result option" where
  "view_get r = (case r of Some (DirGot g) \<Rightarrow> Some g | _ \<Rightarrow> None)"

datatype sent_reply = SentReply string | SentBusy string | SentError string

definition sent_of :: "link_error + string \<Rightarrow> sent_reply" where
  "sent_of a = (case a of Inr x \<Rightarrow> SentReply x | Inl e \<Rightarrow> if busy_error e then SentBusy (error_text e) else SentError (error_text e))"

definition direction_send :: "string \<Rightarrow> sent_reply call_act" where
  "direction_send line = act_bind (attempt (gated GATE_ATTEMPTS line)) (\<lambda>a. act_ret (sent_of a))"

definition direction_read_of :: "sent_reply \<Rightarrow> direction_read" where
  "direction_read_of g = (case g of
     SentReply x \<Rightarrow> DirGot (parse_motor_direction_get_reply x) | SentBusy m \<Rightarrow> DirBusy m | SentError m \<Rightarrow> DirError m)"

definition mixer_of :: "direction_snapshot \<Rightarrow> sent_reply \<Rightarrow> direction_snapshot" where
  "mixer_of s m = (case m of
     SentBusy x \<Rightarrow> s\<lparr>ds_report_busy := Some x\<rparr>
   | SentError x \<Rightarrow> s\<lparr>ds_report_error := Some x\<rparr>
   | SentReply x \<Rightarrow> s\<lparr>ds_report := parse_mixer_report x\<rparr>)"

text \<open>The report is asked only after a reply that is no older firmware; \<open>ops\<close> collects the lines for the page.\<close>

definition direction_asks_report :: "direction_read \<Rightarrow> bool" where
  "direction_asks_report r \<longleftrightarrow> (case r of DirGot (GotValue v) \<Rightarrow> True | DirGot (GetMalformed x) \<Rightarrow> True | _ \<Rightarrow> False)"

definition read_motor_direction :: "string list \<Rightarrow> (string list \<times> direction_snapshot) call_act" where
  "read_motor_direction ops =
     act_bind (direction_send ''get motor_direction'') (\<lambda>g.
     let get = direction_read_of g; s = empty_direction\<lparr>ds_get := Some get\<rparr> in
     if \<not> direction_asks_report get then act_ret (ops @ [''get motor_direction''], s)
     else act_bind (direction_send ''mixer'') (\<lambda>m. act_ret (ops @ [''get motor_direction'', ''mixer''], mixer_of s m)))"

record direction_apply =
  da_ok :: bool
  da_fc_line :: "string option"
  da_problem :: "sent_reply option"
  da_ops :: "string list"
  da_snap :: direction_snapshot

definition MOTOR_DIRECTION_NO_REPLY :: string where
  "MOTOR_DIRECTION_NO_REPLY = ''no reply text from the controller''"

definition direction_verdict :: "direction \<Rightarrow> sent_reply \<Rightarrow> bool \<times> string option \<times> sent_reply option" where
  "direction_verdict d r = (case r of
     SentReply x \<Rightarrow>
       (case parse_motor_direction_set_reply x d of
          DirectionOk v \<Rightarrow> (True, None, None)
        | DirectionRefused u None \<Rightarrow> (False, None, Some (SentError MOTOR_DIRECTION_NO_REPLY))
        | DirectionRefused u (Some l) \<Rightarrow> (False, Some l, None))
   | p \<Rightarrow> (False, None, Some p))"

definition direction_set_line :: "direction \<Rightarrow> string" where
  "direction_set_line d = ''set motor_direction '' @ direction_text d"

definition apply_motor_direction :: "direction \<Rightarrow> direction_apply call_act" where
  "apply_motor_direction d =
     act_bind (direction_send (direction_set_line d)) (\<lambda>r.
     act_bind (read_motor_direction [direction_set_line d]) (\<lambda>(ops, snap).
     case direction_verdict d r of (ok, line, problem) \<Rightarrow>
       act_ret \<lparr>da_ok = ok, da_fc_line = line, da_problem = problem, da_ops = ops, da_snap = snap\<rparr>))"

subsection \<open>The RPM filter\<close>

datatype rpm_read = RpmGot get_result | RpmBusy string

datatype rpm_report_read = RepGot "rpm_report report_result" | RepBusy string

record rpm_snapshot =
  rs_values :: "rpm_key \<Rightarrow> rpm_read option"
  rs_report :: "rpm_report_read option"

definition empty_rpm_snapshot :: rpm_snapshot where
  "empty_rpm_snapshot = \<lparr>rs_values = (\<lambda>k. None), rs_report = None\<rparr>"

definition get_line :: "string \<Rightarrow> string" where "get_line k = ''get '' @ k"

text \<open>A value that \<open>getSetting\<close> returned: a finite number, or malformed.\<close>

definition value_read :: "string \<Rightarrow> get_result" where
  "value_read v = (if js_trim v \<noteq> [] \<and> js_finite (js_trim v) then GotValue v else GetMalformed v)"

definition rpm_read_of :: "link_error + string \<Rightarrow> rpm_read" where
  "rpm_read_of a = (case a of
     Inr v \<Rightarrow> RpmGot (value_read v)
   | Inl e \<Rightarrow> if not_sent_error e then RpmBusy (error_text e)
       else if js_includes ''unknown key'' (error_text e) then RpmGot GetUnsupported else RpmGot (GetMalformed (error_text e)))"

definition read_rpm_key :: "rpm_key \<Rightarrow> rpm_read call_act" where
  "read_rpm_key k = act_bind (attempt (gated GATE_ATTEMPTS (get_line (rpm_key_text k)))) (\<lambda>a. act_ret (rpm_read_of a))"

definition rpm_report_of :: "link_error + string \<Rightarrow> rpm_report_read option" where
  "rpm_report_of a = (case a of
     Inr x \<Rightarrow> Some (RepGot (parse_rpm_filter_report x))
   | Inl e \<Rightarrow> if not_sent_error e then Some (RepBusy (error_text e)) else None)"

definition read_rpm_report :: "rpm_report_read option call_act" where
  "read_rpm_report = act_bind (attempt (gated GATE_ATTEMPTS ''rpm_filter'')) (\<lambda>a. act_ret (rpm_report_of a))"

fun busy_of :: "rpm_read option \<Rightarrow> string option" where
  "busy_of (Some (RpmBusy m)) = Some m"
| "busy_of x = None"

fun first_some :: "'a option list \<Rightarrow> 'a option" where
  "first_some [] = None"
| "first_some (x # xs) = (case x of Some y \<Rightarrow> Some y | None \<Rightarrow> first_some xs)"

definition rpm_busy_message :: "rpm_snapshot \<Rightarrow> string option" where
  "rpm_busy_message s =
     (case first_some (List.map (\<lambda>k. busy_of (rs_values s k)) RPM_FILTER_KEYS) of
        Some m \<Rightarrow> Some m
      | None \<Rightarrow> (case rs_report s of Some (RepBusy m) \<Rightarrow> Some m | _ \<Rightarrow> None))"

text \<open>Once a read stays busy the rest is marked busy without being sent.\<close>

fun read_rpm_keys :: "rpm_key list \<Rightarrow> rpm_snapshot \<Rightarrow> rpm_snapshot call_act" where
  "read_rpm_keys [] s = act_ret s"
| "read_rpm_keys (k # ks) s =
     (case rpm_busy_message s of
        Some m \<Rightarrow> read_rpm_keys ks (s\<lparr>rs_values := (rs_values s)(k \<mapsto> RpmBusy m)\<rparr>)
      | None \<Rightarrow> act_bind (read_rpm_key k) (\<lambda>r. read_rpm_keys ks (s\<lparr>rs_values := (rs_values s)(k \<mapsto> r)\<rparr>)))"

definition read_rpm :: "rpm_snapshot call_act" where
  "read_rpm =
     act_bind (read_rpm_keys RPM_FILTER_KEYS empty_rpm_snapshot) (\<lambda>s.
     case rpm_busy_message s of
       Some m \<Rightarrow> act_ret (s\<lparr>rs_report := Some (RepBusy m)\<rparr>)
     | None \<Rightarrow> act_bind read_rpm_report (\<lambda>r. act_ret (s\<lparr>rs_report := r\<rparr>)))"

fun got_read :: "rpm_read option \<Rightarrow> get_result option" where
  "got_read (Some (RpmGot g)) = Some g"
| "got_read x = None"

fun got_report :: "rpm_report_read option \<Rightarrow> rpm_report report_result option" where
  "got_report (Some (RepGot r)) = Some r"
| "got_report x = None"

text \<open>\<open>rpmView\<close>: the view and the gate's message.\<close>

definition rpm_section :: "rpm_snapshot \<Rightarrow> nat option \<Rightarrow> rpm_view \<times> string option" where
  "rpm_section s schema =
     (if (case schema of Some n \<Rightarrow> n < 9 | None \<Rightarrow> False) then (rpm_filter_view (\<lambda>k. None) None, None)
      else (rpm_filter_view (\<lambda>k. got_read (rs_values s k)) (got_report (rs_report s)), rpm_busy_message s))"

record rpm_draft =
  rd_harmonics :: string
  rd_min_hz :: string
  rd_q :: string

definition rpm_draft_from_view :: "rpm_view \<Rightarrow> rpm_draft" where
  "rpm_draft_from_view v = (if rv_supported v then \<lparr>rd_harmonics = rv_harmonics v, rd_min_hz = rv_min_hz v, rd_q = rv_q v\<rparr>
     else \<lparr>rd_harmonics = [], rd_min_hz = [], rd_q = []\<rparr>)"

text \<open>
  \<open>rpmDraftValues\<close>: \<open>None\<close> for null; the number itself is an \<open>int option\<close> as in \<open>rpm_value_problem\<close>, \<open>None\<close> for one that
  overflows to infinity. Numbers of more than 15 digits would be rounded, which no range can tell.
\<close>

definition draft_int :: "string \<Rightarrow> int option option" where
  "draft_int s = (let t = js_trim s in if all_digits t then Some (if js_finite t then Some (int (dec_num t)) else None) else None)"

definition rpm_draft_value :: "rpm_draft \<Rightarrow> rpm_key \<Rightarrow> int option option" where
  "rpm_draft_value d k = (case k of
     RpmHarmonics \<Rightarrow> draft_int (rd_harmonics d)
   | RpmMinHz \<Rightarrow> draft_int (rd_min_hz d)
   | RpmQ \<Rightarrow> map_option (\<lambda>n. Some (int n)) (q_to_x100 (rd_q d))
   | MotorPoles \<Rightarrow> None)"

definition rpm_dirty_keys :: "rpm_view \<Rightarrow> rpm_draft \<Rightarrow> rpm_key list" where
  "rpm_dirty_keys v d =
     (if \<not> rv_supported v then []
      else (if js_trim (rd_harmonics d) \<noteq> rv_harmonics v then [RpmHarmonics] else [])
         @ (if js_trim (rd_min_hz d) \<noteq> rv_min_hz v then [RpmMinHz] else [])
         @ (if map_option show_nat (q_to_x100 (rd_q d)) \<noteq> Some (rv_q_x100 v) then [RpmQ] else []))"

datatype rpm_draft_problem = NotWhole rpm_key | NotQ | OutOfRange rpm_key rpm_problem

fun rpm_problem_in :: "rpm_draft \<Rightarrow> rpm_key list \<Rightarrow> rpm_draft_problem option" where
  "rpm_problem_in d [] = None"
| "rpm_problem_in d (k # ks) = (case rpm_draft_value d k of
     None \<Rightarrow> Some (if k = RpmQ then NotQ else NotWhole k)
   | Some n \<Rightarrow> (case rpm_value_problem k n of Some p \<Rightarrow> Some (OutOfRange k p) | None \<Rightarrow> rpm_problem_in d ks))"

definition rpm_draft_problem_of :: "rpm_view \<Rightarrow> rpm_draft \<Rightarrow> rpm_draft_problem option" where
  "rpm_draft_problem_of v d = rpm_problem_in d (rpm_dirty_keys v d)"

record rpm_apply =
  ra_fc_line :: "string option"
  ra_ops :: "string list"
  ra_snap :: rpm_snapshot

definition rpm_set_line :: "rpm_key \<Rightarrow> nat \<Rightarrow> string" where
  "rpm_set_line k n = ''set '' @ rpm_key_text k @ '' '' @ show_nat n"

definition apply_rpm_setting :: "rpm_snapshot \<Rightarrow> rpm_key \<Rightarrow> nat \<Rightarrow> rpm_apply call_act" where
  "apply_rpm_setting s k n =
     act_bind (attempt (gated GATE_ATTEMPTS (rpm_set_line k n))) (\<lambda>a.
     act_bind (read_rpm_key k) (\<lambda>v.
     act_bind read_rpm_report (\<lambda>rep.
     act_ret \<lparr>ra_fc_line = (case a of Inl e \<Rightarrow> Some (error_text e) | Inr x \<Rightarrow> None),
              ra_ops = [rpm_set_line k n, get_line (rpm_key_text k), ''rpm_filter''],
              ra_snap = \<lparr>rs_values = (rs_values s)(k \<mapsto> v), rs_report = rep\<rparr>\<rparr>)))"

subsection \<open>What the page holds is what was answered\<close>

definition last_answer :: "call_event list \<Rightarrow> link_error + string" where
  "last_answer w = (case last w of Answered l a \<Rightarrow> a | Asked l \<Rightarrow> Inl (OtherError []))"

lemma attempt_gated:
  assumes "attempt (gated n line) s = (r, t)"
  shows "\<exists>w. cl_log t = cl_log s @ w \<and> retried n line w
    \<and> (case r of Inr a \<Rightarrow> w \<noteq> [] \<and> last_answer w = a | Inl x \<Rightarrow> x \<in> {CallWaiting, CallCancelled})"
proof -
  obtain q u where g: "gated n line s = (q, u)" by fastforce
  show ?thesis using gated_log [OF g] assms g
    by (cases q) (auto simp: attempt_def last_answer_def split: call_exn.splits)
qed

lemma answers_for_append [simp]: "answers_for l (v @ w) = answers_for l v @ answers_for l w"
  by (simp add: answers_for_def)

lemma answers_for_other: "retried n k w \<Longrightarrow> k \<noteq> l \<Longrightarrow> answers_for l w = []"
  by (induction n k w rule: retried.induct) (auto simp: answers_for_def)

lemma direction_send_log:
  assumes "direction_send line s = (r, t)"
  shows "\<exists>w. cl_log t = cl_log s @ w \<and> retried GATE_ATTEMPTS line w
    \<and> (case r of Inr x \<Rightarrow> w \<noteq> [] \<and> sent_of (last_answer w) = x | Inl x \<Rightarrow> x \<in> {CallWaiting, CallCancelled})"
proof -
  obtain q u where a: "attempt (gated GATE_ATTEMPTS line) s = (q, u)" by fastforce
  show ?thesis using attempt_gated [OF a] assms a by (cases q) (auto simp: direction_send_def act_bind_def)
qed

definition direction_shown :: "call_event list \<Rightarrow> call_event list \<Rightarrow> direction_snapshot" where
  "direction_shown w2 w3 =
     (let get = direction_read_of (sent_of (last_answer w2)); s = empty_direction\<lparr>ds_get := Some get\<rparr> in
      if direction_asks_report get then mixer_of s (sent_of (last_answer w3)) else s)"

lemma read_motor_direction_log:
  assumes "read_motor_direction ops s = (r, t)"
  shows "\<exists>w2 w3. cl_log t = cl_log s @ w2 @ w3 \<and> retried GATE_ATTEMPTS ''get motor_direction'' w2 \<and> retried GATE_ATTEMPTS ''mixer'' w3
    \<and> (case r of Inr (ops', snap) \<Rightarrow> w2 \<noteq> [] \<and> snap = direction_shown w2 w3 | Inl x \<Rightarrow> x \<in> {CallWaiting, CallCancelled})"
proof -
  obtain q u where g: "direction_send ''get motor_direction'' s = (q, u)" by fastforce
  obtain w2 where w2: "cl_log u = cl_log s @ w2" "retried GATE_ATTEMPTS ''get motor_direction'' w2"
    "case q of Inr x \<Rightarrow> w2 \<noteq> [] \<and> sent_of (last_answer w2) = x | Inl x \<Rightarrow> x \<in> {CallWaiting, CallCancelled}"
    using direction_send_log [OF g] by blast
  show ?thesis
  proof (cases q)
    case (Inl x)
    then have "r = Inl x" "t = u" using assms g by (simp_all add: read_motor_direction_def act_bind_def)
    then show ?thesis using w2 Inl by (intro exI [of _ w2] exI [of _ "[]"]) simp
  next
    case (Inr x)
    note m = assms [unfolded read_motor_direction_def act_bind_def g Inr]
    show ?thesis
    proof (cases "direction_asks_report (direction_read_of x)")
      case False
      then show ?thesis using m w2 Inr by (intro exI [of _ w2] exI [of _ "[]"]) (auto simp: Let_def direction_shown_def)
    next
      case True
      obtain p v where p: "direction_send ''mixer'' u = (p, v)" by fastforce
      obtain w3 where w3: "cl_log v = cl_log u @ w3" "retried GATE_ATTEMPTS ''mixer'' w3"
        "case p of Inr x \<Rightarrow> w3 \<noteq> [] \<and> sent_of (last_answer w3) = x | Inl x \<Rightarrow> x \<in> {CallWaiting, CallCancelled}"
        using direction_send_log [OF p] by blast
      then show ?thesis using True m w2 Inr p
        by (intro exI [of _ w2] exI [of _ w3]) (cases p, auto simp: Let_def act_bind_def direction_shown_def)
    qed
  qed
qed


subsection \<open>Reading the RPM filter\<close>

text \<open>An answer of the gate itself: the line never reached the controller.\<close>

definition gate_answer :: "link_error + string \<Rightarrow> bool" where
  "gate_answer a \<longleftrightarrow> (case a of Inl e \<Rightarrow> not_sent_error e | Inr x \<Rightarrow> False)"

lemma attempt_gated_last:
  assumes "attempt (gated n line) s = (Inr a, t)"
  shows "\<exists>w. cl_log t = cl_log s @ w \<and> retried n line w \<and> w \<noteq> [] \<and> last w = Answered line a"
proof -
  obtain q u where g: "gated n line s = (q, u)" by fastforce
  show ?thesis using gated_log [OF g] assms g by (cases q) (auto simp: attempt_def split: call_exn.splits)
qed

lemma attempt_stops: "attempt (gated n line) s = (Inl x, t) \<Longrightarrow> x \<in> {CallWaiting, CallCancelled} \<and> (\<exists>w. cl_log t = cl_log s @ w)"
  using attempt_gated [of n line s "Inl x" t] by auto

definition key_read :: "call_event list \<Rightarrow> rpm_snapshot \<Rightarrow> rpm_key \<Rightarrow> bool" where
  "key_read w sn k \<longleftrightarrow> (\<exists>a. Answered (get_line (rpm_key_text k)) a \<in> set w \<and> \<not> gate_answer a \<and> rs_values sn k = Some (rpm_read_of a))"

definition ends_refused :: "call_event list \<Rightarrow> string \<Rightarrow> bool" where
  "ends_refused w m \<longleftrightarrow> (\<exists>l e. w \<noteq> [] \<and> last w = Answered l (Inl e) \<and> not_sent_error e \<and> m = error_text e)"

lemma busy_message_set:
  "rpm_busy_message s = Some m \<Longrightarrow> rpm_busy_message (s\<lparr>rs_values := (rs_values s)(k \<mapsto> RpmBusy m)\<rparr>) = Some m"
  by (cases k) (auto simp: rpm_busy_message_def RPM_FILTER_KEYS_def split: option.splits)

lemma busy_message_got:
  "rpm_busy_message s = None \<Longrightarrow> rpm_busy_message (s\<lparr>rs_values := (rs_values s)(k \<mapsto> RpmGot g)\<rparr>) = None"
  by (cases k) (auto simp: rpm_busy_message_def RPM_FILTER_KEYS_def split: option.splits rpm_report_read.splits)

lemma busy_message_new:
  "rpm_busy_message s = None \<Longrightarrow> rpm_busy_message (s\<lparr>rs_values := (rs_values s)(k \<mapsto> RpmBusy m)\<rparr>) = Some m"
  by (cases k) (auto simp: rpm_busy_message_def RPM_FILTER_KEYS_def split: option.splits rpm_report_read.splits)

lemma read_rpm_keys_busy:
  "rpm_busy_message sn = Some m \<Longrightarrow> \<exists>sn'. read_rpm_keys ks sn s = (Inr sn', s) \<and> rpm_busy_message sn' = Some m"
  using busy_message_set by (induction ks arbitrary: sn) (auto simp: act_ret_def)

lemma rpm_read_of_got: "rpm_read_of a = RpmGot g \<Longrightarrow> \<not> gate_answer a"
  by (auto simp: rpm_read_of_def gate_answer_def split: sum.splits if_split_asm)

lemma rpm_read_of_busy: "rpm_read_of a = RpmBusy m \<Longrightarrow> \<exists>e. a = Inl e \<and> not_sent_error e \<and> m = error_text e"
  by (auto simp: rpm_read_of_def split: sum.splits if_split_asm)

lemma read_rpm_keys_log:
  assumes "read_rpm_keys ks sn s = (r, t)" and "rpm_busy_message sn = None" and "distinct ks"
  shows "\<exists>w. cl_log t = cl_log s @ w
    \<and> (case r of
         Inl x \<Rightarrow> x \<in> {CallWaiting, CallCancelled}
       | Inr sn' \<Rightarrow> rs_report sn' = rs_report sn \<and> (\<forall>k. k \<notin> set ks \<longrightarrow> rs_values sn' k = rs_values sn k)
           \<or> rpm_busy_message sn' \<noteq> None)
    \<and> (case r of
         Inl x \<Rightarrow> True
       | Inr sn' \<Rightarrow> (case rpm_busy_message sn' of None \<Rightarrow> \<forall>k \<in> set ks. key_read w sn' k | Some m \<Rightarrow> ends_refused w m))"
  using assms
proof (induction ks arbitrary: sn s)
  case (Cons k ks)
  obtain q u where a: "attempt (gated GATE_ATTEMPTS (get_line (rpm_key_text k))) s = (q, u)" by fastforce
  show ?case
  proof (cases q)
    case (Inl x)
    then have "r = Inl x" "t = u" using Cons.prems a by (simp_all add: read_rpm_key_def act_bind_def)
    then show ?thesis using attempt_stops [of _ _ s x u] a Inl by auto
  next
    case (Inr ans)
    obtain w1 where w1: "cl_log u = cl_log s @ w1" "w1 \<noteq> []" "last w1 = Answered (get_line (rpm_key_text k)) ans"
      using attempt_gated_last a Inr by blast
    let ?sn = "sn\<lparr>rs_values := (rs_values sn)(k \<mapsto> rpm_read_of ans)\<rparr>"
    have rec: "read_rpm_keys ks ?sn u = (r, t)"
      using Cons.prems(1,2) a Inr by (simp add: read_rpm_key_def act_bind_def act_ret_def)
    show ?thesis
    proof (cases "rpm_read_of ans")
      case (RpmBusy m)
      have b: "rpm_busy_message ?sn = Some m" using busy_message_new [OF Cons.prems(2)] RpmBusy by simp
      obtain sn' where e: "read_rpm_keys ks ?sn u = (Inr sn', u)" "rpm_busy_message sn' = Some m" using read_rpm_keys_busy [OF b] by blast
      have "ends_refused w1 m" using w1 rpm_read_of_busy [OF RpmBusy] by (auto simp: ends_refused_def)
      moreover have "r = Inr sn'" "t = u" using rec e(1) by simp_all
      ultimately show ?thesis using w1(1) e(2) by auto
    next
      case (RpmGot g)
      have n: "rpm_busy_message ?sn = None" using busy_message_got [OF Cons.prems(2)] RpmGot by simp
      obtain w2 where w2: "cl_log t = cl_log u @ w2"
        "case r of Inl x \<Rightarrow> x \<in> {CallWaiting, CallCancelled}
         | Inr sn' \<Rightarrow> rs_report sn' = rs_report ?sn \<and> (\<forall>k. k \<notin> set ks \<longrightarrow> rs_values sn' k = rs_values ?sn k) \<or> rpm_busy_message sn' \<noteq> None"
        "case r of Inl x \<Rightarrow> True
         | Inr sn' \<Rightarrow> (case rpm_busy_message sn' of None \<Rightarrow> \<forall>k \<in> set ks. key_read w2 sn' k | Some m \<Rightarrow> ends_refused w2 m)"
        using Cons.IH [OF rec n] Cons.prems(3) by auto
      have ng: "\<not> gate_answer ans" using rpm_read_of_got [OF RpmGot] .
      have mine: "Answered (get_line (rpm_key_text k)) ans \<in> set w1" using w1(2,3) last_in_set by metis
      show ?thesis
      proof (cases r)
        case (Inl x)
        then show ?thesis using w1(1) w2 by auto
      next
        case (Inr sn')
        show ?thesis
        proof (cases "rpm_busy_message sn'")
          case None
          have same: "rs_report sn' = rs_report sn" "\<forall>j. j \<notin> set ks \<longrightarrow> rs_values sn' j = rs_values ?sn j" using w2(2) Inr None by auto
          have "key_read (w1 @ w2) sn' k" using mine ng same(2) Cons.prems(3) by (auto simp: key_read_def)
          moreover have "key_read (w1 @ w2) sn' j" if "j \<in> set ks" for j using w2(3) Inr None that by (auto simp: key_read_def)
          ultimately show ?thesis using w1(1) w2(1) Inr None same by (intro exI [of _ "w1 @ w2"]) auto
        next
          case (Some m)
          then have "ends_refused (w1 @ w2) m" using w2(3) Inr by (auto simp: ends_refused_def)
          then show ?thesis using w1(1) w2(1) Inr Some by (intro exI [of _ "w1 @ w2"]) auto
        qed
      qed
    qed
  qed
qed (auto simp: ends_refused_def)


text \<open>Changing an RPM setting: the controller answers the set line at most once whatever the gate does; the action returns
  the refusal line of the last answer to it, if any, and then the value and the report asked for after it.\<close>
theorem rpm_apply_truth:
  "case apply_rpm_setting sn k n s of (r, t) \<Rightarrow>
     \<exists>w1 w2 w3. cl_log t = cl_log s @ w1 @ w2 @ w3
     \<and> retried 30 (rpm_set_line k n) w1 \<and> retried 30 (get_line (rpm_key_text k)) w2 \<and> retried 30 ''rpm_filter'' w3
     \<and> length (filter (\<lambda>a. \<not> busy_answer a) (answers_for (rpm_set_line k n) (w1 @ w2 @ w3))) \<le> 1
     \<and> (case r of
          Inr res \<Rightarrow> w1 \<noteq> [] \<and> w2 \<noteq> [] \<and> w3 \<noteq> []
            \<and> ra_fc_line res = (case last_answer w1 of Inl e \<Rightarrow> Some (error_text e) | Inr x \<Rightarrow> None)
            \<and> ra_snap res = \<lparr>rs_values = (rs_values sn)(k \<mapsto> rpm_read_of (last_answer w2)), rs_report = rpm_report_of (last_answer w3)\<rparr>
        | Inl x \<Rightarrow> x \<in> {CallWaiting, CallCancelled})"
proof (cases "apply_rpm_setting sn k n s")
  case (Pair r t)
  let ?line = "rpm_set_line k n"
  have other: "get_line (rpm_key_text k) \<noteq> ?line" "''rpm_filter'' \<noteq> ?line" by (simp_all add: rpm_set_line_def get_line_def)
  have once: "length (filter (\<lambda>a. \<not> busy_answer a) (answers_for ?line (w1 @ w2 @ w3))) \<le> 1"
    if "retried 30 ?line w1" "retried 30 (get_line (rpm_key_text k)) w2" "retried 30 ''rpm_filter'' w3" for w1 w2 w3
    using retried_once [OF that(1)] answers_for_other [OF that(2) other(1)] answers_for_other [OF that(3) other(2)] by simp
  obtain q u where a: "attempt (gated GATE_ATTEMPTS ?line) s = (q, u)" by fastforce
  obtain w1 where w1: "cl_log u = cl_log s @ w1" "retried 30 ?line w1"
    "case q of Inr a \<Rightarrow> w1 \<noteq> [] \<and> last_answer w1 = a | Inl x \<Rightarrow> x \<in> {CallWaiting, CallCancelled}"
    using attempt_gated [OF a] by (auto simp: GATE_ATTEMPTS_def)
  show ?thesis
  proof (cases q)
    case (Inl x)
    then have "r = Inl x" "t = u" using Pair a by (simp_all add: apply_rpm_setting_def act_bind_def)
    then show ?thesis unfolding Pair prod.case using w1 Inl once [of w1 "[]" "[]"]
      by - (rule exI [of _ w1], rule exI [of _ "[]"], rule exI [of _ "[]"], simp)
  next
    case (Inr ans)
    obtain p v where b: "attempt (gated GATE_ATTEMPTS (get_line (rpm_key_text k))) u = (p, v)" by fastforce
    obtain w2 where w2: "cl_log v = cl_log u @ w2" "retried 30 (get_line (rpm_key_text k)) w2"
      "case p of Inr a \<Rightarrow> w2 \<noteq> [] \<and> last_answer w2 = a | Inl x \<Rightarrow> x \<in> {CallWaiting, CallCancelled}"
      using attempt_gated [OF b] by (auto simp: GATE_ATTEMPTS_def)
    show ?thesis
    proof (cases p)
      case (Inl x)
      then have "r = Inl x" "t = v" using Pair a b Inr by (simp_all add: apply_rpm_setting_def read_rpm_key_def act_bind_def)
      then show ?thesis unfolding Pair prod.case using w1 w2 Inl once [of w1 w2 "[]"]
        by - (rule exI [of _ w1], rule exI [of _ w2], rule exI [of _ "[]"], simp)
    next
      case (Inr val)
      obtain z y where c: "attempt (gated GATE_ATTEMPTS ''rpm_filter'') v = (z, y)" by fastforce
      obtain w3 where w3: "cl_log y = cl_log v @ w3" "retried 30 ''rpm_filter'' w3"
        "case z of Inr a \<Rightarrow> w3 \<noteq> [] \<and> last_answer w3 = a | Inl x \<Rightarrow> x \<in> {CallWaiting, CallCancelled}"
        using attempt_gated [OF c] by (auto simp: GATE_ATTEMPTS_def)
      have t: "t = y" "case z of Inl x \<Rightarrow> r = Inl x
        | Inr rep \<Rightarrow> \<exists>ops. r = Inr \<lparr>ra_fc_line = (case ans of Inl e \<Rightarrow> Some (error_text e) | Inr x \<Rightarrow> None), ra_ops = ops,
            ra_snap = \<lparr>rs_values = (rs_values sn)(k \<mapsto> rpm_read_of val), rs_report = rpm_report_of rep\<rparr>\<rparr>"
        using Pair a b c \<open>q = Inr ans\<close> Inr
        by (cases z, auto simp: apply_rpm_setting_def read_rpm_key_def read_rpm_report_def act_bind_def act_ret_def)+
      show ?thesis unfolding Pair prod.case using w1 w2 w3 \<open>q = Inr ans\<close> Inr once [OF w1(2) w2(2) w3(2)] t
        by - (rule exI [of _ w1], rule exI [of _ w2], rule exI [of _ w3], cases z, auto)
    qed
  qed
qed

subsection \<open>Numbers of an input field\<close>

text \<open>
  \<open>Number(s)\<close> of a text: the rational that the double holds, \<open>None\<close> when it is not finite. A decimal is rounded to the
  nearest multiple of the unit in its last place, ties to even, with the exponent of the subnormals as a floor.
\<close>

fun bit_length :: "nat \<Rightarrow> nat" where
  "bit_length n = (if n = 0 then 0 else Suc (bit_length (n div 2)))"

declare bit_length.simps [simp del]

definition round_even :: "nat \<Rightarrow> nat \<Rightarrow> nat" where
  "round_even a b = (let q = a div b; r = a mod b in if 2 * r < b \<or> 2 * r = b \<and> even q then q else Suc q)"

definition double_exponent :: "nat \<Rightarrow> nat \<Rightarrow> int" where
  "double_exponent a b =
     (let d = int (bit_length a) - int (bit_length b);
          below = (if 0 \<le> d then a < b * 2 ^ nat d else a * 2 ^ nat (- d) < b)
      in max ((if below then d - 1 else d) - 52) (- 1074))"

definition to_double :: "nat \<Rightarrow> nat \<Rightarrow> rat" where
  "to_double a b =
     (let k = double_exponent a b in
      if 0 \<le> k then of_nat (round_even a (b * 2 ^ nat k) * 2 ^ nat k)
      else of_nat (round_even (a * 2 ^ nat (- k)) b) / of_nat (2 ^ nat (- k)))"

definition js_value :: "string \<Rightarrow> rat option" where
  "js_value s =
     (let t = js_trim s in
      if \<not> js_finite t then None
      else (case js_number t of
        None \<Rightarrow> None
      | Some (m, e) \<Rightarrow>
          (let v = (if 0 \<le> e then to_double (m * 10 ^ nat e) 1 else to_double m (10 ^ nat (- e)))
           in Some (if fst (drop_sign t) then - v else v))))"

text \<open>\<open>String(n)\<close> of an integer below \<open>2 ^ 53\<close>, and \<open>n.toFixed(6)\<close> without its trailing zeros.\<close>

definition sign_text :: "rat \<Rightarrow> string" where
  "sign_text n = (if n < 0 then ''-'' else [])"

fun drop_zeros :: "string \<Rightarrow> string" where
  "drop_zeros [] = []"
| "drop_zeros (c # cs) = (case drop_zeros cs of [] \<Rightarrow> if c = CHR ''0'' then [] else [c] | r \<Rightarrow> c # r)"

definition strip_decimals :: "string \<Rightarrow> string" where
  "strip_decimals s =
     (let t = drop_zeros s in if t = s then s else if t \<noteq> [] \<and> last t = CHR ''.'' then butlast t else t)"

definition format_notch_value :: "rat \<Rightarrow> string" where
  "format_notch_value n =
     (if is_whole n then sign_text n @ show_nat (nat \<lfloor>\<bar>n\<bar>\<rfloor>)
      else (let m = nat \<lfloor>\<bar>n\<bar> * 1000000 + 1 / 2\<rfloor>;
                s = sign_text n @ show_nat (m div 1000000) @ ''.'' @ pad_start 6 (CHR ''0'') (show_nat (m mod 1000000));
                t = strip_decimals s
            in if t = [] then ''0'' else t))"

subsection \<open>The gyro notches\<close>

text \<open>\<open>readKey\<close>: nothing is known of a key whose line never reached the controller; the first such message is kept.\<close>

record notch_snapshot =
  ns_values :: "notch_index \<Rightarrow> get_result option \<times> get_result option"
  ns_report :: "filters_report report_result option"
  ns_schema :: "nat option"
  ns_fc_dirty :: "bool option"
  ns_not_read :: "string option"

definition empty_notches :: notch_snapshot where
  "empty_notches = \<lparr>ns_values = (\<lambda>i. (None, None)), ns_report = None, ns_schema = None, ns_fc_dirty = None, ns_not_read = None\<rparr>"

definition notch_read_of :: "link_error + string \<Rightarrow> get_result option" where
  "notch_read_of a = (case a of
     Inr v \<Rightarrow> Some (value_read v)
   | Inl e \<Rightarrow> if not_sent_error e then None
       else Some (if js_includes ''unknown key'' (error_text e) then GetUnsupported else GetMalformed (error_text e)))"

definition note_not_read :: "link_error + string \<Rightarrow> notch_snapshot \<Rightarrow> notch_snapshot" where
  "note_not_read a s = (case a of
     Inl e \<Rightarrow> if not_sent_error e \<and> ns_not_read s = None then s\<lparr>ns_not_read := Some (error_text e)\<rparr> else s
   | Inr x \<Rightarrow> s)"

definition read_notch_pair :: "notch_index \<Rightarrow> notch_snapshot \<Rightarrow> notch_snapshot call_act" where
  "read_notch_pair i s =
     act_bind (attempt (host_call (get_line (notch_center_key i)))) (\<lambda>c.
     act_bind (attempt (host_call (get_line (notch_cutoff_key i)))) (\<lambda>f.
     act_ret (note_not_read f (note_not_read c s)\<lparr>ns_values := (ns_values s)(i := (notch_read_of c, notch_read_of f))\<rparr>)))"

text \<open>\<open>/^schema: (\d+)\r?$/m\<close>: a line of the reply, whatever ends its lines.\<close>

definition declared_schema :: "string \<Rightarrow> nat option" where
  "declared_schema raw =
     (case find (\<lambda>l. prefix ''schema: '' l \<and> all_digits (drop 8 l)) (concat (List.map (split_char CR) (split_char LF raw))) of
        Some l \<Rightarrow> Some (dec_num (drop 8 l))
      | None \<Rightarrow> None)"

definition note_storage :: "link_error + string \<Rightarrow> notch_snapshot \<Rightarrow> notch_snapshot" where
  "note_storage a s = (case a of
     Inl e \<Rightarrow> note_not_read a s
   | Inr raw \<Rightarrow>
       if (case declared_schema raw of Some n \<Rightarrow> n \<noteq> STORAGE_SCHEMA | None \<Rightarrow> False) then s\<lparr>ns_schema := Some 0\<rparr>
       else (case parse_storage raw of
         Inl e \<Rightarrow> s
       | Inr st \<Rightarrow> s\<lparr>ns_schema := Some STORAGE_SCHEMA, ns_fc_dirty := Some (dirty st)\<rparr>))"

definition note_report :: "link_error + string \<Rightarrow> notch_snapshot \<Rightarrow> notch_snapshot" where
  "note_report a s = (case a of
     Inr x \<Rightarrow> s\<lparr>ns_report := Some (parse_filters_report x)\<rparr>
   | Inl e \<Rightarrow> note_not_read a (s\<lparr>ns_report := None\<rparr>))"

definition read_notches :: "notch_snapshot call_act" where
  "read_notches =
     act_bind (read_notch_pair Notch1 empty_notches) (\<lambda>s1.
     act_bind (read_notch_pair Notch2 s1) (\<lambda>s2.
     act_bind (attempt (host_call ''filters'')) (\<lambda>f.
     act_bind (attempt (host_call ''storage'')) (\<lambda>st.
     act_ret (note_storage st (note_report f s2))))))"

definition notches_supported :: "notch_snapshot \<Rightarrow> bool" where
  "notches_supported s =
     (if (case ns_schema s of Some n \<Rightarrow> n < 8 | None \<Rightarrow> False) then False
      else list_all (\<lambda>i. got_value (fst (ns_values s i)) \<noteq> None \<and> got_value (snd (ns_values s i)) \<noteq> None) [Notch1, Notch2])"

definition notch_rows :: "notch_snapshot \<Rightarrow> notch_row_view list" where
  "notch_rows s = List.map (\<lambda>i.
     (let v = notch_row i (fst (ns_values s i)) (snd (ns_values s i)) (ns_report s) in
      if notches_supported s then v
      else v\<lparr>row_supported := False, row_center := ''unknown'', row_cutoff := ''unknown'', row_off := None, row_cutoff_disabled := True,
             row_active := ''unknown'', row_reason := ''unknown''\<rparr>)) [Notch1, Notch2]"

record notch_draft =
  nd_enabled :: bool
  nd_center :: string
  nd_cutoff :: string

definition draft_from_row :: "notch_row_view \<Rightarrow> notch_draft" where
  "draft_from_row r =
     (if \<not> row_supported r then \<lparr>nd_enabled = False, nd_center = [], nd_cutoff = []\<rparr>
      else \<lparr>nd_enabled = (row_off r = Some False), nd_center = (if row_off r = Some False then row_center r else []), nd_cutoff = row_cutoff r\<rparr>)"

definition loaded_pair :: "notch_row_view \<Rightarrow> notch_pair option" where
  "loaded_pair r =
     (if \<not> row_supported r then None
      else (case (js_value (row_center r), js_value (row_cutoff r)) of
        (Some c, Some f) \<Rightarrow> Some \<lparr>center = c, cutoff = f\<rparr> | _ \<Rightarrow> None))"

definition field_number :: "string \<Rightarrow> rat option" where
  "field_number s = (if js_trim s = [] then None else js_value s)"

definition draft_pair :: "notch_draft \<Rightarrow> notch_pair option" where
  "draft_pair d = (case field_number (nd_cutoff d) of
     None \<Rightarrow> None
   | Some f \<Rightarrow>
       if \<not> nd_enabled d then Some \<lparr>center = 0, cutoff = f\<rparr>
       else (case field_number (nd_center d) of Some c \<Rightarrow> Some \<lparr>center = c, cutoff = f\<rparr> | None \<Rightarrow> None))"

datatype draft_issue = NeedNumbers | NeedCenter | PairIssue notch_problem

definition draft_problem :: "notch_draft \<Rightarrow> draft_issue option" where
  "draft_problem d = (case draft_pair d of
     None \<Rightarrow> Some NeedNumbers
   | Some p \<Rightarrow>
       if nd_enabled d \<and> center p = 0 then Some NeedCenter
       else map_option PairIssue (notch_pair_problem (Some (center p)) (Some (cutoff p))))"

definition draft_dirty :: "notch_row_view \<Rightarrow> notch_draft \<Rightarrow> bool" where
  "draft_dirty r d =
     (if \<not> row_supported r then False
      else (case (loaded_pair r, draft_pair d) of
        (Some cur, Some next1) \<Rightarrow> center cur \<noteq> center next1 \<or> cutoff cur \<noteq> cutoff next1 | _ \<Rightarrow> True))"

text \<open>\<open>applyNotch\<close>: the lines of the plan, up to the first that does not succeed.\<close>

definition notch_step_line :: "string \<times> rat \<Rightarrow> string" where
  "notch_step_line st = ''set '' @ fst st @ '' '' @ format_notch_value (snd st)"

fun apply_steps :: "(string \<times> rat) list \<Rightarrow> string list \<Rightarrow> (string list \<times> string option) call_act" where
  "apply_steps [] sent = act_ret (sent, None)"
| "apply_steps (st # sts) sent =
     act_bind (attempt (host_call (notch_step_line st))) (\<lambda>a.
     case a of
       Inl e \<Rightarrow> act_ret (sent @ [notch_step_line st], Some (error_text e))
     | Inr v \<Rightarrow> apply_steps sts (sent @ [notch_step_line st]))"

definition apply_notch :: "notch_index \<Rightarrow> notch_pair option \<Rightarrow> notch_pair \<Rightarrow> (string list \<times> string option) call_act" where
  "apply_notch i held next1 = apply_steps (notch_write_plan i held next1) []"

text \<open>\<open>requestRefresh\<close> of storageRefresh.ts and \<open>requestFiltersReload\<close>: each question is put to the user only when its guard applies.\<close>

definition request_refresh :: "bool \<Rightarrow> bool \<Rightarrow> bool" where
  "request_refresh fc_dirty confirms = (if fc_dirty \<and> \<not> confirms then False else True)"

definition request_filters_reload :: "bool \<Rightarrow> bool option \<Rightarrow> bool \<Rightarrow> bool \<Rightarrow> bool" where
  "request_filters_reload page_dirty fc_dirty discard reload =
     (if page_dirty \<and> \<not> discard then False else request_refresh (fc_dirty = Some True) reload)"

subsection \<open>The loop-rate setting\<close>

datatype loop_note = NoLoopNote | LoopSelected | LoopSaved

datatype loop_issue = NoLoopIssue | NotAvailable | RefusedWith string | SaveFailed string

record loop_setting =
  lo_get :: "loop_get option"
  lo_report :: "loop_report option"
  lo_note :: loop_note
  lo_issue :: loop_issue

definition empty_loop_setting :: loop_setting where
  "empty_loop_setting = \<lparr>lo_get = None, lo_report = None, lo_note = NoLoopNote, lo_issue = NoLoopIssue\<rparr>"

definition read_loop_setting :: "loop_setting call_act" where
  "read_loop_setting =
     act_bind (host_call ''get loop_rate_hz'') (\<lambda>raw.
     let get = parse_loop_rate_get_reply raw in
     case get of
       LoopValue v \<Rightarrow> act_bind (host_call ''loop_rate'') (\<lambda>rep.
         act_ret (empty_loop_setting\<lparr>lo_get := Some get, lo_report := parse_loop_rate_report rep\<rparr>))
     | _ \<Rightarrow> act_ret (empty_loop_setting\<lparr>lo_get := Some get\<rparr>))"

definition loop_set_line :: "loop_option \<Rightarrow> string" where
  "loop_set_line v = ''set loop_rate_hz '' @ option_text v"

definition select_loop_rate :: "loop_setting \<Rightarrow> loop_option \<Rightarrow> loop_setting call_act" where
  "select_loop_rate held v =
     (case lo_get held of
        Some (LoopValue x) \<Rightarrow>
          act_bind (host_call (loop_set_line v)) (\<lambda>raw.
          act_bind read_loop_setting (\<lambda>nxt.
          act_ret (case parse_loop_rate_set_reply raw v of
            LoopSetOk y b \<Rightarrow> nxt\<lparr>lo_note := LoopSelected\<rparr>
          | LoopSetFailed f m \<Rightarrow> nxt\<lparr>lo_issue := RefusedWith m\<rparr>)))
      | _ \<Rightarrow> act_ret (held\<lparr>lo_issue := NotAvailable\<rparr>))"

text \<open>\<open>host.saveSettings()\<close> is one call here; its own steps are those of the client.\<close>

definition save_loop_rate :: "loop_setting \<Rightarrow> loop_setting call_act" where
  "save_loop_rate held =
     act_bind (attempt (host_call ''save'')) (\<lambda>a.
     case a of
       Inl e \<Rightarrow> act_ret (held\<lparr>lo_note := NoLoopNote, lo_issue := SaveFailed (error_text e)\<rparr>)
     | Inr v \<Rightarrow> act_bind read_loop_setting (\<lambda>nxt. act_ret (nxt\<lparr>lo_note := LoopSaved\<rparr>)))"

text \<open>\<open>LoopTargetWatcher\<close>: its state is the last target known.\<close>

definition target_changed :: "string option \<Rightarrow> string option \<Rightarrow> bool \<times> string option" where
  "target_changed last_target target =
     (case target of None \<Rightarrow> (False, last_target) | Some t \<Rightarrow> (last_target \<noteq> None \<and> last_target \<noteq> Some t, Some t))"

subsection \<open>What the notch page knows\<close>

text \<open>A draft just opened on a row asks for nothing: it is the pair that is loaded, and its write plan is empty.\<close>

lemma fresh_draft_pair:
  assumes "row_supported r" and "loaded_pair r = Some p" and "row_off r = Some (center p = 0)"
    and "js_trim (row_center r) \<noteq> []" and "js_trim (row_cutoff r) \<noteq> []"
  shows "draft_pair (draft_from_row r) = Some p"
  using assms by (auto simp: loaded_pair_def draft_pair_def draft_from_row_def field_number_def split: option.splits)

lemma fresh_draft_clean:
  assumes "row_supported r" and "loaded_pair r = Some p" and "row_off r = Some (center p = 0)"
    and "js_trim (row_center r) \<noteq> []" and "js_trim (row_cutoff r) \<noteq> []"
  shows "\<not> draft_dirty r (draft_from_row r) \<and> notch_write_plan i (loaded_pair r) p = []"
  using assms fresh_draft_pair [OF assms] by (auto simp: draft_dirty_def notch_write_plan_def)

text \<open>The lines sent are the first lines of the plan, and all but the last were accepted.\<close>

lemma apply_steps_prefix:
  "apply_steps sts sent s = (r, t) \<Longrightarrow> \<exists>k w. k \<le> length sts \<and> cl_log t = cl_log s @ w
     \<and> concat (List.map (\<lambda>e. case e of Asked l \<Rightarrow> [l] | _ \<Rightarrow> []) w) = List.map notch_step_line (take k sts)
     \<and> (case r of
          Inr (done_lines, None) \<Rightarrow> k = length sts \<and> done_lines = sent @ List.map notch_step_line sts
        | Inr (done_lines, Some m) \<Rightarrow> done_lines = sent @ List.map notch_step_line (take k sts)
        | Inl x \<Rightarrow> x = CallWaiting)"
proof (induction sts arbitrary: sent s)
  case Nil
  then show ?case by (intro exI [of _ 0] exI [of _ "[]"]) (auto simp: act_ret_def)
next
  case (Cons st sts)
  obtain q u where c: "host_call (notch_step_line st) s = (q, u)" by fastforce
  from host_call_log [OF c] show ?case
  proof (elim disjE conjE exE)
    assume "q = Inl CallWaiting" "cl_log u = cl_log s @ [Asked (notch_step_line st)]"
    then show ?thesis using Cons.prems c
      by (intro exI [of _ 1] exI [of _ "[Asked (notch_step_line st)]"]) (auto simp: attempt_def act_bind_def)
  next
    fix a assume a: "cl_log u = cl_log s @ [Asked (notch_step_line st), Answered (notch_step_line st) a]" "q = (case a of Inl e \<Rightarrow> Inl (CallError e) | Inr x \<Rightarrow> Inr x)"
    show ?thesis
    proof (cases a)
      case (Inl e)
      then show ?thesis using Cons.prems c a
        by (intro exI [of _ 1] exI [of _ "[Asked (notch_step_line st), Answered (notch_step_line st) a]"]) (auto simp: attempt_def act_bind_def)
    next
      case (Inr v)
      have "apply_steps sts (sent @ [notch_step_line st]) u = (r, t)"
        using Cons.prems c a Inr by (simp add: attempt_def act_bind_def)
      from Cons.IH [OF this] obtain k w where w: "k \<le> length sts" "cl_log t = cl_log u @ w"
        "concat (List.map (\<lambda>e. case e of Asked l \<Rightarrow> [l] | _ \<Rightarrow> []) w) = List.map notch_step_line (take k sts)"
        "case r of
          Inr (done_lines, None) \<Rightarrow> k = length sts \<and> done_lines = (sent @ [notch_step_line st]) @ List.map notch_step_line sts
        | Inr (done_lines, Some m) \<Rightarrow> done_lines = (sent @ [notch_step_line st]) @ List.map notch_step_line (take k sts)
        | Inl x \<Rightarrow> x = CallWaiting" by blast
      show ?thesis
        by (rule exI [of _ "Suc k"], rule exI [of _ "[Asked (notch_step_line st), Answered (notch_step_line st) a] @ w"])
          (use w a(1) in \<open>auto split: sum.splits option.splits\<close>)
    qed
  qed
qed

end
