(* ===== verification/Sim_Controllers.thy ===== *)
theory Sim_Controllers
  imports Page_Settings
begin

section \<open>The simulated controllers: motor-direction-mock.ts, rpm-filter-mock.ts, loop-rate-mock.ts\<close>

text \<open>
  The classes that stand for the firmware when no controller is connected and in the tests of the program. A
  line is handled in one step; \<open>None\<close> is a line that is not theirs. They are also what the pages are
  checked against here: a page action run on the answers of a simulated controller ends as the page says.
\<close>

definition crlf :: "string \<Rightarrow> string" where
  "crlf l = l @ [CR, LF]"

definition one_line :: "string \<Rightarrow> bool" where
  "one_line s \<longleftrightarrow> LF \<notin> set s \<and> CR \<notin> set s"

subsection \<open>Motor direction\<close>

datatype md_scenario = MdPropsOut | MdPropsIn | MdRefusedArmed | MdRefusedMotorTest | MdUnknownToken | MdOldFc

record md_sim =
  md_scenario :: md_scenario
  md_token :: string

definition md_set_scenario :: "md_scenario \<Rightarrow> md_sim" where
  "md_set_scenario sc = \<lparr>md_scenario = sc,
     md_token = (if sc = MdPropsIn then ''props-in'' else if sc = MdUnknownToken then ''props-mixed'' else ''props-out'')\<rparr>"

definition md_supported :: "md_sim \<Rightarrow> bool" where
  "md_supported s \<longleftrightarrow> md_scenario s \<noteq> MdOldFc"

definition md_defaults :: "md_sim \<Rightarrow> md_sim" where
  "md_defaults s = (if md_supported s then s\<lparr>md_token := ''props-out''\<rparr> else s)"

definition PROPS_OUT_YAW :: "string list" where "PROPS_OUT_YAW = [''-1'', ''+1'', ''+1'', ''-1'']"
definition PROPS_IN_YAW :: "string list" where "PROPS_IN_YAW = [''+1'', ''-1'', ''-1'', ''+1'']"

definition md_yaw :: "md_sim \<Rightarrow> string list" where
  "md_yaw s = (if md_token s = ''props-in'' then PROPS_IN_YAW else PROPS_OUT_YAW)"

definition md_report :: "md_sim \<Rightarrow> string" where
  "md_report s = crlf_text ([''mixer_api: 1'', ''mixer: quadx'', ''motor_direction: '' @ md_token s]
     @ List.map (\<lambda>(k, v). colon_line k v) (zip [''mixer_yaw_m1'', ''mixer_yaw_m2'', ''mixer_yaw_m3'', ''mixer_yaw_m4''] (md_yaw s))
     @ [''mixer_end: 1''])"

definition MD_ARMED_LINE :: string where "MD_ARMED_LINE = ''set failed: armed''"
definition MD_INVALID_LINE :: string where "MD_INVALID_LINE = ''set failed: motor_direction must be props-out or props-in''"
definition MD_MOTOR_TEST_LINE :: string where "MD_MOTOR_TEST_LINE = ''set failed: motor test running''"

text \<open>The value part of \<open>/^set motor_direction(?: (.*))?$/\<close>.\<close>

definition md_set_part :: "string \<Rightarrow> string option option" where
  "md_set_part line =
     (if line = ''set motor_direction'' then Some None
      else if prefix ''set motor_direction '' line \<and> one_line (drop 20 line) then Some (Some (drop 20 line))
      else None)"

definition md_set :: "string option \<Rightarrow> bool \<Rightarrow> bool \<Rightarrow> md_sim \<Rightarrow> string \<times> md_sim" where
  "md_set part armed motor_test s =
     (if (case part of Some v \<Rightarrow> js_trim v = [] | None \<Rightarrow> True) then (crlf ''set failed'', s)
      else if armed \<or> md_scenario s = MdRefusedArmed then (crlf MD_ARMED_LINE, s)
      else if \<not> md_supported s then (crlf ''unknown key'', s)
      else if motor_test \<or> md_scenario s = MdRefusedMotorTest then (crlf MD_MOTOR_TEST_LINE, s)
      else (case direction_of (js_trim (the part)) of
        None \<Rightarrow> (crlf MD_INVALID_LINE, s)
      | Some d \<Rightarrow> (crlf (''ok motor_direction='' @ direction_text d), s\<lparr>md_token := direction_text d\<rparr>)))"

definition md_handle :: "bool \<Rightarrow> bool \<Rightarrow> string \<Rightarrow> md_sim \<Rightarrow> string option \<times> md_sim" where
  "md_handle armed motor_test line s =
     (if line = ''mixer'' then (Some (if md_supported s then md_report s else crlf ''unknown - try help''), s)
      else if line = ''get motor_direction''
      then (Some (crlf (if md_supported s then ''motor_direction='' @ md_token s else ''unknown key'')), s)
      else (case md_set_part line of
        None \<Rightarrow> (None, s)
      | Some part \<Rightarrow> (case md_set part armed motor_test s of (reply, t) \<Rightarrow> (Some reply, t))))"

subsection \<open>The RPM filter\<close>

datatype rf_scenario = RfOff | RfOk | RfBidirOff | RfErpmUnavailable | RfTrimmed | RfOldFc | RfOffErpmLive | RfActivePartial

record rpm_sim =
  rf_scenario :: rf_scenario
  rf_values :: "rpm_key \<Rightarrow> nat"
  rf_bidir :: bool
  rf_rate :: nat
  rf_erpm :: "nat list"

fun rf_default :: "rpm_key \<Rightarrow> nat" where
  "rf_default RpmHarmonics = 0"
| "rf_default RpmMinHz = 100"
| "rf_default RpmQ = 500"
| "rf_default MotorPoles = 14"

fun rf_rule :: "rpm_key \<Rightarrow> string" where
  "rf_rule RpmHarmonics = ''0..3''"
| "rf_rule RpmMinHz = ''50..200''"
| "rf_rule RpmQ = ''100..1000''"
| "rf_rule MotorPoles = ''even, 4..36''"

definition LIVE_ERPM :: "nat list" where "LIVE_ERPM = [75600, 76440, 75180, 77700]"

definition scenario_bidir :: "rf_scenario \<Rightarrow> bool" where
  "scenario_bidir sc \<longleftrightarrow> sc \<noteq> RfBidirOff"

definition rf_set_scenario :: "rf_scenario \<Rightarrow> rpm_sim" where
  "rf_set_scenario sc =
     \<lparr>rf_scenario = sc,
      rf_values = (if sc \<in> {RfOk, RfTrimmed, RfActivePartial} then rf_default(RpmHarmonics := 3)
        else if sc \<in> {RfBidirOff, RfErpmUnavailable} then rf_default(RpmHarmonics := 2) else rf_default),
      rf_bidir = scenario_bidir sc, rf_rate = (if sc = RfTrimmed then 1000 else 8000),
      rf_erpm = (if sc = RfErpmUnavailable \<or> sc = RfBidirOff then [0, 0, 0, 0] else LIVE_ERPM)\<rparr>"

definition rf_supported :: "rpm_sim \<Rightarrow> bool" where
  "rf_supported s \<longleftrightarrow> rf_scenario s \<noteq> RfOldFc"

definition rf_defaults :: "rpm_sim \<Rightarrow> rpm_sim" where
  "rf_defaults s = s\<lparr>rf_values := rf_default\<rparr>"

text \<open>\<open>bidirSource\<close>, where the host gives one, is the first argument.\<close>

definition rf_reason :: "bool option \<Rightarrow> rpm_sim \<Rightarrow> string" where
  "rf_reason source s =
     (if rf_values s RpmHarmonics = 0 then ''off''
      else if \<not> (case source of Some b \<Rightarrow> b | None \<Rightarrow> rf_bidir s) then ''bidir-off''
      else if list_ex (\<lambda>e. e > 0) (rf_erpm s) then ''ok'' else ''erpm-unavailable'')"

definition rf_allowed :: "rpm_sim \<Rightarrow> nat" where
  "rf_allowed s = fold (\<lambda>h a. if h * 400 * 100 < 45 * rf_rate s then h else a) [1, 2, 3] 0"

text \<open>
  The pole count is even, so \<open>erpm / (poles / 2) / 60\<close> is a half only when both divisions are exact; otherwise it is far from
  one, and rounding it down after adding a half is exact on rationals.
\<close>

definition rf_motor_hz :: "string \<Rightarrow> rpm_sim \<Rightarrow> nat \<Rightarrow> string" where
  "rf_motor_hz reason s m =
     (if reason \<noteq> ''ok'' \<or> rf_erpm s ! m = 0 \<or> rf_scenario s = RfActivePartial \<and> m = 1 then ''unavailable''
      else show_nat (nat \<lfloor>max (of_nat (rf_erpm s ! m) / of_nat (30 * rf_values s MotorPoles) :: rat) (of_nat (rf_values s RpmMinHz)) + 1 / 2\<rfloor>))"

definition rf_fields :: "bool option \<Rightarrow> rpm_sim \<Rightarrow> (string \<times> string) list" where
  "rf_fields source s =
     (let reason = rf_reason source s; active = (if reason = ''ok'' then min (rf_values s RpmHarmonics) (rf_allowed s) else 0) in
      [(''rpm_filter_active'', if reason = ''ok'' then ''yes'' else ''no''), (''rpm_filter_reason'', reason),
       (''rpm_filter_sample_hz'', show_nat (rf_rate s)), (''rpm_filter_harmonics_active'', show_nat active),
       (''rpm_filter_m1_hz'', rf_motor_hz reason s 0), (''rpm_filter_m2_hz'', rf_motor_hz reason s 1),
       (''rpm_filter_m3_hz'', rf_motor_hz reason s 2), (''rpm_filter_m4_hz'', rf_motor_hz reason s 3)])"

definition rf_report :: "bool option \<Rightarrow> rpm_sim \<Rightarrow> string" where
  "rf_report source s = crlf_text (''rpm_filter_api: 1'' # colon.written (rf_fields source s) @ [''rpm_filter_end: 1''])"

text \<open>\<open>/^-?\d+(?:\.\d+)?(?:e[+-]?\d+)?$/i\<close> on the trimmed text, where \<open>parseFloat\<close> is \<open>Number\<close>.\<close>

definition decimal_literal :: "string \<Rightarrow> bool" where
  "decimal_literal t =
     (let (a, r) = split_digits (if t \<noteq> [] \<and> hd t = CHR ''-'' then tl t else t);
          (b, x) = (if r \<noteq> [] \<and> hd r = CHR ''.'' then split_digits (tl r) else (''0'', r))
      in a \<noteq> [] \<and> b \<noteq> [] \<and> decimal_exponent x \<noteq> None)"

definition set_number :: "string \<Rightarrow> rat option" where
  "set_number v = (if decimal_literal (js_trim v) then js_value v else None)"

fun rf_accepts :: "rpm_key \<Rightarrow> rat \<Rightarrow> bool" where
  "rf_accepts RpmHarmonics v = (0 \<le> v \<and> v \<le> 3)"
| "rf_accepts RpmMinHz v = (50 \<le> v \<and> v \<le> 200)"
| "rf_accepts RpmQ v = (100 \<le> v \<and> v \<le> 1000)"
| "rf_accepts MotorPoles v = (4 \<le> v \<and> v \<le> 36 \<and> is_whole (v / 2))"

definition rf_key_of :: "string \<Rightarrow> rpm_key option" where
  "rf_key_of k = find (\<lambda>x. rpm_key_text x = k) RPM_FILTER_KEYS"

text \<open>\<open>/^set (\S+) (.+)$/\<close>.\<close>

definition set_parts :: "string \<Rightarrow> (string \<times> string) option" where
  "set_parts line =
     (let r = drop 4 line; k = takeWhile (\<lambda>c. \<not> js_space c) r; v = drop (Suc (length k)) r in
      if prefix ''set '' line \<and> k \<noteq> [] \<and> prefix '' '' (drop (length k) r) \<and> v \<noteq> [] \<and> one_line v then Some (k, v) else None)"

text \<open>\<open>formatFwFloat\<close> of a whole number below a million prints its digits.\<close>

definition rf_set :: "rpm_key \<Rightarrow> string \<Rightarrow> rpm_sim \<Rightarrow> string \<times> rpm_sim" where
  "rf_set k v s =
     (case set_number v of
        None \<Rightarrow> (crlf ''set failed'', s)
      | Some n \<Rightarrow>
          if \<not> is_whole n then (crlf ''set failed'', s)
          else if \<not> rf_accepts k n then (crlf (''set failed: '' @ rpm_key_text k @ '' must be '' @ rf_rule k), s)
          else (crlf (''ok '' @ rpm_key_text k @ ''='' @ show_nat (nat \<lfloor>n\<rfloor>)), s\<lparr>rf_values := (rf_values s)(k := nat \<lfloor>n\<rfloor>)\<rparr>))"

definition erpm_query :: "string \<Rightarrow> nat option" where
  "erpm_query line = find (\<lambda>m. line = ''get erpm_m'' @ show_nat (Suc m)) [0, 1, 2, 3]"

definition get_key :: "string \<Rightarrow> rpm_key option" where
  "get_key line = find (\<lambda>k. line = get_line (rpm_key_text k)) RPM_FILTER_KEYS"

definition rf_handle :: "bool option \<Rightarrow> bool \<Rightarrow> string \<Rightarrow> rpm_sim \<Rightarrow> string option \<times> rpm_sim" where
  "rf_handle source armed line s =
     (if line = ''rpm_filter'' then (Some (if rf_supported s then rf_report source s else crlf ''unknown - try help''), s)
      else case (if rf_scenario s = RfOffErpmLive \<or> rf_scenario s = RfActivePartial then erpm_query line else None) of
        Some m \<Rightarrow> (Some (crlf (''erpm_m'' @ show_nat (Suc m) @ ''='' @ show_nat (rf_erpm s ! m))), s)
      | None \<Rightarrow>
          (case get_key line of
             Some k \<Rightarrow> (Some (crlf (if rf_supported s then rpm_key_text k @ ''='' @ show_nat (rf_values s k) else ''unknown key'')), s)
           | None \<Rightarrow>
               (case set_parts line of
                  None \<Rightarrow> (None, s)
                | Some (key, v) \<Rightarrow>
                    (case rf_key_of key of
                       None \<Rightarrow> (None, s)
                     | Some k \<Rightarrow>
                         if armed then (Some (crlf ''set failed: armed''), s)
                         else if \<not> rf_supported s then (Some (crlf ''unknown key''), s)
                         else (case rf_set k v s of (reply, t) \<Rightarrow> (Some reply, t))))))"

subsection \<open>The loop rate\<close>

datatype lr_scenario =
    LrMissing | Lr1000 | Lr8000by2 | LrUnavailable | Lr8000by1 | LrGuard | LrNo8k
  | LrBidir4k | LrBidir8kCapped | LrBidirCaptureFailed | LrBidirOlderFc | LrReasonMissing

fun mock_loop_status_lines :: "lr_scenario \<Rightarrow> string list" where
  "mock_loop_status_lines Lr1000 = [''loop: gyro=1000 Hz denom=1 cascade=1000 bg=1000'', ''loop_target_hz: 1000'', ''loop_actual_hz: 999'', ''loop_overruns: 1'']"
| "mock_loop_status_lines Lr8000by2 = [''loop: gyro=8000 Hz denom=2 cascade=4000 bg=4000'', ''loop_target_hz: 4000'', ''loop_actual_hz: 3998'', ''loop_overruns: 9007199254740993'']"
| "mock_loop_status_lines LrUnavailable = [''loop: gyro=8000 Hz denom=2 cascade=0 bg=0'', ''loop_target_hz: 4000'', ''loop_actual_hz: unavailable'', ''loop_overruns: 0'']"
| "mock_loop_status_lines Lr8000by1 = [''loop: gyro=8000 Hz denom=1 cascade=8000 bg=8000'', ''loop_target_hz: 8000'', ''loop_actual_hz: 7996'', ''loop_overruns: 4'']"
| "mock_loop_status_lines LrGuard = [''loop: gyro=8000 Hz denom=2 cascade=4000 bg=4000'', ''loop_target_hz: 4000'', ''loop_actual_hz: 4000'', ''loop_overruns: 16384'']"
| "mock_loop_status_lines LrBidir4k = [''loop: gyro=8000 Hz denom=2 cascade=4000 bg=4000'', ''loop_target_hz: 4000'', ''loop_actual_hz: 3999'', ''loop_overruns: 2'']"
| "mock_loop_status_lines LrReasonMissing = [''loop: gyro=8000 Hz denom=2 cascade=4000 bg=4000'', ''loop_target_hz: 4000'', ''loop_actual_hz: 3999'', ''loop_overruns: 2'']"
| "mock_loop_status_lines LrBidir8kCapped = [''loop: gyro=8000 Hz denom=2 cascade=4000 bg=4000'', ''loop_target_hz: 4000'', ''loop_actual_hz: 3997'', ''loop_overruns: 3'']"
| "mock_loop_status_lines LrNo8k = [''loop: gyro=1000 Hz denom=1 cascade=1000 bg=1000'', ''loop_target_hz: 1000'', ''loop_actual_hz: 1000'', ''loop_overruns: 0'']"
| "mock_loop_status_lines LrBidirCaptureFailed = [''loop: gyro=1000 Hz denom=1 cascade=1000 bg=1000'', ''loop_target_hz: 1000'', ''loop_actual_hz: 1000'', ''loop_overruns: 0'']"
| "mock_loop_status_lines LrBidirOlderFc = [''loop: gyro=1000 Hz denom=1 cascade=1000 bg=1000'', ''loop_target_hz: 1000'', ''loop_actual_hz: 1000'', ''loop_overruns: 0'']"
| "mock_loop_status_lines LrMissing = [''loop: gyro=0 Hz denom=1 cascade=0 bg=0'']"

fun boot_setting :: "lr_scenario \<Rightarrow> loop_option option" where
  "boot_setting LrMissing = None"
| "boot_setting Lr1000 = Some Hz1000"
| "boot_setting LrNo8k = Some Hz1000"
| "boot_setting Lr8000by2 = Some Hz4000"
| "boot_setting LrUnavailable = Some Hz4000"
| "boot_setting Lr8000by1 = Some Hz8000"
| "boot_setting LrGuard = Some Hz8000"
| "boot_setting LrBidir4k = Some Hz4000"
| "boot_setting LrBidirCaptureFailed = Some Hz4000"
| "boot_setting LrBidirOlderFc = Some Hz4000"
| "boot_setting LrReasonMissing = Some Hz4000"
| "boot_setting LrBidir8kCapped = Some Hz8000"

record lr_board =
  lb_id :: string
  lb_has8k :: bool
  lb_default :: loop_option

definition mock_loop_rate_board :: "lr_scenario \<Rightarrow> lr_board" where
  "mock_loop_rate_board sc =
     (if sc = LrNo8k then \<lparr>lb_id = ''tmotor_f7_v2'', lb_has8k = False, lb_default = Hz1000\<rparr>
      else \<lparr>lb_id = ''kakute_f7_hdv'', lb_has8k = True, lb_default = Hz4000\<rparr>)"

definition mock_loop_rate_bidir :: "lr_scenario \<Rightarrow> bool" where
  "mock_loop_rate_bidir sc \<longleftrightarrow> sc \<in> {LrBidir4k, LrBidir8kCapped, LrBidirCaptureFailed, LrBidirOlderFc}"

fun scenario_for_setting :: "loop_option \<Rightarrow> lr_scenario" where
  "scenario_for_setting Hz1000 = Lr1000"
| "scenario_for_setting Hz4000 = Lr8000by2"
| "scenario_for_setting Hz8000 = Lr8000by1"

fun profile_for_setting :: "loop_option \<Rightarrow> string" where
  "profile_for_setting Hz1000 = ''1000/1''"
| "profile_for_setting Hz4000 = ''8000/2''"
| "profile_for_setting Hz8000 = ''8000/1''"

text \<open>\<open>REPORT_POLICY\<close>: the active profile, the reason and the guard level.\<close>

fun report_policy :: "lr_scenario \<Rightarrow> loop_option \<Rightarrow> string \<times> string option \<times> nat" where
  "report_policy LrGuard b = (''8000/2'', Some ''overrun-guard'', 1)"
| "report_policy LrBidir8kCapped b = (''8000/2'', Some ''dshot-bidir-reply-window'', 0)"
| "report_policy LrBidirCaptureFailed b = (''1000/1'', Some ''dshot-bidir-capture-failed'', 0)"
| "report_policy LrBidirOlderFc b = (''1000/1'', Some ''dshot-bidir-polled-listen'', 0)"
| "report_policy LrReasonMissing b = (''8000/2'', None, 0)"
| "report_policy sc b = (profile_for_setting b, Some ''setting'', 0)"

record lr_sim =
  lr_scenario :: lr_scenario
  lr_ram :: "loop_option option"
  lr_saved :: "loop_option option"

definition lr_boot :: "lr_sim \<Rightarrow> loop_option option" where
  "lr_boot s = boot_setting (lr_scenario s)"

definition lr_current :: "lr_sim \<Rightarrow> loop_option option" where
  "lr_current s = (case lr_boot s of None \<Rightarrow> None | Some b \<Rightarrow> (case lr_ram s of Some v \<Rightarrow> Some v | None \<Rightarrow> Some b))"

definition lr_defaults :: "lr_sim \<Rightarrow> lr_sim" where
  "lr_defaults s = (if lr_boot s \<noteq> None then s\<lparr>lr_ram := Some (lb_default (mock_loop_rate_board (lr_scenario s)))\<rparr> else s)"

definition lr_save :: "lr_sim \<Rightarrow> lr_sim" where
  "lr_save s = (if lr_boot s \<noteq> None then s\<lparr>lr_saved := lr_current s\<rparr> else s)"

text \<open>\<open>reboot()\<close> tells the host which scenario to go on with, \<open>None\<close> when it stays; \<open>lr_rebooted\<close> is the host doing so.\<close>

definition lr_reboot :: "lr_sim \<Rightarrow> lr_scenario option \<times> lr_sim" where
  "lr_reboot s =
     (let t = s\<lparr>lr_ram := None, lr_saved := None\<rparr> in
      case lr_boot s of
        None \<Rightarrow> (None, t)
      | Some b \<Rightarrow>
          (case lr_saved s of
             Some n \<Rightarrow>
               if n = b then (if mock_loop_rate_bidir (lr_scenario s) then Some (scenario_for_setting b) else None, t)
               else (if lb_has8k (mock_loop_rate_board (lr_scenario s)) then Some (scenario_for_setting n) else None, t)
           | None \<Rightarrow> (if mock_loop_rate_bidir (lr_scenario s) then Some (scenario_for_setting b) else None, t)))"

definition lr_rebooted :: "lr_sim \<Rightarrow> lr_sim" where
  "lr_rebooted s = (case lr_reboot s of (Some sc, t) \<Rightarrow> t\<lparr>lr_scenario := sc\<rparr> | (None, t) \<Rightarrow> t)"

definition lr_report :: "loop_option \<Rightarrow> loop_option \<Rightarrow> lr_scenario \<Rightarrow> string" where
  "lr_report boot cur sc =
     (case report_policy sc boot of (prof, why, level) \<Rightarrow>
      let has8k = lb_has8k (mock_loop_rate_board sc); quick = boot \<noteq> Hz1000 in
      crlf_text ([''loop_rate_api: 1'', ''loop_rate_setting_hz: '' @ option_text cur, ''loop_rate_boot_setting_hz: '' @ option_text boot,
        ''loop_rate_pending_reboot: '' @ (if cur \<noteq> boot then ''1'' else ''0''), ''loop_rate_profile: '' @ profile_for_setting boot,
        ''loop_rate_active: '' @ prof]
        @ (case why of None \<Rightarrow> [] | Some r \<Rightarrow> [''loop_rate_reason: '' @ r])
        @ [''loop_rate_guard_level: '' @ show_nat level,
        ''loop_rate_gyro_odr_hz: '' @ (if \<not> has8k then ''0'' else if quick then ''8000'' else ''1000''),
        ''loop_rate_gyro_spi_hz: '' @ (if \<not> has8k then ''0'' else if quick then ''13500000'' else ''843750''), ''loop_rate_end: 1'']))"

definition lr_set :: "string \<Rightarrow> lr_sim \<Rightarrow> string \<times> lr_sim" where
  "lr_set v s =
     (case loop_option_of v of
        None \<Rightarrow> (crlf LOOP_RATE_INVALID_LINE, s)
      | Some n \<Rightarrow>
          (let board = mock_loop_rate_board (lr_scenario s) in
           if \<not> lb_has8k board \<and> n \<noteq> Hz1000 then (crlf (loop_rate_unsupported_line n (lb_id board)), s)
           else (crlf_text [''ok loop_rate_hz='' @ option_text n, LOOP_RATE_REBOOT_NOTE], s\<lparr>lr_ram := Some n\<rparr>)))"

definition lr_handle :: "bool \<Rightarrow> string \<Rightarrow> lr_sim \<Rightarrow> string option \<times> lr_sim" where
  "lr_handle armed line s =
     (if line = ''get loop_rate_hz''
      then (Some (crlf (case lr_current s of None \<Rightarrow> ''unknown key'' | Some c \<Rightarrow> ''loop_rate_hz='' @ option_text c)), s)
      else if prefix ''set loop_rate_hz '' line then
        (if armed then (Some (crlf LOOP_RATE_ARMED_LINE), s)
         else case lr_boot s of
           None \<Rightarrow> (Some (crlf ''unknown key''), s)
         | Some boot \<Rightarrow> (case lr_set (drop 17 line) s of (reply, t) \<Rightarrow> (Some reply, t)))
      else if line = ''loop_rate'' then
        (Some (case (lr_boot s, lr_current s) of
           (Some boot, Some cur) \<Rightarrow> lr_report boot cur (lr_scenario s)
         | _ \<Rightarrow> crlf ''unknown - try help''), s)
      else (None, s))"

subsection \<open>A reply tells the truth\<close>

text \<open>
  What a page may rely on: the value of the controller changes exactly with a reply that says so, to the value the reply
  names. The locale is the contract; the three simulated controllers keep it.
\<close>

definition run_lines :: "(string \<Rightarrow> 's \<Rightarrow> string option \<times> 's) \<Rightarrow> string list \<Rightarrow> 's \<Rightarrow> 's" where
  "run_lines handle ls s = fold (\<lambda>l t. snd (handle l t)) ls s"

locale truthful_reply =
  fixes handle :: "string \<Rightarrow> 's \<Rightarrow> string option \<times> 's" and value_of :: "'s \<Rightarrow> string" and ok_reply :: "string \<Rightarrow> string"
  assumes takes: "fst (handle line s) = Some (ok_reply v) \<Longrightarrow> value_of (snd (handle line s)) = v"
    and keeps_value: "\<not> (\<exists>v. fst (handle line s) = Some (ok_reply v)) \<Longrightarrow> value_of (snd (handle line s)) = value_of s"
begin

lemma changed_was_said:
  "value_of (snd (handle line s)) \<noteq> value_of s \<Longrightarrow> fst (handle line s) = Some (ok_reply (value_of (snd (handle line s))))"
  using takes keeps_value by metis

lemma unsaid_unchanged:
  "(\<And>k. k < length ls \<Longrightarrow> \<not> (\<exists>v. fst (handle (ls ! k) (run_lines handle (take k ls) s)) = Some (ok_reply v))) \<Longrightarrow>
   value_of (run_lines handle ls s) = value_of s"
proof (induction ls rule: rev_induct)
  case (snoc l ls)
  have "value_of (run_lines handle ls s) = value_of s"
  proof (rule snoc.IH)
    fix k assume "k < length ls"
    then show "\<not> (\<exists>v. fst (handle (ls ! k) (run_lines handle (take k ls) s)) = Some (ok_reply v))"
      using snoc.prems [of k] by (simp add: nth_append)
  qed
  moreover have "\<not> (\<exists>v. fst (handle l (run_lines handle ls s)) = Some (ok_reply v))"
    using snoc.prems [of "length ls"] by simp
  ultimately show ?case using keeps_value by (simp add: run_lines_def)
qed (simp add: run_lines_def)

end

lemma crlf_inj [simp]: "crlf a = crlf b \<longleftrightarrow> a = b"
  by (simp add: crlf_def)

lemma crlf_text_Cons: "crlf_text (l # ls) = crlf l @ crlf_text ls"
  by (simp add: crlf_text_def crlf_def)

definition md_ok_reply :: "string \<Rightarrow> string" where
  "md_ok_reply v = crlf (''ok motor_direction='' @ v)"

lemma md_ok_inj [simp]: "md_ok_reply v = md_ok_reply w \<longleftrightarrow> v = w"
  by (simp add: md_ok_reply_def)

lemma md_set_cases:
  "(\<exists>d. md_set part armed mt s = (md_ok_reply (direction_text d), s\<lparr>md_token := direction_text d\<rparr>))
   \<or> (\<exists>l. md_set part armed mt s = (crlf l, s) \<and> l \<in> {''set failed'', MD_ARMED_LINE, ''unknown key'', MD_MOTOR_TEST_LINE, MD_INVALID_LINE})"
  by (auto simp: md_set_def md_ok_reply_def split: option.split)

lemma md_not_ok: "l \<in> {''set failed'', MD_ARMED_LINE, ''unknown key'', MD_MOTOR_TEST_LINE, MD_INVALID_LINE} \<Longrightarrow> crlf l \<noteq> md_ok_reply v"
  by (auto simp: md_ok_reply_def MD_ARMED_LINE_def MD_MOTOR_TEST_LINE_def MD_INVALID_LINE_def)

lemma md_report_not_ok: "md_report s \<noteq> md_ok_reply v"
  by (simp add: md_report_def md_ok_reply_def crlf_text_Cons crlf_def)

lemma md_handle_cases:
  "(\<exists>d. md_handle armed mt line s = (Some (md_ok_reply (direction_text d)), s\<lparr>md_token := direction_text d\<rparr>))
   \<or> (snd (md_handle armed mt line s) = s \<and> \<not> (\<exists>v. fst (md_handle armed mt line s) = Some (md_ok_reply v)))"
proof (cases "line = ''mixer'' \<or> line = ''get motor_direction''")
  case True
  then show ?thesis by (auto simp: md_handle_def md_report_not_ok, auto simp: md_ok_reply_def)
next
  case False
  show ?thesis
  proof (cases "md_set_part line")
    case None
    then show ?thesis using False by (simp add: md_handle_def)
  next
    case (Some part)
    then show ?thesis using False md_set_cases [of part armed mt s] md_not_ok by (auto simp: md_handle_def)
  qed
qed

interpretation direction_truth: truthful_reply "md_handle armed mt" md_token md_ok_reply for armed mt
proof
  show "md_token (snd (md_handle armed mt line s)) = v" if "fst (md_handle armed mt line s) = Some (md_ok_reply v)" for line s v
    using md_handle_cases [of armed mt line s] that by (auto simp: md_ok_reply_def)
  show "md_token (snd (md_handle armed mt line s)) = md_token s" if "\<not> (\<exists>v. fst (md_handle armed mt line s) = Some (md_ok_reply v))" for line s
    using md_handle_cases [of armed mt line s] that by auto
qed

definition rf_ok_reply :: "rpm_key \<Rightarrow> string \<Rightarrow> string" where
  "rf_ok_reply k v = crlf (''ok '' @ rpm_key_text k @ ''='' @ v)"

lemma rpm_key_text_no_eq: "rpm_key_text k @ ''='' @ v = rpm_key_text j @ ''='' @ w \<longleftrightarrow> k = j \<and> v = w"
  by (cases k; cases j; simp)

lemma rf_ok_inj: "rf_ok_reply k v = rf_ok_reply j w \<longleftrightarrow> k = j \<and> v = w"
  by (simp add: rf_ok_reply_def rpm_key_text_no_eq [simplified])

lemma rf_set_cases:
  "(\<exists>n. rf_set k v s = (rf_ok_reply k (show_nat n), s\<lparr>rf_values := (rf_values s)(k := n)\<rparr>))
   \<or> (snd (rf_set k v s) = s \<and> (\<forall>j w. fst (rf_set k v s) \<noteq> rf_ok_reply j w))"
  by (auto simp: rf_set_def rf_ok_reply_def split: option.split)

lemma rf_other_replies:
  "rf_report source s \<noteq> rf_ok_reply j w" "crlf ''unknown - try help'' \<noteq> rf_ok_reply j w" "crlf ''unknown key'' \<noteq> rf_ok_reply j w"
  "crlf ''set failed: armed'' \<noteq> rf_ok_reply j w" "crlf (''erpm_m'' @ x) \<noteq> rf_ok_reply j w" "crlf (rpm_key_text k @ ''='' @ v) \<noteq> rf_ok_reply j w"
  by (simp_all add: rf_report_def rf_ok_reply_def crlf_text_Cons) (simp add: crlf_def, cases k, simp_all)

lemma rf_handle_cases:
  "(\<exists>k n. rf_handle source armed line s = (Some (rf_ok_reply k (show_nat n)), s\<lparr>rf_values := (rf_values s)(k := n)\<rparr>))
   \<or> (snd (rf_handle source armed line s) = s \<and> (\<forall>j w. fst (rf_handle source armed line s) \<noteq> Some (rf_ok_reply j w)))"
proof (cases "line = ''rpm_filter''")
  case True
  then show ?thesis by (simp add: rf_handle_def rf_other_replies)
next
  case no_report: False
  show ?thesis
  proof (cases "if rf_scenario s = RfOffErpmLive \<or> rf_scenario s = RfActivePartial then erpm_query line else None")
    case (Some m)
    then show ?thesis using no_report unfolding rf_handle_def by (simp add: rf_other_replies del: append.simps)
  next
    case no_erpm: None
    show ?thesis
    proof (cases "get_key line")
      case (Some k)
      then show ?thesis using no_report no_erpm unfolding rf_handle_def by (simp add: rf_other_replies del: append.simps)
    next
      case no_get: None
      show ?thesis
      proof (cases "set_parts line")
        case None
        then show ?thesis using no_report no_erpm no_get unfolding rf_handle_def by simp
      next
        case (Some kv)
        obtain key v where kv: "kv = (key, v)" by (cases kv) auto
        show ?thesis
        proof (cases "rf_key_of key")
          case None
          then show ?thesis using no_report no_erpm no_get Some kv unfolding rf_handle_def by simp
        next
          case (Some k)
          note known = no_report no_erpm no_get \<open>set_parts line = Some kv\<close> kv Some
          show ?thesis
          proof (cases "armed \<or> \<not> rf_supported s")
            case True
            then show ?thesis using known unfolding rf_handle_def by (auto simp: rf_other_replies)
          next
            case False
            obtain reply t where r: "rf_set k v s = (reply, t)" by fastforce
            then have "rf_handle source armed line s = (Some reply, t)" using known False unfolding rf_handle_def by simp
            then show ?thesis using rf_set_cases [of k v s] r by auto
          qed
        qed
      qed
    qed
  qed
qed

interpretation rpm_truth: truthful_reply "rf_handle source armed" "\<lambda>s. show_nat (rf_values s k)" "rf_ok_reply k" for source armed k
proof
  show "show_nat (rf_values (snd (rf_handle source armed line s)) k) = v" if "fst (rf_handle source armed line s) = Some (rf_ok_reply k v)" for line s v
    using rf_handle_cases [of source armed line s] that by (auto simp: rf_ok_inj)
  show "show_nat (rf_values (snd (rf_handle source armed line s)) k) = show_nat (rf_values s k)"
    if "\<not> (\<exists>v. fst (rf_handle source armed line s) = Some (rf_ok_reply k v))" for line s
    using rf_handle_cases [of source armed line s] that by (auto simp: rf_ok_inj)
qed

definition lr_ok_reply :: "string \<Rightarrow> string" where
  "lr_ok_reply v = crlf_text [''ok loop_rate_hz='' @ v, LOOP_RATE_REBOOT_NOTE]"

definition lr_value :: "lr_sim \<Rightarrow> string" where
  "lr_value s = (case lr_current s of None \<Rightarrow> ''unknown'' | Some c \<Rightarrow> option_text c)"

lemma lr_ok_inj [simp]: "lr_ok_reply v = lr_ok_reply w \<longleftrightarrow> v = w"
  by (simp add: lr_ok_reply_def crlf_text_Cons)

lemma crlf_starts: "crlf (c # l) \<noteq> crlf_text ((d # k) # ls)" if "c \<noteq> d"
  using that by (simp add: crlf_text_Cons crlf_def)

lemma lr_other_replies:
  "crlf ''unknown key'' \<noteq> lr_ok_reply v" "crlf ''unknown - try help'' \<noteq> lr_ok_reply v" "crlf (''loop_rate_hz='' @ x) \<noteq> lr_ok_reply v"
  "crlf LOOP_RATE_ARMED_LINE \<noteq> lr_ok_reply v" "crlf LOOP_RATE_INVALID_LINE \<noteq> lr_ok_reply v" "crlf (loop_rate_unsupported_line n b) \<noteq> lr_ok_reply v"
  "lr_report boot cur sc \<noteq> lr_ok_reply v"
  by (simp_all add: lr_ok_reply_def crlf_starts LOOP_RATE_ARMED_LINE_def LOOP_RATE_INVALID_LINE_def loop_rate_unsupported_line_def)
    (simp add: lr_report_def crlf_text_Cons Let_def split: prod.split, simp add: crlf_def)

lemma lr_handle_cases:
  "(\<exists>n. lr_handle armed line s = (Some (lr_ok_reply (option_text n)), s\<lparr>lr_ram := Some n\<rparr>) \<and> lr_boot s \<noteq> None)
   \<or> (snd (lr_handle armed line s) = s \<and> (\<forall>v. fst (lr_handle armed line s) \<noteq> Some (lr_ok_reply v)))"
proof (cases "prefix ''set loop_rate_hz '' line")
  case True
  have set: "(\<exists>n. lr_set v s = (lr_ok_reply (option_text n), s\<lparr>lr_ram := Some n\<rparr>)) \<or> (snd (lr_set v s) = s \<and> (\<forall>w. fst (lr_set v s) \<noteq> lr_ok_reply w))" for v
  proof (cases "loop_option_of v")
    case None
    then show ?thesis by (simp add: lr_set_def lr_other_replies)
  next
    case (Some n)
    show ?thesis
    proof (cases "\<not> lb_has8k (mock_loop_rate_board (lr_scenario s)) \<and> n \<noteq> Hz1000")
      case True
      then show ?thesis using Some by (simp add: lr_set_def lr_other_replies)
    next
      case False
      then have "lr_set v s = (lr_ok_reply (option_text n), s\<lparr>lr_ram := Some n\<rparr>)"
        using Some by (auto simp: lr_set_def lr_ok_reply_def Let_def)
      then show ?thesis by blast
    qed
  qed
  have "line \<noteq> ''get loop_rate_hz''" using True by auto
  then show ?thesis using True set [of "drop 17 line"] unfolding lr_handle_def
    by (cases "lr_set (drop 17 line) s"; cases armed; cases "lr_boot s") (auto simp: lr_other_replies simp del: append.simps)
next
  case False
  have "snd (lr_handle armed line s) = s" using False by (simp add: lr_handle_def)
  moreover have "fst (lr_handle armed line s) \<noteq> Some (lr_ok_reply v)" for v
    using False by (simp add: lr_handle_def lr_other_replies split: option.split del: append.simps)
  ultimately show ?thesis by blast
qed

interpretation loop_truth: truthful_reply "lr_handle armed" lr_value lr_ok_reply for armed
proof
  have val: "lr_value (s\<lparr>lr_ram := Some n\<rparr>) = option_text n" if "lr_boot s \<noteq> None" for s :: lr_sim and n
    using that by (auto simp: lr_value_def lr_current_def lr_boot_def)
  show "lr_value (snd (lr_handle armed line s)) = v" if "fst (lr_handle armed line s) = Some (lr_ok_reply v)" for line s v
    using lr_handle_cases [of armed line s] that val by auto
  show "lr_value (snd (lr_handle armed line s)) = lr_value s" if "\<not> (\<exists>v. fst (lr_handle armed line s) = Some (lr_ok_reply v))" for line s
    using lr_handle_cases [of armed line s] that by auto
qed

subsection \<open>A page on a simulated controller\<close>

text \<open>The moments in which a controller answers each of the lines at once.\<close>

definition said :: "string \<Rightarrow> call_moment" where
  "said x = \<lparr>cm_answer = Inr x, cm_aborted = False\<rparr>"

fun serve :: "(string \<Rightarrow> 's \<Rightarrow> string option \<times> 's) \<Rightarrow> string list \<Rightarrow> 's \<Rightarrow> call_moment list \<times> 's" where
  "serve handle [] s = ([], s)"
| "serve handle (l # ls) s = (case handle l s of (r, t) \<Rightarrow> case serve handle ls t of (ms, u) \<Rightarrow>
     (said (case r of Some x \<Rightarrow> x | None \<Rightarrow> []) # ms, u))"

definition next_said :: "calls \<Rightarrow> call_moment list \<Rightarrow> bool" where
  "next_said s ms \<longleftrightarrow> cl_moments s = ms \<and> \<not> cl_aborted s"

lemma next_said_new: "next_said (new_calls ms) ms"
  by (simp add: next_said_def new_calls_def)

lemma host_call_said: "next_said s (said x # ms) \<Longrightarrow> \<exists>t. host_call line s = (Inr x, t) \<and> next_said t ms"
  by (auto simp: next_said_def said_def host_call_def log_call_def next_moment_def act_then_def act_bind_def act_mod_def)

lemma attempt_said: "next_said s (said x # ms) \<Longrightarrow> \<exists>t. attempt (gated GATE_ATTEMPTS line) s = (Inr (Inr x), t) \<and> next_said t ms"
  using host_call_said [of s x ms line] by (auto simp: GATE_ATTEMPTS_def numeral_eq_Suc attempt_def next_said_def)

lemma direction_send_said: "next_said s (said x # ms) \<Longrightarrow> \<exists>t. direction_send line s = (Inr (SentReply x), t) \<and> next_said t ms"
  using attempt_said [of s x ms line] by (auto simp: direction_send_def act_bind_def sent_of_def)

text \<open>What the parsers make of the replies.\<close>

definition md_tokens :: "string list" where "md_tokens = [''props-out'', ''props-in'', ''props-mixed'']"

lemma md_replies_parse:
  "list_all (\<lambda>d. parse_motor_direction_set_reply (md_ok_reply (direction_text d)) d = DirectionOk d
     \<and> list_all (\<lambda>l. parse_motor_direction_set_reply (crlf l) d = DirectionRefused (l = ''unknown key'') (Some l))
         [MD_ARMED_LINE, ''unknown key'', MD_MOTOR_TEST_LINE]) [PropsOut, PropsIn]"
  "list_all (\<lambda>t. parse_motor_direction_get_reply (crlf (''motor_direction='' @ t)) = GotValue t
     \<and> map_option mixer_direction (parse_mixer_report (md_report \<lparr>md_scenario = MdPropsOut, md_token = t\<rparr>)) = Some (Some t)) md_tokens"
  "parse_motor_direction_get_reply (crlf ''unknown key'') = GetUnsupported"
  by code_simp+

lemma md_report_token: "md_report s = md_report \<lparr>md_scenario = MdPropsOut, md_token = md_token s\<rparr>"
  by (simp add: md_report_def md_yaw_def)

definition md_history :: "(bool \<times> bool \<times> string) list \<Rightarrow> md_scenario \<Rightarrow> md_sim" where
  "md_history es sc = fold (\<lambda>(armed, mt, l) s. snd (md_handle armed mt l s)) es (md_set_scenario sc)"

lemma md_history_ok: "md_token (md_history es sc) \<in> set md_tokens \<and> md_scenario (md_history es sc) = sc"
proof (induction es rule: rev_induct)
  case Nil
  then show ?case by (simp add: md_history_def md_set_scenario_def md_tokens_def)
next
  case (snoc e es)
  obtain armed mt l where e: "e = (armed, mt, l)" by (cases e)
  have step: "md_history (es @ [e]) sc = snd (md_handle armed mt l (md_history es sc))" by (simp add: md_history_def e)
  have "direction_text d \<in> set md_tokens" for d by (cases d) (simp_all add: md_tokens_def)
  then show ?case using md_handle_cases [of armed mt l "md_history es sc"] snoc step by auto
qed

lemma md_lines_checked:
  "list_all (\<lambda>d. md_set_part (direction_set_line d) = Some (Some (direction_text d))
     \<and> direction_of (js_trim (direction_text d)) = Some d \<and> js_trim (direction_text d) \<noteq> []) [PropsOut, PropsIn]"
  by code_simp

lemma md_set_part_line: "md_set_part (direction_set_line d) = Some (Some (direction_text d))"
  and direction_trim: "direction_of (js_trim (direction_text d)) = Some d" "js_trim (direction_text d) \<noteq> []"
  using md_lines_checked by (cases d; simp)+

definition md_takes :: "bool \<Rightarrow> bool \<Rightarrow> md_scenario \<Rightarrow> bool" where
  "md_takes armed mt sc \<longleftrightarrow> \<not> armed \<and> \<not> mt \<and> sc \<notin> {MdRefusedArmed, MdRefusedMotorTest, MdOldFc}"

definition md_refusal :: "bool \<Rightarrow> bool \<Rightarrow> md_scenario \<Rightarrow> string" where
  "md_refusal armed mt sc = (if armed \<or> sc = MdRefusedArmed then MD_ARMED_LINE else if sc = MdOldFc then ''unknown key'' else MD_MOTOR_TEST_LINE)"

lemma md_handle_set:
  "md_handle armed mt (direction_set_line d) s =
     (if md_takes armed mt (md_scenario s) then (Some (md_ok_reply (direction_text d)), s\<lparr>md_token := direction_text d\<rparr>)
      else (Some (crlf (md_refusal armed mt (md_scenario s))), s))"
proof -
  have "direction_set_line d \<noteq> ''mixer''" "direction_set_line d \<noteq> ''get motor_direction''" by (cases d; simp add: direction_set_line_def)+
  then show ?thesis
    by (auto simp: md_handle_def md_set_part_line md_set_def direction_trim md_takes_def md_refusal_def md_supported_def md_ok_reply_def)
qed


subsection \<open>Whole numbers are read back\<close>

lemma bit_length_bounds: "n < 2 ^ bit_length n \<and> (n \<noteq> 0 \<longrightarrow> bit_length n \<noteq> 0 \<and> 2 ^ (bit_length n - 1) \<le> n)"
proof (induction n rule: bit_length.induct)
  case (1 n)
  show ?case
  proof (cases "n = 0")
    case False
    then have b: "bit_length n = Suc (bit_length (n div 2))" by (simp add: bit_length.simps [of n])
    have ih: "n div 2 < 2 ^ bit_length (n div 2)" "n div 2 \<noteq> 0 \<Longrightarrow> bit_length (n div 2) \<noteq> 0 \<and> 2 ^ (bit_length (n div 2) - 1) \<le> n div 2"
      using 1 [OF False] by auto
    have "n < 2 ^ bit_length n" unfolding b power_Suc using ih(1) by linarith
    moreover have "2 ^ (bit_length n - 1) \<le> n"
    proof (cases "n div 2 = 0")
      case True
      then show ?thesis using False by (simp add: b bit_length.simps [of 0])
    next
      case half: False
      obtain m where m: "bit_length (n div 2) = Suc m" "2 ^ m \<le> n div 2" using ih(2) [OF half] by (cases "bit_length (n div 2)") auto
      then show ?thesis unfolding b by simp
    qed
    ultimately show ?thesis using b by simp
  qed (simp add: bit_length.simps)
qed

lemma double_exponent_whole:
  assumes "n \<noteq> 0"
  shows "double_exponent n 1 = int (bit_length n) - 53"
proof -
  obtain b where b: "bit_length n = Suc b" "2 ^ b \<le> n" using bit_length_bounds [of n] assms by (cases "bit_length n") auto
  have "bit_length 1 = 1" by (simp add: bit_length.simps [of "Suc 0"] bit_length.simps [of 0])
  then show ?thesis using b by (simp add: double_exponent_def Let_def)
qed

lemma round_even_one [simp]: "round_even a 1 = a"
  by (simp add: round_even_def)

lemma to_double_small: "n < 2 ^ 53 \<Longrightarrow> to_double n 1 = of_nat n"
proof (cases "n = 0")
  case True
  then show ?thesis by (simp add: to_double_def round_even_def Let_def)
next
  case False
  assume "n < 2 ^ 53"
  moreover have "2 ^ (bit_length n - 1) \<le> n" using bit_length_bounds [of n] False by simp
  ultimately have "(2::nat) ^ (bit_length n - 1) < 2 ^ 53" by simp
  then have "bit_length n - 1 < 53" by (rule power_less_imp_less_exp [rotated]) simp
  then have "bit_length n \<le> 53" by simp
  then show ?thesis unfolding to_double_def double_exponent_whole [OF False]
    by (auto simp: Let_def round_even_def)
qed

lemma to_double_large:
  assumes "2 ^ 53 \<le> n"
  shows "2 ^ 53 \<le> to_double n 1"
proof -
  have nz: "n \<noteq> 0" using assms by auto
  obtain b where b: "bit_length n = Suc b" "2 ^ b \<le> n" using bit_length_bounds [of n] nz by (cases "bit_length n") auto
  have "(2::nat) ^ 53 < 2 ^ Suc b" using assms bit_length_bounds [of n] b(1) by (metis le_less_trans)
  then have "53 < Suc b" by (rule power_less_imp_less_exp [rotated]) simp
  then have b52: "53 \<le> b" by simp
  define k where "k = b - 52"
  have k: "Suc b - 53 = k" "b = 52 + k" "1 \<le> k" using b52 by (auto simp: k_def)
  have "2 ^ 52 \<le> n div 2 ^ k"
  proof -
    have "(2::nat) ^ 52 = 2 ^ b div 2 ^ k" by (simp add: k(2) power_add)
    also have "\<dots> \<le> n div 2 ^ k" using b(2) by (rule div_le_mono)
    finally show ?thesis .
  qed
  moreover have "n div 2 ^ k \<le> round_even n (2 ^ k)" by (simp add: round_even_def Let_def)
  ultimately have "(2::nat) ^ 52 * 2 ^ k \<le> round_even n (2 ^ k) * 2 ^ k" by simp
  moreover have "(2::nat) ^ 53 \<le> 2 ^ 52 * 2 ^ k"
  proof -
    have "(2::nat) ^ 1 \<le> 2 ^ k" using k(3) by (intro power_increasing) auto
    then show ?thesis by simp
  qed
  ultimately have "(2::nat) ^ 53 \<le> round_even n (2 ^ k) * 2 ^ k" by linarith
  then have "(2 :: rat) ^ 53 \<le> of_nat (round_even n (2 ^ k) * 2 ^ k)" by (metis of_nat_le_iff of_nat_numeral of_nat_power)
  moreover have "to_double n 1 = of_nat (round_even n (2 ^ k) * 2 ^ k)"
  proof -
    have "double_exponent n 1 = int k" using double_exponent_whole [OF nz] b(1) k(2) by simp
    then show ?thesis by (simp add: to_double_def del: One_nat_def)
  qed
  ultimately show ?thesis by simp
qed

lemma show_nat_split: "split_digits (show_nat n) = (show_nat n, [])"
  using show_nat_digits [of n] by (simp add: split_digits_def takeWhile_eq_all_conv dropWhile_eq_Nil_conv list_all_iff)

lemma show_nat_ends: "is_digit (hd (show_nat n))" "is_digit (last (show_nat n))"
  using show_nat_digits [of n] by (simp_all add: list_all_iff)

lemma show_nat_trim: "js_trim (show_nat n) = show_nat n"
proof -
  have "\<not> js_space c" if "is_digit c" for c using that by (auto simp: is_digit_def js_space_def)
  then show ?thesis using show_nat_ends by (intro js_trim_id) auto
qed

lemma js_number_show_nat: "js_number (show_nat n) = Some (n, 0)"
proof -
  have all: "list_all is_digit (show_nat n)" by (rule show_nat_digits)
  have second: "\<not> prefix [CHR ''0'', c] (show_nat n)" if "\<not> is_digit c" for c
    using all that by (auto simp: prefix_def list_all_iff)
  have h: "hd (show_nat n) \<noteq> CHR ''-''" "hd (show_nat n) \<noteq> CHR ''+''" using show_nat_ends(1) [of n] by (auto simp: is_digit_def)
  then have "js_decimal (show_nat n) = Some (n, 0)"
    by (simp add: js_decimal_def drop_sign_def show_nat_split decimal_exponent_def)
  then show ?thesis using second by (simp add: js_number_def is_digit_def)
qed

lemma set_number_show_nat: "set_number (show_nat n) = (if n < DOUBLE_OVERFLOW then Some (to_double n 1) else None)"
proof -
  have "hd (show_nat n) \<noteq> CHR ''-''" using show_nat_ends(1) [of n] by (auto simp: is_digit_def)
  then have "decimal_literal (show_nat n)" "fst (drop_sign (show_nat n)) = False"
    by (auto simp: decimal_literal_def show_nat_split decimal_exponent_def drop_sign_def)
  then show ?thesis
    by (simp add: set_number_def js_value_def show_nat_trim js_finite_def js_number_show_nat)
qed

lemma whole_of_nat [simp]: "is_whole (of_nat n)"
  by (simp add: is_whole_def)

lemma whole_half: "is_whole (of_nat n / 2) \<longleftrightarrow> even n"
proof
  assume "even n"
  then obtain m where "n = 2 * m" by blast
  then show "is_whole (of_nat n / 2)" by simp
next
  assume "is_whole (of_nat n / 2)"
  then have "of_int (2 * \<lfloor>of_nat n / 2 :: rat\<rfloor>) = (of_nat n :: rat)" by (simp add: is_whole_def)
  then have "int n = 2 * \<lfloor>of_nat n / 2 :: rat\<rfloor>" by (metis of_int_eq_iff of_int_of_nat_eq)
  then show "even n" by presburger
qed

lemma accepts_nat:
  assumes "n < 2 ^ 53"
  shows "rf_accepts k (of_nat n) \<longleftrightarrow> rpm_value_problem k (Some (int n)) = None"
proof -
  have [simp]: "(50 :: rat) \<le> of_nat n \<longleftrightarrow> 50 \<le> n" "(100 :: rat) \<le> of_nat n \<longleftrightarrow> 100 \<le> n" "(4 :: rat) \<le> of_nat n \<longleftrightarrow> 4 \<le> n"
    "of_nat n \<le> (3 :: rat) \<longleftrightarrow> n \<le> 3" "of_nat n \<le> (200 :: rat) \<longleftrightarrow> n \<le> 200" "of_nat n \<le> (1000 :: rat) \<longleftrightarrow> n \<le> 1000" "of_nat n \<le> (36 :: rat) \<longleftrightarrow> n \<le> 36"
    using of_nat_le_iff [where ?'a = rat] by (metis of_nat_numeral)+
  show ?thesis by (cases k) (auto simp: rpm_value_problem_def whole_half)
qed

lemma refuses_large: "2 ^ 53 \<le> n \<Longrightarrow> \<not> rf_accepts k (to_double n 1) \<and> rpm_value_problem k (Some (int n)) \<noteq> None"
  using to_double_large [of n] by (cases k) (auto simp: rpm_value_problem_def)

subsection \<open>The hint of the page and the rule of the controller\<close>

lemma rf_set_nat:
  "rf_set k (show_nat n) s =
     (if rpm_value_problem k (Some (int n)) = None then (rf_ok_reply k (show_nat n), s\<lparr>rf_values := (rf_values s)(k := n)\<rparr>)
      else if n < 2 ^ 53 then (crlf (''set failed: '' @ rpm_key_text k @ '' must be '' @ rf_rule k), s)
      else (fst (rf_set k (show_nat n) s), s))"
proof (cases "n < 2 ^ 53")
  case True
  have "(2 :: nat) ^ 53 \<le> DOUBLE_OVERFLOW"
  proof -
    have "(2 :: nat) ^ 971 \<le> 2 ^ 1024 - 2 ^ 970" by simp
    then show ?thesis unfolding DOUBLE_OVERFLOW_def by simp
  qed
  then have "n < DOUBLE_OVERFLOW" using True by linarith
  then have "set_number (show_nat n) = Some (of_nat n)" by (simp only: set_number_show_nat to_double_small [OF True] if_True)
  then show ?thesis using True accepts_nat [OF True] by (auto simp: rf_set_def rf_ok_reply_def)
next
  case False
  then have l: "2 ^ 53 \<le> n" by simp
  have "snd (rf_set k (show_nat n) s) = s"
    using refuses_large [OF l, of k] by (auto simp: rf_set_def set_number_show_nat split: option.split)
  then show ?thesis using False refuses_large [OF l, of k] by (auto simp: prod_eq_iff)
qed

lemma rpm_set_line_parts: "set_parts (rpm_set_line k n) = Some (rpm_key_text k, show_nat n)"
proof -
  have every: "list_all (\<lambda>k. list_all (\<lambda>c. \<not> js_space c) (rpm_key_text k) \<and> one_line (rpm_key_text k)) [RpmHarmonics, RpmMinHz, RpmQ, MotorPoles]"
    by code_simp
  have ns: "list_all (\<lambda>c. \<not> js_space c) (rpm_key_text k)" "one_line (rpm_key_text k)" using every by (cases k; simp)+
  have sp: "js_space (CHR '' '')" by (simp add: js_space_def)
  have t: "takeWhile (\<lambda>c. \<not> js_space c) (rpm_key_text k @ CHR '' '' # show_nat n) = rpm_key_text k"
    using ns(1) sp by (simp add: takeWhile_append2 list_all_iff)
  have "rpm_key_text k \<noteq> []" by (cases k) simp_all
  moreover have "one_line (show_nat n)" using show_nat_digits [of n] by (auto simp: one_line_def list_all_iff is_digit_def LF_def CR_def)
  ultimately show ?thesis using t by (simp add: set_parts_def rpm_set_line_def Let_def)
qed

lemma rpm_set_line_other: "rpm_set_line k n \<noteq> ''rpm_filter''" "erpm_query (rpm_set_line k n) = None" "get_key (rpm_set_line k n) = None"
  by (simp_all add: rpm_set_line_def erpm_query_def get_key_def get_line_def RPM_FILTER_KEYS_def)

lemma rf_key_of_text: "rf_key_of (rpm_key_text k) = Some k"
  by (cases k) (simp_all add: rf_key_of_def RPM_FILTER_KEYS_def)

text \<open>C35: The hint of the page is the rule of the controller: for every RPM setting and every whole number, a disarmed simulated controller
  that has the setting takes the value exactly when the page raises no problem; it then holds that number and says
  so, and otherwise nothing changes and the reply is no success.\<close>
theorem rpm_hint_is_rule:
  "if rf_supported s
   then (if rpm_value_problem k (Some (int n)) = None
         then rf_handle source False (rpm_set_line k n) s = (Some (rf_ok_reply k (show_nat n)), s\<lparr>rf_values := (rf_values s)(k := n)\<rparr>)
         else snd (rf_handle source False (rpm_set_line k n) s) = s \<and> (\<forall>v. fst (rf_handle source False (rpm_set_line k n) s) \<noteq> Some (rf_ok_reply k v)))
   else fst (rf_handle source False (rpm_set_line k n) s) = Some (crlf ''unknown key'')"
proof -
  have h: "rf_handle source False (rpm_set_line k n) s =
     (if \<not> rf_supported s then (Some (crlf ''unknown key''), s) else (case rf_set k (show_nat n) s of (reply, t) \<Rightarrow> (Some reply, t)))"
    unfolding rf_handle_def by (simp add: rpm_set_line_other rpm_set_line_parts rf_key_of_text)
  show ?thesis
  proof (cases "rpm_value_problem k (Some (int n)) = None")
    case True
    then show ?thesis using h rf_set_nat [of k n s] by simp
  next
    case False
    then have "snd (rf_set k (show_nat n) s) = s" using rf_set_nat [of k n s] by (metis snd_conv)
    moreover have "\<forall>v. fst (rf_set k (show_nat n) s) \<noteq> rf_ok_reply k v"
    proof -
      have "rf_values s k = rf_values (snd (rf_set k (show_nat n) s)) k" using calculation by simp
      show ?thesis
      proof (cases "n < 2 ^ 53")
        case True
        have "rf_set k (show_nat n) s = (crlf (''set failed: '' @ rpm_key_text k @ '' must be '' @ rf_rule k), s)"
          by (subst rf_set_nat) (simp only: False True if_False if_True)
        then show ?thesis by (simp add: rf_ok_reply_def)
      next
        case large: False
        then have "\<not> rf_accepts k (to_double n 1)" using refuses_large [of n k] by simp
        then show ?thesis by (auto simp: rf_set_def set_number_show_nat rf_ok_reply_def)
      qed
    qed
    ultimately show ?thesis using h False by (auto split: prod.split)
  qed
qed

end
