(* ===== verification/Config_Export.thy ===== *)
theory Config_Export
  imports Sim_Controllers Cli_Client
begin

section \<open>Configuration exports: storage.ts\<close>

text \<open>
  \<open>parseConfigurationExport\<close> reads what \<open>diff all\<close> and \<open>dump all\<close> print: a first line, headers, commands and a last line. The
  exported file is kept to be replayed on a controller, so the reader lets no line through that is not a setting in its range.
  Numbers are those of \<open>js_value\<close>, the rationals that doubles hold; \<open>far\<close> is \<open>Math.hypot(...v) > 0.300001\<close>, whose last bits
  the engine chooses.
\<close>

definition CONFIG_EXPORT_MAX_BYTES :: nat where "CONFIG_EXPORT_MAX_BYTES = 3072"

datatype export_kind = Diff | Dump

datatype export_error =
  ExportTooLong nat | IncompleteExport | MisplacedHeader | MalformedHeader
  | UnexpectedPower | InvalidDshot | InvalidPower | InvalidDirection | UnsupportedExportLine | InvalidRange | InvalidLoopRate
  | InvalidNotch | InvalidRpm | InvalidAlignment | FreshInstallOnly | InvalidSetting
  | UnsupportedIdentity | BadCalibrationMetadata | BadCalibrationVector | BadCalibrationBounds

record config_export =
  ex_raw :: string
  ex_board :: string
  ex_firmware :: string
  ex_kind :: export_kind
  ex_modes :: nat

fun kind_text :: "export_kind \<Rightarrow> string" where
  "kind_text Diff = ''diff''"
| "kind_text Dump = ''dump''"

subsection \<open>The shapes of a line\<close>

text \<open>\<open>/^# ([a-z_]+): (.+)$/\<close>.\<close>

definition export_header :: "string \<Rightarrow> (string \<times> string) option" where
  "export_header l =
     (if prefix ''# '' l then (case field_line key_char '': '' (drop 2 l) of Some (k, v) \<Rightarrow> if v = [] then None else Some (k, v) | None \<Rightarrow> None)
      else None)"

text \<open>\<open>/^\d+(?:\.\d+)?(?:e[+-]?\d+)?$/\<close>, and with a leading minus.\<close>

definition plain_number :: "string \<Rightarrow> bool" where
  "plain_number s =
     (let (a, r) = split_digits s;
          dot = (r \<noteq> [] \<and> hd r = CHR ''.'');
          (b, t) = (if dot then split_digits (tl r) else ([], r))
      in a \<noteq> [] \<and> (dot \<longrightarrow> b \<noteq> []) \<and> (t = [] \<or> hd t = CHR ''e'' \<and> all_digits (snd (drop_sign (tl t)))))"

definition signed_number :: "string \<Rightarrow> bool" where
  "signed_number s = plain_number (if s \<noteq> [] \<and> hd s = CHR ''-'' then tl s else s)"

definition setting_name :: "string \<Rightarrow> bool" where
  "setting_name k \<longleftrightarrow> k \<noteq> [] \<and> is_lower (hd k) \<and> list_all setting_char (tl k)"

definition words :: "string \<Rightarrow> string list" where
  "words l = split_char (CHR '' '') l"

definition set_command :: "string \<Rightarrow> (string \<times> string) option" where
  "set_command l = (case words l of
     [w, k, v] \<Rightarrow> if w = ''set'' \<and> setting_name k \<and> signed_number v then Some (k, v) else None
   | _ \<Rightarrow> None)"

definition mode_range_shape :: "string \<Rightarrow> bool" where
  "mode_range_shape l = (case words l of
     [w, m, e, c, lo, hi] \<Rightarrow> w = ''mode_range'' \<and> m \<in> set [''ARM'', ''ANGLE'', ''ACRO'', ''HORIZON''] \<and> e \<in> set [''0'', ''1'']
       \<and> c \<in> set (List.map show_nat [1..<13]) \<and> all_digits lo \<and> all_digits hi
   | _ \<Rightarrow> False)"

definition receiver_command :: "string \<Rightarrow> bool" where
  "receiver_command l \<longleftrightarrow> l \<in> set (List.map (\<lambda>c. ''receiver_uart '' @ [c]) ''123467'') \<or> l = ''receiver_map AETR'' \<or> l = ''receiver_map TAER''"

text \<open>The long regular expression: a set of a number, the receiver, a mode range, the control mode and source.\<close>

definition export_command :: "string \<Rightarrow> bool" where
  "export_command l \<longleftrightarrow> set_command l \<noteq> None \<or> receiver_command l \<or> mode_range_shape l \<or> is_control_mode_command l
     \<or> is_control_source_command l"

subsection \<open>The ranges\<close>

definition whole_number :: "rat option \<Rightarrow> int option" where
  "whole_number n = (case n of None \<Rightarrow> None | Some v \<Rightarrow> if is_whole v then Some \<lfloor>v\<rfloor> else None)"

definition power_values_ok :: "rat option list \<Rightarrow> bool" where
  "power_values_ok vs = (case vs of
     [Some scale, Some per_amp, Some offset, Some cells, Some warning, Some critical, Some capacity] \<Rightarrow>
       \<not> (scale < 1 \<or> scale > 30 \<or> per_amp < 0 \<or> per_amp > 1000 \<or> per_amp > 0 \<and> per_amp < 1 \<or> offset < 0 \<or> offset > 3300
          \<or> \<not> is_whole cells \<or> cells < 0 \<or> cells > 6 \<or> critical < 5 / 2 \<or> warning > to_double 43 10 \<or> critical \<ge> warning
          \<or> \<not> is_whole capacity \<or> capacity < 0 \<or> capacity > 50000)
   | _ \<Rightarrow> False)"

definition power_line_ok :: "string \<Rightarrow> bool" where
  "power_line_ok l = (let ws = tl (words l) in list_all plain_number ws \<and> power_values_ok (List.map js_value ws))"

definition notch_prefixes :: "string list" where
  "notch_prefixes = [''set gyro_notch1_hz '', ''set gyro_notch1_cutoff_hz '', ''set gyro_notch2_hz '', ''set gyro_notch2_cutoff_hz '']"

definition rpm_prefixes :: "string list" where
  "rpm_prefixes = [''set rpm_filter_harmonics '', ''set rpm_filter_min_hz '', ''set rpm_filter_q_x100 '', ''set motor_poles '']"

definition align_prefixes :: "string list" where
  "align_prefixes = [''set align_board_roll '', ''set align_board_pitch '', ''set align_board_yaw '']"

definition starts_any :: "string list \<Rightarrow> string \<Rightarrow> bool" where
  "starts_any ps l = list_ex (\<lambda>p. prefix p l) ps"

definition notch_value_ok :: "string \<Rightarrow> rat option \<Rightarrow> bool" where
  "notch_value_ok key n = (case n of
     None \<Rightarrow> False
   | Some v \<Rightarrow> if suffix ''_cutoff_hz'' key then \<not> (v < 0 \<or> v \<ge> 1000) else \<not> (v \<noteq> 0 \<and> (v < 20 \<or> v > 1000)))"

definition ACTUAL_RATE_KEYS :: "string list" where
  "ACTUAL_RATE_KEYS = [''rate_center_roll'', ''rate_center_pitch'', ''rate_center_yaw'', ''rate_expo_roll'', ''rate_expo_pitch'', ''rate_expo_yaw'']"

text \<open>\<open>const [, key, value] = line.split(' ')\<close> of a line that the long expression accepted.\<close>

definition key_of :: "string \<Rightarrow> string" where "key_of l = words l ! 1"
definition value_of :: "string \<Rightarrow> string" where "value_of l = words l ! 2"

subsection \<open>The reader\<close>

text \<open>One command line, given the schema header seen so far.\<close>

definition check_export_command :: "string option \<Rightarrow> string \<Rightarrow> export_error + unit" where
  "check_export_command schema l =
     (let old = (schema \<noteq> Some ''13'') in
      if prefix ''power_config '' l \<or> prefix ''dshot '' l then
        (if old then Inl UnexpectedPower
         else if prefix ''dshot '' l then (if l = ''dshot 300'' \<or> l = ''dshot 600'' then Inr () else Inl InvalidDshot)
         else if power_line_ok l then Inr () else Inl InvalidPower)
      else if prefix ''set motor_direction '' l then
        (if old \<or> l \<notin> set [''set motor_direction props-out'', ''set motor_direction props-in''] then Inl InvalidDirection else Inr ())
      else if \<not> export_command l then Inl UnsupportedExportLine
      else if prefix ''mode_range '' l \<and> \<not> is_mode_range_command l then Inl InvalidRange
      else if prefix ''set loop_rate_hz '' l then
        (if old \<or> l \<notin> set [''set loop_rate_hz 1000'', ''set loop_rate_hz 4000'', ''set loop_rate_hz 8000''] then Inl InvalidLoopRate else Inr ())
      else if starts_any notch_prefixes l then
        (if old \<or> \<not> notch_value_ok (key_of l) (js_value (value_of l)) then Inl InvalidNotch else Inr ())
      else if starts_any rpm_prefixes l then
        (if old \<or> \<not> all_digits (value_of l) \<or> \<not> rpm_export_value_valid (key_of l) (whole_number (js_value (value_of l))) then Inl InvalidRpm else Inr ())
      else if starts_any align_prefixes l then
        (if old \<or> \<not> is_board_alignment_command l then Inl InvalidAlignment else Inr ())
      else if prefix ''set '' l then
        (if key_of l \<in> set ACTUAL_RATE_KEYS \<and> old then Inl FreshInstallOnly
         else if \<not> is_settings_key (key_of l) \<or> \<not> validate_setting_value (key_of l) (js_value (value_of l)) then Inl InvalidSetting
         else Inr ())
      else Inr ())"

record export_scan =
  xs_headers :: "string \<rightharpoonup> string"
  xs_commands :: bool

definition scan_export_line :: "string \<Rightarrow> export_scan \<Rightarrow> export_error + export_scan" where
  "scan_export_line l s =
     (if prefix ''# '' l then
        (if xs_commands s then Inl MisplacedHeader
         else (case export_header l of
            None \<Rightarrow> Inl MalformedHeader
          | Some (k, v) \<Rightarrow> if xs_headers s k \<noteq> None then Inl MalformedHeader else Inr (s\<lparr>xs_headers := (xs_headers s)(k \<mapsto> v)\<rparr>)))
      else res_bind (check_export_command (xs_headers s ''schema'') l) (\<lambda>_. Inr (s\<lparr>xs_commands := True\<rparr>)))"

fun scan_export :: "string list \<Rightarrow> export_scan \<Rightarrow> export_error + export_scan" where
  "scan_export [] s = Inr s"
| "scan_export (l # ls) s = res_bind (scan_export_line l s) (scan_export ls)"

definition export_name_char :: "string \<Rightarrow> char \<Rightarrow> bool" where
  "export_name_char others c \<longleftrightarrow> is_lower c \<or> is_upper c \<or> is_digit c \<or> c \<in> set others"

definition named_with :: "string \<Rightarrow> string \<Rightarrow> bool" where
  "named_with others s \<longleftrightarrow> s \<noteq> [] \<and> list_all (export_name_char others) s"

definition header_of :: "(string \<rightharpoonup> string) \<Rightarrow> string \<Rightarrow> string" where
  "header_of h k = (case h k of None \<Rightarrow> [] | Some v \<Rightarrow> v)"

definition identity_ok :: "(string \<rightharpoonup> string) \<Rightarrow> export_kind \<Rightarrow> bool" where
  "identity_ok h kind \<longleftrightarrow> \<not> (header_of h ''schema'' \<noteq> ''13'' \<or> h ''kind'' \<noteq> Some (kind_text kind)
     \<or> h ''scope'' \<noteq> (case h ''schema'' of None \<Rightarrow> None | Some v \<Rightarrow> scope_for v)
     \<or> h ''excludes'' \<noteq> Some ''gyro_calibration'' \<or> header_of h ''mode_count'' \<notin> set [''2'', ''4'']
     \<or> \<not> named_with ''-_'' (header_of h ''board'') \<or> \<not> named_with ''-._+'' (header_of h ''firmware''))"

definition ACCEL_STORAGE :: "string list" where
  "ACCEL_STORAGE = [''ram-only'', ''error'', ''not-calibrated'', ''unsaved'', ''flash-verified'', ''host-sim'']"

definition metadata_ok :: "(string \<rightharpoonup> string) \<Rightarrow> bool" where
  "metadata_ok h \<longleftrightarrow> header_of h ''accel_calibrated'' \<in> set [''yes'', ''no'']
     \<and> h ''calibration_restore'' = Some ''metadata-only-recalibrate-if-flash-lost'' \<and> header_of h ''accel_storage'' \<in> set ACCEL_STORAGE"

definition calibration_vector :: "(string \<rightharpoonup> string) \<Rightarrow> string \<Rightarrow> export_error + rat list" where
  "calibration_vector h key =
     (let parts = words (header_of h key) in
      if length parts \<noteq> 3 \<or> list_ex (\<lambda>v. v = [] \<or> js_value v = None) parts then Inl BadCalibrationVector
      else Inr (List.map (\<lambda>v. the (js_value v)) parts))"

definition parse_configuration_export :: "(rat list \<Rightarrow> bool) \<Rightarrow> string \<Rightarrow> export_kind \<Rightarrow> export_error + config_export" where
  "parse_configuration_export far raw kind =
     (if length raw > CONFIG_EXPORT_MAX_BYTES then Inl (ExportTooLong (length raw))
      else let ls = split_nl (js_trim raw) in
      if hd ls \<noteq> ''# bobflight_config: 1'' \<or> last ls \<noteq> ''# config_end: 1'' then Inl IncompleteExport
      else res_bind (scan_export (butlast (tl ls)) \<lparr>xs_headers = Map.empty, xs_commands = False\<rparr>) (\<lambda>s. let h = xs_headers s in
        if \<not> identity_ok h kind then Inl UnsupportedIdentity
        else if \<not> metadata_ok h then Inl BadCalibrationMetadata
        else res_bind (calibration_vector h ''accel_bias'') (\<lambda>bias.
          if far bias then Inl BadCalibrationBounds
          else res_bind (calibration_vector h ''accel_scale'') (\<lambda>scale.
            if list_ex (\<lambda>x. x < to_double 9 10 \<or> x > to_double 11 10) scale then Inl BadCalibrationBounds
            else Inr \<lparr>ex_raw = raw, ex_board = header_of h ''board'', ex_firmware = header_of h ''firmware'', ex_kind = kind,
                      ex_modes = dec_num (header_of h ''mode_count'')\<rparr>))))"

subsection \<open>What an accepted export may do\<close>

text \<open>
  The lines an export may hold, said without the reader: a set that the configurator itself would send
  (\<open>validate_setting_value\<close>, the direction, the loop rate, the board alignment), the receiver, a mode range, the control mode and
  source, the DShot rate and the battery settings.
\<close>

definition LOOP_RATE_TEXTS :: "string list" where
  "LOOP_RATE_TEXTS = [''1000'', ''4000'', ''8000'']"

definition settable :: "string \<Rightarrow> string \<Rightarrow> bool" where
  "settable k v \<longleftrightarrow> is_settings_key k \<and> validate_setting_value k (js_value v)
     \<or> k = ''motor_direction'' \<and> direction_of v \<noteq> None
     \<or> k = ''loop_rate_hz'' \<and> v \<in> set LOOP_RATE_TEXTS
     \<or> k \<in> set (List.map (\<lambda>a. ''align_board_'' @ a) align_axes) \<and> angle_text v"

definition replayable :: "string \<Rightarrow> bool" where
  "replayable l \<longleftrightarrow> (case words l of w # k # v # [] \<Rightarrow> w = ''set'' \<and> settable k v | _ \<Rightarrow> False)
     \<or> receiver_command l \<or> is_mode_range_command l \<or> is_control_mode_command l \<or> is_control_source_command l
     \<or> l = ''dshot 300'' \<or> l = ''dshot 600'' \<or> prefix ''power_config '' l \<and> power_line_ok l"

lemma words_set: "CHR '' '' \<notin> set k \<Longrightarrow> words (''set '' @ k @ '' '' @ v) = ''set'' # k # words v"
  using split_char_append [of "CHR '' ''" "''set''"] split_char_append [of "CHR '' ''" k v] by (simp add: words_def)

lemma words_set_prefix: "prefix (''set '' @ k @ '' '') l \<Longrightarrow> CHR '' '' \<notin> set k \<Longrightarrow> \<exists>v. words l = ''set'' # k # words v"
  using words_set [of k] by (auto simp: prefix_def)

lemma set_command_words: "set_command l = Some (k, v) \<Longrightarrow> words l = [''set'', k, v]"
  by (auto simp: set_command_def split: list.splits if_splits)

lemma starts_set:
  assumes "starts_any (List.map (\<lambda>k. ''set '' @ k @ '' '') ks) l" "words l = [''set'', k, v]" "list_all (\<lambda>k. CHR '' '' \<notin> set k) ks"
  shows "k \<in> set ks"
proof -
  obtain key where key: "key \<in> set ks" "prefix (''set '' @ key @ '' '') l" using assms(1) by (auto simp: starts_any_def list_ex_iff)
  then show ?thesis using words_set_prefix [OF key(2)] assms(2, 3) by (auto simp: list_all_iff)
qed

lemma notch_keys: "notch_prefixes = List.map (\<lambda>k. ''set '' @ k @ '' '') GYRO_NOTCH_KEYS"
  by code_simp

lemma rpm_keys: "rpm_prefixes = List.map (\<lambda>k. ''set '' @ k @ '' '') (List.map rpm_key_text RPM_FILTER_KEYS)"
  by code_simp

lemma keys_plain: "list_all (\<lambda>k. CHR '' '' \<notin> set k) GYRO_NOTCH_KEYS" "list_all (\<lambda>k. CHR '' '' \<notin> set k) (List.map rpm_key_text RPM_FILTER_KEYS)"
  "list_all is_settings_key GYRO_NOTCH_KEYS" "list_all is_settings_key (List.map rpm_key_text RPM_FILTER_KEYS)"
  by code_simp+

text \<open>The export reader's own ranges of the notches and of the RPM filter are those of the settings.\<close>

lemma notch_value_valid:
  assumes "k \<in> set GYRO_NOTCH_KEYS" "notch_value_ok k n"
  shows "validate_setting_value k n"
proof -
  have "list_all (\<lambda>k. suffix ''_cutoff_hz'' k \<longleftrightarrow> k \<in> set [''gyro_notch1_cutoff_hz'', ''gyro_notch2_cutoff_hz'']) GYRO_NOTCH_KEYS" by code_simp
  then have "suffix ''_cutoff_hz'' k \<longleftrightarrow> k = ''gyro_notch1_cutoff_hz'' \<or> k = ''gyro_notch2_cutoff_hz''" using assms(1) by (simp add: list_all_iff)
  moreover have "k = ''gyro_notch1_hz'' \<or> k = ''gyro_notch1_cutoff_hz'' \<or> k = ''gyro_notch2_hz'' \<or> k = ''gyro_notch2_cutoff_hz''"
    using assms(1) by (simp add: GYRO_NOTCH_KEYS_def)
  ultimately show ?thesis using assms(2)
    by (cases n; elim disjE; simp add: notch_value_ok_def validate_setting_value_def in_range_def not_less split: if_splits)
qed

lemma rpm_value_valid:
  assumes "k \<in> set (List.map rpm_key_text RPM_FILTER_KEYS)" "rpm_export_value_valid k (whole_number n)"
  shows "validate_setting_value k n"
proof -
  have "k = ''rpm_filter_harmonics'' \<or> k = ''rpm_filter_min_hz'' \<or> k = ''rpm_filter_q_x100'' \<or> k = ''motor_poles''"
    using assms(1) by (simp add: RPM_FILTER_KEYS_def)
  moreover obtain i where i: "n = Some (of_int i)" "rpm_export_value_valid k (Some i)"
    using assms(2) by (cases n) (auto simp: whole_number_def is_whole_def rpm_export_value_valid_def split: if_splits)
  moreover have "is_whole (of_int i)" by (simp add: is_whole_def)
  moreover have "i mod 2 = 0 \<Longrightarrow> is_whole (of_int i / 2)" by (auto simp: is_whole_def)
  ultimately show ?thesis
    by (elim disjE; simp add: rpm_export_value_valid_def validate_setting_value_def in_range_def split: if_splits)
qed

lemma split_char_cons: "\<exists>x xs. split_char c s = x # xs"
proof (induction s)
  case (Cons d s)
  then obtain x xs where "split_char c s = x # xs" by blast
  then show ?case by simp
qed simp

lemma js_join_add_head: "js_join sep (add_head c (x # xs)) = c # js_join sep (x # xs)"
  by (cases xs) auto

lemma js_join_words: "js_join '' '' (words l) = l"
proof (induction l)
  case (Cons c s)
  obtain x xs where "words s = x # xs" using split_char_cons [of _ s] unfolding words_def by blast
  then show ?case using Cons js_join_add_head [of "'' ''" c x xs] by (cases xs) (auto simp: words_def)
qed (simp add: words_def)

lemma mode_range_shape_prefix: "mode_range_shape l \<Longrightarrow> prefix ''mode_range '' l"
  using js_join_words [of l] by (auto simp: mode_range_shape_def split: list.splits)

lemma align_words:
  assumes "a \<in> set align_axes" "prefix (''set align_board_'' @ a @ '' '') l \<and> angle_text (drop (length (''set align_board_'' @ a @ '' '')) l)"
    "words l = [''set'', k, v]"
  shows "k = ''align_board_'' @ a \<and> angle_text v"
proof -
  obtain r where r: "l = ''set '' @ (''align_board_'' @ a) @ '' '' @ r" using assms(2) by (auto simp: prefix_def)
  have "CHR '' '' \<notin> set (''align_board_'' @ a)" using assms(1) by (auto simp: align_axes_def)
  note w = words_set [OF this, of r, folded r]
  have "js_join '' '' (words r) = r" by (rule js_join_words)
  moreover have "words r = [v]" using w assms(3) by simp
  ultimately have "r = v" by simp
  then show ?thesis using w assms(2, 3) r by simp
qed

lemma set_prefix_words: "words l = [''set'', k, v] \<Longrightarrow> l = ''set '' @ k @ '' '' @ v"
  using js_join_words [of l] by simp

lemma power_branch:
  assumes "(if p \<or> d then if old then Inl a else if d then if x \<or> y then Inr () else Inl b else if q then Inr () else Inl c else r) = Inr ()" "p \<or> d"
  shows "x \<or> y \<or> p \<and> q"
  using assms by (auto split: if_splits)

lemma later_branch:
  assumes "(if c then a else if m then if old \<or> x \<notin> S then Inl d else Inr () else if \<not> e then Inl f else if r \<and> \<not> k then Inl g else h) = Inr ()"
    "\<not> c"
  shows "if m then x \<in> S else e \<and> \<not> (r \<and> \<not> k)"
  using assms by (auto split: if_splits)

text \<open>The five lines that the reader knows whole.\<close>

lemma known_lines:
  "list_all (\<lambda>l. case words l of
      [w, k, v] \<Rightarrow> k = ''motor_direction'' \<and> direction_of v \<noteq> None \<or> k = ''loop_rate_hz'' \<and> v \<in> set LOOP_RATE_TEXTS
    | _ \<Rightarrow> False)
    [''set motor_direction props-out'', ''set motor_direction props-in'', ''set loop_rate_hz 1000'', ''set loop_rate_hz 4000'',
     ''set loop_rate_hz 8000'']"
  by code_simp

lemma check_replayable:
  assumes "check_export_command sc l = Inr ()"
  shows "replayable l"
proof (cases "set_command l")
  case None
  show ?thesis
  proof (cases "prefix ''power_config '' l \<or> prefix ''dshot '' l")
    case True
    have "l = ''dshot 300'' \<or> l = ''dshot 600'' \<or> prefix ''power_config '' l \<and> power_line_ok l"
      by (rule power_branch [OF assms [unfolded check_export_command_def Let_def] True])
    then show ?thesis unfolding replayable_def by argo
  next
    case other: False
    note l = later_branch [OF assms [unfolded check_export_command_def Let_def] other]
    show ?thesis
    proof (cases "prefix ''set motor_direction '' l")
      case True
      then have "l \<in> set [''set motor_direction props-out'', ''set motor_direction props-in'']" using l by argo
      then have "words l = [''set'', ''motor_direction'', ''props-out''] \<or> words l = [''set'', ''motor_direction'', ''props-in'']"
        by (auto simp: words_def)
      moreover have "settable ''motor_direction'' ''props-out''" "settable ''motor_direction'' ''props-in''"
        by (simp_all add: settable_def direction_of_def)
      ultimately show ?thesis by (elim disjE; simp add: replayable_def)
    next
      case False
      then have "export_command l \<and> \<not> (prefix ''mode_range '' l \<and> \<not> is_mode_range_command l)" using l by argo
      then show ?thesis using None mode_range_shape_prefix [of l] unfolding export_command_def replayable_def by argo
    qed
  qed
next
  case (Some kv)
  obtain k v where kv: "kv = (k, v)" by fastforce
  note w = set_command_words [OF Some [unfolded kv]]
  have key: "key_of l = k" "value_of l = v" using w by (simp_all add: key_of_def value_of_def)
  have other: "\<not> prefix ''power_config '' l" "\<not> prefix ''dshot '' l" "\<not> prefix ''mode_range '' l" "prefix ''set '' l" "export_command l"
    using set_prefix_words [OF w] Some by (auto simp: export_command_def)
  have "settable k v"
  proof (cases "prefix ''set motor_direction '' l \<or> prefix ''set loop_rate_hz '' l")
    case True
    then have "l \<in> set [''set motor_direction props-out'', ''set motor_direction props-in'', ''set loop_rate_hz 1000'',
        ''set loop_rate_hz 4000'', ''set loop_rate_hz 8000'']"
      using assms other by (auto simp: check_export_command_def Let_def split: if_splits)
    then have "k = ''motor_direction'' \<and> direction_of v \<noteq> None \<or> k = ''loop_rate_hz'' \<and> v \<in> set LOOP_RATE_TEXTS"
      using known_lines w unfolding list_all_iff by force
    then show ?thesis unfolding settable_def by argo
  next
    case plain: False
    note c = assms [unfolded check_export_command_def Let_def, simplified other plain [unfolded de_Morgan_disj] key, simplified]
    consider "starts_any notch_prefixes l" | "\<not> starts_any notch_prefixes l" "starts_any rpm_prefixes l"
      | "\<not> starts_any notch_prefixes l" "\<not> starts_any rpm_prefixes l" "starts_any align_prefixes l"
      | "\<not> starts_any notch_prefixes l" "\<not> starts_any rpm_prefixes l" "\<not> starts_any align_prefixes l" by blast
    then show ?thesis
    proof cases
      case 1
      then have "k \<in> set GYRO_NOTCH_KEYS" using starts_set [OF _ w keys_plain(1)] by (simp add: notch_keys)
      moreover have "notch_value_ok k (js_value v)" using c 1 by (auto split: if_splits)
      ultimately show ?thesis using keys_plain(3) notch_value_valid by (auto simp: settable_def list_all_iff)
    next
      case 2
      then have "k \<in> set (List.map rpm_key_text RPM_FILTER_KEYS)" using starts_set [OF _ w keys_plain(2)] by (simp add: rpm_keys)
      moreover have "rpm_export_value_valid k (whole_number (js_value v))" using c 2 by (auto split: if_splits)
      ultimately show ?thesis using keys_plain(4) rpm_value_valid unfolding settable_def list_all_iff by blast
    next
      case 3
      then have a: "is_board_alignment_command l" using c by (auto split: if_splits)
      have "\<exists>a \<in> set align_axes. prefix (''set align_board_'' @ a @ '' '') l \<and> angle_text (drop (length (''set align_board_'' @ a @ '' '')) l)"
        using a set_prefix_words [OF w] by (auto simp: is_board_alignment_command_def align_axes_def)
      then show ?thesis using align_words [OF _ _ w] by (auto simp: settable_def)
    next
      case 4
      then show ?thesis using c by (auto simp: settable_def split: if_splits)
    qed
  qed
  then show ?thesis using w by (simp add: replayable_def)
qed

text \<open>None of these lines starts a motor, arms the controller or stores anything.\<close>

definition harmless_words :: "string list" where
  "harmless_words = [''set'', ''receiver_uart'', ''receiver_map'', ''mode_range'', ''control_mode'', ''control_source'', ''dshot'', ''power_config'']"

lemma replayable_word:
  assumes "replayable l"
  shows "hd (words l) \<in> set harmless_words"
proof -
  have "receiver_command l \<Longrightarrow> hd (words l) \<in> set [''receiver_uart'', ''receiver_map'']"
    by (auto simp: receiver_command_def words_def)
  moreover have "is_mode_range_command l \<Longrightarrow> hd (words l) = ''mode_range''"
    by (cases "words l") (auto simp: is_mode_range_command_def words_def [symmetric] Let_def)
  moreover have "prefix ''power_config '' l \<Longrightarrow> hd (words l) = ''power_config''"
    using split_char_append [of "CHR '' ''" "''power_config''"] by (auto simp: prefix_def words_def)
  moreover have "is_control_mode_command l \<Longrightarrow> hd (words l) = ''control_mode''" "is_control_source_command l \<Longrightarrow> hd (words l) = ''control_source''"
    "l = ''dshot 300'' \<or> l = ''dshot 600'' \<Longrightarrow> hd (words l) = ''dshot''"
    by (auto simp: is_control_mode_command_def is_control_source_command_def words_def)
  moreover have "(case words l of w # k # v # [] \<Rightarrow> w = ''set'' \<and> settable k v | _ \<Rightarrow> False) \<Longrightarrow> hd (words l) = ''set''"
    by (auto split: list.splits)
  ultimately show ?thesis using assms unfolding replayable_def harmless_words_def list.set insert_iff empty_iff by argo
qed

lemma motor_start_word: "is_motor_start_command l \<Longrightarrow> hd (words l) \<notin> set harmless_words"
  using split_char_append [of "CHR '' ''" "''motor_pulse''"]
  by (auto simp: is_motor_start_command_def harmless_words_def words_def prefix_def)

lemma scan_export_parts:
  "scan_export ls s = Inr t \<Longrightarrow> \<exists>hs cs. ls = hs @ cs \<and> list_all (\<lambda>l. export_header l \<noteq> None) hs \<and> list_all replayable cs \<and> (xs_commands s \<longrightarrow> hs = [])"
proof (induction ls arbitrary: s)
  case (Cons l ls)
  then obtain u where u: "scan_export_line l s = Inr u" "scan_export ls u = Inr t" by (auto elim!: res_bind_InrE)
  obtain hs cs where p: "ls = hs @ cs" "list_all (\<lambda>l. export_header l \<noteq> None) hs" "list_all replayable cs" "xs_commands u \<longrightarrow> hs = []"
    using Cons.IH [OF u(2)] by blast
  show ?case
  proof (cases "prefix ''# '' l")
    case True
    then have "export_header l \<noteq> None" "\<not> xs_commands s" using u(1) by (auto simp: scan_export_line_def split: if_splits option.splits)
    then show ?thesis using p by (intro exI [of _ "l # hs"] exI [of _ cs]) auto
  next
    case False
    then have "check_export_command (xs_headers s ''schema'') l = Inr ()" "xs_commands u"
      using u(1) by (auto simp: scan_export_line_def elim!: res_bind_InrE)
    then show ?thesis using p check_replayable by (intro exI [of _ "[]"] exI [of _ "l # cs"]) auto
  qed
qed simp

text \<open>
  C19: An export that is accepted is at most 3072 characters long, was read for the kind asked for, and consists of the first
  line, headers, commands and the last line. Every command is one the configurator itself would send, a setting in its range,
  a receiver or mode choice, a DShot rate or battery values; none starts a motor or arms the controller. The board and firmware that
  name the exported file hold letters, digits and the marks \<open>. _ + -\<close> only.
\<close>

theorem export_holds_settings_only:
  assumes "parse_configuration_export far raw kind = Inr e"
  shows "ex_raw e = raw \<and> ex_kind e = kind \<and> length raw \<le> 3072 \<and> ex_modes e \<in> {2, 4}
    \<and> named_with ''-_'' (ex_board e) \<and> named_with ''-._+'' (ex_firmware e)
    \<and> (\<exists>hs cs. split_nl (js_trim raw) = [''# bobflight_config: 1''] @ hs @ cs @ [''# config_end: 1'']
         \<and> list_all (\<lambda>l. export_header l \<noteq> None) hs \<and> list_all (\<lambda>l. replayable l \<and> \<not> is_motor_start_command l) cs)"
proof -
  let ?ls = "split_nl (js_trim raw)"
  obtain s where s: "scan_export (butlast (tl ?ls)) \<lparr>xs_headers = Map.empty, xs_commands = False\<rparr> = Inr s"
    and ends: "hd ?ls = ''# bobflight_config: 1''" "last ?ls = ''# config_end: 1''" "length raw \<le> 3072"
    and ident: "identity_ok (xs_headers s) kind"
    and e: "ex_raw e = raw" "ex_kind e = kind" "ex_board e = header_of (xs_headers s) ''board''"
      "ex_firmware e = header_of (xs_headers s) ''firmware''" "ex_modes e = dec_num (header_of (xs_headers s) ''mode_count'')"
    using assms by (auto simp: parse_configuration_export_def Let_def CONFIG_EXPORT_MAX_BYTES_def elim!: res_bind_InrE split: if_splits)
  obtain hs cs where p: "butlast (tl ?ls) = hs @ cs" "list_all (\<lambda>l. export_header l \<noteq> None) hs" "list_all replayable cs"
    using scan_export_parts [OF s] by blast
  have "?ls = [hd ?ls] @ butlast (tl ?ls) @ [last ?ls]"
    using ends by (cases ?ls; cases "tl ?ls" rule: rev_cases) auto
  then have "?ls = [''# bobflight_config: 1''] @ hs @ cs @ [''# config_end: 1'']" using p(1) ends by simp
  moreover have "list_all (\<lambda>l. replayable l \<and> \<not> is_motor_start_command l) cs"
    using p(3) replayable_word motor_start_word unfolding list_all_iff by blast
  moreover have "ex_modes e \<in> {2, 4}" using ident e(5) by (auto simp: identity_ok_def dec_num_def)
  ultimately show ?thesis using p(2) e ends(3) ident by (auto simp: identity_ok_def)
qed

text \<open>The other way: headers and commands that were printed are read back.\<close>

definition header_text :: "string \<times> string \<Rightarrow> string" where
  "header_text kv = ''# '' @ fst kv @ '': '' @ snd kv"

definition header_ok :: "string \<times> string \<Rightarrow> bool" where
  "header_ok kv \<longleftrightarrow> fst kv \<noteq> [] \<and> list_all key_char (fst kv) \<and> snd kv \<noteq> [] \<and> LF \<notin> set (snd kv) \<and> CR \<notin> set (snd kv)"

lemma key_char_colon: "\<not> key_char (CHR '':'')"
  by code_simp

lemma export_header_text: "header_ok kv \<Longrightarrow> export_header (header_text kv) = Some kv"
  using key_char_colon
  by (cases kv) (auto simp: export_header_def header_text_def header_ok_def field_line_def list_all_iff takeWhile_tail Let_def)

lemma scan_export_append: "scan_export (xs @ ys) s = res_bind (scan_export xs s) (scan_export ys)"
  by (induction xs arbitrary: s) (auto simp: res_bind_def split: sum.splits)

lemma scan_export_headers:
  "list_all header_ok kvs \<Longrightarrow> distinct (List.map fst kvs) \<Longrightarrow> \<forall>k \<in> fst ` set kvs. h k = None \<Longrightarrow>
   scan_export (List.map header_text kvs) \<lparr>xs_headers = h, xs_commands = False\<rparr> = Inr \<lparr>xs_headers = h ++ map_of kvs, xs_commands = False\<rparr>"
proof (induction kvs arbitrary: h)
  case (Cons kv kvs)
  obtain k v where kv: "kv = (k, v)" by fastforce
  have "scan_export_line (header_text kv) \<lparr>xs_headers = h, xs_commands = False\<rparr> = Inr \<lparr>xs_headers = h(k \<mapsto> v), xs_commands = False\<rparr>"
    using Cons.prems export_header_text [of kv] by (simp add: scan_export_line_def kv header_text_def)
  moreover have "h(k \<mapsto> v) ++ map_of kvs = h ++ map_of (kv # kvs)"
    using Cons.prems(2) by (simp add: kv map_add_upd_left dom_map_of_conv_image_fst)
  moreover have "\<forall>x \<in> fst ` set kvs. (h(k \<mapsto> v)) x = None" using Cons.prems(2, 3) by (auto simp: kv)
  ultimately show ?case using Cons.IH [of "h(k \<mapsto> v)"] Cons.prems by (simp add: kv del: fun_upd_apply map_of.simps)
qed simp

lemma scan_export_commands:
  "list_all (\<lambda>l. \<not> prefix ''# '' l \<and> check_export_command (xs_headers s ''schema'') l = Inr ()) cs \<Longrightarrow>
   \<exists>b. scan_export cs s = Inr (s\<lparr>xs_commands := b\<rparr>)"
proof (induction cs arbitrary: s)
  case Nil
  then show ?case by (auto intro: exI [of _ "xs_commands s"])
next
  case (Cons l cs)
  then show ?case using Cons.IH [of "s\<lparr>xs_commands := True\<rparr>"] by (auto simp: scan_export_line_def)
qed

lemma crlf_text_joined: "ls \<noteq> [] \<Longrightarrow> crlf_text ls = js_join [CR, LF] ls @ [CR, LF]"
  by (induction "[CR, LF]" ls rule: js_join.induct) (auto simp: crlf_text_def)

lemma joined_ends:
  "list_all plain_line ls \<Longrightarrow> ls \<noteq> [] \<Longrightarrow> js_join [CR, LF] ls \<noteq> []
     \<and> hd (js_join [CR, LF] ls) = hd (hd ls) \<and> last (js_join [CR, LF] ls) = last (last ls)"
  by (induction "[CR, LF]" ls rule: js_join.induct) (auto simp: plain_line_def)

lemma trim_joined:
  "list_all plain_line ls \<Longrightarrow> ls \<noteq> [] \<Longrightarrow> js_trim (crlf_text ls) = js_join [CR, LF] ls \<and> js_join [CR, LF] ls \<noteq> []
     \<and> hd (js_join [CR, LF] ls) = hd (hd ls) \<and> last (js_join [CR, LF] ls) = last (last ls)"
proof -
  assume plain: "list_all plain_line ls" and some: "ls \<noteq> []"
  have ends: "crlf_text ls = js_join [CR, LF] ls @ [CR, LF] \<and> js_join [CR, LF] ls \<noteq> []
      \<and> hd (js_join [CR, LF] ls) = hd (hd ls) \<and> last (js_join [CR, LF] ls) = last (last ls)"
    using crlf_text_joined [OF some] joined_ends [OF plain some] by blast
  have "plain_line (hd ls)" "plain_line (last ls)" using plain some by (auto simp: list_all_iff)
  then have "js_trim (js_join [CR, LF] ls) = js_join [CR, LF] ls"
    using ends by (intro js_trim_id) (auto simp: plain_line_def)
  moreover have "js_trim (x @ [CR, LF]) = js_trim x" if "x \<noteq> []" "\<not> js_space (hd x)" for x
    using that by (cases x) (auto simp: js_trim_def js_trim_start_def js_trim_end_def js_space_def CR_def LF_def)
  moreover have "\<not> js_space (hd (js_join [CR, LF] ls))" using ends \<open>plain_line (hd ls)\<close> by (simp add: plain_line_def)
  ultimately show ?thesis using ends by simp
qed

lemma split_joined: "list_all plain_line ls \<Longrightarrow> ls \<noteq> [] \<Longrightarrow> split_nl (js_join [CR, LF] ls) = ls"
  by (induction "[CR, LF]" ls rule: js_join.induct) (auto simp: plain_line_def split_nl_crlf split_nl_single)

definition export_text :: "(string \<times> string) list \<Rightarrow> string list \<Rightarrow> string" where
  "export_text kvs cs = crlf_text ([''# bobflight_config: 1''] @ List.map header_text kvs @ cs @ [''# config_end: 1''])"

lemma header_plain:
  assumes "header_ok kv" "\<not> js_space (last (snd kv))"
  shows "plain_line (header_text kv)"
proof -
  have "\<not> key_char LF" "\<not> key_char CR" by code_simp+
  then have "LF \<notin> set (fst kv)" "CR \<notin> set (fst kv)" using assms(1) by (auto simp: header_ok_def list_all_iff)
  then show ?thesis using assms by (auto simp: plain_line_def header_text_def header_ok_def js_space_def LF_def CR_def)
qed

lemma printed_export_read:
  assumes "length (export_text kvs cs) \<le> 3072" "list_all header_ok kvs" "distinct (List.map fst kvs)" "list_all (\<lambda>kv. \<not> js_space (last (snd kv))) kvs"
    "list_all (\<lambda>l. plain_line l \<and> \<not> prefix ''# '' l \<and> check_export_command (map_of kvs ''schema'') l = Inr ()) cs"
    "identity_ok (map_of kvs) kind" "metadata_ok (map_of kvs)"
    "calibration_vector (map_of kvs) ''accel_bias'' = Inr bias" "\<not> far bias"
    "calibration_vector (map_of kvs) ''accel_scale'' = Inr scale" "list_all (\<lambda>x. to_double 9 10 \<le> x \<and> x \<le> to_double 11 10) scale"
  shows "parse_configuration_export far (export_text kvs cs) kind
    = Inr \<lparr>ex_raw = export_text kvs cs, ex_board = header_of (map_of kvs) ''board'', ex_firmware = header_of (map_of kvs) ''firmware'',
         ex_kind = kind, ex_modes = dec_num (header_of (map_of kvs) ''mode_count'')\<rparr>"
proof -
  let ?ls = "[''# bobflight_config: 1''] @ List.map header_text kvs @ cs @ [''# config_end: 1'']"
  have "list_all plain_line (List.map header_text kvs)" using assms(2, 4) header_plain by (auto simp: list_all_iff)
  moreover have "plain_line ''# bobflight_config: 1''" "plain_line ''# config_end: 1''" by code_simp+
  ultimately have "list_all plain_line ?ls" using assms(5) by (auto simp: list_all_iff)
  then have ls: "split_nl (js_trim (export_text kvs cs)) = ?ls"
    using trim_joined [of ?ls] split_joined [of ?ls] by (simp add: export_text_def)
  have body: "butlast (tl ?ls) = List.map header_text kvs @ cs" by (simp add: butlast_append)
  obtain b where "scan_export (List.map header_text kvs @ cs) \<lparr>xs_headers = Map.empty, xs_commands = False\<rparr>
      = Inr \<lparr>xs_headers = map_of kvs, xs_commands = b\<rparr>"
    using scan_export_headers [OF assms(2, 3), of Map.empty] scan_export_commands [of "\<lparr>xs_headers = map_of kvs, xs_commands = False\<rparr>" cs] assms(5)
    by (auto simp: scan_export_append list_all_iff)
  moreover have "\<not> list_ex (\<lambda>x. x < to_double 9 10 \<or> x > to_double 11 10) scale" using assms(11) by (auto simp: list_all_iff list_ex_iff)
  ultimately show ?thesis unfolding parse_configuration_export_def Let_def ls body
    using assms(1, 6-10) by (simp add: CONFIG_EXPORT_MAX_BYTES_def)
qed

lemma js_value_small:
  assumes "n < 2 ^ 53"
  shows "js_value (show_nat n) = Some (of_nat n)"
proof -
  have "n < DOUBLE_OVERFLOW"
  proof -
    have "(2::nat) ^ 53 < DOUBLE_OVERFLOW" unfolding DOUBLE_OVERFLOW_def by simp
    then show ?thesis using assms by linarith
  qed
  then have "set_number (show_nat n) = Some (of_nat n)" using set_number_show_nat [of n] to_double_small [OF assms] by simp
  then show ?thesis by (auto simp: set_number_def show_nat_trim split: if_splits)
qed

definition sample_headers :: "(string \<times> string) list" where
  "sample_headers = [(''schema'', ''13''), (''kind'', ''diff''), (''board'', ''MLTEMPF4''), (''firmware'', ''0.9.1''), (''scope'', STORAGE_SCOPE),
     (''excludes'', ''gyro_calibration''), (''mode_count'', ''2''), (''accel_calibrated'', ''no''),
     (''calibration_restore'', ''metadata-only-recalibrate-if-flash-lost''), (''accel_storage'', ''not-calibrated''),
     (''accel_bias'', ''0 0 0''), (''accel_scale'', ''1 1 1'')]"

definition sample_commands :: "string list" where
  "sample_commands = [''set motor_direction props-in'', ''set loop_rate_hz 4000'', ''dshot 600'', ''set align_board_yaw -90'',
     ''mode_range ARM 1 1 1700 2100'', ''receiver_uart 6'', ''control_source aux'']"

lemma sample_vectors:
  "calibration_vector (map_of sample_headers) ''accel_bias'' = Inr [0, 0, 0]"
  "calibration_vector (map_of sample_headers) ''accel_scale'' = Inr [1, 1, 1]"
proof -
  have "show_nat 0 = ''0''" "show_nat 1 = ''1''" by code_simp+
  then have "js_value ''0'' = Some 0" "js_value ''1'' = Some 1" using js_value_small [of 0] js_value_small [of 1] by simp_all
  then show "calibration_vector (map_of sample_headers) ''accel_bias'' = Inr [0, 0, 0]"
    "calibration_vector (map_of sample_headers) ''accel_scale'' = Inr [1, 1, 1]"
    by (simp_all add: calibration_vector_def sample_headers_def header_of_def words_def)
qed

lemma sample_export_read:
  "parse_configuration_export (\<lambda>v. False) (export_text sample_headers sample_commands) Diff
    = Inr \<lparr>ex_raw = export_text sample_headers sample_commands, ex_board = header_of (map_of sample_headers) ''board'',
         ex_firmware = header_of (map_of sample_headers) ''firmware'', ex_kind = Diff, ex_modes = dec_num (header_of (map_of sample_headers) ''mode_count'')\<rparr>"
proof (rule printed_export_read [OF _ _ _ _ _ _ _ sample_vectors(1) _ sample_vectors(2)])
  show "length (export_text sample_headers sample_commands) \<le> 3072" by code_simp
  show "list_all header_ok sample_headers"
    by code_simp
  show "distinct (List.map fst sample_headers)" by code_simp
  show "list_all (\<lambda>kv. \<not> js_space (last (snd kv))) sample_headers" by code_simp
  show "list_all (\<lambda>l. plain_line l \<and> \<not> prefix ''# '' l \<and> check_export_command (map_of sample_headers ''schema'') l = Inr ()) sample_commands"
    by code_simp
  show "identity_ok (map_of sample_headers) Diff" by code_simp
  show "metadata_ok (map_of sample_headers)" by code_simp
  show "list_all (\<lambda>x. to_double 9 10 \<le> x \<and> x \<le> to_double 11 10) [1, 1, 1]"
    by (simp add: to_double_def double_exponent_def bit_length.simps round_even_def Let_def)
qed simp

theorem export_holds_settings_only_witness:
  "\<exists>hs cs. split_nl (js_trim (export_text sample_headers sample_commands)) = [''# bobflight_config: 1''] @ hs @ cs @ [''# config_end: 1'']
     \<and> list_all (\<lambda>l. export_header l \<noteq> None) hs \<and> list_all (\<lambda>l. replayable l \<and> \<not> is_motor_start_command l) cs"
  using export_holds_settings_only [OF sample_export_read] by blast
end
