(* ===== verification/Storage_Panel.thy ===== *)
theory Storage_Panel
  imports Config_Export
begin

section \<open>The storage panel: storageSequence.ts, storageActivity.ts, StoragePanel.tsx\<close>

text \<open>
  Load, save and export run as one gated sequence of lines. A refusal of the gate is tried again as long as nothing of the
  sequence was sent; anything else ends the action and is shown. As in the settings pages, what happens outside is a list of
  moments, one for each \<open>await\<close>: how it ended, and whether the panel still shows the same controller (\<open>epoch\<close>), is connected, and
  has not aborted its signal. A moment that is missing is an \<open>await\<close> that has not ended. The log holds every line and answer.
\<close>

subsection \<open>One gated run\<close>

datatype storage_action = RefreshStorage | SaveStorage | ExportStorage export_kind

datatype complaint = SaveNotConfirmed | NotReadBackAsSaved storage_state bool storage_backend

datatype storage_failure =
  StorageWaiting | StorageCancelled
  | StorageBusy storage_action string nat "gate_error_code option" nat
  | ControllerComplaint complaint string
  | ReplyUnreadable storage_error string
  | FlashSaveUnavailable
  | ExportUnreadable export_error
  | LinkFailure link_error

record storage_moment =
  sm_answer :: "link_error + string"
  sm_same_epoch :: bool
  sm_online :: bool
  sm_aborted :: bool

record storage_run =
  sr_moments :: "storage_moment list"
  sr_same_epoch :: bool
  sr_online :: bool
  sr_aborted :: bool
  sr_sent :: nat
  sr_log :: "call_event list"

type_synonym 'a storage_act = "(storage_run, storage_failure, 'a) act"

definition start_run :: "storage_moment list \<Rightarrow> bool \<Rightarrow> bool \<Rightarrow> storage_run" where
  "start_run ms up off =
     \<lparr>sr_moments = ms, sr_same_epoch = True, sr_online = up, sr_aborted = off, sr_sent = 0, sr_log = []\<rparr>"

text \<open>\<open>live(id)\<close> of the panel, and what \<open>runStorageGated\<close> calls cancelled or aborted.\<close>

definition panel_live :: "storage_run \<Rightarrow> bool" where
  "panel_live s \<longleftrightarrow> sr_same_epoch s \<and> sr_online s"

definition run_stopped :: "storage_run \<Rightarrow> bool" where
  "run_stopped s \<longleftrightarrow> \<not> panel_live s \<or> sr_aborted s"

definition next_storage_moment :: "(link_error + string) storage_act" where
  "next_storage_moment s = (case sr_moments s of
     [] \<Rightarrow> (Inl StorageWaiting, s)
   | m # ms \<Rightarrow> (Inr (sm_answer m), s\<lparr>sr_moments := ms, sr_same_epoch := sm_same_epoch m, sr_online := sm_online m, sr_aborted := sm_aborted m\<rparr>))"

definition storage_log :: "call_event \<Rightarrow> unit storage_act" where
  "storage_log e = act_mod (\<lambda>s. s\<lparr>sr_log := sr_log s @ [e]\<rparr>)"

text \<open>
  \<open>counted(send)(cmd)\<close>: a line counts as sent unless the gate itself rejected it.
\<close>

definition storage_send :: "string \<Rightarrow> string storage_act" where
  "storage_send line =
     act_then (storage_log (Asked line))
      (act_bind next_storage_moment (\<lambda>a.
       act_then (storage_log (Answered line a))
        (case a of
           Inr r \<Rightarrow> act_then (act_mod (\<lambda>s. s\<lparr>sr_sent := Suc (sr_sent s)\<rparr>)) (act_ret r)
         | Inl e \<Rightarrow> act_then (act_mod (\<lambda>s. if not_sent_error e then s else s\<lparr>sr_sent := Suc (sr_sent s)\<rparr>)) (act_throw (LinkFailure e)))))"

definition load_sequence :: "storage_snapshot storage_act" where
  "load_sequence = act_bind (storage_send ''storage'') (\<lambda>raw. case parse_storage raw of
     Inl e \<Rightarrow> act_throw (ReplyUnreadable e raw) | Inr s \<Rightarrow> act_ret s)"

definition scope_lacks :: "string option \<Rightarrow> storage_snapshot \<Rightarrow> bool" where
  "scope_lacks required s = (case required of None \<Rightarrow> False
     | Some r \<Rightarrow> r \<noteq> [] \<and> r \<notin> set (split_char (CHR '','') (scope s)))"

definition save_sequence :: "string option \<Rightarrow> storage_snapshot storage_act" where
  "save_sequence required =
     act_bind load_sequence (\<lambda>before.
     if \<not> can_save_storage (Some before) True False \<or> scope_lacks required before then act_throw FlashSaveUnavailable
     else act_bind (storage_send ''save'') (\<lambda>reply.
     if \<not> is_verified_flash_save reply then act_throw (ControllerComplaint SaveNotConfirmed (js_trim reply))
     else act_bind load_sequence (\<lambda>after.
     if backend after \<noteq> FlashBackend \<or> store_state after \<noteq> Saved \<or> dirty after
     then act_throw (ControllerComplaint (NotReadBackAsSaved (store_state after) (dirty after) (backend after)) [])
     else act_ret after)))"

definition export_sequence :: "(rat list \<Rightarrow> bool) \<Rightarrow> export_kind \<Rightarrow> (storage_snapshot \<times> config_export option) storage_act" where
  "export_sequence far kind =
     act_bind (storage_send (kind_text kind @ '' all'')) (\<lambda>raw. case parse_configuration_export far raw kind of
       Inl e \<Rightarrow> act_throw (ExportUnreadable e)
     | Inr data \<Rightarrow> act_bind load_sequence (\<lambda>s. act_ret (s, Some data)))"

fun storage_work :: "(rat list \<Rightarrow> bool) \<Rightarrow> string option \<Rightarrow> storage_action \<Rightarrow> (storage_snapshot \<times> config_export option) storage_act" where
  "storage_work far required SaveStorage = act_bind (save_sequence required) (\<lambda>s. act_ret (s, None))"
| "storage_work far required (ExportStorage kind) = export_sequence far kind"
| "storage_work far required RefreshStorage = act_bind load_sequence (\<lambda>s. act_ret (s, None))"

text \<open>
  One attempt: a host with gated sequences takes the gate once, and is refused or runs the work; any other host sends line by line.
  The count of sent lines starts anew.
\<close>

definition storage_attempt :: "bool \<Rightarrow> 'a storage_act \<Rightarrow> 'a storage_act" where
  "storage_attempt gated_host work =
     act_then (act_mod (\<lambda>s. s\<lparr>sr_sent := 0\<rparr>))
      (if gated_host then act_bind next_storage_moment (\<lambda>a. case a of Inl e \<Rightarrow> act_throw (LinkFailure e) | Inr _ \<Rightarrow> work) else work)"

definition STORAGE_BUSY_RETRIES :: nat where "STORAGE_BUSY_RETRIES = 100"

text \<open>\<open>runStorageGated\<close>: \<open>left\<close> retries remain, \<open>n\<close> attempts were made.\<close>

fun run_storage_gated :: "bool \<Rightarrow> storage_action \<Rightarrow> 'a storage_act \<Rightarrow> nat \<Rightarrow> nat \<Rightarrow> 'a storage_act" where
  "run_storage_gated gated_host action work left n s =
     (if run_stopped s then (Inl StorageCancelled, s)
      else case storage_attempt gated_host work s of
        (Inl (LinkFailure e), t) \<Rightarrow>
          (if \<not> not_sent_error e then (Inl (LinkFailure e), t)
           else if run_stopped t then (Inl StorageCancelled, t)
           else if busy_error e \<and> sr_sent t = 0 \<and> left \<noteq> 0 then
             (case next_storage_moment t of (Inl x, u) \<Rightarrow> (Inl x, u) | (Inr _, u) \<Rightarrow> run_storage_gated gated_host action work (left - 1) (Suc n) u)
           else (Inl (StorageBusy action (error_text e) (Suc n) (error_code e) (sr_sent t)), t))
      | (r, t) \<Rightarrow> (r, t))"

declare run_storage_gated.simps [simp del]

subsection \<open>What the panel shows\<close>

datatype problem_kind = BusyProblem | UnknownProblem | ControllerProblem | ReplyProblem | OtherProblem

definition busy_unknown :: "storage_action \<Rightarrow> nat \<Rightarrow> bool" where
  "busy_unknown action k \<longleftrightarrow> action = SaveStorage \<and> k > 0"

text \<open>
  \<open>describeStorageError\<close>: the kind, and the failure whose text and detail are shown. The text of a busy save that sent a line is
  the one that calls the outcome unknown, the detail says whether nothing or only the rest was not sent.
\<close>

record storage_problem =
  sp_kind :: problem_kind
  sp_failure :: storage_failure

fun problem_kind_of :: "storage_failure \<Rightarrow> problem_kind" where
  "problem_kind_of (StorageBusy action m n c k) = (if busy_unknown action k then UnknownProblem else BusyProblem)"
| "problem_kind_of (ControllerComplaint c r) = ControllerProblem"
| "problem_kind_of (ReplyUnreadable (StorageReplyError reason) raw) = ReplyProblem"
| "problem_kind_of f = OtherProblem"

definition describe_storage_error :: "storage_failure \<Rightarrow> storage_problem" where
  "describe_storage_error f = \<lparr>sp_kind = problem_kind_of f, sp_failure = f\<rparr>"

datatype panel_message = ExportedRuntime | SavedAndVerified
datatype run_mode = UserRun | AutoRun | QuietRun

record storage_panel =
  pn_state :: "storage_snapshot option"
  pn_problem :: "storage_problem option"
  pn_message :: "panel_message option"
  pn_pending :: bool
  pn_downloads :: "(string \<times> string) list"

definition export_name :: "config_export \<Rightarrow> string" where
  "export_name d = ''bobflight-'' @ ex_board d @ ''-'' @ ex_firmware d @ ''-'' @ kind_text (ex_kind d) @ ''-config.txt''"

text \<open>The guard and the first lines of \<open>run\<close>, then what it does with the result of the run.\<close>

definition panel_refuses :: "bool \<Rightarrow> bool \<Rightarrow> run_mode \<Rightarrow> storage_panel \<Rightarrow> bool" where
  "panel_refuses online blocked mode p \<longleftrightarrow> \<not> online \<or> pn_pending p \<or> blocked \<and> mode = UserRun"

definition panel_begin :: "run_mode \<Rightarrow> storage_panel \<Rightarrow> storage_panel" where
  "panel_begin mode p =
     (if mode \<noteq> QuietRun then p\<lparr>pn_pending := True, pn_problem := None, pn_message := None\<rparr> else p\<lparr>pn_pending := True\<rparr>)"

definition panel_result ::
  "storage_action \<Rightarrow> run_mode \<Rightarrow> storage_failure + storage_snapshot \<times> config_export option \<Rightarrow> storage_run \<Rightarrow> storage_panel \<Rightarrow> storage_panel" where
  "panel_result action mode r s p = (case r of
     Inr (snap, data) \<Rightarrow>
       (if \<not> panel_live s then p
        else let q = (case data of None \<Rightarrow> p
                 | Some d \<Rightarrow> p\<lparr>pn_downloads := pn_downloads p @ [(export_name d, ex_raw d)], pn_message := Some ExportedRuntime\<rparr>)
             in q\<lparr>pn_state := Some snap, pn_problem := None,
                  pn_message := (if action = SaveStorage then Some SavedAndVerified else pn_message q)\<rparr>)
   | Inl f \<Rightarrow>
       (if f = StorageCancelled \<or> \<not> panel_live s then p
        else if mode = QuietRun \<and> problem_kind_of f = BusyProblem then p
        else p\<lparr>pn_problem := Some (describe_storage_error f), pn_state := (if problem_kind_of f \<noteq> BusyProblem then None else pn_state p)\<rparr>))"

definition panel_finish ::
  "storage_action \<Rightarrow> run_mode \<Rightarrow> storage_failure + storage_snapshot \<times> config_export option \<Rightarrow> storage_run \<Rightarrow> storage_panel \<Rightarrow> storage_panel" where
  "panel_finish action mode r s p =
     (if r = Inl StorageWaiting then p
      else (let q = panel_result action mode r s p in if sr_same_epoch s then q\<lparr>pn_pending := False\<rparr> else q))"

text \<open>The whole action, with what the panel is connected to, whether it is blocked and the scope it needs.\<close>

definition panel_run ::
  "(rat list \<Rightarrow> bool) \<Rightarrow> bool \<Rightarrow> string option \<Rightarrow> storage_action \<Rightarrow> run_mode \<Rightarrow> bool \<Rightarrow> bool \<Rightarrow> storage_run \<Rightarrow> storage_panel \<Rightarrow> storage_panel \<times> storage_run" where
  "panel_run far gated_host required action mode online blocked s p =
     (if panel_refuses online blocked mode p then (p, s)
      else case run_storage_gated gated_host action (storage_work far required action) STORAGE_BUSY_RETRIES 0 s of
        (r, t) \<Rightarrow> (panel_finish action mode r t (panel_begin mode p), t))"

definition panel_can_save :: "string option \<Rightarrow> bool \<Rightarrow> bool \<Rightarrow> storage_panel \<Rightarrow> bool" where
  "panel_can_save required online blocked p \<longleftrightarrow>
     (case required of None \<Rightarrow> True
      | Some q \<Rightarrow> q = [] \<or> (case pn_state p of None \<Rightarrow> False | Some x \<Rightarrow> q \<in> set (split_char (CHR '','') (scope x))))
     \<and> can_save_storage (pn_state p) online (pn_pending p \<or> blocked)"

subsection \<open>What one attempt adds to the log\<close>

text \<open>\<open>unseen\<close>: the controller never saw this line; \<open>saves\<close>: how often \<open>save\<close> was handed to the connection.\<close>

definition unseen :: "call_event \<Rightarrow> bool" where
  "unseen e \<longleftrightarrow> (case e of Asked l \<Rightarrow> True | Answered l a \<Rightarrow> (case a of Inl x \<Rightarrow> not_sent_error x | Inr v \<Rightarrow> False))"

definition saves :: "call_event list \<Rightarrow> nat" where
  "saves w = length (filter (\<lambda>e. e = Asked ''save'') w)"

definition saved_and_clean :: "storage_snapshot \<Rightarrow> bool" where
  "saved_and_clean s \<longleftrightarrow> backend s = FlashBackend \<and> store_state s = Saved \<and> \<not> dirty s"

text \<open>\<open>read_back raw snap w\<close>: the log ends with the storage report that was shown.\<close>

definition read_back :: "storage_snapshot \<Rightarrow> call_event list \<Rightarrow> bool" where
  "read_back snap w \<longleftrightarrow> (\<exists>v raw. w = v @ [Asked ''storage'', Answered ''storage'' (Inr raw)] \<and> parse_storage raw = Inr snap)"

definition saved_by :: "storage_snapshot \<Rightarrow> call_event list \<Rightarrow> bool" where
  "saved_by snap w \<longleftrightarrow> (\<exists>v first reply. read_back snap w \<and> saved_and_clean snap \<and> is_verified_flash_save reply
     \<and> (\<exists>x. parse_storage first = Inr x \<and> can_save_storage (Some x) True False)
     \<and> butlast (butlast w) = v @ [Asked ''storage'', Answered ''storage'' (Inr first), Asked ''save'', Answered ''save'' (Inr reply)])"

fun attempt_log :: "storage_action \<Rightarrow> storage_failure + storage_snapshot \<times> config_export option \<Rightarrow> nat \<Rightarrow> call_event list \<Rightarrow> bool" where
  "attempt_log action (Inr (snap, data)) k w \<longleftrightarrow>
     (if action = SaveStorage then saved_by snap w \<and> saves w = 1 else read_back snap w \<and> saves w = 0)"
| "attempt_log action (Inl f) k w \<longleftrightarrow>
     saves w \<le> (if action = SaveStorage \<and> f \<noteq> FlashSaveUnavailable \<and> k \<noteq> 0 then 1 else 0) \<and> (if k = 0 then list_all unseen w else True)
     \<and> f \<noteq> StorageCancelled \<and> (\<forall>a m n c j. f \<noteq> StorageBusy a m n c j)"

lemma storage_send_eq:
  "storage_send line s = (case sr_moments s of
     [] \<Rightarrow> (Inl StorageWaiting, s\<lparr>sr_log := sr_log s @ [Asked line]\<rparr>)
   | m # ms \<Rightarrow>
       (let t = s\<lparr>sr_moments := ms, sr_same_epoch := sm_same_epoch m, sr_online := sm_online m, sr_aborted := sm_aborted m,
                  sr_log := sr_log s @ [Asked line, Answered line (sm_answer m)]\<rparr>
        in case sm_answer m of
             Inr r \<Rightarrow> (Inr r, t\<lparr>sr_sent := Suc (sr_sent s)\<rparr>)
           | Inl e \<Rightarrow> (Inl (LinkFailure e), if not_sent_error e then t else t\<lparr>sr_sent := Suc (sr_sent s)\<rparr>)))"
  by (simp add: storage_send_def storage_log_def next_storage_moment_def act_then_def act_bind_def act_mod_def act_ret_def act_throw_def Let_def
      split: list.split sum.split)

text \<open>The ways a sent line can end: no answer yet, a refusal of the gate, another failure, or a reply.\<close>

lemma storage_send_cases:
  assumes "storage_send line s = (r, t)"
  obtains "r = Inl StorageWaiting" "sr_log t = sr_log s @ [Asked line]" "sr_sent t = sr_sent s"
  | e where "r = Inl (LinkFailure e)" "not_sent_error e" "sr_log t = sr_log s @ [Asked line, Answered line (Inl e)]" "sr_sent t = sr_sent s"
  | e where "r = Inl (LinkFailure e)" "\<not> not_sent_error e" "sr_log t = sr_log s @ [Asked line, Answered line (Inl e)]" "sr_sent t = Suc (sr_sent s)"
  | x where "r = Inr x" "sr_log t = sr_log s @ [Asked line, Answered line (Inr x)]" "sr_sent t = Suc (sr_sent s)"
  using assms unfolding storage_send_eq by (auto simp: Let_def split: list.splits sum.splits if_splits)

lemma load_sequence_cases:
  assumes "load_sequence s = (r, t)"
  obtains f where "r = Inl f" "storage_send ''storage'' s = (Inl f, t)"
  | e raw where "r = Inl (ReplyUnreadable e raw)" "storage_send ''storage'' s = (Inr raw, t)"
  | raw x where "r = Inr x" "storage_send ''storage'' s = (Inr raw, t)" "parse_storage raw = Inr x"
  using assms unfolding load_sequence_def by (cases "storage_send ''storage'' s") (auto simp: act_bind_def split: sum.splits)

lemma saves_simps [simp]:
  "saves [] = 0" "saves (e # w) = (if e = Asked ''save'' then Suc (saves w) else saves w)" "saves (v @ w) = saves v + saves w"
  by (auto simp: saves_def)

lemma unseen_simps [simp]:
  "unseen (Asked l)" "unseen (Answered l (Inl x)) \<longleftrightarrow> not_sent_error x" "\<not> unseen (Answered l (Inr v))"
  by (auto simp: unseen_def)

lemma load_log:
  assumes "load_sequence s = (r, t)"
  shows "\<exists>w. sr_log t = sr_log s @ w \<and> saves w = 0 \<and> (case r of Inr x \<Rightarrow> read_back x w \<and> sr_sent t = Suc (sr_sent s)
      | Inl f \<Rightarrow> f \<noteq> StorageCancelled \<and> f \<noteq> FlashSaveUnavailable \<and> (\<forall>a m n c j. f \<noteq> StorageBusy a m n c j)
          \<and> sr_sent s \<le> sr_sent t \<and> (sr_sent t = sr_sent s \<longrightarrow> list_all unseen w))"
  using assms
proof (cases rule: load_sequence_cases)
  case (1 f)
  from 1(2) show ?thesis by (cases rule: storage_send_cases) (use 1 in auto)
next
  case (2 e raw)
  from 2(2) show ?thesis by (cases rule: storage_send_cases) (use 2 in auto)
next
  case (3 raw x)
  from 3(2) show ?thesis by (cases rule: storage_send_cases) (use 3 in \<open>auto simp: read_back_def\<close>)
qed

lemma kind_not_save: "kind_text kind @ '' all'' \<noteq> ''save''"
  by (cases kind) auto

lemma refresh_log:
  assumes "storage_work far required RefreshStorage s = (r, t)" "sr_sent s = 0"
  shows "\<exists>w. sr_log t = sr_log s @ w \<and> attempt_log RefreshStorage r (sr_sent t) w"
proof -
  obtain q u where l: "load_sequence s = (q, u)" by fastforce
  show ?thesis using load_log [OF l] assms l by (cases q) (auto simp: act_bind_def act_ret_def)
qed

lemma export_log:
  assumes "storage_work far required (ExportStorage kind) s = (r, t)" "sr_sent s = 0"
  shows "\<exists>w. sr_log t = sr_log s @ w \<and> attempt_log (ExportStorage kind) r (sr_sent t) w"
proof -
  obtain q u where l: "storage_send (kind_text kind @ '' all'') s = (q, u)" by fastforce
  show ?thesis
  proof (cases q)
    case (Inl f)
    then have "r = Inl f" "t = u" using assms l by (auto simp: export_sequence_def act_bind_def)
    with l Inl show ?thesis by (auto elim!: storage_send_cases simp: kind_not_save assms(2))
  next
    case (Inr raw)
    with l have u: "sr_log u = sr_log s @ [Asked (kind_text kind @ '' all''), Answered (kind_text kind @ '' all'') (Inr raw)]" "sr_sent u = Suc 0"
      by (auto elim!: storage_send_cases simp: assms(2))
    show ?thesis
    proof (cases "parse_configuration_export far raw kind")
      case Inl
      then show ?thesis using assms l \<open>q = Inr raw\<close> u kind_not_save [of kind] by (auto simp: export_sequence_def act_bind_def)
    next
      case (Inr data)
      obtain p v where p: "load_sequence u = (p, v)" by fastforce
      then have r: "r = (case p of Inl f \<Rightarrow> Inl f | Inr x \<Rightarrow> Inr (x, Some data))" "t = v"
        using assms l \<open>q = Inr raw\<close> Inr by (auto simp: export_sequence_def act_bind_def act_ret_def split: sum.splits)
      obtain w where w: "sr_log v = sr_log u @ w" "saves w = 0"
        "(case p of Inr x \<Rightarrow> read_back x w \<and> sr_sent v = Suc (sr_sent u)
          | Inl f \<Rightarrow> f \<noteq> StorageCancelled \<and> f \<noteq> FlashSaveUnavailable \<and> (\<forall>a m n c j. f \<noteq> StorageBusy a m n c j)
              \<and> sr_sent u \<le> sr_sent v \<and> (sr_sent v = sr_sent u \<longrightarrow> list_all unseen w))"
        using load_log [OF p] by blast
      let ?w = "[Asked (kind_text kind @ '' all''), Answered (kind_text kind @ '' all'') (Inr raw)] @ w"
      have "read_back x w \<Longrightarrow> read_back x ?w" for x unfolding read_back_def by (metis append.assoc)
      then show ?thesis using w r u kind_not_save [of kind] by (intro exI [of _ ?w]) (cases p; auto)
    qed
  qed
qed

lemma save_log:
  assumes "storage_work far required SaveStorage s = (r, t)" "sr_sent s = 0"
  shows "\<exists>w. sr_log t = sr_log s @ w \<and> attempt_log SaveStorage r (sr_sent t) w"
proof -
  obtain q u where l: "load_sequence s = (q, u)" by fastforce
  obtain w where w: "sr_log u = sr_log s @ w" "saves w = 0"
    "(case q of Inr x \<Rightarrow> read_back x w \<and> sr_sent u = Suc (sr_sent s)
      | Inl f \<Rightarrow> f \<noteq> StorageCancelled \<and> f \<noteq> FlashSaveUnavailable \<and> (\<forall>a m n c j. f \<noteq> StorageBusy a m n c j)
          \<and> sr_sent s \<le> sr_sent u \<and> (sr_sent u = sr_sent s \<longrightarrow> list_all unseen w))"
    using load_log [OF l] by blast
  show ?thesis
  proof (cases q)
    case (Inl f)
    then show ?thesis using assms l w by (auto simp: save_sequence_def act_bind_def)
  next
    case (Inr x)
    then have first: "read_back x w" "sr_sent u = 1" using w assms(2) by auto
    show ?thesis
    proof (cases "\<not> can_save_storage (Some x) True False \<or> scope_lacks required x")
      case True
      then show ?thesis using assms l Inr w first by (auto simp: save_sequence_def act_bind_def act_throw_def)
    next
      case may: False
      obtain p v where sent: "storage_send ''save'' u = (p, v)" by fastforce
      show ?thesis
      proof (cases p)
        case (Inl f)
        then have "r = Inl f" "t = v" using assms l \<open>q = Inr x\<close> may sent by (auto simp: save_sequence_def act_bind_def)
        with sent Inl show ?thesis using w first by (auto elim!: storage_send_cases)
      next
        case (Inr reply)
        with sent have v: "sr_log v = sr_log u @ [Asked ''save'', Answered ''save'' (Inr reply)]" "sr_sent v = 2"
          using first by (auto elim!: storage_send_cases)
        show ?thesis
        proof (cases "is_verified_flash_save reply")
          case False
          then show ?thesis using assms l \<open>q = Inr x\<close> may sent \<open>p = Inr reply\<close> v w first
            by (auto simp: save_sequence_def act_bind_def act_throw_def)
        next
          case verified: True
          obtain q2 u2 where l2: "load_sequence v = (q2, u2)" by fastforce
          obtain w2 where w2: "sr_log u2 = sr_log v @ w2" "saves w2 = 0"
            "(case q2 of Inr x \<Rightarrow> read_back x w2 \<and> sr_sent u2 = Suc (sr_sent v)
              | Inl f \<Rightarrow> f \<noteq> StorageCancelled \<and> f \<noteq> FlashSaveUnavailable \<and> (\<forall>a m n c j. f \<noteq> StorageBusy a m n c j)
                  \<and> sr_sent v \<le> sr_sent u2 \<and> (sr_sent u2 = sr_sent v \<longrightarrow> list_all unseen w2))"
            using load_log [OF l2] by blast
          let ?w = "w @ [Asked ''save'', Answered ''save'' (Inr reply)] @ w2"
          have log: "sr_log u2 = sr_log s @ ?w" using w(1) v(1) w2(1) by simp
          have ends: "saved_by y ?w" if y: "read_back y w2" "saved_and_clean y" for y
          proof -
            obtain a ra where a: "w2 = a @ [Asked ''storage'', Answered ''storage'' (Inr ra)]" "parse_storage ra = Inr y"
              using y(1) by (auto simp: read_back_def)
            then have "a = []" using w2(1) l2 by (auto elim!: load_sequence_cases storage_send_cases simp: w2(1))
            moreover obtain b rb where "w = b @ [Asked ''storage'', Answered ''storage'' (Inr rb)]" "parse_storage rb = Inr x"
              using first(1) by (auto simp: read_back_def)
            ultimately show ?thesis using a y(2) verified may unfolding saved_by_def read_back_def
              by (intro exI [of _ b] exI [of _ rb] exI [of _ reply]) (auto simp: butlast_append)
          qed
          have res: "save_sequence required s = (case q2 of Inl f \<Rightarrow> Inl f | Inr y \<Rightarrow> if saved_and_clean y then Inr y
                else Inl (ControllerComplaint (NotReadBackAsSaved (store_state y) (dirty y) (backend y)) []), u2)"
            using l \<open>q = Inr x\<close> may sent \<open>p = Inr reply\<close> verified l2
            by (auto simp: save_sequence_def act_bind_def act_ret_def act_throw_def saved_and_clean_def split: sum.splits)
          show ?thesis using res assms(1) w(2) w2(2, 3) log ends v(2)
            by (intro exI [of _ ?w]) (cases q2; auto simp: act_bind_def act_ret_def split: if_splits)
        qed
      qed
    qed
  qed
qed

lemma attempt_logged:
  assumes "storage_attempt gated_host (storage_work far required action) s = (r, t)"
  shows "\<exists>w. sr_log t = sr_log s @ w \<and> attempt_log action r (sr_sent t) w"
proof -
  have work: "\<exists>w. sr_log t = sr_log u @ w \<and> attempt_log action r (sr_sent t) w"
    if "storage_work far required action u = (r, t)" "sr_sent u = 0" for u
    using that refresh_log export_log save_log by (cases action) blast+
  obtain q v where m: "next_storage_moment (s\<lparr>sr_sent := 0\<rparr>) = (q, v)" by fastforce
  then have v: "sr_log v = sr_log s" "sr_sent v = 0" "\<And>f. q = Inl f \<Longrightarrow> f = StorageWaiting" by (auto simp: next_storage_moment_def split: list.splits)
  show ?thesis
  proof (cases gated_host)
    case False
    then show ?thesis using assms work [of "s\<lparr>sr_sent := 0\<rparr>"] by (simp add: storage_attempt_def act_then_def act_bind_def act_mod_def)
  next
    case True
    then show ?thesis using assms m v work [of v]
      by (cases q; auto simp: storage_attempt_def act_then_def act_bind_def act_mod_def act_throw_def split: sum.splits)
  qed
qed

subsection \<open>What the whole action adds\<close>

fun run_log :: "storage_action \<Rightarrow> nat \<Rightarrow> storage_failure + storage_snapshot \<times> config_export option \<Rightarrow> call_event list \<Rightarrow> bool" where
  "run_log action most (Inr (snap, data)) w \<longleftrightarrow> (if action = SaveStorage then saved_by snap w else read_back snap w)"
| "run_log action most (Inl (StorageBusy a m n c k)) w \<longleftrightarrow> a = action \<and> n \<le> most
     \<and> (if k = 0 then list_all unseen w \<and> saves w = 0 else action \<noteq> RefreshStorage)"
| "run_log action most (Inl FlashSaveUnavailable) w \<longleftrightarrow> saves w = 0"
| "run_log action most (Inl f) w \<longleftrightarrow> True"

lemma refused_refresh:
  assumes "storage_attempt gated_host (storage_work far required RefreshStorage) s = (Inl (LinkFailure e), t)" "not_sent_error e"
  shows "sr_sent t = 0"
  using assms
  by (auto simp: storage_attempt_def act_then_def act_bind_def act_mod_def act_ret_def act_throw_def next_storage_moment_def
      split: if_splits list.splits sum.splits prod.splits elim!: load_sequence_cases storage_send_cases)

lemma run_logged:
  "run_storage_gated gated_host action (storage_work far required action) left n s = (r, t) \<Longrightarrow>
   \<exists>v w. sr_log t = sr_log s @ v @ w \<and> list_all unseen v \<and> saves v = 0
     \<and> saves w \<le> (if action = SaveStorage then 1 else 0) \<and> run_log action (Suc (left + n)) r w"
proof (induction gated_host action "storage_work far required action" left n s arbitrary: r t rule: run_storage_gated.induct)
  case (1 gated_host action left n s)
  note [simp] = run_storage_gated.simps [of gated_host action _ left n s]
  show ?case
  proof (cases "run_stopped s")
    case True
    then show ?thesis using 1(2) by auto
  next
    case go: False
    obtain q u where a: "storage_attempt gated_host (storage_work far required action) s = (q, u)" by fastforce
    obtain w where w: "sr_log u = sr_log s @ w" "attempt_log action q (sr_sent u) w" using attempt_logged [OF a] by blast
    have few: "saves w \<le> (if action = SaveStorage then 1 else 0)" using w(2) by (cases q) (auto split: if_splits)
    consider x where "q = Inr x" | e where "q = Inl (LinkFailure e)" "not_sent_error e" | "\<exists>f. q = Inl f \<and> (\<forall>e. f = LinkFailure e \<longrightarrow> \<not> not_sent_error e)"
      by (cases q) blast+
    then show ?thesis
    proof cases
      case 1
      then have "r = Inr x" "t = u" using \<open>run_storage_gated gated_host action _ left n s = (r, t)\<close> go a by simp_all
      moreover have "run_log action (Suc (left + n)) (Inr x) w" using w(2) 1 by (cases x) (auto split: if_splits)
      ultimately show ?thesis using w few by (intro exI [of _ "[]"] exI [of _ w]) simp
    next
      case 3
      then obtain f where f: "q = Inl f" "\<forall>e. f = LinkFailure e \<longrightarrow> \<not> not_sent_error e" by blast
      then have "r = Inl f" "t = u" using \<open>run_storage_gated gated_host action _ left n s = (r, t)\<close> go a by (cases f; simp)+
      moreover have "run_log action (Suc (left + n)) (Inl f) w" using w(2) f by (cases f) auto
      ultimately show ?thesis using w few by (intro exI [of _ "[]"] exI [of _ w]) simp
    next
      case 2
      show ?thesis
      proof (cases "\<not> run_stopped u \<and> busy_error e \<and> sr_sent u = 0 \<and> left \<noteq> 0")
        case retry: True
        obtain p v where p: "next_storage_moment u = (p, v)" by fastforce
        have lv: "sr_log v = sr_log u" "\<And>f. p = Inl f \<Longrightarrow> f = StorageWaiting" using p by (auto simp: next_storage_moment_def split: list.splits)
        have seen: "list_all unseen w" "saves w = 0" using w(2) 2 retry by auto
        show ?thesis
        proof (cases p)
          case (Inl f)
          then show ?thesis using \<open>run_storage_gated gated_host action _ left n s = (r, t)\<close> go a 2 retry p lv w few
            by (intro exI [of _ "[]"] exI [of _ w]) auto
        next
          case (Inr x)
          then have "run_storage_gated gated_host action (storage_work far required action) (left - 1) (Suc n) v = (r, t)"
            using \<open>run_storage_gated gated_host action _ left n s = (r, t)\<close> go a 2 retry p by simp
          from 1(1) [OF go a [symmetric] 2(1) refl _ _ _ p [symmetric] Inr this] 2 retry
          obtain v2 w2 where "sr_log t = sr_log v @ v2 @ w2" "list_all unseen v2" "saves v2 = 0"
            "saves w2 \<le> (if action = SaveStorage then 1 else 0)" "run_log action (Suc (left - 1 + Suc n)) r w2" by auto
          moreover have "Suc (left - 1 + Suc n) = Suc (left + n)" using retry by simp
          ultimately show ?thesis using seen w(1) lv(1) by (intro exI [of _ "w @ v2"] exI [of _ w2]) simp
        qed
      next
        case False
        then have r: "t = u" "r = (if run_stopped u then Inl StorageCancelled
              else Inl (StorageBusy action (error_text e) (Suc n) (error_code e) (sr_sent u)))"
          using \<open>run_storage_gated gated_host action _ left n s = (r, t)\<close> go a 2 by (auto split: if_splits)
        have "sr_sent u \<noteq> 0 \<Longrightarrow> action \<noteq> RefreshStorage" using refused_refresh a 2 by metis
        then show ?thesis using r w few 2 by (intro exI [of _ "[]"] exI [of _ w]) (auto split: if_splits)
      qed
    qed
  qed
qed

lemma saved_by_more: "saved_by snap w \<Longrightarrow> saved_by snap (v @ w)"
proof -
  assume "saved_by snap w"
  then obtain a first reply where s: "read_back snap w" "saved_and_clean snap" "is_verified_flash_save reply"
      "\<exists>x. parse_storage first = Inr x \<and> can_save_storage (Some x) True False"
      "butlast (butlast w) = a @ [Asked ''storage'', Answered ''storage'' (Inr first), Asked ''save'', Answered ''save'' (Inr reply)]"
    unfolding saved_by_def by blast
  have "butlast (butlast (v @ w)) = v @ butlast (butlast w)" using s(1) by (auto simp: read_back_def butlast_append)
  moreover have "read_back snap (v @ w)" using s(1) unfolding read_back_def by (metis append.assoc)
  ultimately show ?thesis using s unfolding saved_by_def by (intro exI [of _ "v @ a"]) auto
qed

lemma read_back_more: "read_back snap w \<Longrightarrow> read_back snap (v @ w)"
  unfolding read_back_def by (metis append.assoc)

definition exporting :: "storage_action \<Rightarrow> bool" where
  "exporting action \<longleftrightarrow> (case action of ExportStorage k \<Rightarrow> True | _ \<Rightarrow> False)"

definition shown_after :: "storage_action \<Rightarrow> storage_panel \<Rightarrow> call_event list \<Rightarrow> storage_panel \<Rightarrow> bool" where
  "shown_after action p w q \<longleftrightarrow>
     (if pn_message q = Some SavedAndVerified \<and> pn_message p \<noteq> Some SavedAndVerified
      then action = SaveStorage \<and> (\<exists>snap. pn_state q = Some snap \<and> saved_by snap w) else True)
     \<and> (pn_state q = pn_state p \<or> pn_state q = None \<or> (\<exists>snap. pn_state q = Some snap \<and> read_back snap w))
     \<and> (case pn_problem q of
          None \<Rightarrow> True
        | Some pb \<Rightarrow> if Some pb = pn_problem p then True
            else if sp_kind pb = BusyProblem then saves w = 0 \<and> pn_state q = pn_state p \<and> (exporting action \<or> list_all unseen w)
            else pn_state q = None \<and> (if sp_failure pb = FlashSaveUnavailable then saves w = 0 else True))"

lemma run_shown:
  assumes "run_storage_gated gated_host action (storage_work far required action) left n s = (r, t)" "sr_log s = []"
  shows "saves (sr_log t) \<le> (if action = SaveStorage then 1 else 0) \<and> shown_after action p (sr_log t) (panel_finish action mode r t p)"
proof -
  obtain v w where w: "sr_log t = v @ w" "list_all unseen v" "saves v = 0" "saves w \<le> (if action = SaveStorage then 1 else 0)"
    "run_log action (Suc (left + n)) r w" using run_logged [OF assms(1)] assms(2) by auto
  have "shown_after action p (sr_log t) (panel_finish action mode r t p)"
  proof (cases r)
    case (Inr x)
    obtain snap data where x: "x = (snap, data)" by fastforce
    have "read_back snap (v @ w) \<and> (action = SaveStorage \<longrightarrow> saved_by snap (v @ w))"
      using w(5) Inr x by (auto simp: saved_by_def [of _ w] intro: read_back_more saved_by_more split: if_splits)
    then show ?thesis using w(1) Inr x
      by (auto simp: shown_after_def panel_finish_def panel_result_def split: option.splits)
  next
    case (Inl f)
    have "shown_after action p (sr_log t) (panel_result action mode r t p)"
    proof (cases "f = StorageCancelled \<or> \<not> panel_live t \<or> mode = QuietRun \<and> problem_kind_of f = BusyProblem")
      case True
      then show ?thesis using Inl by (auto simp: shown_after_def panel_result_def split: option.splits)
    next
      case False
      moreover have "saves (v @ w) = 0 \<and> (exporting action \<or> list_all unseen (v @ w))" if "problem_kind_of f = BusyProblem"
        using that w Inl
        by (cases f rule: problem_kind_of.cases) (auto simp: busy_unknown_def exporting_def split: if_splits storage_action.splits)
      moreover have "saves (v @ w) = 0" if "f = FlashSaveUnavailable" using that w Inl by simp
      moreover have "panel_result action mode r t p = p\<lparr>pn_problem := Some (describe_storage_error f),
          pn_state := (if problem_kind_of f \<noteq> BusyProblem then None else pn_state p)\<rparr>"
        using False Inl by (auto simp: panel_result_def)
      ultimately show ?thesis unfolding w(1)
        by (cases "problem_kind_of f = BusyProblem") (simp_all add: shown_after_def describe_storage_error_def)
    qed
    then show ?thesis by (auto simp: shown_after_def panel_finish_def Let_def split: option.splits)
  qed
  moreover have "saves (sr_log t) \<le> (if action = SaveStorage then 1 else 0)" using w by simp
  ultimately show ?thesis by blast
qed

text \<open>
  C18: Whatever gate, controller and user do during an action of the storage panel: \<open>save\<close> goes out at most once, and only for
  a save. The panel says saved and verified only when the last lines were a storage report that allowed the save, the confirmed save
  and a storage report, shown now, that is saved and clean. The status shown is the one before, none, or the last report.
  A busy problem means that no save went out and, but for an export cut off between its lines, that the controller saw no line
  at all; then the status stands. With any other problem no status is shown.
\<close>

theorem storage_panel_honest:
  "case panel_run far gated_host required action mode online blocked (start_run ms up off) p of (q, t) \<Rightarrow>
     saves (sr_log t) \<le> (if action = SaveStorage then 1 else 0)
     \<and> (if panel_refuses online blocked mode p then q = p \<and> sr_log t = [] else shown_after action (panel_begin mode p) (sr_log t) q)"
proof (cases "panel_refuses online blocked mode p")
  case True
  then show ?thesis by (simp add: panel_run_def start_run_def)
next
  case False
  obtain r t where run: "run_storage_gated gated_host action (storage_work far required action) STORAGE_BUSY_RETRIES 0 (start_run ms up off) = (r, t)"
    by fastforce
  have "sr_log (start_run ms up off) = []" by (simp add: start_run_def)
  from run_shown [OF run this] show ?thesis using False run by (simp add: panel_run_def)
qed

text \<open>
  An export that the gate cuts off after its first line is shown as busy too, although the controller has answered a line.
\<close>

definition cut_off_moments :: "storage_moment list" where
  "cut_off_moments = List.map (\<lambda>a. \<lparr>sm_answer = a, sm_same_epoch = True, sm_online = True, sm_aborted = False\<rparr>)
     [Inr (export_text sample_headers sample_commands), Inl (GateRejected QueueTimeout ''waited too long'')]"

lemma export_cut_off_is_busy:
  "case run_storage_gated False (ExportStorage Diff) (storage_work (\<lambda>v. False) None (ExportStorage Diff)) STORAGE_BUSY_RETRIES 0
       (start_run cut_off_moments True False) of (r, t) \<Rightarrow>
     r = Inl (StorageBusy (ExportStorage Diff) ''waited too long'' 1 (Some QueueTimeout) 1)
     \<and> problem_kind_of (StorageBusy (ExportStorage Diff) ''waited too long'' 1 (Some QueueTimeout) 1) = BusyProblem
     \<and> sr_log t = [Asked ''diff all'', Answered ''diff all'' (Inr (export_text sample_headers sample_commands)),
          Asked ''storage'', Answered ''storage'' (Inl (GateRejected QueueTimeout ''waited too long''))]"
  by (subst run_storage_gated.simps)
    (simp add: cut_off_moments_def start_run_def run_stopped_def panel_live_def storage_attempt_def act_then_def act_bind_def act_mod_def
      export_sequence_def load_sequence_def storage_send_eq sample_export_read not_sent_error_def busy_error_codes busy_unknown_def Let_def)

subsection \<open>The storage activity flag: storageActivity.ts\<close>

text \<open>
  The host tracks every storage action; the pages that must not use the card meanwhile read \<open>pending\<close>. The flag is held for a while
  after the last action ended (each end follows its start, so the count never goes below zero), so that it stays set between the commands of one sequence. Times are milliseconds; the timer is its
  deadline, and runs when the deadline has passed. \<open>sa_told\<close> counts the calls of the listeners.
\<close>

definition STORAGE_ACTIVITY_HOLD_MS :: int where "STORAGE_ACTIVITY_HOLD_MS = 400"

record storage_activity =
  sa_active :: nat
  sa_hold_until :: int
  sa_timer :: "int option"
  sa_told :: nat

datatype activity_event = ActionStarts | ActionEnds | HoldTimer

definition idle_activity :: storage_activity where
  "idle_activity = \<lparr>sa_active = 0, sa_hold_until = 0, sa_timer = None, sa_told = 0\<rparr>"

definition activity_pending :: "int \<Rightarrow> storage_activity \<Rightarrow> bool" where
  "activity_pending now a \<longleftrightarrow> sa_active a > 0 \<or> now < sa_hold_until a"

fun activity_step :: "int \<Rightarrow> int \<times> activity_event \<Rightarrow> storage_activity \<Rightarrow> storage_activity" where
  "activity_step hold (now, ActionStarts) a =
     a\<lparr>sa_active := Suc (sa_active a), sa_told := (if activity_pending now a then sa_told a else Suc (sa_told a))\<rparr>"
| "activity_step hold (now, ActionEnds) a =
     (let b = a\<lparr>sa_active := sa_active a - 1\<rparr> in
      if sa_active b = 0 then b\<lparr>sa_hold_until := now + hold, sa_timer := Some (now + hold)\<rparr> else b)"
| "activity_step hold (now, HoldTimer) a =
     (case sa_timer a of
        Some d \<Rightarrow> if d \<le> now then a\<lparr>sa_timer := None, sa_hold_until := 0, sa_told := (if sa_active a = 0 then Suc (sa_told a) else sa_told a)\<rparr> else a
      | None \<Rightarrow> a)"

definition activity_run :: "int \<Rightarrow> (int \<times> activity_event) list \<Rightarrow> storage_activity" where
  "activity_run hold es = fold (activity_step hold) es idle_activity"

definition is_storage_command :: "string \<Rightarrow> bool" where
  "is_storage_command cmd \<longleftrightarrow> cmd = ''storage'' \<or> cmd = ''save'' \<or> cmd = ''defaults''"

text \<open>The actions that run after some events, and when the last of them ended.\<close>

definition running_after :: "(int \<times> activity_event) list \<Rightarrow> nat" where
  "running_after es = fold (\<lambda>e n. case snd e of ActionStarts \<Rightarrow> Suc n | ActionEnds \<Rightarrow> n - 1 | HoldTimer \<Rightarrow> n) es 0"

fun last_end :: "(int \<times> activity_event) list \<Rightarrow> int option" where
  "last_end es = (if es = [] then None else case last es of
     (t, ActionEnds) \<Rightarrow> Some t | _ \<Rightarrow> last_end (butlast es))"

declare last_end.simps [simp del]

lemma last_end_snoc [simp]:
  "last_end [] = None"
  "last_end (es @ [(t, e)]) = (if e = ActionEnds then Some t else last_end es)"
  by (subst last_end.simps, simp, subst last_end.simps, cases e, simp_all)

lemma activity_snoc:
  "activity_run hold (es @ [e]) = activity_step hold e (activity_run hold es)"
  "running_after (es @ [e]) = (case snd e of ActionStarts \<Rightarrow> Suc (running_after es) | ActionEnds \<Rightarrow> running_after es - 1 | HoldTimer \<Rightarrow> running_after es)"
  by (simp_all add: activity_run_def running_after_def split: activity_event.split)

lemma activity_inv:
  "sorted (List.map fst es) \<Longrightarrow> sa_active (activity_run hold es) = running_after es
     \<and> (case sa_timer (activity_run hold es) of
          Some d \<Rightarrow> sa_hold_until (activity_run hold es) = d \<and> (\<exists>t. d = t + hold)
        | None \<Rightarrow> True)
     \<and> (running_after es = 0 \<longrightarrow> (case last_end es of
          None \<Rightarrow> True
        | Some t \<Rightarrow> t + hold \<le> sa_hold_until (activity_run hold es) \<or> (\<exists>now \<in> set (List.map fst es). t + hold \<le> now)))"
proof (induction es rule: rev_induct)
  case Nil
  then show ?case by (simp add: activity_run_def running_after_def idle_activity_def)
next
  case (snoc e es)
  obtain t k where e: "e = (t, k)" by fastforce
  have "sorted (List.map fst es)" using snoc.prems by (simp add: sorted_append)
  note IH = snoc.IH [OF this]
  show ?case
  proof (cases k)
    case ActionStarts
    then show ?thesis using IH by (auto simp: activity_snoc e split: option.splits)
  next
    case ActionEnds
    then show ?thesis using IH by (auto simp: activity_snoc e Let_def split: option.splits)
  next
    case HoldTimer
    then show ?thesis using IH by (auto simp: activity_snoc e split: option.splits)
  qed
qed

text \<open>The flag is set while an action runs and for the hold time after it.\<close>

lemma activity_covers:
  assumes "sorted (List.map fst es)" "\<forall>t \<in> set (List.map fst es). t \<le> now"
    and "running_after es > 0 \<or> (\<exists>t. last_end es = Some t \<and> now < t + hold)"
  shows "activity_pending now (activity_run hold es)"
proof (cases "running_after es = 0")
  case True
  then obtain t where t: "last_end es = Some t" "now < t + hold" using assms(3) by auto
  then have "t + hold \<le> sa_hold_until (activity_run hold es) \<or> (\<exists>x \<in> set (List.map fst es). t + hold \<le> x)"
    using activity_inv [OF assms(1), of hold] True by simp
  then show ?thesis using t assms(2) by (force simp: activity_pending_def)
qed (use activity_inv [OF assms(1), of hold] in \<open>simp add: activity_pending_def\<close>)

subsection \<open>Refresh with unsaved changes: storageRefresh.ts\<close>

text \<open>The signal for the question before a refresh; \<open>requestRefresh\<close> itself is \<open>request_refresh\<close> of \<open>Page_Settings\<close>.\<close>

definition storage_dirty :: "storage_snapshot option \<Rightarrow> bool" where
  "storage_dirty s = (case s of None \<Rightarrow> False | Some x \<Rightarrow> dirty x)"

end
