(* ===== verification/Host_Adapter.thy ===== *)
theory Host_Adapter
  imports Storage_Panel Flash_Lock
begin

section \<open>The host adapter: createHost.ts\<close>

text \<open>
  \<open>ProtocolHostAdapter\<close> puts the client and the command gate behind the interface the pages use. Connecting is the part with a
  state of its own: attempts overlap, each waits for the client and for the ready banner, and only the latest may call
  the connection live. A connection that is live is what the page after a flash waits for.
\<close>

subsection \<open>Where a path leads: resolveConnectOptions\<close>

datatype route = MockRoute | WebSerialRoute | SerialRoute

record connect_options =
  co_path :: "string option"
  co_transport :: "route option"

definition MOCK_PORT_PATH :: string where "MOCK_PORT_PATH = ''mock://bobflight''"

definition empty_path :: "string option \<Rightarrow> bool" where
  "empty_path p \<longleftrightarrow> p = None \<or> p = Some []"

definition route_of_path :: "string option \<Rightarrow> route" where
  "route_of_path p = (case p of
     None \<Rightarrow> MockRoute
   | Some x \<Rightarrow> if x = [] \<or> prefix ''mock:'' x \<or> x = MOCK_PORT_PATH then MockRoute
       else if prefix ''webserial:'' x then WebSerialRoute else SerialRoute)"

definition normal_path :: "string option \<Rightarrow> string" where
  "normal_path p = (case p of
     None \<Rightarrow> MOCK_PORT_PATH
   | Some x \<Rightarrow> if route_of_path p = MockRoute then (if prefix ''mock:'' x then x else MOCK_PORT_PATH) else x)"

text \<open>A transport that contradicts the path is an error, with the transport and the route it names.\<close>

definition resolve_connect_options :: "connect_options \<Rightarrow> (route \<times> route) + connect_options" where
  "resolve_connect_options o1 =
     (let r = route_of_path (co_path o1) in
      case co_transport o1 of
        Some t \<Rightarrow> if t \<noteq> r then Inl (t, r) else Inr (o1\<lparr>co_path := Some (normal_path (co_path o1)), co_transport := Some r\<rparr>)
      | None \<Rightarrow> Inr (o1\<lparr>co_path := Some (normal_path (co_path o1)), co_transport := Some r\<rparr>))"

lemma route_normal: "route_of_path (Some (normal_path p)) = route_of_path p"
  by (auto simp: normal_path_def route_of_path_def MOCK_PORT_PATH_def split: option.split)

lemma resolve_shape: "resolve_connect_options o1 = Inr r \<Longrightarrow> \<exists>t. co_transport r = Some t \<and> t = route_of_path (co_path r) \<and> t = route_of_path (co_path o1)"
  by (auto simp: resolve_connect_options_def route_normal Let_def split: option.splits if_splits)

text \<open>Options that were resolved resolve to themselves.\<close>

lemma resolve_idempotent: "resolve_connect_options o1 = Inr r \<Longrightarrow> resolve_connect_options r = Inr r"
proof -
  have "normal_path (Some (normal_path p)) = normal_path p" for p
    by (auto simp: normal_path_def route_of_path_def MOCK_PORT_PATH_def split: option.split)
  then show "resolve_connect_options o1 = Inr r \<Longrightarrow> resolve_connect_options r = Inr r"
    by (auto simp: resolve_connect_options_def route_normal Let_def split: option.splits if_splits)
qed

subsection \<open>The ports that are offered: enumeratePorts\<close>

record port_info =
  pi_path :: string
  pi_name :: string

fun map_put :: "port_info \<Rightarrow> port_info list \<Rightarrow> port_info list" where
  "map_put p [] = [p]"
| "map_put p (q # qs) = (if pi_path q = pi_path p then p # qs else q # map_put p qs)"

definition mock_port :: port_info where
  "mock_port = \<lparr>pi_path = MOCK_PORT_PATH, pi_name = ''Mock BobFlight CDC''\<rparr>"

text \<open>What the client and Web Serial enumerate: \<open>None\<close> when that throws or is not available.\<close>

definition enumerate_ports :: "port_info list option \<Rightarrow> port_info list option \<Rightarrow> port_info list" where
  "enumerate_ports client web =
     (let a = fold map_put (filter (\<lambda>p. prefix ''mock'' (pi_path p) \<or> prefix ''webserial:'' (pi_path p)) (case client of None \<Rightarrow> [] | Some ps \<Rightarrow> ps)) [];
          b = fold map_put (case web of None \<Rightarrow> [] | Some ps \<Rightarrow> ps) a
      in if list_ex (\<lambda>p. prefix ''mock'' (pi_path p)) b then b else map_put mock_port b)"

lemma map_put_set: "pi_path ` set (map_put p qs) = insert (pi_path p) (pi_path ` set qs)"
  by (induction qs) auto

lemma map_put_distinct: "distinct (List.map pi_path qs) \<Longrightarrow> distinct (List.map pi_path (map_put p qs))"
proof (induction qs)
  case (Cons q qs)
  then show ?case using map_put_set [of p qs] by (auto simp: image_iff)
qed simp

lemma fold_put_distinct: "distinct (List.map pi_path qs) \<Longrightarrow> distinct (List.map pi_path (fold map_put ps qs))"
  by (induction ps arbitrary: qs) (simp_all add: map_put_distinct)

text \<open>No path is offered twice, and a mock port is always there.\<close>

lemma enumerate_ports_ok:
  "distinct (List.map pi_path (enumerate_ports client web)) \<and> list_ex (\<lambda>p. prefix ''mock'' (pi_path p)) (enumerate_ports client web)"
proof -
  have "mock_port \<in> set (map_put mock_port b)" for b by (induction b) auto
  then have "list_ex (\<lambda>p. prefix ''mock'' (pi_path p)) (map_put mock_port b)" for b
    unfolding list_ex_iff by (rule bexI [rotated]) (simp add: mock_port_def MOCK_PORT_PATH_def)
  then show ?thesis by (auto simp: enumerate_ports_def Let_def intro!: map_put_distinct fold_put_distinct)
qed

subsection \<open>Connecting\<close>

text \<open>
  An attempt first waits for the client, then for the banner, unless the banner's promise has settled before. \<open>ha_banner\<close> is how it
  settled: the banner was seen, or the time ran out.
\<close>

datatype attempt_point = AwaitsClient | AwaitsBanner

record connect_attempt =
  ha_id :: nat
  ha_route :: route
  ha_point :: attempt_point
  ha_banner :: "bool option"

datatype host_error = ContradictoryOptions route route | ConnectThrew string | BannerTimeout

record host_adapter =
  ho_status :: connection
  ho_live :: bool
  ho_attempt :: nat
  ho_attempts :: "connect_attempt list"
  ho_error :: "host_error option"
  ho_session :: nat
  ho_drained :: nat

definition new_host :: host_adapter where
  "new_host = \<lparr>ho_status = Disconnected, ho_live = False, ho_attempt = 0, ho_attempts = [], ho_error = None, ho_session = 0, ho_drained = 0\<rparr>"

definition is_live_connection :: "host_adapter \<Rightarrow> bool" where
  "is_live_connection h \<longleftrightarrow> ho_status h = Connected \<and> ho_live h"

text \<open>The listener of the client's status: every change is a new session; a connection that is gone drains the gate.\<close>

definition status_change :: "connection \<Rightarrow> host_adapter \<Rightarrow> host_adapter" where
  "status_change st h =
     (let g = h\<lparr>ho_status := st, ho_session := Suc (ho_session h)\<rparr>
      in if st \<noteq> Connected then g\<lparr>ho_live := False, ho_drained := Suc (ho_drained g)\<rparr> else g)"

definition find_attempt :: "nat \<Rightarrow> host_adapter \<Rightarrow> connect_attempt option" where
  "find_attempt i h = find (\<lambda>a. ha_id a = i) (ho_attempts h)"

definition drop_attempt :: "nat \<Rightarrow> host_adapter \<Rightarrow> host_adapter" where
  "drop_attempt i h = h\<lparr>ho_attempts := filter (\<lambda>a. ha_id a \<noteq> i) (ho_attempts h)\<rparr>"

definition put_attempt :: "connect_attempt \<Rightarrow> host_adapter \<Rightarrow> host_adapter" where
  "put_attempt a h = h\<lparr>ho_attempts := List.map (\<lambda>b. if ha_id b = ha_id a then a else b) (ho_attempts h)\<rparr>"

text \<open>The \<open>catch\<close> of \<open>connect\<close>.\<close>

definition attempt_failed :: "nat \<Rightarrow> host_error \<Rightarrow> host_adapter \<Rightarrow> host_adapter" where
  "attempt_failed i e h = (let g = drop_attempt i h in if i = ho_attempt g then g\<lparr>ho_live := False, ho_error := Some e\<rparr> else g)"

definition host_connect :: "connect_options \<Rightarrow> host_adapter \<Rightarrow> host_adapter" where
  "host_connect o1 h =
     (let i = Suc (ho_attempt h); g = h\<lparr>ho_attempt := i, ho_error := None, ho_live := False\<rparr> in
      case resolve_connect_options o1 of
        Inl (t, r) \<Rightarrow> attempt_failed i (ContradictoryOptions t r) g
      | Inr o2 \<Rightarrow> g\<lparr>ho_attempts := ho_attempts g @
          [\<lparr>ha_id = i, ha_route = (case co_transport o2 of Some t \<Rightarrow> t | None \<Rightarrow> MockRoute), ha_point = AwaitsClient, ha_banner = None\<rparr>]\<rparr>)"

text \<open>After the wait for the banner: without one a mock connection fails, any other goes on.\<close>

definition after_banner :: "connect_attempt \<Rightarrow> bool \<Rightarrow> host_adapter \<Rightarrow> host_adapter" where
  "after_banner a ok h =
     (if \<not> ok \<and> ha_route a = MockRoute then attempt_failed (ha_id a) BannerTimeout h
      else let g = drop_attempt (ha_id a) h in
        if ha_id a = ho_attempt g \<and> (ha_route a = WebSerialRoute \<or> ha_route a = SerialRoute) \<and> ho_status g = Connected
        then g\<lparr>ho_live := True\<rparr> else g)"

text \<open>\<open>client.connect\<close> of an attempt ended: what it threw, if anything.\<close>

definition client_answer :: "nat \<Rightarrow> string option \<Rightarrow> host_adapter \<Rightarrow> host_adapter" where
  "client_answer i failure h = (case find_attempt i h of
     None \<Rightarrow> h
   | Some a \<Rightarrow>
       if ha_point a \<noteq> AwaitsClient then h
       else (case failure of
          Some m \<Rightarrow> attempt_failed i (ConnectThrew m) h
        | None \<Rightarrow> (case ha_banner a of
            Some ok \<Rightarrow> after_banner a ok h
          | None \<Rightarrow> put_attempt (a\<lparr>ha_point := AwaitsBanner\<rparr>) h)))"

definition banner_answer :: "nat \<Rightarrow> bool \<Rightarrow> host_adapter \<Rightarrow> host_adapter" where
  "banner_answer i ok h = (case find_attempt i h of
     None \<Rightarrow> h
   | Some a \<Rightarrow>
       if ha_banner a \<noteq> None then h
       else if ha_point a = AwaitsBanner then after_banner a ok h
       else put_attempt (a\<lparr>ha_banner := Some ok\<rparr>) h)"

definition is_banner :: "string \<Rightarrow> bool" where
  "is_banner l \<longleftrightarrow> prefix ''BobFlight'' l \<and> js_includes ''ready'' l"

definition host_disconnect :: "host_adapter \<Rightarrow> host_adapter" where
  "host_disconnect h = h\<lparr>ho_attempt := Suc (ho_attempt h), ho_live := False, ho_error := None\<rparr>"

datatype host_event = HostConnects connect_options | HostDisconnects | StatusChanges connection | ClientAnswers nat "string option"
  | BannerAnswers nat bool

fun host_step :: "host_event \<Rightarrow> host_adapter \<Rightarrow> host_adapter" where
  "host_step (HostConnects o1) h = host_connect o1 h"
| "host_step HostDisconnects h = host_disconnect h"
| "host_step (StatusChanges st) h = status_change st h"
| "host_step (ClientAnswers i f) h = client_answer i f h"
| "host_step (BannerAnswers i ok) h = banner_answer i ok h"

definition host_run :: "host_event list \<Rightarrow> host_adapter" where
  "host_run es = fold host_step es new_host"

subsection \<open>When a connection is live\<close>

text \<open>The latest action, its number, what happened since, and the client's status, read off the events alone.\<close>

definition host_actions :: "host_event list \<Rightarrow> nat \<times> connect_options option" where
  "host_actions es = fold (\<lambda>e (n, o1). case e of HostConnects p \<Rightarrow> (Suc n, Some p) | HostDisconnects \<Rightarrow> (Suc n, None) | _ \<Rightarrow> (n, o1)) es (0, None)"

definition since_action :: "host_event list \<Rightarrow> host_event list" where
  "since_action es = fold (\<lambda>e w. case e of HostConnects p \<Rightarrow> [] | HostDisconnects \<Rightarrow> [] | _ \<Rightarrow> w @ [e]) es []"

definition client_status :: "host_event list \<Rightarrow> connection" where
  "client_status es = fold (\<lambda>e st. case e of StatusChanges x \<Rightarrow> x | _ \<Rightarrow> st) es Disconnected"

definition client_came :: "nat \<Rightarrow> host_event list \<Rightarrow> bool" where
  "client_came n w \<longleftrightarrow> ClientAnswers n None \<in> set w"

definition banner_settled :: "nat \<Rightarrow> host_event list \<Rightarrow> bool" where
  "banner_settled n w \<longleftrightarrow> BannerAnswers n True \<in> set w \<or> BannerAnswers n False \<in> set w"

text \<open>The route of the latest action, when that is a connect whose options are not contradictory.\<close>

definition latest_route :: "host_event list \<Rightarrow> route option" where
  "latest_route es = (case snd (host_actions es) of
     None \<Rightarrow> None
   | Some o1 \<Rightarrow> (case resolve_connect_options o1 of Inl e \<Rightarrow> None | Inr o2 \<Rightarrow> co_transport o2))"

definition live_reason :: "host_event list \<Rightarrow> bool" where
  "live_reason es \<longleftrightarrow> client_status es = Connected \<and> (latest_route es = Some WebSerialRoute \<or> latest_route es = Some SerialRoute)
     \<and> client_came (fst (host_actions es)) (since_action es) \<and> banner_settled (fst (host_actions es)) (since_action es)"

definition attempt_ok :: "host_event list \<Rightarrow> connect_attempt \<Rightarrow> bool" where
  "attempt_ok es a \<longleftrightarrow> ha_id a \<le> fst (host_actions es) \<and> (ha_id a = fst (host_actions es) \<longrightarrow>
     latest_route es = Some (ha_route a) \<and> (ha_point a = AwaitsBanner \<longrightarrow> client_came (ha_id a) (since_action es))
     \<and> (ha_banner a \<noteq> None \<longrightarrow> banner_settled (ha_id a) (since_action es)))"

definition host_inv :: "host_event list \<Rightarrow> host_adapter \<Rightarrow> bool" where
  "host_inv es h \<longleftrightarrow> ho_attempt h = fst (host_actions es) \<and> ho_status h = client_status es \<and> (ho_live h \<longrightarrow> live_reason es)
     \<and> list_all (attempt_ok es) (ho_attempts h)"

lemmas host_defs = host_inv_def attempt_ok_def live_reason_def latest_route_def client_came_def banner_settled_def

lemma ghost_snoc:
  "host_actions (es @ [e]) = (case e of HostConnects p \<Rightarrow> (Suc (fst (host_actions es)), Some p) | HostDisconnects \<Rightarrow> (Suc (fst (host_actions es)), None) | _ \<Rightarrow> host_actions es)"
  "since_action (es @ [e]) = (case e of HostConnects p \<Rightarrow> [] | HostDisconnects \<Rightarrow> [] | _ \<Rightarrow> since_action es @ [e])"
  "client_status (es @ [e]) = (case e of StatusChanges x \<Rightarrow> x | _ \<Rightarrow> client_status es)"
  by (auto simp: host_actions_def since_action_def client_status_def split: host_event.split prod.split)

text \<open>An answer to an attempt changes neither the action nor the status.\<close>

lemma answer_keeps:
  assumes "host_inv es h" "e = ClientAnswers i f \<or> e = BannerAnswers i ok"
  shows "host_inv (es @ [e]) h"
proof -
  have g: "host_actions (es @ [e]) = host_actions es" "since_action (es @ [e]) = since_action es @ [e]" "client_status (es @ [e]) = client_status es"
    using assms(2) by (auto simp: ghost_snoc)
  have "attempt_ok es a \<Longrightarrow> attempt_ok (es @ [e]) a" for a
    by (auto simp: attempt_ok_def latest_route_def client_came_def banner_settled_def g)
  moreover have "live_reason es \<Longrightarrow> live_reason (es @ [e])"
    by (auto simp: live_reason_def latest_route_def client_came_def banner_settled_def g)
  ultimately show ?thesis using assms(1) by (auto simp: host_inv_def g list_all_iff)
qed

lemma inv_failed: "host_inv es h \<Longrightarrow> host_inv es (attempt_failed i e h)"
  by (auto simp: host_inv_def attempt_failed_def drop_attempt_def list_all_iff Let_def)

lemma inv_put: "host_inv es h \<Longrightarrow> attempt_ok es a \<Longrightarrow> host_inv es (put_attempt a h)"
  by (auto simp: host_inv_def put_attempt_def list_all_iff)

lemma inv_after_banner:
  assumes "host_inv es h" "attempt_ok es a"
    and "ha_id a = fst (host_actions es) \<Longrightarrow> client_came (ha_id a) (since_action es) \<and> banner_settled (ha_id a) (since_action es)"
  shows "host_inv es (after_banner a ok h)"
  using assms by (auto simp: after_banner_def inv_failed) (auto simp: host_inv_def drop_attempt_def list_all_iff attempt_ok_def live_reason_def Let_def)

lemma find_attempt_ok: "host_inv es h \<Longrightarrow> find_attempt i h = Some a \<Longrightarrow> attempt_ok es a \<and> ha_id a = i"
  by (auto simp: host_inv_def find_attempt_def list_all_iff find_Some_iff)

lemma inv_client:
  assumes "host_inv es h"
  shows "host_inv (es @ [ClientAnswers i f]) (client_answer i f h)"
proof (cases "find_attempt i h")
  case None
  then show ?thesis using answer_keeps [OF assms] by (simp add: client_answer_def)
next
  case (Some a)
  let ?es = "es @ [ClientAnswers i f]"
  have inv: "host_inv ?es h" using answer_keeps [OF assms] by blast
  note a = find_attempt_ok [OF inv Some]
  have came: "f = None \<Longrightarrow> client_came i (since_action ?es)" by (auto simp: ghost_snoc client_came_def)
  show ?thesis
  proof (cases f)
    case None
    have "host_inv ?es (put_attempt (a\<lparr>ha_point := AwaitsBanner\<rparr>) h)"
      using inv_put [OF inv] a came None by (auto simp: attempt_ok_def)
    moreover have "host_inv ?es (after_banner a ok h)" if "ha_banner a = Some ok" for ok
      using a came None that by (intro inv_after_banner [OF inv]) (auto simp: attempt_ok_def)
    ultimately show ?thesis using Some None inv by (auto simp: client_answer_def split: option.splits)
  next
    case (Some m)
    then show ?thesis using \<open>find_attempt i h = Some a\<close> inv inv_failed [OF inv] by (auto simp: client_answer_def)
  qed
qed

lemma inv_banner:
  assumes "host_inv es h"
  shows "host_inv (es @ [BannerAnswers i ok]) (banner_answer i ok h)"
proof (cases "find_attempt i h")
  case None
  then show ?thesis using answer_keeps [OF assms] by (simp add: banner_answer_def)
next
  case (Some a)
  let ?es = "es @ [BannerAnswers i ok]"
  have inv: "host_inv ?es h" using answer_keeps [OF assms] by blast
  note a = find_attempt_ok [OF inv Some]
  have settled: "banner_settled i (since_action ?es)" by (cases ok) (auto simp: ghost_snoc banner_settled_def)
  have "host_inv ?es (put_attempt (a\<lparr>ha_banner := Some ok\<rparr>) h)"
    using inv_put [OF inv] a settled by (auto simp: attempt_ok_def)
  moreover have "host_inv ?es (after_banner a ok h)" if "ha_point a = AwaitsBanner"
    using a settled that by (intro inv_after_banner [OF inv]) (auto simp: attempt_ok_def)
  ultimately show ?thesis using Some inv by (auto simp: banner_answer_def split: option.splits)
qed

lemma inv_host_connect:
  assumes "host_inv es h"
  shows "host_inv (es @ [HostConnects o1]) (host_connect o1 h)"
proof -
  let ?es = "es @ [HostConnects o1]"
  let ?g = "h\<lparr>ho_attempt := Suc (ho_attempt h), ho_error := None, ho_live := False\<rparr>"
  have old: "attempt_ok es a \<Longrightarrow> attempt_ok ?es a" for a by (auto simp: attempt_ok_def ghost_snoc)
  then have g: "host_inv ?es ?g" using assms by (auto simp: host_inv_def ghost_snoc list_all_iff)
  show ?thesis
  proof (cases "resolve_connect_options o1")
    case (Inl e)
    then show ?thesis using inv_failed [OF g] by (cases e) (simp add: host_connect_def Let_def)
  next
    case (Inr o2)
    obtain t where "co_transport o2 = Some t" using resolve_shape [OF Inr] by blast
    then have "latest_route ?es = Some t" by (simp add: latest_route_def ghost_snoc Inr)
    then have "attempt_ok ?es \<lparr>ha_id = Suc (ho_attempt h), ha_route = t, ha_point = AwaitsClient, ha_banner = None\<rparr>"
      using assms by (simp add: attempt_ok_def ghost_snoc host_inv_def)
    then show ?thesis using g Inr \<open>co_transport o2 = Some t\<close> by (simp add: host_connect_def Let_def host_inv_def)
  qed
qed

lemma inv_disconnect: "host_inv es h \<Longrightarrow> host_inv (es @ [HostDisconnects]) (host_disconnect h)"
  by (auto simp: host_inv_def host_disconnect_def ghost_snoc list_all_iff attempt_ok_def)

lemma inv_status: "host_inv es h \<Longrightarrow> host_inv (es @ [StatusChanges st]) (status_change st h)"
  by (auto simp: host_defs status_change_def ghost_snoc list_all_iff Let_def)

lemma host_inv_run: "host_inv es (host_run es)"
proof (induction es rule: rev_induct)
  case Nil
  then show ?case by (simp add: host_run_def new_host_def host_inv_def host_actions_def client_status_def)
next
  case (snoc e es)
  have "host_run (es @ [e]) = host_step e (host_run es)" by (simp add: host_run_def)
  then show ?case using snoc inv_client inv_banner inv_host_connect inv_disconnect inv_status by (cases e) simp_all
qed

text \<open>
  C20: The host calls a connection live only when the client is connected and the latest thing the user did was to connect, over Web
  Serial or a native port, and that very attempt's client came up and its wait for the banner is over. An older attempt that ends
  late, a disconnect or a lost port never leaves a connection that counts as live.
\<close>

theorem host_live_is_latest:
  "if is_live_connection (host_run es) then live_reason es else True"
  using host_inv_run [of es] by (simp add: is_live_connection_def host_inv_def)

text \<open>Connecting twice while the first attempt still waits: the first one's end does not count, the second one's does.\<close>

definition web_options :: connect_options where
  "web_options = \<lparr>co_path = Some ''webserial:1'', co_transport = None\<rparr>"

lemma overlapping_attempts:
  "\<not> is_live_connection (host_run [HostConnects web_options, HostConnects web_options, StatusChanges Connected, BannerAnswers 1 True, ClientAnswers 1 None])"
  "is_live_connection (host_run [HostConnects web_options, HostConnects web_options, StatusChanges Connected, ClientAnswers 1 None,
     ClientAnswers 2 None, BannerAnswers 2 False])"
  by code_simp+

subsection \<open>How each call goes through the gate\<close>

datatype adapter_call = SendLine string | StorageSequence priority | GetVersion | GetStatus | GetSetting | SetSetting | SaveSettings
  | RestoreDefaults | GetAllSettings

fun call_options :: "adapter_call \<Rightarrow> run_options" where
  "call_options (SendLine cmd) = command_gate_options cmd"
| "call_options (StorageSequence p) = plain_options\<lparr>priority := p\<rparr>"
| "call_options SetSetting = plain_options\<lparr>priority := WriteClass\<rparr>"
| "call_options SaveSettings = plain_options\<lparr>priority := WriteClass\<rparr>"
| "call_options RestoreDefaults = plain_options\<lparr>priority := WriteClass\<rparr>"
| "call_options c = plain_options"

text \<open>Whether the storage activity flag is set during the call.\<close>

fun call_tracked :: "adapter_call \<Rightarrow> bool" where
  "call_tracked (SendLine cmd) = is_storage_command cmd"
| "call_tracked (StorageSequence p) = True"
| "call_tracked SaveSettings = True"
| "call_tracked RestoreDefaults = True"
| "call_tracked c = False"

text \<open>The lines of a storage sequence; one is sent only in the session in which the sequence took the gate.\<close>

definition is_storage_sequence_command :: "string \<Rightarrow> bool" where
  "is_storage_sequence_command cmd \<longleftrightarrow> cmd = ''storage'' \<or> cmd = ''save'' \<or> cmd = ''diff all'' \<or> cmd = ''dump all''"

datatype sequence_send = NotASequenceCommand | SequenceSessionChanged | SequenceSends

definition sequence_line :: "nat \<Rightarrow> nat \<Rightarrow> string \<Rightarrow> sequence_send" where
  "sequence_line took now cmd =
     (if \<not> is_storage_sequence_command cmd then NotASequenceCommand
      else if took \<noteq> now then SequenceSessionChanged else SequenceSends)"

text \<open>Every line of the storage panel's sequences is one the host lets through.\<close>

lemma panel_lines_pass:
  "list_all is_storage_sequence_command [''storage'', ''save'', kind_text Diff @ '' all'', kind_text Dump @ '' all'']"
  by code_simp
end
