(* ===== verification/Diagnostic_Console.thy ===== *)
theory Diagnostic_Console
  imports Js_Text "HOL-Library.Sublist"
begin

section \<open>The diagnostic console: diagnostic-console-session.ts\<close>

text \<open>
  A session over one serial port: the user picks it, it is opened, the banner of the diagnostic image has to be seen in what it
  prints, and then three commands may be sent. The methods are asynchronous and overlap: the picker, the opening, the read loop, a
  write and the closing each wait for something of their own. Each such wait is a point in the state, and each event below
  ends one of them or is a click; what follows up to the next wait runs at once. The session's own promises
  (\<open>openingPromise\<close>, \<open>readLoopPromise\<close>, \<open>writingPromise\<close>, \<open>closingPromise\<close>) are conditions on these points. The text of a chunk is what the
  \<open>TextDecoder\<close> makes of its bytes; a port is what the browser says of it. \<open>cs_trace\<close> holds what reached and came from a port.
\<close>

definition TARGET_VID :: nat where "TARGET_VID = 0x1209"
definition TARGET_PID :: nat where "TARGET_PID = 0xb0b1"
definition KNOWN_BANNER_FRAGMENT :: string where "KNOWN_BANNER_FRAGMENT = ''BobFlight F405 USB diagnostic, MLTEMPF4 reference''"
definition MAX_OUTPUT_CHARS :: nat where "MAX_OUTPUT_CHARS = 16384"
definition IDENTITY_SCAN_CHARS :: nat where "IDENTITY_SCAN_CHARS = 1024"

definition ALLOWED_CONSOLE_COMMANDS :: "string list" where
  "ALLOWED_CONSOLE_COMMANDS = [''version'', ''status'', ''help'']"

subsection \<open>The state\<close>

datatype console_state = Disconnected | Selecting | OpeningPort | Verifying | Ready | Closing

datatype console_error =
  PickFailed string | WrongDevice "nat option" "nat option" | OpenFailed string | IdentityTimeout | PortLost string
  | DroppedBeforeIdentity | CloseFailed string | ConnectFailed string

record console_port =
  po_id :: nat
  po_vid :: "nat option"
  po_pid :: "nat option"
  po_signals :: bool

text \<open>Where \<open>openConnection\<close>, \<open>finishClose\<close> and \<open>cleanupPort\<close> wait. \<open>ForOpen\<close>: the cleaning up that \<open>openConnection\<close> asked for.\<close>

datatype open_point = NotOpening | AtPicker | AtOpen | AtSignals | AtOpenCleanup
datatype close_point = NotClosing | WaitsForOpening | AtReaderCancel | WaitsForLoop | WaitsForWrite | AtCloseCleanup
datatype cleanup_point = NoCleanup | AtDropSignals | AtPortClose

datatype console_trace =
  OpenedPort console_port | RaisedDtr console_port | Got console_port string | Wrote console_port string | ReleasedPort console_port

record console =
  cs_state :: console_state
  cs_output :: string
  cs_verified :: bool
  cs_error :: "console_error option"
  cs_port :: "console_port option"
  cs_reader :: bool
  cs_writing :: bool
  cs_timer :: bool
  cs_cancel :: bool
  cs_opening :: open_point
  cs_closing :: close_point
  cs_cleanup :: cleanup_point
  cs_loop :: bool
  cs_trace :: "console_trace list"

definition new_console :: console where
  "new_console = \<lparr>cs_state = Disconnected, cs_output = [], cs_verified = False, cs_error = None, cs_port = None, cs_reader = False,
     cs_writing = False, cs_timer = False, cs_cancel = False, cs_opening = NotOpening, cs_closing = NotClosing, cs_cleanup = NoCleanup,
     cs_loop = False, cs_trace = []\<rparr>"

definition set_error :: "console_error \<Rightarrow> console \<Rightarrow> console" where
  "set_error e s = s\<lparr>cs_error := Some e\<rparr>"

definition set_state :: "console_state \<Rightarrow> console \<Rightarrow> console" where
  "set_state x s = s\<lparr>cs_state := x\<rparr>"

definition trace_it :: "console_trace \<Rightarrow> console \<Rightarrow> console" where
  "trace_it e s = s\<lparr>cs_trace := cs_trace s @ [e]\<rparr>"

text \<open>\<open>isActive()\<close>.\<close>

definition console_active :: "console \<Rightarrow> bool" where
  "console_active s \<longleftrightarrow> cs_state s \<noteq> Disconnected"

subsection \<open>What the port prints\<close>

definition last_chars :: "nat \<Rightarrow> string \<Rightarrow> string" where
  "last_chars n s = drop (length s - n) s"

definition append_output :: "string \<Rightarrow> console \<Rightarrow> console" where
  "append_output text s =
     (let out = last_chars MAX_OUTPUT_CHARS (cs_output s @ text); t = s\<lparr>cs_output := out\<rparr> in
      if \<not> cs_verified t \<and> js_includes KNOWN_BANNER_FRAGMENT (last_chars IDENTITY_SCAN_CHARS out)
      then (let u = t\<lparr>cs_verified := True, cs_timer := False\<rparr> in if cs_state u = Verifying then set_state Ready u else u)
      else t)"

subsection \<open>Cleaning up and closing\<close>

text \<open>
  \<open>cleanupPort()\<close> up to its first wait: without a port it is done. With one, the signals are dropped (a port without signal control
  goes on at once), then the port is closed.
\<close>

definition cleanup_start :: "console \<Rightarrow> console" where
  "cleanup_start s = (case cs_port s of
     None \<Rightarrow> s\<lparr>cs_cleanup := NoCleanup\<rparr>
   | Some p \<Rightarrow> s\<lparr>cs_cleanup := (if po_signals p then AtDropSignals else AtPortClose)\<rparr>)"

text \<open>\<open>finishClose()\<close> runs on as far as nothing it waits for is missing.\<close>

definition close_end :: "bool \<Rightarrow> console \<Rightarrow> console" where
  "close_end released s = (let t = s\<lparr>cs_closing := NotClosing\<rparr> in if released then set_state Disconnected t else t)"

definition close_cleanup :: "console \<Rightarrow> console" where
  "close_cleanup s = (let t = cleanup_start (s\<lparr>cs_closing := AtCloseCleanup\<rparr>) in
     if cs_cleanup t = NoCleanup then close_end True t else t)"

definition close_after_write :: "console \<Rightarrow> console" where
  "close_after_write s = (if cs_writing s then s\<lparr>cs_closing := WaitsForWrite\<rparr> else close_cleanup s)"

definition close_after_loop :: "console \<Rightarrow> console" where
  "close_after_loop s = (if cs_loop s then s\<lparr>cs_closing := WaitsForLoop\<rparr> else close_after_write s)"

definition close_after_opening :: "console \<Rightarrow> console" where
  "close_after_opening s =
     (if cs_opening s \<noteq> NotOpening then s\<lparr>cs_closing := WaitsForOpening\<rparr>
      else if cs_reader s then s\<lparr>cs_closing := AtReaderCancel\<rparr>
      else close_after_loop s)"

definition close_session :: "console \<Rightarrow> console" where
  "close_session s =
     (if cs_closing s \<noteq> NotClosing \<or> cs_state s = Disconnected then s
      else close_after_opening (set_state Closing (s\<lparr>cs_cancel := True, cs_verified := False, cs_timer := False\<rparr>)))"

subsection \<open>Opening\<close>

text \<open>
  The end of \<open>connect()\<close>: the opening is over; a cancelled one is closed. A closing that waited for it goes on.
\<close>

definition opening_over :: "console \<Rightarrow> console" where
  "opening_over s =
     (let t = s\<lparr>cs_opening := NotOpening\<rparr>; u = (if cs_cancel t then close_session t else t)
      in if cs_closing u = WaitsForOpening then close_after_opening u else u)"

definition back_to_disconnected :: "console \<Rightarrow> console" where
  "back_to_disconnected s = (if \<not> cs_cancel s then set_state Disconnected s else s)"

definition connect_click :: "console \<Rightarrow> console" where
  "connect_click s =
     (if cs_state s \<noteq> Disconnected then s
      else set_state Selecting (s\<lparr>cs_cancel := False, cs_verified := False, cs_output := [], cs_error := None, cs_opening := AtPicker\<rparr>))"

text \<open>The picker returned: a failure, or a port whose \<open>getInfo()\<close> answers or throws.\<close>

datatype picked = PickerError string | PickedPort console_port | InfoThrows string

definition picker_answer :: "picked \<Rightarrow> console \<Rightarrow> console" where
  "picker_answer a s = (case a of
     PickerError m \<Rightarrow> opening_over (back_to_disconnected (set_error (PickFailed m) s))
   | _ \<Rightarrow>
     (if cs_cancel s then opening_over s
      else case a of
        PickedPort p \<Rightarrow>
          (if po_vid p \<noteq> Some TARGET_VID \<or> po_pid p \<noteq> Some TARGET_PID
           then opening_over (back_to_disconnected (set_error (WrongDevice (po_vid p) (po_pid p)) s))
           else set_state OpeningPort (s\<lparr>cs_port := Some p, cs_opening := AtOpen\<rparr>))
      | InfoThrows m \<Rightarrow> opening_over ((set_error (ConnectFailed m) s)\<lparr>cs_cancel := True\<rparr>)
      | PickerError m \<Rightarrow> s))"

text \<open>After a failure or a cancel the port is given back before the opening is over.\<close>

definition after_cleanup :: "bool \<Rightarrow> console \<Rightarrow> console" where
  "after_cleanup released s =
     (let t = s\<lparr>cs_cleanup := NoCleanup\<rparr> in
      if cs_opening t = AtOpenCleanup
      then opening_over (if \<not> cs_cancel t then set_state (if released then Disconnected else Closing) t else t)
      else close_end released t)"

definition open_cleanup :: "console \<Rightarrow> console" where
  "open_cleanup s = (let t = cleanup_start (s\<lparr>cs_opening := AtOpenCleanup\<rparr>) in if cs_cleanup t = NoCleanup then after_cleanup True t else t)"

text \<open>\<open>open\<close> returned: what it threw, if anything.\<close>

definition open_answer :: "string option \<Rightarrow> console \<Rightarrow> console" where
  "open_answer failure s = (case failure of
     Some m \<Rightarrow> open_cleanup (set_error (OpenFailed m) s)
   | None \<Rightarrow>
     (let t = (case cs_port s of Some p \<Rightarrow> trace_it (OpenedPort p) s | None \<Rightarrow> s) in
      if cs_cancel t then open_cleanup t
      else if (case cs_port t of None \<Rightarrow> True | Some q \<Rightarrow> \<not> po_signals q)
      then open_cleanup (set_error (OpenFailed ''DTR signal control is required for this diagnostic.'') t)
      else t\<lparr>cs_opening := AtSignals\<rparr>))"

text \<open>The end of the read loop: the reader is given back, and a session that is not closing yet is closed.\<close>

definition loop_over :: "console \<Rightarrow> console" where
  "loop_over s =
     (let t = s\<lparr>cs_reader := False, cs_loop := False\<rparr>;
          u = (if \<not> cs_verified t \<and> (cs_state t = Verifying \<or> cs_state t = Ready) \<and> cs_error t = None
               then set_error DroppedBeforeIdentity t else t);
          v = (if cs_state u \<noteq> Closing \<and> cs_state u \<noteq> Disconnected then close_session u else u)
      in if cs_closing v = WaitsForLoop then close_after_loop v else v)"

definition loop_error :: "string \<Rightarrow> console \<Rightarrow> console" where
  "loop_error m s =
     (if (cs_state s = Verifying \<or> cs_state s = Ready) \<and> \<not> js_includes ''canceled'' m \<and> \<not> js_includes ''cancelled'' m
      then set_error (PortLost m) s else s)"

text \<open>
  The signals are set: the identity timer and the read loop start. \<open>streams\<close>: the port has both streams; \<open>reader\<close>: what
  \<open>getReader()\<close> threw, if anything.
\<close>

definition start_reading :: "string option \<Rightarrow> console \<Rightarrow> console" where
  "start_reading reader s =
     (let t = s\<lparr>cs_timer := True, cs_loop := True\<rparr> in
      case reader of None \<Rightarrow> t\<lparr>cs_reader := True\<rparr> | Some m \<Rightarrow> loop_over (loop_error m t))"

definition signals_answer :: "string option \<Rightarrow> bool \<Rightarrow> string option \<Rightarrow> console \<Rightarrow> console" where
  "signals_answer failure streams reader s =
     (case failure of
        Some m \<Rightarrow> open_cleanup (set_error (OpenFailed m) s)
      | None \<Rightarrow>
        (let t = (case cs_port s of Some p \<Rightarrow> trace_it (RaisedDtr p) s | None \<Rightarrow> s) in
         if \<not> streams then open_cleanup (set_error (OpenFailed ''Diagnostic serial streams are unavailable.'') t)
         else if cs_cancel t then open_cleanup t
         else opening_over (start_reading reader (set_state Verifying t))))"

text \<open>
  The two waits of \<open>cleanupPort\<close>. A port that cannot be closed and still has a stream is kept; then the close can be tried again.
\<close>

datatype port_close = PortClosed | CloseThrows string bool

definition drop_signals_answer :: "console \<Rightarrow> console" where
  "drop_signals_answer s = s\<lparr>cs_cleanup := AtPortClose\<rparr>"

definition port_close_answer :: "port_close \<Rightarrow> console \<Rightarrow> console" where
  "port_close_answer a s = (case a of
     CloseThrows m True \<Rightarrow> after_cleanup False (set_error (CloseFailed m) s)
   | _ \<Rightarrow> (case cs_port s of
       None \<Rightarrow> after_cleanup True s
     | Some p \<Rightarrow> after_cleanup True (trace_it (ReleasedPort p) (s\<lparr>cs_port := None\<rparr>))))"

subsection \<open>Reading, writing and the clock\<close>

datatype console_read = ReadDone | ReadText string | ReadError string

definition read_answer :: "console_read \<Rightarrow> console \<Rightarrow> console" where
  "read_answer r s = (case r of
     ReadError m \<Rightarrow> loop_over (loop_error m s)
   | ReadDone \<Rightarrow> loop_over s
   | ReadText x \<Rightarrow>
     (if cs_cancel s then loop_over s
      else let t = append_output x (case cs_port s of Some p \<Rightarrow> trace_it (Got p x) s | None \<Rightarrow> s)
           in if cs_state t = Verifying \<or> cs_state t = Ready then t else loop_over t))"

definition identity_timeout :: "console \<Rightarrow> console" where
  "identity_timeout s =
     (let t = s\<lparr>cs_timer := False\<rparr> in
      if \<not> cs_verified t \<and> cs_state t = Verifying then close_session (set_error IdentityTimeout t) else t)"

datatype send_refusal_kind = CommandNotAllowed | SessionNotReady | WriterBusy

text \<open>\<open>sendCommand\<close>: \<open>writable\<close> is whether the port has its writable stream, \<open>throws\<close> whether \<open>getWriter()\<close> does.\<close>

definition send_refusal :: "string \<Rightarrow> bool \<Rightarrow> console \<Rightarrow> send_refusal_kind option" where
  "send_refusal cmd writable s =
     (if cmd \<notin> set ALLOWED_CONSOLE_COMMANDS then Some CommandNotAllowed
      else if cs_state s \<noteq> Ready \<or> \<not> cs_verified s \<or> cs_port s = None \<or> \<not> writable then Some SessionNotReady
      else if cs_writing s then Some WriterBusy
      else None)"

definition send_console :: "string \<Rightarrow> bool \<Rightarrow> bool \<Rightarrow> console \<Rightarrow> console" where
  "send_console cmd writable throws s =
     (if send_refusal cmd writable s \<noteq> None \<or> throws then s
      else (case cs_port s of
        None \<Rightarrow> s
      | Some p \<Rightarrow> trace_it (Wrote p (cmd @ [LF])) (s\<lparr>cs_writing := True\<rparr>)))"

definition write_over :: "console \<Rightarrow> console" where
  "write_over s = (let t = s\<lparr>cs_writing := False\<rparr> in if cs_closing t = WaitsForWrite then close_after_write t else t)"

definition reader_cancelled :: "console \<Rightarrow> console" where
  "reader_cancelled s = close_after_loop s"

datatype console_event =
  ConnectClick | CloseClick | SendClick string bool bool | PickerAnswers picked | OpenAnswers "string option"
  | SignalsAnswer "string option" bool "string option" | DropSignalsAnswer | PortCloseAnswers port_close | ReadAnswers console_read
  | WriteAnswers | CancelAnswers | TimerFires

text \<open>An event counts only where something waits for it.\<close>

fun console_step :: "console_event \<Rightarrow> console \<Rightarrow> console" where
  "console_step ConnectClick s = connect_click s"
| "console_step CloseClick s = close_session s"
| "console_step (SendClick cmd writable throws) s = send_console cmd writable throws s"
| "console_step (PickerAnswers a) s = (if cs_opening s = AtPicker then picker_answer a s else s)"
| "console_step (OpenAnswers a) s = (if cs_opening s = AtOpen then open_answer a s else s)"
| "console_step (SignalsAnswer f streams r) s = (if cs_opening s = AtSignals then signals_answer f streams r s else s)"
| "console_step DropSignalsAnswer s = (if cs_cleanup s = AtDropSignals then drop_signals_answer s else s)"
| "console_step (PortCloseAnswers a) s = (if cs_cleanup s = AtPortClose then port_close_answer a s else s)"
| "console_step (ReadAnswers r) s = (if cs_loop s then read_answer r s else s)"
| "console_step WriteAnswers s = (if cs_writing s then write_over s else s)"
| "console_step CancelAnswers s = (if cs_closing s = AtReaderCancel then reader_cancelled s else s)"
| "console_step TimerFires s = (if cs_timer s then identity_timeout s else s)"

definition console_run :: "console_event list \<Rightarrow> console" where
  "console_run es = fold console_step es new_console"

subsection \<open>What a port has been told and has said since it was opened\<close>

text \<open>The port in use, whether its DTR is raised, and all it printed.\<close>

fun session_step :: "console_trace \<Rightarrow> (console_port \<times> bool \<times> string) option \<Rightarrow> (console_port \<times> bool \<times> string) option" where
  "session_step (OpenedPort p) u = Some (p, False, [])"
| "session_step (RaisedDtr p) u = (case u of Some (q, d, x) \<Rightarrow> if q = p then Some (q, True, x) else u | None \<Rightarrow> None)"
| "session_step (Got p y) u = (case u of Some (q, d, x) \<Rightarrow> if q = p then Some (q, d, x @ y) else u | None \<Rightarrow> None)"
| "session_step (Wrote p y) u = u"
| "session_step (ReleasedPort p) u = None"

definition session_of :: "console_trace list \<Rightarrow> (console_port \<times> bool \<times> string) option" where
  "session_of w = fold session_step w None"

definition target_port :: "console_port \<Rightarrow> bool" where
  "target_port p \<longleftrightarrow> po_vid p = Some TARGET_VID \<and> po_pid p = Some TARGET_PID"

definition COMMAND_LINES :: "string list" where
  "COMMAND_LINES = List.map (\<lambda>c. c @ [LF]) ALLOWED_CONSOLE_COMMANDS"

text \<open>A write that may happen after the trace so far.\<close>

definition write_allowed :: "console_trace list \<Rightarrow> console_port \<Rightarrow> string \<Rightarrow> bool" where
  "write_allowed w p l \<longleftrightarrow> target_port p \<and> l \<in> set COMMAND_LINES
     \<and> (case session_of w of Some (q, dtr, x) \<Rightarrow> q = p \<and> dtr \<and> js_includes KNOWN_BANNER_FRAGMENT x | None \<Rightarrow> False)"

definition writes_allowed :: "console_trace list \<Rightarrow> bool" where
  "writes_allowed w \<longleftrightarrow> list_all (\<lambda>i. case w ! i of Wrote p l \<Rightarrow> write_allowed (take i w) p l | _ \<Rightarrow> True) [0..<length w]"

lemma session_of_snoc: "session_of (w @ [e]) = session_step e (session_of w)"
  by (simp add: session_of_def)

lemma writes_allowed_snoc:
  "writes_allowed (w @ [e]) \<longleftrightarrow> writes_allowed w \<and> (case e of Wrote p l \<Rightarrow> write_allowed w p l | _ \<Rightarrow> True)"
proof -
  let ?P = "\<lambda>w i. case w ! i of Wrote p l \<Rightarrow> write_allowed (take i w) p l | _ \<Rightarrow> True"
  have "list_all (?P (w @ [e])) [0..<length w] = list_all (?P w) [0..<length w]"
    by (intro list.pred_cong refl) (simp add: nth_append split: console_trace.split)
  then show ?thesis by (simp add: writes_allowed_def split: console_trace.split)
qed

lemma js_includes_suffix: "suffix v w \<Longrightarrow> js_includes pat v \<Longrightarrow> js_includes pat w"
  by (induction w) (auto simp: suffix_Cons)

lemma js_includes_more: "js_includes pat x \<Longrightarrow> js_includes pat (x @ y)"
proof (induction x)
  case Nil
  then show ?case by (cases y) auto
next
  case (Cons c x)
  then show ?case using prefix_prefix [of pat "c # x" y] by auto
qed

lemma last_chars_suffix: "suffix (last_chars n x) x"
  by (simp add: last_chars_def suffix_drop)

lemma last_chars_append: "last_chars n (last_chars n x @ y) = last_chars n (x @ y)"
proof (cases "n \<le> length x")
  case True
  then have "length x + length y - n = (length x - n) + length y" by simp
  then show ?thesis using True by (simp add: last_chars_def add.commute)
qed (simp add: last_chars_def)

lemma length_last_chars: "length (last_chars n x) \<le> n"
  by (simp add: last_chars_def)

subsection \<open>The invariant\<close>

text \<open>No part of the session is at work but what the point says.\<close>

definition at_rest :: "console \<Rightarrow> bool" where
  "at_rest s \<longleftrightarrow> \<not> cs_loop s \<and> \<not> cs_writing s \<and> \<not> cs_timer s \<and> \<not> cs_verified s"

definition closing_shape :: "console \<Rightarrow> bool" where
  "closing_shape s \<longleftrightarrow> \<not> cs_timer s \<and> \<not> cs_verified s \<and> (case cs_closing s of
     NotClosing \<Rightarrow> at_rest s \<and> cs_port s \<noteq> None \<and> cs_cleanup s = NoCleanup
   | WaitsForOpening \<Rightarrow> False
   | AtReaderCancel \<Rightarrow> cs_cancel s \<and> cs_cleanup s = NoCleanup
   | WaitsForLoop \<Rightarrow> cs_cancel s \<and> cs_loop s \<and> cs_cleanup s = NoCleanup
   | WaitsForWrite \<Rightarrow> cs_cancel s \<and> \<not> cs_loop s \<and> cs_writing s \<and> cs_cleanup s = NoCleanup
   | AtCloseCleanup \<Rightarrow> cs_cancel s \<and> at_rest s \<and> cs_port s \<noteq> None \<and> cs_cleanup s \<noteq> NoCleanup)"

definition session_new :: "console_port option \<Rightarrow> console_trace list \<Rightarrow> bool" where
  "session_new port w \<longleftrightarrow> (case port of Some p \<Rightarrow> session_of w = Some (p, False, []) | None \<Rightarrow> False)"

definition session_heard :: "console_port option \<Rightarrow> console_trace list \<Rightarrow> string \<Rightarrow> bool \<Rightarrow> bool" where
  "session_heard port w out verified \<longleftrightarrow> (case port of
     Some p \<Rightarrow> (case session_of w of
         Some (q, dtr, x) \<Rightarrow> q = p \<and> dtr \<and> out = last_chars MAX_OUTPUT_CHARS x \<and> (verified \<longrightarrow> js_includes KNOWN_BANNER_FRAGMENT x)
       | None \<Rightarrow> False)
   | None \<Rightarrow> False)"

definition opening_shape :: "console \<Rightarrow> bool" where
  "opening_shape s \<longleftrightarrow> at_rest s \<and> cs_output s = []
     \<and> (if cs_cancel s then cs_closing s = WaitsForOpening \<and> cs_state s = Closing
        else cs_closing s = NotClosing \<and> cs_state s = (if cs_opening s = AtPicker then Selecting else OpeningPort))
     \<and> (cs_port s = None \<longleftrightarrow> cs_opening s = AtPicker) \<and> (cs_cleanup s = NoCleanup \<longleftrightarrow> cs_opening s \<noteq> AtOpenCleanup)
     \<and> (cs_opening s = AtSignals \<longrightarrow> session_new (cs_port s) (cs_trace s))"

definition running_shape :: "console \<Rightarrow> bool" where
  "running_shape s \<longleftrightarrow> cs_loop s \<and> \<not> cs_cancel s \<and> cs_closing s = NotClosing \<and> cs_cleanup s = NoCleanup
     \<and> (cs_verified s \<longleftrightarrow> cs_state s = Ready) \<and> (cs_writing s \<longrightarrow> cs_state s = Ready)
     \<and> session_heard (cs_port s) (cs_trace s) (cs_output s) (cs_verified s)"

definition released_shape :: "console \<Rightarrow> bool" where
  "released_shape s \<longleftrightarrow> at_rest s \<and> cs_port s = None \<and> cs_closing s = NotClosing \<and> cs_cleanup s = NoCleanup"

definition console_inv :: "console \<Rightarrow> bool" where
  "console_inv s \<longleftrightarrow> cs_reader s = cs_loop s \<and> length (cs_output s) \<le> MAX_OUTPUT_CHARS \<and> writes_allowed (cs_trace s)
     \<and> (case cs_port s of Some p \<Rightarrow> target_port p | None \<Rightarrow> True)
     \<and> (if cs_opening s \<noteq> NotOpening then opening_shape s
        else case cs_state s of
          Disconnected \<Rightarrow> released_shape s
        | Selecting \<Rightarrow> False
        | OpeningPort \<Rightarrow> False
        | Verifying \<Rightarrow> running_shape s
        | Ready \<Rightarrow> running_shape s
        | Closing \<Rightarrow> closing_shape s)"

lemmas console_ops = connect_click_def close_session_def close_after_opening_def close_after_loop_def close_after_write_def close_cleanup_def
  cleanup_start_def close_end_def set_state_def set_error_def trace_it_def opening_over_def back_to_disconnected_def

lemmas console_shapes = console_inv_def opening_shape_def released_shape_def running_shape_def closing_shape_def at_rest_def

lemma inv_connect: "console_inv s \<Longrightarrow> console_inv (connect_click s)"
  by (cases "cs_state s") (auto simp: console_shapes console_ops Let_def split: if_splits option.splits)

lemma inv_picker: "console_inv s \<Longrightarrow> cs_opening s = AtPicker \<Longrightarrow> console_inv (picker_answer a s)"
  by (cases a) (auto simp: console_shapes console_ops picker_answer_def target_port_def Let_def split: if_splits option.splits)

text \<open>A closing that has nothing to wait for any more.\<close>

definition resumable :: "console \<Rightarrow> bool" where
  "resumable s \<longleftrightarrow> cs_reader s = cs_loop s \<and> length (cs_output s) \<le> MAX_OUTPUT_CHARS \<and> writes_allowed (cs_trace s)
     \<and> (case cs_port s of Some p \<Rightarrow> target_port p | None \<Rightarrow> True) \<and> cs_opening s = NotOpening \<and> cs_state s = Closing
     \<and> cs_cancel s \<and> \<not> cs_timer s \<and> \<not> cs_verified s \<and> cs_cleanup s = NoCleanup"

lemma resume_write: "resumable s \<Longrightarrow> \<not> cs_loop s \<Longrightarrow> console_inv (close_after_write s)"
  by (cases "cs_port s")
    (auto simp: resumable_def close_after_write_def close_cleanup_def cleanup_start_def close_end_def set_state_def console_shapes Let_def)

lemma resume_loop: "resumable s \<Longrightarrow> console_inv (close_after_loop s)"
  using resume_write [of s] by (auto simp: resumable_def close_after_loop_def console_inv_def closing_shape_def)

lemma resume_opening: "resumable s \<Longrightarrow> console_inv (close_after_opening s)"
  using resume_loop [of s] by (auto simp: resumable_def close_after_opening_def console_inv_def closing_shape_def)

lemma inv_close:
  assumes "console_inv s"
  shows "console_inv (close_session s)"
proof (cases "cs_closing s \<noteq> NotClosing \<or> cs_state s = Disconnected")
  case True
  then show ?thesis using assms by (simp add: close_session_def)
next
  case False
  let ?t = "set_state Closing (s\<lparr>cs_cancel := True, cs_verified := False, cs_timer := False\<rparr>)"
  have t: "close_session s = close_after_opening ?t" using False by (simp add: close_session_def)
  show ?thesis
  proof (cases "cs_opening s = NotOpening")
    case True
    then have "cs_cleanup s = NoCleanup" using assms False by (cases "cs_state s") (auto simp: console_inv_def running_shape_def closing_shape_def)
    then have "resumable ?t" using assms True by (simp add: resumable_def console_inv_def set_state_def)
    then show ?thesis using t resume_opening by simp
  next
    case other: False
    then show ?thesis using t assms False
      by (auto simp: close_after_opening_def set_state_def console_inv_def opening_shape_def at_rest_def split: if_splits)
  qed
qed

lemma inv_error [simp]: "console_inv (set_error e s) = console_inv s"
  by (auto simp: console_shapes set_error_def split: console_state.splits close_point.splits)

lemma inv_open_cleanup:
  assumes inv: "console_inv s" and at: "cs_opening s = AtOpen \<or> cs_opening s = AtSignals"
  shows "console_inv (open_cleanup s)"
proof -
  have o: "opening_shape s" using inv at by (auto simp: console_inv_def)
  then obtain p where p: "cs_port s = Some p" using at by (auto simp: opening_shape_def)
  have "open_cleanup s = s\<lparr>cs_opening := AtOpenCleanup, cs_cleanup := (if po_signals p then AtDropSignals else AtPortClose)\<rparr>"
    using p by (simp add: open_cleanup_def cleanup_start_def Let_def)
  moreover have "cs_state s = OpeningPort \<or> cs_cancel s" using o at by (auto simp: opening_shape_def split: if_splits)
  ultimately show ?thesis using inv o p by (simp add: console_inv_def opening_shape_def at_rest_def split: if_splits)
qed

lemma inv_opened: "console_inv s \<Longrightarrow> cs_opening s = AtOpen \<Longrightarrow> console_inv (trace_it (OpenedPort p) s)"
  by (auto simp: console_shapes trace_it_def writes_allowed_snoc)

lemma inv_open:
  assumes inv: "console_inv s" and at: "cs_opening s = AtOpen"
  shows "console_inv (open_answer a s)"
proof -
  obtain p where p: "cs_port s = Some p" using inv at by (auto simp: console_inv_def opening_shape_def)
  let ?t = "trace_it (OpenedPort p) s"
  have t: "console_inv ?t" "cs_opening ?t = AtOpen" using inv_opened [OF inv at] at by (simp_all add: trace_it_def)
  have "console_inv (?t\<lparr>cs_opening := AtSignals\<rparr>)" if "\<not> cs_cancel s"
    using inv at p that by (auto simp: console_shapes trace_it_def writes_allowed_snoc session_new_def session_of_snoc)
  moreover have "console_inv (open_cleanup (set_error e ?t))" "console_inv (open_cleanup ?t)" "console_inv (open_cleanup (set_error e s))" for e
    using t inv at by (simp_all add: inv_open_cleanup set_error_def [of _ ?t] set_error_def [of _ s] inv_error [unfolded set_error_def])
  ultimately show ?thesis using p by (auto simp: open_answer_def Let_def trace_it_def split: option.splits)
qed

lemma cleanup_cases:
  assumes "console_inv s" "cs_cleanup s \<noteq> NoCleanup"
  shows "cs_opening s = AtOpenCleanup \<and> opening_shape s
    \<or> cs_opening s = NotOpening \<and> cs_state s = Closing \<and> cs_closing s = AtCloseCleanup \<and> closing_shape s"
  using assms by (cases "cs_state s"; cases "cs_closing s") (auto simp: console_shapes split: if_splits)

text \<open>The port was given back or kept: \<open>t\<close> is the state before, but for the port, the error and the trace.\<close>

lemma inv_after_cleanup:
  assumes "console_inv s" "cs_cleanup s \<noteq> NoCleanup"
    and t: "t = s\<lparr>cs_port := port, cs_error := err, cs_trace := w\<rparr>" "writes_allowed w" "port = None \<longleftrightarrow> released"
      "released \<or> port = cs_port s"
  shows "console_inv (after_cleanup released t)"
proof -
  have ok: "case port of Some p \<Rightarrow> target_port p | None \<Rightarrow> True" using assms by (cases port) (auto simp: console_inv_def)
  have base: "cs_reader s = cs_loop s" "length (cs_output s) \<le> MAX_OUTPUT_CHARS" using assms(1) by (auto simp: console_inv_def)
  from cleanup_cases [OF assms(1, 2)] show ?thesis
  proof (elim disjE conjE)
    assume o: "cs_opening s = AtOpenCleanup" "opening_shape s"
    show ?thesis
    proof (cases "cs_cancel s")
      case True
      let ?u = "t\<lparr>cs_cleanup := NoCleanup, cs_opening := NotOpening\<rparr>"
      have "resumable ?u" using o True t ok base by (auto simp: resumable_def opening_shape_def at_rest_def)
      moreover have "after_cleanup released t = close_after_opening ?u"
        using o True t by (simp add: after_cleanup_def opening_over_def close_session_def opening_shape_def Let_def)
      ultimately show ?thesis by (simp add: resume_opening)
    next
      case False
      then show ?thesis using o t ok base
        by (auto simp: after_cleanup_def opening_over_def set_state_def opening_shape_def console_inv_def released_shape_def closing_shape_def
            at_rest_def Let_def)
    qed
  next
    assume "cs_opening s = NotOpening" "cs_state s = Closing" "cs_closing s = AtCloseCleanup" "closing_shape s"
    then show ?thesis using t ok base
      by (auto simp: after_cleanup_def close_end_def set_state_def console_inv_def released_shape_def closing_shape_def at_rest_def Let_def)
  qed
qed

lemma inv_port_close:
  assumes "console_inv s" "cs_cleanup s = AtPortClose"
  shows "console_inv (port_close_answer a s)"
proof -
  obtain p where p: "cs_port s = Some p"
    using cleanup_cases [OF assms(1)] assms(2) by (auto simp: opening_shape_def closing_shape_def)
  have w: "writes_allowed (cs_trace s)" using assms(1) by (simp add: console_inv_def)
  have "console_inv (after_cleanup False (set_error e s))" for e
    using assms w p by (intro inv_after_cleanup [where s = s and port = "cs_port s" and err = "Some e" and w = "cs_trace s"]) (simp_all add: set_error_def)
  moreover have "console_inv (after_cleanup True (trace_it (ReleasedPort p) (s\<lparr>cs_port := None\<rparr>)))"
    using assms w by (intro inv_after_cleanup [where s = s and port = None and err = "cs_error s" and w = "cs_trace s @ [ReleasedPort p]"]) (simp_all add: trace_it_def writes_allowed_snoc)
  ultimately show ?thesis using p by (auto simp: port_close_answer_def split: port_close.splits bool.splits)
qed

lemma inv_drop_signals: "console_inv s \<Longrightarrow> cs_cleanup s = AtDropSignals \<Longrightarrow> console_inv (drop_signals_answer s)"
  using cleanup_cases [of s] by (auto simp: drop_signals_answer_def console_shapes split: if_splits)

lemma inv_loop_error: "console_inv s \<Longrightarrow> console_inv (loop_error m s)"
  by (simp add: loop_error_def)

lemma loop_cases:
  assumes "console_inv s" "cs_loop s"
  shows "cs_opening s = NotOpening \<and> (cs_state s \<in> {Verifying, Ready} \<and> running_shape s \<or> cs_state s = Closing \<and> closing_shape s)"
  using assms by (cases "cs_state s") (auto simp: console_shapes split: if_splits)

lemma inv_loop_over:
  assumes "console_inv s" "cs_loop s"
  shows "console_inv (loop_over s)"
proof -
  let ?t = "s\<lparr>cs_reader := False, cs_loop := False\<rparr>"
  have base: "length (cs_output s) \<le> MAX_OUTPUT_CHARS" "writes_allowed (cs_trace s)" "case cs_port s of Some p \<Rightarrow> target_port p | None \<Rightarrow> True"
    using assms(1) by (auto simp: console_inv_def)
  note c = loop_cases [OF assms]
  show ?thesis
  proof (cases "cs_state s = Closing")
    case True
    then have "closing_shape s" "cs_opening s = NotOpening" using c by auto
    then have o: "loop_over s = (if cs_closing s = WaitsForLoop then close_after_loop ?t else ?t)"
      "cs_closing s = WaitsForLoop \<or> cs_closing s = AtReaderCancel"
      using True assms(2) by (auto simp: loop_over_def Let_def closing_shape_def at_rest_def split: close_point.splits)
    show ?thesis
    proof (cases "cs_closing s = WaitsForLoop")
      case True
      then have "resumable ?t" using base \<open>closing_shape s\<close> \<open>cs_opening s = NotOpening\<close> \<open>cs_state s = Closing\<close>
        by (simp add: resumable_def closing_shape_def)
      then show ?thesis using o True by (simp add: resume_loop)
    next
      case False
      then show ?thesis using o base \<open>closing_shape s\<close> \<open>cs_opening s = NotOpening\<close> \<open>cs_state s = Closing\<close>
        by (simp add: console_inv_def closing_shape_def)
    qed
  next
    case False
    then have r: "running_shape s" "cs_opening s = NotOpening" "cs_state s = Verifying \<or> cs_state s = Ready" using c by auto
    define u where "u = (if \<not> cs_verified ?t \<and> (cs_state ?t = Verifying \<or> cs_state ?t = Ready) \<and> cs_error ?t = None
        then set_error DroppedBeforeIdentity ?t else ?t)"
    have u: "cs_state u = cs_state s" "cs_closing u = NotClosing" "cs_opening u = NotOpening" "\<not> cs_loop u" "\<not> cs_reader u"
      "cs_output u = cs_output s" "cs_trace u = cs_trace s" "cs_port u = cs_port s" "cs_cleanup u = NoCleanup"
      using r by (simp_all add: u_def set_error_def running_shape_def)
    let ?v = "set_state Closing (u\<lparr>cs_cancel := True, cs_verified := False, cs_timer := False\<rparr>)"
    have "resumable ?v" using u base by (simp add: resumable_def set_state_def)
    moreover have "close_after_opening ?v = close_after_write ?v" using u by (simp add: close_after_opening_def close_after_loop_def set_state_def)
    ultimately have inv: "console_inv (close_after_write ?v)" using resume_opening by metis
    have s: "close_session u = close_after_write ?v"
      using u r(3) by (auto simp: close_session_def close_after_opening_def close_after_loop_def set_state_def)
    have "cs_closing (close_after_write ?v) \<noteq> WaitsForLoop"
      by (auto simp: close_after_write_def close_cleanup_def cleanup_start_def close_end_def set_state_def Let_def split: option.splits)
    then have "loop_over s = close_after_write ?v"
      using s u r(3) unfolding loop_over_def Let_def u_def [symmetric] by auto
    then show ?thesis using inv by simp
  qed
qed

lemma append_output_running:
  assumes "running_shape s" "cs_port s = Some p" "cs_state s = Verifying \<or> cs_state s = Ready"
  shows "running_shape (append_output x (trace_it (Got p x) s))
    \<and> (cs_state (append_output x (trace_it (Got p x) s)) = Verifying \<or> cs_state (append_output x (trace_it (Got p x) s)) = Ready)"
proof -
  obtain y where y: "session_of (cs_trace s) = Some (p, True, y)" "cs_output s = last_chars MAX_OUTPUT_CHARS y"
    "cs_verified s \<longrightarrow> js_includes KNOWN_BANNER_FRAGMENT y"
    using assms(1, 2) by (auto simp: running_shape_def session_heard_def split: option.splits)
  let ?out = "last_chars MAX_OUTPUT_CHARS (y @ x)"
  have out: "last_chars MAX_OUTPUT_CHARS (cs_output s @ x) = ?out" using y(2) by (simp add: last_chars_append)
  have seen: "js_includes KNOWN_BANNER_FRAGMENT (last_chars IDENTITY_SCAN_CHARS ?out) \<Longrightarrow> js_includes KNOWN_BANNER_FRAGMENT (y @ x)"
    by (meson js_includes_suffix last_chars_suffix)
  have sess: "session_of (cs_trace s @ [Got p x]) = Some (p, True, y @ x)" using y(1) by (simp add: session_of_snoc)
  show ?thesis using assms y(3) seen sess out js_includes_more [of KNOWN_BANNER_FRAGMENT y x]
    by (auto simp: append_output_def trace_it_def set_state_def running_shape_def session_heard_def Let_def)
qed

lemma inv_read:
  assumes "console_inv s" "cs_loop s"
  shows "console_inv (read_answer r s)"
proof (cases r)
  case ReadDone
  then show ?thesis using inv_loop_over [OF assms] by (simp add: read_answer_def)
next
  case (ReadError m)
  have "console_inv (loop_error m s)" "cs_loop (loop_error m s)" using assms inv_loop_error by (auto simp: loop_error_def set_error_def)
  then show ?thesis using inv_loop_over ReadError by (simp add: read_answer_def)
next
  case (ReadText x)
  show ?thesis
  proof (cases "cs_cancel s")
    case True
    then show ?thesis using inv_loop_over [OF assms] ReadText by (simp add: read_answer_def)
  next
    case False
    have r: "cs_opening s = NotOpening" "running_shape s" "cs_state s = Verifying \<or> cs_state s = Ready"
      using loop_cases [OF assms] False assms(2) by (auto simp: closing_shape_def at_rest_def split: close_point.splits)
    obtain p where p: "cs_port s = Some p" using r(2) by (auto simp: running_shape_def session_heard_def split: option.splits)
    let ?t = "append_output x (trace_it (Got p x) s)"
    note a = append_output_running [OF r(2) p r(3), of x]
    have "cs_reader ?t = cs_loop ?t" "length (cs_output ?t) \<le> MAX_OUTPUT_CHARS" "writes_allowed (cs_trace ?t)" "cs_port ?t = Some p"
      "cs_opening ?t = NotOpening" "target_port p"
      using assms(1) p r(1) length_last_chars
      by (auto simp: console_inv_def append_output_def trace_it_def set_state_def writes_allowed_snoc Let_def)
    then have "console_inv ?t" using a unfolding console_inv_def by auto
    then show ?thesis using ReadText False p a by (simp add: read_answer_def)
  qed
qed

text \<open>The read loop could not get a reader: it ends at once, and the closing waits for the opening, which ends too.\<close>

lemma inv_no_reader:
  assumes "at_rest s" "cs_state s = Verifying" "cs_closing s = NotClosing" "cs_cleanup s = NoCleanup" "cs_opening s = AtSignals"
    "\<not> cs_reader s" "length (cs_output s) \<le> MAX_OUTPUT_CHARS" "writes_allowed (cs_trace s)" "case cs_port s of Some p \<Rightarrow> target_port p | None \<Rightarrow> True"
  shows "console_inv (opening_over (loop_over (loop_error m (s\<lparr>cs_timer := True, cs_loop := True\<rparr>))))"
proof -
  define e where "e = (if \<not> js_includes ''canceled'' m \<and> \<not> js_includes ''cancelled'' m then Some (PortLost m)
      else if cs_error s = None then Some DroppedBeforeIdentity else cs_error s)"
  let ?c = "s\<lparr>cs_error := e, cs_loop := False, cs_reader := False, cs_timer := False, cs_cancel := True, cs_verified := False, cs_state := Closing\<rparr>"
  have l: "loop_over (loop_error m (s\<lparr>cs_timer := True, cs_loop := True\<rparr>)) = ?c\<lparr>cs_closing := WaitsForOpening\<rparr>"
  proof (cases "\<not> js_includes ''canceled'' m \<and> \<not> js_includes ''cancelled'' m")
    case True
    then have "e = Some (PortLost m)" "loop_error m (s\<lparr>cs_timer := True, cs_loop := True\<rparr>) = set_error (PortLost m) (s\<lparr>cs_timer := True, cs_loop := True\<rparr>)"
      using assms by (simp_all add: e_def loop_error_def)
    then show ?thesis
      using assms by (simp add: loop_over_def set_error_def close_session_def close_after_opening_def set_state_def at_rest_def Let_def)
  next
    case False
    then have "loop_error m (s\<lparr>cs_timer := True, cs_loop := True\<rparr>) = s\<lparr>cs_timer := True, cs_loop := True\<rparr>"
      "e = (if cs_error s = None then Some DroppedBeforeIdentity else cs_error s)"
      unfolding e_def loop_error_def by auto
    then show ?thesis
      using assms by (simp add: loop_over_def set_error_def close_session_def close_after_opening_def set_state_def at_rest_def Let_def)
  qed
  let ?r = "?c\<lparr>cs_closing := WaitsForOpening, cs_opening := NotOpening\<rparr>"
  have "resumable ?r" using assms by (simp add: resumable_def)
  then have "console_inv (close_after_opening ?r)" by (rule resume_opening)
  moreover have "opening_over (?c\<lparr>cs_closing := WaitsForOpening\<rparr>) = close_after_opening ?r"
    by (simp add: opening_over_def close_session_def Let_def)
  ultimately show ?thesis unfolding l by simp
qed

lemma inv_signals:
  assumes inv: "console_inv s" and at: "cs_opening s = AtSignals"
  shows "console_inv (signals_answer f streams reader s)"
proof -
  obtain p where p: "cs_port s = Some p" "session_of (cs_trace s) = Some (p, False, [])" "target_port p"
    using inv at by (auto simp: console_inv_def opening_shape_def session_new_def split: option.splits)
  have o: "opening_shape s" "cs_reader s = cs_loop s" "writes_allowed (cs_trace s)" using inv at by (auto simp: console_inv_def)
  let ?t = "trace_it (RaisedDtr p) s"
  have e: "console_inv (open_cleanup (set_error x s))" "console_inv (open_cleanup (set_error x ?t))" "console_inv (open_cleanup ?t)" for x
    using inv at p by (auto simp: console_shapes cleanup_start_def open_cleanup_def trace_it_def set_error_def writes_allowed_snoc Let_def
        split: if_splits)
  have "console_inv (opening_over (start_reading reader (set_state Verifying ?t)))" if c: "\<not> cs_cancel s"
  proof (cases reader)
    case None
    let ?v = "(set_state Verifying ?t)\<lparr>cs_timer := True, cs_loop := True, cs_reader := True\<rparr>"
    have "running_shape (?v\<lparr>cs_opening := NotOpening\<rparr>)"
      using o(1) p c at by (auto simp: running_shape_def session_heard_def opening_shape_def at_rest_def set_state_def trace_it_def session_of_snoc
          last_chars_def)
    moreover have "opening_over (start_reading reader (set_state Verifying ?t)) = ?v\<lparr>cs_opening := NotOpening\<rparr>"
      using None o(1) c by (simp add: start_reading_def opening_over_def set_state_def trace_it_def opening_shape_def Let_def)
    ultimately show ?thesis using p o(1, 3) by (simp add: console_inv_def set_state_def trace_it_def writes_allowed_snoc opening_shape_def)
  next
    case (Some m)
    let ?v = "set_state Verifying ?t"
    have "console_inv (opening_over (loop_over (loop_error m (?v\<lparr>cs_timer := True, cs_loop := True\<rparr>))))"
      using o p c at by (intro inv_no_reader) (auto simp: opening_shape_def at_rest_def set_state_def trace_it_def writes_allowed_snoc)
    then show ?thesis using Some by (simp add: start_reading_def)
  qed
  then show ?thesis using e p by (auto simp: signals_answer_def trace_it_def Let_def split: option.splits)
qed

lemma inv_send:
  assumes inv: "console_inv s"
  shows "console_inv (send_console cmd writable throws s)"
proof (cases "send_refusal cmd writable s \<noteq> None \<or> throws")
  case True
  then show ?thesis using inv by (simp add: send_console_def)
next
  case False
  then have ready: "cmd \<in> set ALLOWED_CONSOLE_COMMANDS" "cs_state s = Ready" "cs_verified s" by (auto simp: send_refusal_def split: if_splits)
  have "cs_opening s = NotOpening" using inv ready by (auto simp: console_inv_def opening_shape_def at_rest_def split: if_splits)
  then have r: "running_shape s" using inv ready by (simp add: console_inv_def)
  then obtain p x where p: "cs_port s = Some p" "session_of (cs_trace s) = Some (p, True, x)" "js_includes KNOWN_BANNER_FRAGMENT x"
    "cs_output s = last_chars MAX_OUTPUT_CHARS x"
    using ready by (auto simp: running_shape_def session_heard_def split: option.splits)
  have "write_allowed (cs_trace s) p (cmd @ [LF])"
    using inv p ready by (auto simp: write_allowed_def console_inv_def COMMAND_LINES_def)
  moreover have "running_shape (trace_it (Wrote p (cmd @ [LF])) (s\<lparr>cs_writing := True\<rparr>))"
    using r p ready by (simp add: running_shape_def trace_it_def session_heard_def session_of_snoc)
  ultimately show ?thesis using inv False p ready \<open>cs_opening s = NotOpening\<close>
    by (simp add: send_console_def console_inv_def trace_it_def writes_allowed_snoc)
qed

lemma inv_write_over:
  assumes "console_inv s" "cs_writing s"
  shows "console_inv (write_over s)"
proof (cases "cs_closing s = WaitsForWrite")
  case True
  then have "closing_shape s" "cs_opening s = NotOpening" "cs_state s = Closing"
    using assms by (cases "cs_state s"; auto simp: console_shapes split: if_splits)+
  then have "resumable (s\<lparr>cs_writing := False\<rparr>)" "\<not> cs_loop s"
    using True assms(1) by (auto simp: resumable_def closing_shape_def console_inv_def)
  then show ?thesis using True resume_write by (simp add: write_over_def)
next
  case False
  then show ?thesis using assms
    by (cases "cs_state s"; cases "cs_closing s"; auto simp: write_over_def console_shapes split: if_splits)
qed

lemma inv_cancelled:
  assumes "console_inv s" "cs_closing s = AtReaderCancel"
  shows "console_inv (reader_cancelled s)"
proof -
  have "closing_shape s" "cs_opening s = NotOpening" "cs_state s = Closing"
    using assms by (cases "cs_state s"; auto simp: console_shapes split: if_splits)+
  then have "resumable s" using assms by (auto simp: resumable_def closing_shape_def console_inv_def)
  then show ?thesis by (simp add: reader_cancelled_def resume_loop)
qed

lemma inv_timeout:
  assumes "console_inv s" "cs_timer s"
  shows "console_inv (identity_timeout s)"
proof -
  have "console_inv (s\<lparr>cs_timer := False\<rparr>)" using assms
    by (cases "cs_state s") (auto simp: console_shapes split: if_splits close_point.splits)
  then show ?thesis by (auto simp: identity_timeout_def Let_def inv_close)
qed

lemma inv_step: "console_inv s \<Longrightarrow> console_inv (console_step e s)"
  by (cases e) (auto simp: inv_connect inv_close inv_send inv_picker inv_open inv_signals inv_drop_signals inv_port_close inv_read inv_write_over
      inv_cancelled inv_timeout)

lemma inv_run: "console_inv (console_run es)"
proof (induction es rule: rev_induct)
  case Nil
  then show ?case by (simp add: console_run_def new_console_def console_inv_def released_shape_def at_rest_def writes_allowed_def)
qed (simp add: console_run_def inv_step)

text \<open>
  C21: Whatever the user, the browser and the device do, a text is written to a port only when it is one of the three commands with a
  line feed, the port has the vendor and product number of the target, was opened with DTR raised, and has printed the
  banner since it was opened.
\<close>

theorem console_writes_verified:
  "writes_allowed (cs_trace (console_run es))"
  using inv_run [of es] by (simp add: console_inv_def)

text \<open>
  C22: The session calls itself inactive exactly when it holds nothing: no port, no reader, no write, no timer, and no opening or
  closing under way. It calls itself verified exactly when it is ready for commands, and it keeps at most 16384 characters.
\<close>

theorem console_inactive_released:
  "(let s = console_run es in
     (\<not> console_active s \<longleftrightarrow> cs_port s = None \<and> \<not> cs_reader s \<and> \<not> cs_writing s \<and> \<not> cs_timer s \<and> cs_opening s = NotOpening \<and> cs_closing s = NotClosing)
     \<and> (cs_verified s \<longleftrightarrow> cs_state s = Ready) \<and> length (cs_output s) \<le> 16384)"
proof -
  let ?s = "console_run es"
  have inv: "console_inv ?s" by (rule inv_run)
  have act: "console_active ?s \<longleftrightarrow> cs_port ?s \<noteq> None \<or> cs_reader ?s \<or> cs_writing ?s \<or> cs_timer ?s \<or> cs_opening ?s \<noteq> NotOpening \<or> cs_closing ?s \<noteq> NotClosing"
    and ver: "cs_verified ?s \<longleftrightarrow> cs_state ?s = Ready"
  proof (atomize(full), cases "cs_opening ?s = NotOpening")
    case True
    then show "(console_active ?s \<longleftrightarrow> cs_port ?s \<noteq> None \<or> cs_reader ?s \<or> cs_writing ?s \<or> cs_timer ?s \<or> cs_opening ?s \<noteq> NotOpening \<or> cs_closing ?s \<noteq> NotClosing)
        \<and> (cs_verified ?s \<longleftrightarrow> cs_state ?s = Ready)"
      using inv by (cases "cs_state ?s"; cases "cs_closing ?s") (auto simp: console_active_def console_shapes)
  next
    case False
    then show "(console_active ?s \<longleftrightarrow> cs_port ?s \<noteq> None \<or> cs_reader ?s \<or> cs_writing ?s \<or> cs_timer ?s \<or> cs_opening ?s \<noteq> NotOpening \<or> cs_closing ?s \<noteq> NotClosing)
        \<and> (cs_verified ?s \<longleftrightarrow> cs_state ?s = Ready)"
      using inv by (auto simp: console_active_def console_inv_def opening_shape_def at_rest_def split: if_splits)
  qed
  have "length (cs_output ?s) \<le> 16384" using inv by (simp add: console_inv_def MAX_OUTPUT_CHARS_def)
  then show ?thesis using act ver unfolding Let_def by blast
qed

text \<open>A session that works, and one whose port does not print the banner.\<close>

definition target :: console_port where
  "target = \<lparr>po_id = 7, po_vid = Some TARGET_VID, po_pid = Some TARGET_PID, po_signals = True\<rparr>"

definition console_opened :: "console_event list" where
  "console_opened = [ConnectClick, PickerAnswers (PickedPort target), OpenAnswers None, SignalsAnswer None True None]"

lemma console_session_works:
  "cs_trace (console_run (console_opened @ [ReadAnswers (ReadText ''BobFlight F405 USB diagnostic, ''), SendClick ''status'' True False,
       ReadAnswers (ReadText ''MLTEMPF4 reference''), SendClick ''status'' True False]))
     = [OpenedPort target, RaisedDtr target, Got target ''BobFlight F405 USB diagnostic, '', Got target ''MLTEMPF4 reference'',
        Wrote target (''status'' @ [LF])]"
  by code_simp

lemma console_session_times_out:
  "(let s = console_run (console_opened @ [TimerFires, CancelAnswers, ReadAnswers ReadDone, DropSignalsAnswer, PortCloseAnswers PortClosed])
    in cs_state s = Disconnected \<and> cs_error s = Some IdentityTimeout \<and> cs_trace s = [OpenedPort target, RaisedDtr target, ReleasedPort target])"
  by code_simp
end
