(* ===== verification/Spec2Isabelle.thy ===== *)
theory Spec2Isabelle
  imports Webusb_Dfu Cli_Client Bench_Controller Download_Live Flash_Page Host_Adapter Diagnostic_Console
begin

text \<open>
  Verification of the BobFlight configurator (\<open>src/bobflight-configurator\<close>).

  The configurator is the TypeScript program a pilot uses to flash, set up and test a flight controller over USB. Its
  parts, and how they meet:

  \<^item> the flasher (\<open>protocol/src/flasher\<close>) reads an Intel HEX file, checks that the image fits the chip, plans
    the sectors to erase, and drives the ST bootloader over WebUSB;
  \<^item> the CLI client (\<open>protocol/src/client.ts\<close>, \<open>cli-framing.ts\<close>) sends one text command at a time over a
    serial line and collects its reply; the reply parsers of \<open>protocol/src\<close> turn it into values;
  \<^item> the command gate (\<open>ui/src/protocol/commandGate.ts\<close>) orders the commands of all pages into that client;
  \<^item> the motor page (\<open>ui/src/motors\<close>) starts motor tests through the gate;
  \<^item> the card reader (\<open>protocol/src/sd-read.ts\<close>, \<open>fat32-root.ts\<close>) reads logs sector by sector from the
    card of the controller through CLI commands, and the download session (\<open>ui/src/blackbox\<close>) locks, lists, reads
    and saves with it;
  \<^item> the settings pages (\<open>ui/src/filters\<close>, \<open>ui/src/setup\<close>, \<open>motorDirection.ts\<close>) read and change values through
    the gate with a bounded retry, and simulated controllers (\<open>protocol/src/*-mock.ts\<close>) answer them in the demo;
  \<^item> the host adapter (\<open>createHost.ts\<close>) puts the client and the gate behind the pages; the storage panel
    (\<open>storageSequence.ts\<close>, \<open>StoragePanel.tsx\<close>) loads, saves and exports through it, and the diagnostic console
    (\<open>diagnostic-console-session.ts\<close>) talks to the diagnostic image over a serial port of its own;
  \<^item> the flasher page (\<open>FlasherPage.tsx\<close>, \<open>ui/src/flasher\<close>) decides whether a flash may start, and the lock of
    \<open>useHost.tsx\<close> keeps the other pages closed after it.

  Conventions. A function that throws is a function into \<open>'e + 'a\<close>. A method of an object is a function on its record.
  An asynchronous method is either a function of its environment's answers (the device, the user, the card: parameters
  that may depend on the whole history, and of which nothing is assumed) or a set of steps between which other
  events come. A text is a \<open>string\<close> of code units below 256; a dash or an ellipsis above that range has no other role
  than being different from the rest. Numbers that hold integers are \<open>nat\<close> or \<open>int\<close> (the sources stay below
  \<open>2 ^ 53\<close>), bytes and 32-bit operations are words. Messages for the user are constructors or shortened texts.

  Theories and sources:

  \<^item> \<open>Prelude\<close>, \<open>Js_Text\<close>, \<open>State_Result\<close>: results, byte buffers, the string functions of JavaScript the
    sources use, and methods that change a state and may throw, with the rules that carry an invariant through
    them (collection \<open>act_keeps\<close>).
  \<^item> \<open>Intel_Hex\<close> (\<open>intel-hex.ts\<close>): the reader, and the abstract specification it refines: the map from
    addresses to bytes that the records mean. Layout, content, round trip, corruption and end-of-file lemmas.
  \<^item> \<open>Flash_Sectors\<close> (\<open>flash-sectors.ts\<close>): sector tables, the layout descriptor and the erase plans, which are
    shown to be exactly the sectors an image meets.
  \<^item> \<open>Mcu_Gate\<close> (\<open>mcu-gate.ts\<close>, \<open>f405-diagnostic.ts\<close>): which images may be flashed on which chip.
  \<^item> \<open>Usb_Session\<close>, \<open>Dfu_Descriptors\<close>, \<open>Webusb_Dfu\<close> (\<open>webusb-dfu.ts\<close>, \<open>dfu-descriptors.ts\<close>,
    \<open>session.ts\<close>): the USB trace, the requests and every phase of \<open>flash\<close>. The detailed run refines a stream of
    erase and write commands, and the flash memory after a success is the image.
  \<^item> \<open>Command_Gate\<close>: the queue as a step relation with timers and aborts; its insertion is an instance of the
    locale of a stable priority queue.
  \<^item> \<open>Fc_Replies\<close>, \<open>Loop_Replies\<close>, \<open>Cli_Snapshots\<close> (\<open>gyro-notch.ts\<close>, \<open>rpm-filter.ts\<close>,
    \<open>loop-rate.ts\<close>, \<open>loop-rate-setting.ts\<close>, \<open>motor-direction.ts\<close>, \<open>gyro-health.ts\<close>, \<open>board-id.ts\<close>,
    \<open>parse-modes.ts\<close>, \<open>parse-ports.ts\<close>, \<open>storage.ts\<close>, \<open>settings.ts\<close>, \<open>parse-status.ts\<close>): the reply
    parsers. A report is a list of \<open>key: value\<close> or \<open>key=value\<close> lines; the locale of a report line has both
    forms as interpretations, and gives what a report scan finds in what a controller printed.
  \<^item> \<open>Cli_Framing\<close>, \<open>Cli_Client\<close>: lines from chunks, the response collector, and the client as a state with
    events (data, timers, port loss, calls), and the calls built on it.
  \<^item> \<open>Fat32_Root\<close>: the FAT32 reader on an arbitrary card.
  \<^item> \<open>Sd_Read\<close>: the sector transfer with its checksum, which is shown equal to the bitwise one.
  \<^item> \<open>Bench_Controller\<close> (\<open>benchController.ts\<close>, \<open>erpmTelemetry.ts\<close>): motor tests as flights that wait for
    each other, between clicks, page changes and answers.
  \<^item> \<open>Onboard_Recorder\<close> (\<open>onboard.ts\<close>, \<open>sd-card.ts\<close>, \<open>recorder.ts\<close>, \<open>fcCounters.ts\<close>): the recorder
    and card views and the bench recorder as event steps; what locks them, their limits, and the CSV read back.
  \<^item> \<open>Host_Link\<close>, \<open>Fat32_Device\<close>, \<open>Sd_Download\<close>, \<open>Download_Live\<close> (\<open>sdDownload.ts\<close>): the download session
    over the FAT32 reader with the device in place of the card; a saved file is verified, no sector is read before the
    locks are confirmed, and a card that answers is downloaded to the end.
  \<^item> \<open>Page_Calls\<close>, \<open>Page_Settings\<close> (\<open>rpmFilter.ts\<close>, \<open>gyroNotch.ts\<close>, \<open>motorDirection.ts\<close>,
    \<open>loopRateSetting.ts\<close>): the retried call and the read and apply actions of the pages; a change is sent at most once
    and what is shown is what the controller answered after it.
  \<^item> \<open>Sim_Controllers\<close> (\<open>motor-direction-mock.ts\<close>, \<open>rpm-filter-mock.ts\<close>, \<open>loop-rate-mock.ts\<close>): the
    simulated controllers, the locale of a truthful reply they are instances of, and page actions run on them.
  \<^item> \<open>Board_Check\<close> (\<open>boardIdentity.ts\<close>, \<open>firmwareValidation.ts\<close>, \<open>intelHex.ts\<close>, \<open>types.ts\<close>,
    \<open>catalog.ts\<close>): boards, identity and file checks; the exact verdict of the gate, and the file check of the page refines
    the gate of the flasher.
  \<^item> \<open>Flash_Lock\<close> (\<open>useHost.tsx\<close>, \<open>postFlashGate.ts\<close>) and \<open>Flash_Page\<close> (\<open>FlasherPage.tsx\<close>): the lock after a
    flash over overlapping reads, and the page as events; the locale of a confirmation, with each tick box of the page as an
    interpretation, says that a confirmation holds for what it was given for.

  \<^item> \<open>Config_Export\<close> (\<open>parseConfigurationExport\<close> of \<open>storage.ts\<close>): an accepted export holds headers and settings
    that the configurator itself would send, and what was printed from such lines is read back.
  \<^item> \<open>Storage_Panel\<close> (\<open>storageSequence.ts\<close>, \<open>storageActivity.ts\<close>, \<open>StoragePanel.tsx\<close>): the gated sequences with
    their retries and what the panel shows; a save goes out at most once and is called saved only when it was read back.
  \<^item> \<open>Host_Adapter\<close> (\<open>createHost.ts\<close>): overlapping connect attempts, of which only the latest makes a connection live;
    routing, offered ports, and how each call goes through the gate.
  \<^item> \<open>Diagnostic_Console\<close> (\<open>diagnostic-console-session.ts\<close>): the session as events with one point of control for each
    wait; an invariant over all points gives that nothing is written before the banner was seen, and nothing is held when
    it is inactive.

  Loops and bounds. Loops over lists are structural. The wait for a device to become idle has the 100 tries of the source;
  the transfer loops decrease the bytes left. The root directory walk decreases the set of clusters not visited, and a
  file chain its distance to the length the size allows: no fuel is chosen anywhere. Both are also bounded in
  sector reads whatever the card answers (\<open>fat32_listing_ends\<close>). Timers may fire whenever they are armed, so no
  property rests on how long anything takes.

  The retried call has the 30 tries of the source, the storage sequence its 100 retries; calls take their answers from a list of moments, and a call that finds
  none is still waiting, so that no statement about an end hides an assumption that answers come.

  Not modelled: the React rendering of the pages (JSX, styles, what is only shown); the Web Serial and serialport bindings; the
  other simulated controllers and the test scripts; the conversion \<open>formatFwFloat\<close>, which computes with rounded
  logarithms; the firmware in C, which is a program of its own that the configurator knows by its
  replies. The modules of \<open>ui/src\<close> that remain (telemetry views, pollers) are listed
  with their state in the manifest.
\<close>

end
